(* ===== verification/Prelude.thy ===== *)
theory Prelude
  imports Main "HOL-Library.Word" "HOL-Library.Monad_Syntax"
begin

text \<open>
  Types, memory access and generic lemmas shared by the component theories.

  Machine integers are words of the C width. A pointer to bytes is the list of
  the bytes that may be read from it on; a read past the end of that list is
  undefined behaviour in C and the value \<open>None\<close> here, so every function that
  touches memory returns an option and a theorem with result \<open>Some\<close> is also a
  statement that no access is out of bounds. The kernel runs on little-endian
  x86: \<open>ld16\<close>, \<open>ld32\<close>, \<open>st16\<close> and \<open>st32\<close> are its unaligned loads and stores.
\<close>

unbundle bit_operations_syntax

type_synonym u8 = "8 word"
type_synonym u16 = "16 word"
type_synonym u32 = "32 word"
type_synonym u64 = "64 word"
type_synonym bytes = "u8 list"

named_theorems mem_simps \<open>loads from, and stores to, byte lists\<close>
named_theorems wire_simps \<open>reading back the fields of a packet the kernel built\<close>

section \<open>Checked memory access\<close>

definition assert_that :: "bool \<Rightarrow> unit option" where
  "assert_that b = (if b then Some () else None)"

definition ld8 :: "'a list \<Rightarrow> nat \<Rightarrow> 'a option" where
  "ld8 m i = (if i < length m then Some (m ! i) else None)"

definition mk16 :: "u8 \<Rightarrow> u8 \<Rightarrow> u16" where
  "mk16 a b = ucast a OR push_bit 8 (ucast b)"

definition mk32 :: "u8 \<Rightarrow> u8 \<Rightarrow> u8 \<Rightarrow> u8 \<Rightarrow> u32" where
  "mk32 a b c d = ucast a OR push_bit 8 (ucast b) OR push_bit 16 (ucast c) OR push_bit 24 (ucast d)"

definition ld16 :: "bytes \<Rightarrow> nat \<Rightarrow> u16 option" where
  "ld16 m i = (if i + 2 \<le> length m then Some (mk16 (m ! i) (m ! (i + 1))) else None)"

definition ld32 :: "bytes \<Rightarrow> nat \<Rightarrow> u32 option" where
  "ld32 m i = (if i + 4 \<le> length m
     then Some (mk32 (m ! i) (m ! (i + 1)) (m ! (i + 2)) (m ! (i + 3))) else None)"

definition st16 :: "u16 \<Rightarrow> bytes" where
  "st16 w = [ucast w, ucast (drop_bit 8 w)]"

definition st32 :: "u32 \<Rightarrow> bytes" where
  "st32 w = [ucast w, ucast (drop_bit 8 w), ucast (drop_bit 16 w), ucast (drop_bit 24 w)]"

text \<open>
  The bytes \<open>memcpy\<close> reads from a source pointer, and the destination after it
  wrote them at an offset; both fail outside the object. The length is the C
  \<open>int\<close> of the caller: a negative one is a huge \<open>size_t\<close>, never in bounds.
\<close>

definition rdn :: "'a list \<Rightarrow> int \<Rightarrow> 'a list option" where
  "rdn src n = (if 0 \<le> n \<and> n \<le> int (length src) then Some (take (nat n) src) else None)"

definition blit :: "'a list \<Rightarrow> nat \<Rightarrow> 'a list \<Rightarrow> 'a list option" where
  "blit dst off src = (if off + length src \<le> length dst
     then Some (take off dst @ src @ drop (off + length src) dst) else None)"

lemma assert_that_simps [simp]: "assert_that True = Some ()" "assert_that False = None"
  by (simp_all add: assert_that_def)

lemma assert_that_Some [simp]: "assert_that b = Some u \<longleftrightarrow> b"
  by (simp add: assert_that_def)

lemma bind_Some_iff: "(m \<bind> f) = Some y \<longleftrightarrow> (\<exists>x. m = Some x \<and> f x = Some y)"
  by (cases m) auto

lemma length_st16 [simp]: "length (st16 w) = 2"
  by (simp add: st16_def)

lemma length_st32 [simp]: "length (st32 w) = 4"
  by (simp add: st32_def)

lemma ld8_in [mem_simps]: "i < length m \<Longrightarrow> ld8 m i = Some (m ! i)"
  by (simp add: ld8_def)

lemma rdn_int_length [mem_simps]: "rdn xs (int (length xs)) = Some xs"
  by (simp add: rdn_def)

lemma rdn_Some_iff: "rdn xs n = Some ys \<longleftrightarrow> 0 \<le> n \<and> n \<le> int (length xs) \<and> ys = take (nat n) xs"
  by (auto simp: rdn_def)

lemma rdn_length: "rdn xs n = Some ys \<Longrightarrow> int (length ys) = n"
  by (auto simp: rdn_def split: if_splits)

lemma blit_Some_iff:
  "blit dst off src = Some d \<longleftrightarrow>
     off + length src \<le> length dst \<and> d = take off dst @ src @ drop (off + length src) dst"
  by (auto simp: blit_def)

lemma blit_length: "blit dst off src = Some d \<Longrightarrow> length d = length dst"
  by (auto simp: blit_def split: if_splits)

lemma blit_take: "blit dst off src = Some d \<Longrightarrow>
    take (off + length src) d = take off dst @ src"
  by (auto simp: blit_def split: if_splits)

section \<open>Bytes of a word\<close>

lemma mk16_st16: "mk16 (ucast w) (ucast (drop_bit 8 w)) = (w :: u16)"
  by (rule bit_word_eqI) (auto simp: mk16_def bit_simps)

lemma mk32_st32:
  "mk32 (ucast w) (ucast (drop_bit 8 w)) (ucast (drop_bit 16 w)) (ucast (drop_bit 24 w)) = (w :: u32)"
proof (rule bit_word_eqI)
  fix n
  assume "n < LENGTH(32)"
  then consider "n < 8" | "8 \<le> n" "n < 16" | "16 \<le> n" "n < 24" | "24 \<le> n" "n < 32"
    by fastforce
  then show "bit (mk32 (ucast w) (ucast (drop_bit 8 w)) (ucast (drop_bit 16 w))
      (ucast (drop_bit 24 w))) n = bit w n"
    by cases (auto simp: mk32_def bit_simps)
qed

lemma ld16_st16 [mem_simps]: "i = length p \<Longrightarrow> ld16 (p @ st16 w @ r) i = Some w"
  by (simp add: ld16_def st16_def mk16_st16 nth_append)

lemma ld32_st32 [mem_simps]: "i = length p \<Longrightarrow> ld32 (p @ st32 w @ r) i = Some w"
  by (simp add: ld32_def st32_def mk32_st32 nth_append)

lemma ld8_append [mem_simps]:
  "ld8 (p @ q) i = (if i < length p then ld8 p i else ld8 q (i - length p))"
  by (auto simp: ld8_def nth_append)

lemma ld8_skip [wire_simps]: "length xs \<le> i \<Longrightarrow> ld8 (xs @ ys) i = ld8 ys (i - length xs)"
  by (auto simp: ld8_def nth_append)

lemma ld16_skip [wire_simps]: "length xs \<le> i \<Longrightarrow> ld16 (xs @ ys) i = ld16 ys (i - length xs)"
  by (drule le_Suc_ex) (auto simp: ld16_def nth_append)

lemma ld32_skip [wire_simps]: "length xs \<le> i \<Longrightarrow> ld32 (xs @ ys) i = ld32 ys (i - length xs)"
  by (drule le_Suc_ex) (auto simp: ld32_def nth_append)

lemma ld8_Cons [wire_simps]: "0 < i \<Longrightarrow> ld8 (y # ys) i = ld8 ys (i - 1)"
  using ld8_skip [of "[y]" i ys] by simp

lemma ld16_Cons [wire_simps]: "0 < i \<Longrightarrow> ld16 (y # ys) i = ld16 ys (i - 1)"
  using ld16_skip [of "[y]" i ys] by simp

lemma ld32_Cons [wire_simps]: "0 < i \<Longrightarrow> ld32 (y # ys) i = ld32 ys (i - 1)"
  using ld32_skip [of "[y]" i ys] by simp

lemma ld_here [wire_simps]:
  "ld8 (y # ys) 0 = Some y" "ld16 (st16 w @ r) 0 = Some w" "ld32 (st32 v @ r) 0 = Some v"
  "ld16 (st16 w) 0 = Some w" "ld32 (st32 v) 0 = Some v"
  using ld16_st16 [of 0 "[]" w r] ld16_st16 [of 0 "[]" w "[]"]
    ld32_st32 [of 0 "[]" v r] ld32_st32 [of 0 "[]" v "[]"]
  by (simp_all add: ld8_def)

lemma ld16_Some: "i + 2 \<le> length m \<Longrightarrow> ld16 m i = Some (mk16 (m ! i) (m ! (i + 1)))"
  by (simp add: ld16_def)

lemma ld32_Some: "i + 4 \<le> length m \<Longrightarrow>
    ld32 m i = Some (mk32 (m ! i) (m ! (i + 1)) (m ! (i + 2)) (m ! (i + 3)))"
  by (simp add: ld32_def)

lemma ld_ex:
  "i < length m \<Longrightarrow> \<exists>b. ld8 m i = Some b"
  "i + 2 \<le> length m' \<Longrightarrow> \<exists>w. ld16 m' i = Some w"
  "i + 4 \<le> length m' \<Longrightarrow> \<exists>v. ld32 m' i = Some v"
  by (simp_all add: ld8_def ld16_def ld32_def)

lemma unat_ucast_u8_u16 [simp]: "unat (ucast (a :: u8) :: u16) = unat a"
  by transfer (simp add: take_bit_nat_def)

lemma uint_gt_minus_one [simp]: "- 1 < uint x"
  by (rule less_le_trans [OF _ uint_ge_0]) simp

lemma unat_u8_less: "unat (a :: u8) < 256"
  using unsigned_less [of a] by simp

lemma unat_u16_less: "unat (a :: u16) < 65536"
  using unsigned_less [of a] by simp

section \<open>Loops over the slots of a fixed table\<close>

text \<open>
  The static tables of the kernel (ARP cache, pending packets, DNS cache,
  outstanding queries) are arrays scanned from slot 0 on. \<open>upd_first\<close> rewrites the
  first slot that passes a test, as \<open>for (i...) if (test) { ...; return; }\<close> does.
\<close>

primrec upd_first :: "('a \<Rightarrow> bool) \<Rightarrow> ('a \<Rightarrow> 'a) \<Rightarrow> 'a list \<Rightarrow> 'a list option" where
  "upd_first P f [] = None"
| "upd_first P f (x # xs) =
     (if P x then Some (f x # xs) else map_option ((#) x) (upd_first P f xs))"

lemma upd_first_None: "upd_first P f xs = None \<longleftrightarrow> (\<forall>x \<in> set xs. \<not> P x)"
  by (induction xs) auto

lemma upd_first_length [simp]: "upd_first P f xs = Some ys \<Longrightarrow> length ys = length xs"
  by (induction xs arbitrary: ys) (auto split: if_splits)

lemma upd_first_SomeE:
  assumes "upd_first P f xs = Some ys"
  obtains us x vs where "xs = us @ x # vs" "ys = us @ f x # vs" "P x" "\<forall>u \<in> set us. \<not> P u"
proof -
  from assms have "\<exists>us x vs. xs = us @ x # vs \<and> ys = us @ f x # vs \<and> P x \<and> (\<forall>u \<in> set us. \<not> P u)"
  proof (induction xs arbitrary: ys)
    case Nil
    then show ?case by simp
  next
    case (Cons a xs)
    show ?case
    proof (cases "P a")
      case True
      with Cons.prems show ?thesis by (intro exI [of _ "[]"]) auto
    next
      case False
      with Cons.prems obtain zs where zs: "upd_first P f xs = Some zs" "ys = a # zs"
        by auto
      from Cons.IH [OF zs(1)] obtain us x vs where
        "xs = us @ x # vs" "zs = us @ f x # vs" "P x" "\<forall>u \<in> set us. \<not> P u" by blast
      with zs(2) False show ?thesis by (intro exI [of _ "a # us"]) auto
    qed
  qed
  then show ?thesis using that by blast
qed

lemma upd_first_split:
  "P x \<Longrightarrow> \<forall>u \<in> set us. \<not> P u \<Longrightarrow> upd_first P f (us @ x # vs) = Some (us @ f x # vs)"
  by (induction us) auto

lemma upd_first_set: "upd_first P f xs = Some ys \<Longrightarrow> set ys \<subseteq> set xs \<union> f ` {x \<in> set xs. P x}"
  by (elim upd_first_SomeE) auto

text \<open>A \<open>for\<close> loop over a list of indices whose body may fail.\<close>

primrec for_loop :: "('i \<Rightarrow> 's \<Rightarrow> 's option) \<Rightarrow> 'i list \<Rightarrow> 's \<Rightarrow> 's option" where
  "for_loop f [] s = Some s"
| "for_loop f (i # is) s = (f i s \<bind> for_loop f is)"

lemma for_loop_append: "for_loop f (is @ js) s = (for_loop f is s \<bind> for_loop f js)"
  by (induction "is" arbitrary: s) (auto simp: Option.bind_assoc split: Option.bind_splits)

lemma for_loop_invariant:
  assumes "for_loop f is s = Some t" "I s"
    and "\<And>i s t. i \<in> set is \<Longrightarrow> I s \<Longrightarrow> f i s = Some t \<Longrightarrow> I t"
  shows "I t"
  using assms by (induction "is" arbitrary: s) (auto simp: bind_Some_iff)

lemma for_loop_total:
  assumes "I s" and "\<And>i s. i \<in> set is \<Longrightarrow> I s \<Longrightarrow> \<exists>t. f i s = Some t \<and> I t"
  shows "\<exists>t. for_loop f is s = Some t \<and> I t"
  using assms
proof (induction "is" arbitrary: s)
  case Nil
  then show ?case by simp
next
  case (Cons i "is")
  from Cons.prems obtain t where "f i s = Some t" "I t" by fastforce
  with Cons.IH [of t] Cons.prems(2) show ?case by auto
qed

end
