(* ===== verification/Tables.thy ===== *)
theory Tables
  imports Prelude
begin

text \<open>
  The fixed tables of the network code (ARP cache, DNS cache, outstanding DNS
  queries) share one replacement policy and one contract. \<open>slot_store\<close> is the
  policy: rewrite the slot that holds the key, else take the first free slot,
  else overwrite slot 0. The locales state what a client of such a table may rely
  on; \<open>Arp\<close> and \<open>Dns\<close> interpret them on the kernel's own operations.
\<close>

section \<open>The replacement policy\<close>

definition slot_store ::
    "('e \<Rightarrow> bool) \<Rightarrow> ('e \<Rightarrow> 'e) \<Rightarrow> ('e \<Rightarrow> bool) \<Rightarrow> ('e \<Rightarrow> 'e) \<Rightarrow> 'e list \<Rightarrow> 'e list" where
  "slot_store hit upd free new xs =
     (case upd_first hit upd xs of Some ys \<Rightarrow> ys
      | None \<Rightarrow> (case upd_first free new xs of Some ys \<Rightarrow> ys
                | None \<Rightarrow> xs[0 := new (xs ! 0)]))"

lemma length_slot_store [simp]: "length (slot_store hit upd free new xs) = length xs"
  by (auto simp: slot_store_def split: option.splits)

lemma slot_store_cases:
  assumes "xs \<noteq> []"
  obtains (hit) us x vs where "xs = us @ x # vs" "hit x" "\<forall>u \<in> set us. \<not> hit u"
      "slot_store hit upd free new xs = us @ upd x # vs"
  | (free) us x vs where "\<forall>e \<in> set xs. \<not> hit e" "xs = us @ x # vs" "free x"
      "\<forall>u \<in> set us. \<not> free u" "slot_store hit upd free new xs = us @ new x # vs"
  | (evict) x vs where "\<forall>e \<in> set xs. \<not> hit e" "\<forall>e \<in> set xs. \<not> free e" "xs = x # vs"
      "slot_store hit upd free new xs = new x # vs"
proof (cases "upd_first hit upd xs")
  case (Some ys)
  moreover from Some have "slot_store hit upd free new xs = ys" by (simp add: slot_store_def)
  ultimately show ?thesis by (elim upd_first_SomeE) (rule hit, auto)
next
  case None
  note no_hit = this
  then have h: "\<forall>e \<in> set xs. \<not> hit e" by (simp add: upd_first_None)
  show ?thesis
  proof (cases "upd_first free new xs")
    case (Some ys)
    moreover from Some no_hit have "slot_store hit upd free new xs = ys"
      by (simp add: slot_store_def)
    ultimately show ?thesis using h by (elim upd_first_SomeE) (rule free, auto)
  next
    case None
    then have f: "\<forall>e \<in> set xs. \<not> free e" by (simp add: upd_first_None)
    from assms obtain x vs where "xs = x # vs" by (cases xs) auto
    with h f no_hit None show ?thesis by (intro evict) (auto simp: slot_store_def)
  qed
qed

lemma slot_store_all:
  assumes "\<forall>e \<in> set xs. Q e" "\<And>e. Q e \<Longrightarrow> Q (upd e)" "\<And>e. Q e \<Longrightarrow> Q (new e)" "xs \<noteq> []"
  shows "\<forall>e \<in> set (slot_store hit upd free new xs). Q e"
  using assms(1-3)
  by (cases rule: slot_store_cases [OF assms(4), of hit upd free new]) auto

lemma find_append:
  "find P (xs @ ys) = (case find P xs of None \<Rightarrow> find P ys | Some x \<Rightarrow> Some x)"
  by (induction xs) auto

lemma find_None_all: "\<forall>x \<in> set xs. \<not> P x \<Longrightarrow> find P xs = None"
  by (simp add: find_None_iff)

section \<open>The contract of a bounded cache\<close>

text \<open>
  \<open>key\<close> says which keys are meaningful, \<open>ok\<close> which bindings the table can hold. A
  binding just stored is found; every other answer was there before.
\<close>

locale bounded_cache =
  fixes lookup :: "'c \<Rightarrow> 'k \<Rightarrow> 'v option"
    and store :: "'c \<Rightarrow> 'k \<Rightarrow> 'v \<Rightarrow> 'c"
    and invar :: "'c \<Rightarrow> bool"
    and key :: "'k \<Rightarrow> bool"
    and ok :: "'k \<Rightarrow> 'v \<Rightarrow> bool"
  assumes store_invar: "invar c \<Longrightarrow> ok k v \<Longrightarrow> invar (store c k v)"
    and ok_key: "ok k v \<Longrightarrow> key k"
    and store_hit: "invar c \<Longrightarrow> ok k v \<Longrightarrow> lookup (store c k v) k \<noteq> None"
    and store_sound: "invar c \<Longrightarrow> ok k v \<Longrightarrow> key q \<Longrightarrow> lookup (store c k v) q = Some w \<Longrightarrow>
      (q = k \<and> w = v) \<or> lookup c q = Some w"
begin

primrec stores :: "'c \<Rightarrow> ('k \<times> 'v) list \<Rightarrow> 'c" where
  "stores c [] = c"
| "stores c (b # bs) = stores (store c (fst b) (snd b)) bs"

lemma stores_invar:
  "invar c \<Longrightarrow> \<forall>b \<in> set bs. ok (fst b) (snd b) \<Longrightarrow> invar (stores c bs)"
  by (induction bs arbitrary: c) (auto intro: store_invar)

lemma stores_append: "stores c (as @ bs) = stores (stores c as) bs"
  by (induction as arbitrary: c) auto

text \<open>No answer is invented: it was stored, or was there at the start.\<close>

lemma stores_sound:
  assumes "invar c" "\<forall>b \<in> set bs. ok (fst b) (snd b)" "key q" "lookup (stores c bs) q = Some w"
  shows "(q, w) \<in> set bs \<or> lookup c q = Some w"
  using assms
proof (induction bs arbitrary: c)
  case Nil
  then show ?case by simp
next
  case (Cons b bs)
  then have "invar (store c (fst b) (snd b))" by (simp add: store_invar)
  with Cons have "(q, w) \<in> set bs \<or> lookup (store c (fst b) (snd b)) q = Some w" by simp
  with Cons.prems store_sound [of c "fst b" "snd b" q w] show ?case by auto
qed

lemma stores_last_hit:
  assumes "invar c" "\<forall>b \<in> set bs. ok (fst b) (snd b)" "ok k v"
  shows "lookup (stores c (bs @ [(k, v)])) k \<noteq> None"
  using assms store_hit [OF stores_invar [OF assms(1,2)] assms(3)] by (simp add: stores_append)

end

text \<open>A cache that takes the newest binding of a key, as ARP does.\<close>

locale refreshing_cache = bounded_cache +
  assumes store_refresh: "invar c \<Longrightarrow> ok k v \<Longrightarrow> lookup (store c k v) k = Some v"
begin

lemma stores_newest:
  assumes "invar c" "\<forall>b \<in> set bs. ok (fst b) (snd b)" "ok k v"
  shows "lookup (stores c (bs @ [(k, v)])) k = Some v"
  using assms store_refresh [OF stores_invar [OF assms(1,2)] assms(3)] by (simp add: stores_append)

end

text \<open>A cache that keeps the first binding of a key, as the DNS cache does.\<close>

locale first_wins_cache = bounded_cache +
  assumes store_keep: "invar c \<Longrightarrow> ok k v \<Longrightarrow> lookup c k \<noteq> None \<Longrightarrow> store c k v = c"
begin

lemma store_idem: "invar c \<Longrightarrow> ok k v \<Longrightarrow> ok k w \<Longrightarrow> store (store c k v) k w = store c k v"
  by (rule store_keep) (auto intro: store_invar simp: store_hit)

end

end
