(* ===== verification/Endian.thy ===== *)
theory Endian
  imports Prelude
begin

text \<open>
  Byte order and the Internet checksum: \<open>src/endian.h\<close>, and \<open>csum16\<close> of
  \<open>src/tcp.c\<close>, which is the same loop. The main lemma says that a block with its
  checksum stored in a zero 16-bit field sums to zero, which is what the
  receiver of a header tests.
\<close>

section \<open>Byte order\<close>

definition htons :: "u16 \<Rightarrow> u16" where
  "htons x = push_bit 8 x OR drop_bit 8 x"

definition ntohs :: "u16 \<Rightarrow> u16" where
  "ntohs x = htons x"

definition htonl :: "u32 \<Rightarrow> u32" where
  "htonl x = push_bit 24 (x AND 0x000000FF) OR push_bit 8 (x AND 0x0000FF00) OR
     drop_bit 8 (x AND 0x00FF0000) OR drop_bit 24 (x AND 0xFF000000)"

definition ntohl :: "u32 \<Rightarrow> u32" where
  "ntohl x = htonl x"

lemma ntohs_htons [simp]: "ntohs (htons x) = x"
  by (rule bit_word_eqI) (auto simp: ntohs_def htons_def bit_simps)

lemma htons_ntohs [simp]: "htons (ntohs x) = x"
  by (rule bit_word_eqI) (auto simp: ntohs_def htons_def bit_simps)

lemma byte_masks:
  "(0x000000FF :: u32) = mask 8" "(0x0000FF00 :: u32) = push_bit 8 (mask 8)"
  "(0x00FF0000 :: u32) = push_bit 16 (mask 8)" "(0xFF000000 :: u32) = push_bit 24 (mask 8)"
  by (simp_all add: mask_eq_exp_minus_1)

lemma bit_htonl:
  "bit (htonl x) n \<longleftrightarrow> n < 32 \<and> bit x (n mod 8 + 8 * (3 - n div 8))"
proof (cases "n < 32")
  case True
  then consider "n < 8" | "8 \<le> n" "n < 16" | "16 \<le> n" "n < 24" | "24 \<le> n" "n < 32"
    by fastforce
  then show ?thesis
  proof cases
    case 1
    then show ?thesis by (auto simp: htonl_def byte_masks bit_simps add.commute)
  next
    case 2
    then have "n div 8 = 1" "n mod 8 = n - 8" by (auto simp: mod_if div_if)
    with 2 show ?thesis by (auto simp: htonl_def byte_masks bit_simps)
  next
    case 3
    then have "n div 8 = 2" "n mod 8 = n - 16" by (auto simp: mod_if div_if)
    with 3 show ?thesis by (auto simp: htonl_def byte_masks bit_simps)
  next
    case 4
    then have "n div 8 = 3" "n mod 8 = n - 24" by (auto simp: mod_if div_if)
    with 4 show ?thesis by (auto simp: htonl_def byte_masks bit_simps)
  qed
next
  case False
  then show ?thesis by (auto simp: bit_simps dest: bit_imp_le_length)
qed

lemma ntohl_htonl [simp]: "ntohl (htonl x) = x"
proof (rule bit_word_eqI)
  fix n
  assume n: "n < LENGTH(32)"
  let ?m = "n mod 8 + 8 * (3 - n div 8)"
  have le: "n div 8 \<le> 3" using n by simp
  then have "?m < 32" by simp
  moreover have "?m mod 8 = n mod 8" "?m div 8 = 3 - n div 8" by simp_all
  moreover have "n mod 8 + 8 * (3 - (3 - n div 8)) = n" using le by simp
  ultimately show "bit (ntohl (htonl x)) n = bit x n"
    using n by (simp add: ntohl_def bit_htonl)
qed

lemma htonl_ntohl [simp]: "htonl (ntohl x) = x"
  using ntohl_htonl [of x] by (simp add: ntohl_def)

section \<open>The checksum loop\<close>

text \<open>
  \<open>sum += *w++\<close> adds the next two bytes as a little-endian word; the odd last
  byte is added as it is. \<open>fold_carry\<close> is \<open>while (sum >> 16) ...\<close>.
\<close>

fun sum_words :: "u32 \<Rightarrow> bytes \<Rightarrow> u32" where
  "sum_words s (a # b # r) = sum_words (s + ucast (mk16 a b)) r"
| "sum_words s [a] = s + ucast a"
| "sum_words s [] = s"

lemma unat_low16: "unat ((s :: u32) AND 0xFFFF) = unat s mod 65536"
proof -
  have "s AND 0xFFFF = take_bit 16 s" by (simp add: take_bit_eq_mask mask_eq_exp_minus_1)
  then show ?thesis by (simp add: unsigned_take_bit_eq take_bit_nat_def)
qed

lemma unat_high16: "unat (drop_bit 16 (s :: u32)) = unat s div 65536"
  by (simp add: unat_drop_bit_eq drop_bit_nat_def)

lemma unat_fold_step:
  "unat ((s AND 0xFFFF) + drop_bit 16 (s :: u32)) = unat s mod 65536 + unat s div 65536"
proof -
  have "unat s < 2 ^ 32" using unsigned_less [of s] by simp
  then have "unat s mod 65536 + unat s div 65536 < 2 ^ 32" by simp
  then show ?thesis
    by (simp add: unat_word_ariths unat_low16 unat_high16)
qed

lemma fold_step_less:
  assumes "drop_bit 16 s \<noteq> 0"
  shows "unat ((s AND 0xFFFF) + drop_bit 16 (s :: u32)) < unat s"
proof -
  have "unat s div 65536 \<noteq> 0"
    using assms unat_high16 [of s] by (metis unat_eq_0)
  then have "unat s div 65536 + unat s mod 65536 < unat s"
    using div_mult_mod_eq [of "unat s" 65536] by linarith
  then show ?thesis by (simp add: unat_fold_step)
qed

function fold_carry :: "u32 \<Rightarrow> u32" where
  "fold_carry s = (if drop_bit 16 s \<noteq> 0 then fold_carry ((s AND 0xFFFF) + drop_bit 16 s) else s)"
  by pat_completeness auto
termination
  by (relation "measure unat") (auto simp: fold_step_less)

declare fold_carry.simps [simp del]

definition ip_checksum :: "bytes \<Rightarrow> u16" where
  "ip_checksum data = ucast (NOT (fold_carry (sum_words 0 data)))"

text \<open>\<open>csum16\<close> tests \<open>if (len)\<close> where \<open>ip_checksum\<close> tests \<open>len == 1\<close>: equal for \<open>len \<ge> 0\<close>.\<close>

definition csum16 :: "bytes \<Rightarrow> u16" where
  "csum16 data = ucast (NOT (fold_carry (sum_words 0 data)))"

section \<open>What the loop computes\<close>

fun wsum :: "bytes \<Rightarrow> nat" where
  "wsum (a # b # r) = unat a + 256 * unat b + wsum r"
| "wsum [a] = unat a"
| "wsum [] = 0"

lemma unat_mk16: "unat (mk16 a b) = unat a + 256 * unat b"
proof -
  have "(ucast a :: u16) AND push_bit 8 (ucast b) = 0"
    by (rule bit_word_eqI) (auto simp: bit_simps dest: bit_imp_le_length)
  then have "mk16 a b = ucast a + push_bit 8 (ucast b)"
    by (simp add: mk16_def disjunctive_add_eq_or)
  moreover have "unat (push_bit 8 (ucast b) :: u16) = 256 * unat b"
    using unat_u8_less [of b]
    by (simp add: unsigned_push_bit_eq push_bit_nat_def take_bit_nat_def)
  ultimately show ?thesis
    using unat_u8_less [of a] unat_u8_less [of b] by (simp add: unat_word_ariths)
qed

lemma wsum_le: "wsum d \<le> 65535 * ((length d + 1) div 2)"
proof (induction d rule: wsum.induct)
  case (1 a b r)
  then show ?case using unat_u8_less [of a] unat_u8_less [of b] by simp
next
  case (2 a)
  then show ?case using unat_u8_less [of a] by simp
qed simp

lemma unat_sum_words:
  "unat s + wsum d < 2 ^ 32 \<Longrightarrow> unat (sum_words s d) = unat s + wsum d"
proof (induction s d rule: sum_words.induct)
  case (1 s a b r)
  have "unat (ucast (mk16 a b) :: u32) = unat (mk16 a b)"
    using unat_u16_less [of "mk16 a b"] by (simp add: unsigned_ucast_eq take_bit_nat_def)
  with "1.prems" have "unat (s + ucast (mk16 a b)) = unat s + unat (mk16 a b)"
    by (simp add: unat_word_ariths unat_mk16)
  with 1 show ?case by (simp add: unat_mk16)
next
  case (2 s a)
  have "unat (ucast a :: u32) = unat a"
    using unat_u8_less [of a] by (simp add: unsigned_ucast_eq take_bit_nat_def)
  with 2 show ?case by (simp add: unat_word_ariths)
qed simp

lemma fold_carry_less: "unat (fold_carry s) < 65536"
proof (induction s rule: fold_carry.induct)
  case (1 s)
  show ?case
  proof (cases "drop_bit 16 s = 0")
    case True
    then have "unat s div 65536 = 0" using unat_high16 [of s] by simp
    with True show ?thesis by (simp add: fold_carry.simps [of s] div_eq_0_iff)
  next
    case False
    with 1 show ?thesis by (simp add: fold_carry.simps [of s])
  qed
qed

lemma fold_carry_mod: "unat (fold_carry s) mod 65535 = unat s mod 65535"
proof (induction s rule: fold_carry.induct)
  case (1 s)
  have "unat s = unat s mod 65536 + unat s div 65536 + unat s div 65536 * 65535"
    using div_mult_mod_eq [of "unat s" 65536] by linarith
  then have "(unat s mod 65536 + unat s div 65536) mod 65535 = unat s mod 65535"
    by (metis mod_mult_self1)
  with 1 show ?case by (simp add: fold_carry.simps [of s] unat_fold_step)
qed

lemma fold_carry_eq_0: "fold_carry s = 0 \<longleftrightarrow> s = 0"
proof (induction s rule: fold_carry.induct)
  case (1 s)
  show ?case
  proof (cases "drop_bit 16 s = 0")
    case True
    then show ?thesis by (simp add: fold_carry.simps [of s])
  next
    case False
    then have "unat s div 65536 \<noteq> 0" using unat_high16 [of s] by (metis unat_eq_0)
    then have "(s AND 0xFFFF) + drop_bit 16 s \<noteq> 0"
      using unat_fold_step [of s] by (metis add_is_0 unat_eq_0 unsigned_0)
    moreover have "s \<noteq> 0" using False by auto
    ultimately show ?thesis using 1 False by (simp add: fold_carry.simps [of s])
  qed
qed

lemma unat_checksum:
  "unat (ucast (NOT (fold_carry s)) :: u16) = 65535 - unat (fold_carry s)"
proof -
  let ?f = "fold_carry s"
  have f: "unat ?f < 65536" by (rule fold_carry_less)
  have "uint (NOT ?f) = 2 ^ 32 - 1 - uint ?f"
    using uint_lt2p [of ?f]
    by (simp add: unsigned_not_eq take_bit_not_eq_mask_diff mask_eq_exp_minus_1 take_bit_int_eq_self)
  then have "int (unat (NOT ?f)) = 4294967295 - int (unat ?f)" by simp
  then have "unat (NOT ?f) = (65535 - unat ?f) + 65535 * 65536" using f by linarith
  then have "unat (NOT ?f) mod 65536 = (65535 - unat ?f) mod 65536" by (simp only: mod_mult_self1)
  then have "unat (NOT ?f) mod 65536 = 65535 - unat ?f" by simp
  then show ?thesis by (simp add: unsigned_ucast_eq take_bit_nat_def)
qed

lemma unat_ip_checksum:
  assumes "length d \<le> 131074"
  shows "\<exists>s. unat s = wsum d \<and> unat (ip_checksum d) = 65535 - unat (fold_carry s)"
proof -
  have "wsum d \<le> 65535 * ((length d + 1) div 2)" by (rule wsum_le)
  also have "\<dots> \<le> 65535 * 65537"
    using assms by (intro mult_le_mono2) linarith
  also have "\<dots> < 2 ^ 32" by simp
  finally have "unat (sum_words 0 d) = wsum d" by (simp add: unat_sum_words)
  then show ?thesis unfolding ip_checksum_def unat_checksum by blast
qed

lemma wsum_append: "even (length p) \<Longrightarrow> wsum (p @ q) = wsum p + wsum q"
  by (induction p rule: wsum.induct) auto

lemma wsum_st16: "wsum (st16 w) = unat w"
  by (simp add: st16_def mk16_st16 flip: unat_mk16)

text \<open>
  The receiver's test: with the checksum stored in an even-aligned field that
  was zero while it was computed, the whole block sums to \<open>0xFFFF\<close>.
\<close>

lemma checksum_verifies:
  assumes "even (length p)" "length (p @ st16 0 @ q) \<le> 131074" "0 < wsum (p @ st16 0 @ q)"
  shows "ip_checksum (p @ st16 (ip_checksum (p @ st16 0 @ q)) @ q) = 0"
proof -
  let ?d = "p @ st16 0 @ q" and ?d' = "p @ st16 (ip_checksum (p @ st16 0 @ q)) @ q"
  obtain s where s: "unat s = wsum ?d" "unat (ip_checksum ?d) = 65535 - unat (fold_carry s)"
    using unat_ip_checksum assms(2) by blast
  have "length ?d' \<le> 131074" using assms(2) by simp
  then obtain t where t: "unat t = wsum ?d'" "unat (ip_checksum ?d') = 65535 - unat (fold_carry t)"
    using unat_ip_checksum by blast
  have sum: "unat t = unat s + (65535 - unat (fold_carry s))"
    using assms(1) s t by (simp add: wsum_append wsum_st16)
  have le: "unat (fold_carry s) \<le> 65535" using fold_carry_less [of s] by simp
  have "unat (fold_carry t) mod 65535 = (unat s mod 65535 + (65535 - unat (fold_carry s))) mod 65535"
    by (simp add: fold_carry_mod sum mod_simps)
  also have "\<dots> = (unat (fold_carry s) mod 65535 + (65535 - unat (fold_carry s))) mod 65535"
    by (simp add: fold_carry_mod)
  also have "\<dots> = (unat (fold_carry s) + (65535 - unat (fold_carry s))) mod 65535"
    by (simp add: mod_simps)
  finally have "unat (fold_carry t) mod 65535 = 0" using le by simp
  moreover have "unat (fold_carry t) \<noteq> 0"
    using sum s assms(3) fold_carry_eq_0 [of t] by (metis add_is_0 neq0_conv unat_eq_0 unsigned_0)
  moreover have "unat (fold_carry t) \<le> 65535" using fold_carry_less [of t] by simp
  ultimately have "unat (fold_carry t) = 65535"
    by (metis le_neq_implies_less mod_less)
  with t have "unat (ip_checksum ?d') = 0" by simp
  then show ?thesis by (simp add: unat_eq_0)
qed

lemma csum16_ip_checksum: "csum16 = ip_checksum"
  by (rule ext) (simp add: csum16_def ip_checksum_def)

section \<open>Properties\<close>

text \<open>A block whose checksum was computed with its 16-bit field zero and then
  stored there passes the receiver's test: \<open>ip_checksum\<close> of the whole is 0.\<close>
lemma ip_checksum_receiver_test:
  assumes "even (length p)" "length (p @ st16 0 @ q) \<le> 131074" "0 < wsum (p @ st16 0 @ q)"
  shows "ip_checksum (p @ st16 (ip_checksum (p @ st16 0 @ q)) @ q) = 0"
  by (rule checksum_verifies) (rule assms)+

lemma ip_checksum_receiver_test_witness:
  "ip_checksum ([0x45, 0] @ st16 (ip_checksum ([0x45, 0] @ st16 0 @ [7])) @ [7]) = 0"
  using ip_checksum_receiver_test [of "[0x45, 0]" "[7]"] by (simp add: wsum_append)

text \<open>Host and network order convert into each other without loss, for both widths and both ways.\<close>
lemma byte_order_roundtrip:
  "ntohs (htons x) = x \<and> htons (ntohs x) = x \<and> ntohl (htonl y) = y \<and> htonl (ntohl y) = y"
  by simp

end
