(* ===== verification/Arp.thy ===== *)
theory Arp
  imports Tables Endian
begin

text \<open>
  The interface state and the ARP cache of \<open>src/net.c\<close> and \<open>src/net.h\<close>. An
  address 0 marks a free cache entry. The main lemma gives \<open>arp_lookup\<close> after
  \<open>arp_store\<close> for every queried address.
\<close>

section \<open>State\<close>

record net_if =
  nif_mac :: bytes
  nif_ip :: u32
  nif_gw_ip :: u32
  nif_netmask :: u32

record arp_cache_entry =
  ac_ip :: u32
  ac_mac :: bytes

section \<open>Operations\<close>

definition arp_lookup :: "arp_cache_entry list \<Rightarrow> u32 \<Rightarrow> bytes option" where
  "arp_lookup cache ip =
     (case find (\<lambda>e. ac_ip e = ip) cache of Some e \<Rightarrow> Some (ac_mac e) | None \<Rightarrow> None)"

definition arp_store :: "arp_cache_entry list \<Rightarrow> u32 \<Rightarrow> bytes \<Rightarrow> arp_cache_entry list" where
  "arp_store cache ip mac =
     slot_store (\<lambda>e. ac_ip e = ip) (\<lambda>e. e\<lparr>ac_mac := mac\<rparr>)
       (\<lambda>e. ac_ip e = 0) (\<lambda>e. e\<lparr>ac_ip := ip, ac_mac := mac\<rparr>) cache"

section \<open>Invariant and functional behaviour\<close>

text \<open>Eight entries with six-byte addresses; no address is held twice.\<close>

definition arp_ok :: "arp_cache_entry list \<Rightarrow> bool" where
  "arp_ok cache \<longleftrightarrow> length cache = 8 \<and> (\<forall>e \<in> set cache. length (ac_mac e) = 6) \<and>
     distinct (filter (\<lambda>a. a \<noteq> 0) (map ac_ip cache))"

definition arp_full_for :: "arp_cache_entry list \<Rightarrow> u32 \<Rightarrow> bool" where
  "arp_full_for cache ip \<longleftrightarrow> (\<forall>e \<in> set cache. ac_ip e \<noteq> ip \<and> ac_ip e \<noteq> 0)"

lemma arp_ok_nonempty: "arp_ok cache \<Longrightarrow> cache \<noteq> []"
  by (auto simp: arp_ok_def)

lemma arp_store_fold:
  "slot_store (\<lambda>e. ac_ip e = ip) (\<lambda>e. e\<lparr>ac_mac := mac\<rparr>)
     (\<lambda>e. ac_ip e = 0) (\<lambda>e. e\<lparr>ac_ip := ip, ac_mac := mac\<rparr>) cache = arp_store cache ip mac"
  by (simp add: arp_store_def)

lemmas arp_store_cases =
  slot_store_cases [where hit = "\<lambda>e. ac_ip e = ip" and upd = "\<lambda>e. e\<lparr>ac_mac := mac\<rparr>"
    and free = "\<lambda>e. ac_ip e = 0" and new = "\<lambda>e. e\<lparr>ac_ip := ip, ac_mac := mac\<rparr>"
    and xs = "cache :: arp_cache_entry list", unfolded arp_store_fold] for ip mac cache

lemma arp_store_ok:
  assumes "arp_ok cache" "length mac = 6"
  shows "arp_ok (arp_store cache ip mac)"
proof -
  have ne: "cache \<noteq> []" using assms(1) by (rule arp_ok_nonempty)
  have "\<forall>e \<in> set (arp_store cache ip mac). length (ac_mac e) = 6"
    unfolding arp_store_def
    by (rule slot_store_all) (use assms ne in \<open>auto simp: arp_ok_def\<close>)
  moreover have "distinct (filter (\<lambda>a. a \<noteq> 0) (map ac_ip (arp_store cache ip mac)))"
    using assms(1) by (cases rule: arp_store_cases [OF ne, of ip mac]) (auto simp: arp_ok_def)
  moreover have "length (arp_store cache ip mac) = 8"
    using assms(1) by (simp add: arp_ok_def arp_store_def)
  ultimately show ?thesis by (simp add: arp_ok_def)
qed

lemma arp_lookup_append:
  "arp_lookup (us @ e # vs) q =
     (if \<exists>u \<in> set us. ac_ip u = q then arp_lookup us q
      else if ac_ip e = q then Some (ac_mac e) else arp_lookup vs q)"
  by (induction us) (auto simp: arp_lookup_def)

lemma arp_lookup_store_all:
  assumes "arp_ok cache" "q \<noteq> 0"
  shows "arp_lookup (arp_store cache ip mac) q =
     (if q = ip then Some mac
      else if arp_full_for cache ip \<and> ac_ip (cache ! 0) = q then None
      else arp_lookup cache q)"
proof -
  have ne: "cache \<noteq> []" using assms(1) by (rule arp_ok_nonempty)
  show ?thesis
  proof (cases rule: arp_store_cases [OF ne, of ip mac, case_names hit free evict])
    case (hit us x vs)
    then have "\<not> arp_full_for cache ip" by (auto simp: arp_full_for_def)
    with hit show ?thesis by (auto simp: arp_lookup_append)
  next
    case (free us x vs)
    then have "\<not> arp_full_for cache ip" by (auto simp: arp_full_for_def)
    with free assms(2) show ?thesis by (auto simp: arp_lookup_append)
  next
    case (evict x vs)
    then have full: "arp_full_for cache ip" by (auto simp: arp_full_for_def)
    have "ac_ip x \<notin> ac_ip ` set vs"
      using assms(1) evict by (auto simp: arp_ok_def)
    then have "arp_lookup vs (ac_ip x) = None"
      by (auto simp: arp_lookup_def find_None_iff image_iff split: option.splits)
    with full evict show ?thesis
      using arp_lookup_append [of "[]"] by auto
  qed
qed

interpretation arp: refreshing_cache arp_lookup arp_store arp_ok "\<lambda>ip. ip \<noteq> 0"
    "\<lambda>ip mac. ip \<noteq> 0 \<and> length mac = 6"
  by unfold_locales (auto simp: arp_store_ok arp_lookup_store_all split: if_splits)

section \<open>Properties\<close>

text \<open>C21: After \<open>arp_store\<close> of a binding, \<open>arp_lookup\<close> answers the new hardware address
  for that address, forgets the entry of slot 0 if the table was full, and answers
  every other address as before.\<close>
lemma arp_lookup_after_store:
  assumes "arp_ok cache" "q \<noteq> 0"
  shows "arp_lookup (arp_store cache ip mac) q =
     (if q = ip then Some mac
      else if arp_full_for cache ip \<and> ac_ip (cache ! 0) = q then None
      else arp_lookup cache q)"
  by (rule arp_lookup_store_all) (rule assms)+

lemma arp_lookup_after_store_witness:
  "arp_lookup (arp_store (replicate 8 \<lparr>ac_ip = 0, ac_mac = replicate 6 0\<rparr>) 7 [1, 2, 3, 4, 5, 6]) 7 =
     Some [1, 2, 3, 4, 5, 6]"
  using arp_lookup_after_store [of "replicate 8 \<lparr>ac_ip = 0, ac_mac = replicate 6 0\<rparr>" 7 7]
  by (simp add: arp_ok_def)

text \<open>Whatever sequence of bindings was stored, every answer of the ARP cache is a
  binding that was stored (or was there at the start), and the last one stored is found.\<close>
lemma arp_answers_sound:
  assumes "arp_ok cache" "\<forall>b \<in> set bs. fst b \<noteq> 0 \<and> length (snd b) = 6" "q \<noteq> 0"
    and "arp_lookup (arp.stores cache bs) q = Some m"
  shows "((q, m) \<in> set bs \<or> arp_lookup cache q = Some m) \<and>
    (bs \<noteq> [] \<longrightarrow> arp_lookup (arp.stores cache bs) (fst (last bs)) = Some (snd (last bs)))"
proof
  show "(q, m) \<in> set bs \<or> arp_lookup cache q = Some m"
    using arp.stores_sound [of cache bs q m] assms by simp
  show "bs \<noteq> [] \<longrightarrow> arp_lookup (arp.stores cache bs) (fst (last bs)) = Some (snd (last bs))"
  proof
    assume "bs \<noteq> []"
    moreover have "\<forall>b \<in> set (butlast bs). fst b \<noteq> 0 \<and> length (snd b) = 6"
      using assms(2) by (auto dest: in_set_butlastD)
    ultimately show "arp_lookup (arp.stores cache bs) (fst (last bs)) = Some (snd (last bs))"
      using arp.stores_newest [of cache "butlast bs" "fst (last bs)" "snd (last bs)"] assms(1,2)
      by simp
  qed
qed

lemma arp_answers_sound_witness:
  "arp_lookup (arp.stores (replicate 8 \<lparr>ac_ip = 0, ac_mac = replicate 6 0\<rparr>)
     [(7, [1, 2, 3, 4, 5, 6])]) 7 = Some [1, 2, 3, 4, 5, 6]"
proof -
  let ?c = "replicate 8 \<lparr>ac_ip = 0, ac_mac = replicate 6 0 :: u8 list\<rparr>"
  have "arp_lookup (arp.stores ?c [(7, [1, 2, 3, 4, 5, 6])]) 7 = Some [1, 2, 3, 4, 5, 6]"
    by (simp add: arp_lookup_def arp_store_def slot_store_def eval_nat_numeral)
  with arp_answers_sound [of ?c "[(7, [1, 2, 3, 4, 5, 6])]" 7] show ?thesis
    by (simp add: arp_ok_def)
qed

end
