(* ===== verification/Ipv4.thy ===== *)
theory Ipv4
  imports Arp
begin

text \<open>
  The transmit half of \<open>src/net.c\<close>: interface set-up, ARP requests, the packets
  waiting for an address, and the Ethernet and IPv4 framing of \<open>net_send_ip\<close> and
  the two helpers built on it. A call of \<open>nic_tx\<close> is an entry of \<open>nic_log\<close>: the
  driver does not change any state of this file (the driver theories say what it
  does with the bytes). \<open>printf\<close> diagnostics are left out.
\<close>

section \<open>State\<close>

record pending_pkt =
  pp_dst_ip :: u32
  pp_proto :: u8
  pp_payload_len :: int
  pp_payload :: bytes

record net =
  g_netif :: net_if
  arp_cache :: "arp_cache_entry list"
  pending :: "pending_pkt list"
  nic_log :: "bytes list"

text \<open>The static objects before \<open>net_init\<close> ran.\<close>

definition net_boot :: net where
  "net_boot = \<lparr>g_netif = \<lparr>nif_mac = replicate 6 0, nif_ip = 0, nif_gw_ip = 0, nif_netmask = 0\<rparr>,
     arp_cache = replicate 8 \<lparr>ac_ip = 0, ac_mac = replicate 6 0\<rparr>,
     pending = replicate 8 \<lparr>pp_dst_ip = 0, pp_proto = 0, pp_payload_len = 0, pp_payload = replicate 1500 0\<rparr>,
     nic_log = []\<rparr>"

definition ETH_TYPE_ARP :: u16 where "ETH_TYPE_ARP = 0x0806"
definition ETH_TYPE_IP :: u16 where "ETH_TYPE_IP = 0x0800"
definition IP_PROTO_UDP :: u8 where "IP_PROTO_UDP = 17"
definition IP_PROTO_TCP :: u8 where "IP_PROTO_TCP = 6"

definition bcast :: bytes where
  "bcast = [0xff, 0xff, 0xff, 0xff, 0xff, 0xff]"

definition nic_tx :: "bytes \<Rightarrow> net \<Rightarrow> net" where
  "nic_tx frame s = s\<lparr>nic_log := nic_log s @ [frame]\<rparr>"

section \<open>Set-up\<close>

text \<open>\<open>net_init\<close> resets the cache addresses only: old hardware addresses and pending packets stay.\<close>

definition net_init :: "bytes \<Rightarrow> net \<Rightarrow> net" where
  "net_init mac s = s\<lparr>g_netif := \<lparr>nif_mac = mac, nif_ip = 0, nif_gw_ip = 0, nif_netmask = 0\<rparr>,
     arp_cache := map (\<lambda>e. e\<lparr>ac_ip := 0\<rparr>) (arp_cache s)\<rparr>"

definition net_set_ipv4 :: "u32 \<Rightarrow> u32 \<Rightarrow> u32 \<Rightarrow> net \<Rightarrow> net" where
  "net_set_ipv4 ip netmask gw s =
     s\<lparr>g_netif := (g_netif s)\<lparr>nif_ip := ip, nif_netmask := netmask, nif_gw_ip := gw\<rparr>\<rparr>"

definition net_get_ip :: "net \<Rightarrow> u32" where
  "net_get_ip s = nif_ip (g_netif s)"

section \<open>Frames\<close>

definition eth_hdr :: "bytes \<Rightarrow> bytes \<Rightarrow> u16 \<Rightarrow> bytes" where
  "eth_hdr dst src type = dst @ src @ st16 (htons type)"

definition arp_ipv4 :: "u16 \<Rightarrow> bytes \<Rightarrow> u32 \<Rightarrow> bytes \<Rightarrow> u32 \<Rightarrow> bytes" where
  "arp_ipv4 oper sha spa tha tpa =
     st16 (htons 1) @ st16 (htons 0x0800) @ [6, 4] @ st16 (htons oper) @
     sha @ st32 (htonl spa) @ tha @ st32 (htonl tpa)"

definition send_arp_request :: "u32 \<Rightarrow> net \<Rightarrow> net" where
  "send_arp_request target_ip s =
     nic_tx (eth_hdr bcast (nif_mac (g_netif s)) ETH_TYPE_ARP @
       arp_ipv4 1 (nif_mac (g_netif s)) (nif_ip (g_netif s)) (replicate 6 0) target_ip) s"

definition ip_hdr :: "u16 \<Rightarrow> u8 \<Rightarrow> u16 \<Rightarrow> u32 \<Rightarrow> u32 \<Rightarrow> bytes" where
  "ip_hdr tot_len proto chksum src dst =
     [0x45, 0] @ st16 (htons tot_len) @ st16 (htons 1) @ st16 0 @ [64, proto] @
     st16 chksum @ st32 (htonl src) @ st32 (htonl dst)"

definition ip_packet :: "net_if \<Rightarrow> u32 \<Rightarrow> u8 \<Rightarrow> bytes \<Rightarrow> bytes" where
  "ip_packet nif dst_ip proto payload =
     (let tot_len = word_of_nat (20 + length payload);
          chk = ip_checksum (ip_hdr tot_len proto 0 (nif_ip nif) dst_ip)
      in ip_hdr tot_len proto chk (nif_ip nif) dst_ip @ payload)"

section \<open>Sending\<close>

definition next_hop :: "net_if \<Rightarrow> u32 \<Rightarrow> u32" where
  "next_hop nif dst_ip =
     (if (dst_ip XOR nif_ip nif) AND nif_netmask nif \<noteq> 0 then nif_gw_ip nif else dst_ip)"

text \<open>
  The first free slot takes the packet, cut to the 1500 bytes of the slot; with no
  free slot the packet is dropped. The slot keeps the bytes behind the payload.
\<close>

definition enqueue_pending ::
    "u32 \<Rightarrow> u8 \<Rightarrow> bytes \<Rightarrow> int \<Rightarrow> pending_pkt list \<Rightarrow> pending_pkt list option" where
  "enqueue_pending dst_ip proto payload payload_len ps =
     (if \<forall>p \<in> set ps. pp_dst_ip p \<noteq> 0 then Some ps
      else do {
        let n = (if payload_len > 1500 then 1500 else payload_len);
        d \<leftarrow> rdn payload n;
        upd_first (\<lambda>p. pp_dst_ip p = 0)
          (\<lambda>p. p\<lparr>pp_dst_ip := dst_ip, pp_proto := proto, pp_payload_len := n,
             pp_payload := d @ drop (length d) (pp_payload p)\<rparr>) ps
      })"

definition net_send_ip :: "u32 \<Rightarrow> u8 \<Rightarrow> bytes \<Rightarrow> int \<Rightarrow> net \<Rightarrow> net option" where
  "net_send_ip dst_ip proto payload payload_len s =
     (let nh = next_hop (g_netif s) dst_ip in
      case arp_lookup (arp_cache s) nh of
        None \<Rightarrow> do {
          ps \<leftarrow> enqueue_pending dst_ip proto payload payload_len (pending s);
          Some (send_arp_request nh (s\<lparr>pending := ps\<rparr>))
        }
      | Some dst_mac \<Rightarrow> do {
          d \<leftarrow> rdn payload payload_len;
          assert_that (34 + payload_len \<le> 1514);
          Some (nic_tx (eth_hdr dst_mac (nif_mac (g_netif s)) ETH_TYPE_IP @
            ip_packet (g_netif s) dst_ip proto d) s)
        })"

definition flush_slot :: "u32 \<Rightarrow> nat \<Rightarrow> net \<Rightarrow> net option" where
  "flush_slot ip i s =
     (let p = pending s ! i in
      if pp_dst_ip p = ip then do {
        s' \<leftarrow> net_send_ip (pp_dst_ip p) (pp_proto p) (pp_payload p) (pp_payload_len p) s;
        Some (s'\<lparr>pending := (pending s')
          [i := (pending s' ! i)\<lparr>pp_dst_ip := 0, pp_payload_len := 0\<rparr>]\<rparr>)
      }
      else Some s)"

definition flush_pending_for_ip :: "u32 \<Rightarrow> net \<Rightarrow> net option" where
  "flush_pending_for_ip ip s = for_loop (flush_slot ip) [0..<8] s"

text \<open>\<open>seg\<close> is 8 + 1472 bytes; the UDP checksum is left 0.\<close>

definition net_send_udp_ipv4 :: "u32 \<Rightarrow> u16 \<Rightarrow> u16 \<Rightarrow> bytes \<Rightarrow> net \<Rightarrow> net option" where
  "net_send_udp_ipv4 dst_ip dst_port src_port payload s = do {
     assert_that (length payload \<le> 1472);
     let seg = st16 (htons src_port) @ st16 (htons dst_port) @
       st16 (htons (word_of_nat (8 + length payload))) @ st16 0 @ payload;
     net_send_ip dst_ip IP_PROTO_UDP seg (8 + int (length payload)) s
   }"

definition net_send_tcp_syn :: "u32 \<Rightarrow> u16 \<Rightarrow> u16 \<Rightarrow> u32 \<Rightarrow> net \<Rightarrow> net option" where
  "net_send_tcp_syn dst_ip dst_port src_port seq s =
     net_send_ip dst_ip IP_PROTO_TCP
       (st16 (htons src_port) @ st16 (htons dst_port) @ st32 (htonl seq) @ st32 0 @
        [push_bit 4 5, 0x02] @ st16 (htons 65535) @ st16 0 @ st16 0) 20 s"

section \<open>Invariant\<close>

definition pending_ok :: "pending_pkt list \<Rightarrow> bool" where
  "pending_ok ps \<longleftrightarrow> length ps = 8 \<and>
     (\<forall>p \<in> set ps. length (pp_payload p) = 1500 \<and> 0 \<le> pp_payload_len p \<and> pp_payload_len p \<le> 1480)"

text \<open>Every frame handed to the driver is a complete header and fits the transmit buffer.\<close>

definition frame_ok :: "bytes \<Rightarrow> bool" where
  "frame_ok f \<longleftrightarrow> 34 \<le> length f \<and> length f \<le> 1514"

definition net_ok :: "net \<Rightarrow> bool" where
  "net_ok s \<longleftrightarrow> length (nif_mac (g_netif s)) = 6 \<and> arp_ok (arp_cache s) \<and> pending_ok (pending s) \<and>
     (\<forall>f \<in> set (nic_log s). frame_ok f)"

lemma net_ok_boot [simp]: "net_ok net_boot"
  by (auto simp: net_ok_def net_boot_def arp_ok_def pending_ok_def frame_ok_def)

lemma net_init_ok: "net_ok s \<Longrightarrow> length mac = 6 \<Longrightarrow> net_ok (net_init mac s)"
  by (auto simp: net_ok_def net_init_def arp_ok_def comp_def)

lemma net_set_ipv4_ok [simp]: "net_ok (net_set_ipv4 ip msk gw s) = net_ok s"
  by (simp add: net_ok_def net_set_ipv4_def)

lemma nic_tx_fields [simp]:
  "g_netif (nic_tx f s) = g_netif s" "arp_cache (nic_tx f s) = arp_cache s"
  "pending (nic_tx f s) = pending s" "nic_log (nic_tx f s) = nic_log s @ [f]"
  by (simp_all add: nic_tx_def)

lemma send_arp_request_fields [simp]:
  "g_netif (send_arp_request a s) = g_netif s" "arp_cache (send_arp_request a s) = arp_cache s"
  "pending (send_arp_request a s) = pending s"
  by (simp_all add: send_arp_request_def)

lemma length_ip_hdr [simp]: "length (ip_hdr n pr c src dst) = 20"
  by (simp add: ip_hdr_def)

lemma length_ip_packet [simp]: "length (ip_packet nif dst pr d) = 20 + length d"
  by (simp add: ip_packet_def Let_def)

lemma enqueue_pending_ok:
  assumes "pending_ok ps" "0 \<le> n" "n \<le> 1480" "n \<le> int (length payload)"
  shows "\<exists>qs. enqueue_pending dst pr payload n ps = Some qs \<and> pending_ok qs"
proof (cases "\<forall>p \<in> set ps. pp_dst_ip p \<noteq> 0")
  case True
  then show ?thesis using assms by (simp add: enqueue_pending_def)
next
  case False
  let ?f = "\<lambda>p. p\<lparr>pp_dst_ip := dst, pp_proto := pr, pp_payload_len := n,
      pp_payload := take (nat n) payload @ drop (length (take (nat n) payload)) (pp_payload p)\<rparr>"
  from False obtain qs where qs: "upd_first (\<lambda>p. pp_dst_ip p = 0) ?f ps = Some qs"
    using upd_first_None [of "\<lambda>p. pp_dst_ip p = 0" ?f ps] by fastforce
  have "enqueue_pending dst pr payload n ps = Some qs"
    using False assms qs by (simp add: enqueue_pending_def rdn_def) blast
  moreover have "pending_ok qs"
    using upd_first_set [OF qs] upd_first_length [OF qs] assms
    by (auto simp: pending_ok_def subset_iff)
  ultimately show ?thesis by blast
qed

lemma arp_lookup_length: "arp_ok c \<Longrightarrow> arp_lookup c ip = Some m \<Longrightarrow> length m = 6"
  by (auto simp: arp_ok_def arp_lookup_def find_Some_iff split: option.splits)

lemma send_arp_request_ok: "net_ok s \<Longrightarrow> net_ok (send_arp_request ip s)"
  by (auto simp: net_ok_def send_arp_request_def frame_ok_def eth_hdr_def arp_ipv4_def bcast_def)

lemma net_send_ip_ok:
  assumes "net_ok s" "0 \<le> n" "n \<le> 1480" "n \<le> int (length payload)"
  shows "\<exists>t. net_send_ip dst pr payload n s = Some t \<and> net_ok t"
proof (cases "arp_lookup (arp_cache s) (next_hop (g_netif s) dst)")
  case None
  obtain qs where qs: "enqueue_pending dst pr payload n (pending s) = Some qs" "pending_ok qs"
    using enqueue_pending_ok [OF _ assms(2-4), of "pending s" dst pr] assms(1)
    by (auto simp: net_ok_def)
  then have "net_ok (s\<lparr>pending := qs\<rparr>)" using assms(1) by (simp add: net_ok_def)
  from send_arp_request_ok [OF this] None qs show ?thesis by (simp add: net_send_ip_def Let_def)
next
  case (Some m)
  then have "length m = 6" using assms(1) arp_lookup_length by (auto simp: net_ok_def)
  with Some assms show ?thesis by (simp add: net_send_ip_def rdn_def net_ok_def frame_ok_def eth_hdr_def)
qed

text \<open>What \<open>net_send_ip\<close> leaves alone.\<close>

lemma net_send_ip_frame:
  assumes "net_send_ip dst pr payload n s = Some t"
  shows "g_netif t = g_netif s" "arp_cache t = arp_cache s"
  using assms by (auto simp: net_send_ip_def Let_def bind_Some_iff split: option.splits)

text \<open>With the next hop known, one frame goes out and nothing else changes.\<close>

lemma net_send_ip_known:
  assumes "arp_lookup (arp_cache s) (next_hop (g_netif s) dst) = Some m"
    and "int (length d) = n" "n \<le> 1480"
  shows "net_send_ip dst pr (d @ r) n s =
    Some (nic_tx (eth_hdr m (nif_mac (g_netif s)) ETH_TYPE_IP @ ip_packet (g_netif s) dst pr d) s)"
  using assms by (auto simp: net_send_ip_def rdn_def)

text \<open>The IPv4 header the kernel emits passes the receiver's checksum test.\<close>

lemma ip_packet_checksum:
  "ip_checksum (take 20 (ip_packet nif dst pr payload)) = 0"
proof -
  let ?tl = "word_of_nat (20 + length payload) :: u16"
  let ?p = "[0x45, 0] @ st16 (htons ?tl) @ st16 (htons 1) @ st16 0 @ [64, pr]"
  let ?q = "st32 (htonl (nif_ip nif)) @ st32 (htonl dst)"
  have hdr: "ip_hdr ?tl pr c (nif_ip nif) dst = ?p @ st16 c @ ?q" for c
    by (simp add: ip_hdr_def)
  have "0 < wsum (?p @ st16 0 @ ?q)" by simp
  then have "ip_checksum (?p @ st16 (ip_checksum (?p @ st16 0 @ ?q)) @ ?q) = 0"
    by (intro checksum_verifies) simp_all
  then show ?thesis by (simp only: ip_packet_def Let_def hdr) (simp add: hdr [symmetric])
qed

section \<open>Flushing pending packets\<close>

definition cleared :: "pending_pkt \<Rightarrow> pending_pkt" where
  "cleared p = p\<lparr>pp_dst_ip := 0, pp_payload_len := 0\<rparr>"

definition pending_frame :: "net \<Rightarrow> bytes \<Rightarrow> pending_pkt \<Rightarrow> bytes" where
  "pending_frame s m p = eth_hdr m (nif_mac (g_netif s)) ETH_TYPE_IP @
     ip_packet (g_netif s) (pp_dst_ip p) (pp_proto p) (take (nat (pp_payload_len p)) (pp_payload p))"

lemma flush_slot_other [simp]: "pp_dst_ip (pending s ! i) \<noteq> ip \<Longrightarrow> flush_slot ip i s = Some s"
  by (simp add: flush_slot_def)

lemma flush_slot_known:
  assumes "arp_lookup (arp_cache s) (next_hop (g_netif s) ip) = Some m"
    and "pending_ok (pending s)" "i < 8" "pp_dst_ip (pending s ! i) = ip"
  shows "flush_slot ip i s = Some (s\<lparr>nic_log := nic_log s @ [pending_frame s m (pending s ! i)],
     pending := (pending s)[i := cleared (pending s ! i)]\<rparr>)"
proof -
  let ?p = "pending s ! i"
  have "?p \<in> set (pending s)" using assms(2,3) by (simp add: pending_ok_def)
  then have "length (pp_payload ?p) = 1500" "0 \<le> pp_payload_len ?p" "pp_payload_len ?p \<le> 1480"
    using assms(2) by (auto simp: pending_ok_def)
  then show ?thesis using assms(1,4)
    by (simp add: flush_slot_def net_send_ip_def rdn_def cleared_def pending_frame_def nic_tx_def Let_def)
qed

text \<open>The loop after \<open>n\<close> slots, when the address resolves to \<open>m\<close>.\<close>

lemma flush_loop_known:
  assumes "arp_lookup (arp_cache s) (next_hop (g_netif s) ip) = Some m"
    and "pending_ok (pending s)" "n \<le> 8" "ip \<noteq> 0"
  shows "for_loop (flush_slot ip) [0..<n] s = Some (s\<lparr>
     nic_log := nic_log s @ map (pending_frame s m) (filter (\<lambda>p. pp_dst_ip p = ip) (take n (pending s))),
     pending := map (\<lambda>p. if pp_dst_ip p = ip then cleared p else p) (take n (pending s)) @
       drop n (pending s)\<rparr>)"
  using assms(3)
proof (induction n)
  case 0
  then show ?case by simp
next
  case (Suc n)
  let ?c = "\<lambda>p. if pp_dst_ip p = ip then cleared p else p"
  let ?t = "s\<lparr>nic_log := nic_log s @ map (pending_frame s m)
       (filter (\<lambda>p. pp_dst_ip p = ip) (take n (pending s))),
     pending := map ?c (take n (pending s)) @ drop n (pending s)\<rparr>"
  have len: "length (pending s) = 8" "n < 8" using assms(2) Suc.prems by (simp_all add: pending_ok_def)
  then have nth: "pending ?t ! n = pending s ! n" by (simp add: nth_append)
  have drop: "drop n (pending s) = pending s ! n # drop (Suc n) (pending s)"
    using len by (simp add: Cons_nth_drop_Suc)
  have take: "take (Suc n) (pending s) = take n (pending s) @ [pending s ! n]"
    using len by (simp add: take_Suc_conv_app_nth)
  have ok: "pending_ok (pending ?t)"
    using assms(2) by (auto simp: pending_ok_def cleared_def dest: in_set_takeD in_set_dropD)
  have pf: "pending_frame ?t m = pending_frame s m" by (rule ext) (simp add: pending_frame_def)
  have "flush_slot ip n ?t = Some (s\<lparr>
     nic_log := nic_log s @ map (pending_frame s m) (filter (\<lambda>p. pp_dst_ip p = ip) (take (Suc n) (pending s))),
     pending := map ?c (take (Suc n) (pending s)) @ drop (Suc n) (pending s)\<rparr>)"
  proof (cases "pp_dst_ip (pending s ! n) = ip")
    case True
    have "flush_slot ip n ?t = Some (?t\<lparr>nic_log := nic_log ?t @ [pending_frame s m (pending s ! n)],
       pending := (pending ?t)[n := cleared (pending s ! n)]\<rparr>)"
      using flush_slot_known [of ?t ip m n] assms(1) ok len True unfolding nth pf by simp
    with True len show ?thesis by (simp add: take drop list_update_append)
  next
    case False
    then have "flush_slot ip n ?t = Some ?t" using flush_slot_other [of ?t n ip] unfolding nth by simp
    with False show ?thesis by (simp add: take drop)
  qed
  with Suc show ?case by (simp add: for_loop_append)
qed

text \<open>
  Once an address resolves, every packet waiting for it is sent, in slot order,
  and its slot is free again; the other slots keep their packets.
\<close>

lemma flush_pending_known:
  assumes "arp_lookup (arp_cache s) (next_hop (g_netif s) ip) = Some m"
    and "pending_ok (pending s)" "ip \<noteq> 0"
  shows "flush_pending_for_ip ip s = Some (s\<lparr>
     nic_log := nic_log s @ map (pending_frame s m) (filter (\<lambda>p. pp_dst_ip p = ip) (pending s)),
     pending := map (\<lambda>p. if pp_dst_ip p = ip then cleared p else p) (pending s)\<rparr>)"
proof -
  have "length (pending s) = 8" using assms(2) by (simp add: pending_ok_def)
  then show ?thesis
    using flush_loop_known [OF assms(1,2) _ assms(3), of 8] by (simp add: flush_pending_for_ip_def)
qed

lemma flush_slot_ok:
  assumes "net_ok s" "i < 8"
  shows "\<exists>t. flush_slot ip i s = Some t \<and> net_ok t"
proof (cases "pp_dst_ip (pending s ! i) = ip")
  case True
  let ?p = "pending s ! i"
  have mem: "?p \<in> set (pending s)" using assms by (simp add: net_ok_def pending_ok_def)
  then have p: "0 \<le> pp_payload_len ?p" "pp_payload_len ?p \<le> 1480"
      "pp_payload_len ?p \<le> int (length (pp_payload ?p))"
    using assms(1) by (auto simp: net_ok_def pending_ok_def)
  obtain t where t: "net_send_ip (pp_dst_ip ?p) (pp_proto ?p) (pp_payload ?p) (pp_payload_len ?p) s = Some t"
      "net_ok t"
    using net_send_ip_ok [OF assms(1) p] by blast
  have "pending t ! i \<in> set (pending t)" using t(2) assms(2) by (simp add: net_ok_def pending_ok_def)
  then have "pending_ok ((pending t)[i := (pending t ! i)\<lparr>pp_dst_ip := 0, pp_payload_len := 0\<rparr>])"
    using t(2) by (auto simp: net_ok_def pending_ok_def dest!: set_update_subset_insert [THEN subsetD])
  with t True show ?thesis by (simp add: flush_slot_def net_ok_def Let_def)
next
  case False
  with assms show ?thesis by simp
qed

lemma flush_pending_ok:
  assumes "net_ok s"
  shows "\<exists>t. flush_pending_for_ip ip s = Some t \<and> net_ok t"
  unfolding flush_pending_for_ip_def
  by (rule for_loop_total) (use assms flush_slot_ok in auto)

text \<open>Packets for other destinations stay where they are.\<close>

lemma flush_pending_none:
  assumes "length (pending s) = 8" "\<forall>p \<in> set (pending s). pp_dst_ip p \<noteq> ip"
  shows "flush_pending_for_ip ip s = Some s"
proof -
  have "for_loop (flush_slot ip) is s = Some s" if "\<forall>i \<in> set is. i < 8" for "is"
    using that assms by (induction "is") auto
  then show ?thesis by (simp add: flush_pending_for_ip_def)
qed

section \<open>Properties\<close>

text \<open>The header of every IPv4 packet \<open>net_send_ip\<close> builds passes the receiver's checksum test.\<close>
lemma ip_header_checksum_valid:
  "ip_checksum (take 20 (ip_packet nif dst pr payload)) = 0"
  by (rule ip_packet_checksum)

text \<open>\<open>net_send_ip\<close> overruns its frame buffer in exactly one case: a known address and more than 1480 bytes.\<close>

lemma net_send_ip_None:
  assumes "net_ok s" "0 \<le> n" "n \<le> int (length payload)"
  shows "net_send_ip dst pr payload n s = None \<longleftrightarrow> arp_lookup (arp_cache s) (next_hop (g_netif s) dst) \<noteq> None \<and> 1480 < n"
proof (cases "arp_lookup (arp_cache s) (next_hop (g_netif s) dst)")
  case (Some m)
  then show ?thesis using assms(2,3) by (cases "n \<le> 1480") (auto simp: net_send_ip_def Let_def rdn_def)
next
  case None
  have "enqueue_pending dst pr payload n ps \<noteq> None" for ps
    using assms(2,3) upd_first_None [of "\<lambda>p. pp_dst_ip p = 0"] by (auto simp: enqueue_pending_def rdn_def Let_def)
  with None show ?thesis by (auto simp: net_send_ip_def Let_def bind_eq_None_conv)
qed

text \<open>C24: \<open>net_send_ip\<close> stays inside its buffers, keeps the interface, the ARP cache and the invariant
  of the pending packets, and hands exactly one frame of 34 to 1514 bytes to the driver (the packet or an
  ARP request), for every payload of at most 1480 bytes, the most its buffer has room for. It does not
  check that: a longer payload overruns the buffer exactly when the address of the next hop is known.\<close>
lemma net_send_ip_safe:
  assumes "net_ok s" "0 \<le> n" "n \<le> int (length payload)"
  shows "(n \<le> 1480 \<longrightarrow> (\<exists>t f. net_send_ip dst pr payload n s = Some t \<and> net_ok t \<and> g_netif t = g_netif s \<and>
      arp_cache t = arp_cache s \<and> nic_log t = nic_log s @ [f] \<and> 34 \<le> length f \<and> length f \<le> 1514)) \<and>
    (1480 < n \<longrightarrow> (net_send_ip dst pr payload n s = None \<longleftrightarrow>
      arp_lookup (arp_cache s) (next_hop (g_netif s) dst) \<noteq> None))"
proof (intro conjI impI)
  assume n: "n \<le> 1480"
  obtain t where t: "net_send_ip dst pr payload n s = Some t" "net_ok t"
    using net_send_ip_ok [OF assms(1,2) n assms(3)] by blast
  have mac: "length (nif_mac (g_netif s)) = 6" using assms(1) by (simp add: net_ok_def)
  have "\<exists>f. nic_log t = nic_log s @ [f] \<and> 34 \<le> length f \<and> length f \<le> 1514"
  proof (cases "arp_lookup (arp_cache s) (next_hop (g_netif s) dst)")
    case None
    then show ?thesis using t(1) mac
      by (auto simp: net_send_ip_def Let_def bind_Some_iff send_arp_request_def eth_hdr_def arp_ipv4_def bcast_def)
  next
    case (Some m)
    then have "length m = 6" using assms(1)
      by (auto simp: net_ok_def arp_ok_def arp_lookup_def find_Some_iff split: option.splits)
    with Some t(1) mac assms(2) n show ?thesis
      by (auto simp: net_send_ip_def Let_def bind_Some_iff eth_hdr_def rdn_Some_iff)
  qed
  with t net_send_ip_frame [OF t(1)] show "\<exists>t f. net_send_ip dst pr payload n s = Some t \<and> net_ok t \<and> g_netif t = g_netif s \<and>
      arp_cache t = arp_cache s \<and> nic_log t = nic_log s @ [f] \<and> 34 \<le> length f \<and> length f \<le> 1514" by blast
qed (simp add: net_send_ip_None [OF assms])

lemma net_send_ip_safe_witness:
  "\<exists>t f. net_send_ip 7 17 [1, 2, 3] 3 net_boot = Some t \<and> nic_log t = [f] \<and> length f \<le> 1514"
proof -
  have "nic_log net_boot = []" by (simp add: net_boot_def)
  with net_send_ip_safe [OF net_ok_boot, of 3 "[1, 2, 3]" 7 17] show ?thesis by auto
qed

text \<open>C23: When an address resolves, every packet waiting for it is sent, in slot order
  and each once, its slot is freed, and the packets for other addresses stay.\<close>
lemma flush_sends_waiting_packets:
  assumes "arp_lookup (arp_cache s) (next_hop (g_netif s) ip) = Some m"
    and "pending_ok (pending s)" "ip \<noteq> 0"
  shows "flush_pending_for_ip ip s = Some (s\<lparr>
     nic_log := nic_log s @ map (pending_frame s m) (filter (\<lambda>p. pp_dst_ip p = ip) (pending s)),
     pending := map (\<lambda>p. if pp_dst_ip p = ip then cleared p else p) (pending s)\<rparr>)"
  by (rule flush_pending_known) (rule assms)+

lemma flush_sends_waiting_packets_witness:
  "\<exists>s t. flush_pending_for_ip 7 s = Some t \<and> length (nic_log t) = 1 \<and> nic_log s = []"
proof -
  let ?p = "\<lparr>pp_dst_ip = 7, pp_proto = 17, pp_payload_len = 3, pp_payload = replicate 1500 0\<rparr>"
  let ?s = "net_boot\<lparr>arp_cache := arp_store (arp_cache net_boot) 7 [1, 2, 3, 4, 5, 6],
    pending := ?p # tl (pending net_boot)\<rparr>"
  have "arp_ok (arp_cache net_boot)" using net_ok_boot by (simp add: net_ok_def)
  then have "arp_lookup (arp_store (arp_cache net_boot) 7 [1, 2, 3, 4, 5, 6]) 7 = Some [1, 2, 3, 4, 5, 6]"
    using arp_lookup_store_all [of "arp_cache net_boot" 7 7] by simp
  moreover have "next_hop (g_netif ?s) 7 = 7" by (simp add: next_hop_def net_boot_def)
  ultimately have "arp_lookup (arp_cache ?s) (next_hop (g_netif ?s) 7) = Some [1, 2, 3, 4, 5, 6]" by simp
  moreover have "pending_ok (pending ?s)" by (simp add: pending_ok_def net_boot_def)
  ultimately have fl: "flush_pending_for_ip 7 ?s = Some (?s\<lparr>
     nic_log := nic_log ?s @ map (pending_frame ?s [1, 2, 3, 4, 5, 6]) (filter (\<lambda>p. pp_dst_ip p = 7) (pending ?s)),
     pending := map (\<lambda>p. if pp_dst_ip p = 7 then cleared p else p) (pending ?s)\<rparr>)"
    by (rule flush_sends_waiting_packets) simp
  show ?thesis
    by (intro exI [of _ ?s] exI conjI, rule fl) (simp_all add: net_boot_def)
qed

end
