(* ===== verification/Tcp.thy ===== *)
theory Tcp
  imports Ipv4
begin

text \<open>
  The TCP client of \<open>src/tcp.c\<close> and \<open>src/tcp.h\<close>. Callers pass a pointer to a
  socket: \<open>http.c\<close> passes the global \<open>g_sock\<close>, \<open>tls_mbedtls.c\<close> a socket of its
  own on the heap, of which \<open>tcp_connect\<close> copies the value into \<open>g_sock\<close>. The
  state is therefore a store from socket references to sockets; only \<open>G_SOCK\<close>
  is seen by the receive path. All sockets share one static receive buffer.
\<close>

section \<open>State\<close>

datatype tcp_state =
  TCP_CLOSED | TCP_SYN_SENT | TCP_ESTABLISHED | TCP_FIN_WAIT1 | TCP_FIN_WAIT2 | TCP_TIME_WAIT

text \<open>The values of the C enumeration give the order.\<close>

primrec tcp_state_code :: "tcp_state \<Rightarrow> nat" where
  "tcp_state_code TCP_CLOSED = 0"
| "tcp_state_code TCP_SYN_SENT = 1"
| "tcp_state_code TCP_ESTABLISHED = 2"
| "tcp_state_code TCP_FIN_WAIT1 = 3"
| "tcp_state_code TCP_FIN_WAIT2 = 4"
| "tcp_state_code TCP_TIME_WAIT = 5"

lemma tcp_state_code_inj: "tcp_state_code a = tcp_state_code b \<Longrightarrow> a = b"
  by (cases a; cases b) auto

instantiation tcp_state :: linorder
begin

definition less_eq_tcp_state :: "tcp_state \<Rightarrow> tcp_state \<Rightarrow> bool" where
  "less_eq_tcp_state a b \<longleftrightarrow> tcp_state_code a \<le> tcp_state_code b"

definition less_tcp_state :: "tcp_state \<Rightarrow> tcp_state \<Rightarrow> bool" where
  "less_tcp_state a b \<longleftrightarrow> tcp_state_code a < tcp_state_code b"

instance
  by standard (auto simp: less_eq_tcp_state_def less_tcp_state_def intro: tcp_state_code_inj)

end

datatype rx_ptr = RX_NULL | RX_RB

record tcp_socket =
  ts_in_use :: u8
  ts_state :: tcp_state
  ts_local_port :: u16
  ts_remote_port :: u16
  ts_local_ip :: u32
  ts_remote_ip :: u32
  ts_snd_iss :: u32
  ts_snd_nxt :: u32
  ts_rcv_nxt :: u32
  ts_rx_buf :: rx_ptr
  ts_rx_cap :: int
  ts_rx_len :: int
  ts_close_after_send :: u8

datatype sock_ref = G_SOCK | HEAP_SOCK nat

record tcp =
  socks :: "sock_ref \<Rightarrow> tcp_socket"
  rb :: bytes
  eph_p :: u16
  iss_x :: u32

abbreviation g_sock :: "tcp \<Rightarrow> tcp_socket" where
  "g_sock t \<equiv> socks t G_SOCK"

definition put_sock :: "sock_ref \<Rightarrow> tcp_socket \<Rightarrow> tcp \<Rightarrow> tcp" where
  "put_sock r s t = t\<lparr>socks := (socks t)(r := s)\<rparr>"

definition zero_socket :: tcp_socket where
  "zero_socket = \<lparr>ts_in_use = 0, ts_state = TCP_CLOSED, ts_local_port = 0, ts_remote_port = 0,
     ts_local_ip = 0, ts_remote_ip = 0, ts_snd_iss = 0, ts_snd_nxt = 0, ts_rcv_nxt = 0,
     ts_rx_buf = RX_NULL, ts_rx_cap = 0, ts_rx_len = 0, ts_close_after_send = 0\<rparr>"

definition tcp_boot :: tcp where
  "tcp_boot = \<lparr>socks = (\<lambda>_. zero_socket), rb = replicate 8192 0, eph_p = 40000, iss_x = 0x12340000\<rparr>"

section \<open>Segments\<close>

definition tcp_hdr :: "u16 \<Rightarrow> u16 \<Rightarrow> u32 \<Rightarrow> u32 \<Rightarrow> u8 \<Rightarrow> u8 \<Rightarrow> u16 \<Rightarrow> u16 \<Rightarrow> bytes" where
  "tcp_hdr src dst seq ack off_res flags win chksum =
     st16 (htons src) @ st16 (htons dst) @ st32 (htonl seq) @ st32 (htonl ack) @
     [off_res, flags] @ st16 (htons win) @ st16 chksum @ st16 0"

definition pseudo_hdr :: "u32 \<Rightarrow> u32 \<Rightarrow> nat \<Rightarrow> bytes" where
  "pseudo_hdr src dst tcp_len =
     st32 (htonl src) @ st32 (htonl dst) @ [0, 6] @ st16 (htons (word_of_nat tcp_len))"

definition tcp_segment :: "tcp_socket \<Rightarrow> u8 \<Rightarrow> bytes \<Rightarrow> bytes" where
  "tcp_segment s flags payload =
     (let hdr = tcp_hdr (ts_local_port s) (ts_remote_port s) (ts_snd_nxt s) (ts_rcv_nxt s)
            (push_bit 4 5) flags 4096;
          chk = csum16 (pseudo_hdr (ts_local_ip s) (ts_remote_ip s) (20 + length payload) @
            hdr 0 @ payload)
      in hdr chk @ payload)"

text \<open>The checksum block has room for 1460 bytes of payload.\<close>

definition tcp_send_segment :: "tcp_socket \<Rightarrow> u8 \<Rightarrow> bytes \<Rightarrow> net \<Rightarrow> net option" where
  "tcp_send_segment s flags payload n = do {
     assert_that (length payload \<le> 1460);
     net_send_ip (ts_remote_ip s) 6 (tcp_segment s flags payload) (20 + int (length payload)) n
   }"

section \<open>Opening\<close>

definition pick_ephemeral :: "tcp \<Rightarrow> u16 \<times> tcp" where
  "pick_ephemeral t = (eph_p t, t\<lparr>eph_p := eph_p t + 1\<rparr>)"

definition iss :: "tcp \<Rightarrow> u32 \<times> tcp" where
  "iss t = (let x = iss_x t + 0x1000 in (x, t\<lparr>iss_x := x\<rparr>))"

definition tcp_init :: "tcp \<Rightarrow> tcp" where
  "tcp_init t = put_sock G_SOCK zero_socket t"

definition tcp_connect ::
    "sock_ref \<Rightarrow> u32 \<Rightarrow> u16 \<Rightarrow> u16 \<Rightarrow> tcp \<Rightarrow> net \<Rightarrow> (int \<times> tcp \<times> net) option" where
  "tcp_connect r dst_ip dst_port src_port t n =
     (if ts_in_use (g_sock t) \<noteq> 0 then Some (-1, t, n)
      else do {
        let (port, t1) = (if src_port \<noteq> 0 then (src_port, t) else pick_ephemeral t);
        let (x, t2) = iss t1;
        let s = zero_socket\<lparr>ts_in_use := 1, ts_state := TCP_SYN_SENT, ts_remote_ip := dst_ip,
          ts_remote_port := dst_port, ts_local_ip := net_get_ip n, ts_local_port := port,
          ts_snd_iss := x, ts_snd_nxt := x, ts_rcv_nxt := 0,
          ts_rx_buf := RX_RB, ts_rx_cap := 8192, ts_rx_len := 0\<rparr>;
        n' \<leftarrow> tcp_send_segment s 0x02 [] n;
        let s' = s\<lparr>ts_snd_nxt := ts_snd_nxt s + 1\<rparr>;
        Some (0, put_sock G_SOCK s' (put_sock r s' t2), n')
      })"

section \<open>Receiving\<close>

definition rx_data_into_buf ::
    "tcp_socket \<Rightarrow> bytes \<Rightarrow> bytes \<Rightarrow> int \<Rightarrow> (tcp_socket \<times> bytes) option" where
  "rx_data_into_buf s buf pl len =
     (let can = ts_rx_cap s - ts_rx_len s;
          len' = (if len > can then can else len)
      in if len' > 0 then do {
           assert_that (ts_rx_buf s = RX_RB \<and> 0 \<le> ts_rx_len s);
           d \<leftarrow> rdn pl len';
           buf' \<leftarrow> blit buf (nat (ts_rx_len s)) d;
           Some (s\<lparr>ts_rx_len := ts_rx_len s + len'\<rparr>, buf')
         }
         else Some (s, buf))"

definition rx_established_data ::
    "bytes \<Rightarrow> int \<Rightarrow> u32 \<Rightarrow> tcp \<Rightarrow> net \<Rightarrow> (tcp \<times> net) option" where
  "rx_established_data pl plen seq t n =
     (if plen > 0 \<and> seq = ts_rcv_nxt (g_sock t) then do {
        (s, buf) \<leftarrow> rx_data_into_buf (g_sock t) (rb t) pl plen;
        let s' = s\<lparr>ts_rcv_nxt := ts_rcv_nxt s + word_of_int plen\<rparr>;
        n' \<leftarrow> tcp_send_segment s' 0x10 [] n;
        Some (put_sock G_SOCK s' (t\<lparr>rb := buf\<rparr>), n')
      }
      else Some (t, n))"

definition rx_established_fin :: "u8 \<Rightarrow> tcp \<Rightarrow> net \<Rightarrow> (tcp \<times> net) option" where
  "rx_established_fin flags t n =
     (if flags AND 0x01 \<noteq> 0 then do {
        let s = (g_sock t)\<lparr>ts_rcv_nxt := ts_rcv_nxt (g_sock t) + 1\<rparr>;
        n1 \<leftarrow> tcp_send_segment s 0x10 [] n;
        n2 \<leftarrow> tcp_send_segment s 0x11 [] n1;
        Some (put_sock G_SOCK (s\<lparr>ts_snd_nxt := ts_snd_nxt s + 1, ts_state := TCP_FIN_WAIT1\<rparr>) t, n2)
      }
      else Some (t, n))"

text \<open>The \<open>switch\<close> on the state, for a segment that is for this socket.\<close>

definition tcp_rx_state ::
    "u8 \<Rightarrow> u32 \<Rightarrow> bytes \<Rightarrow> int \<Rightarrow> tcp \<Rightarrow> net \<Rightarrow> (tcp \<times> net) option" where
  "tcp_rx_state flags seq pl plen t n =
     (let s = g_sock t in
      case ts_state s of
        TCP_SYN_SENT \<Rightarrow>
          (if flags AND 0x12 = 0x12 then do {
             let s' = s\<lparr>ts_rcv_nxt := seq + 1\<rparr>;
             n' \<leftarrow> tcp_send_segment s' 0x10 [] n;
             Some (put_sock G_SOCK (s'\<lparr>ts_state := TCP_ESTABLISHED\<rparr>) t, n')
           }
           else Some (t, n))
      | TCP_ESTABLISHED \<Rightarrow> do {
          (t', n') \<leftarrow> rx_established_data pl plen seq t n;
          rx_established_fin flags t' n'
        }
      | TCP_FIN_WAIT1 \<Rightarrow>
          Some (if flags AND 0x10 \<noteq> 0 then put_sock G_SOCK (s\<lparr>ts_state := TCP_FIN_WAIT2\<rparr>) t else t, n)
      | TCP_FIN_WAIT2 \<Rightarrow>
          (if flags AND 0x01 \<noteq> 0 then do {
             let s' = s\<lparr>ts_rcv_nxt := ts_rcv_nxt s + 1\<rparr>;
             n' \<leftarrow> tcp_send_segment s' 0x10 [] n;
             Some (put_sock G_SOCK (s'\<lparr>ts_state := TCP_TIME_WAIT\<rparr>) t, n')
           }
           else Some (t, n))
      | _ \<Rightarrow> Some (t, n))"

definition tcp_on_rx :: "bytes \<Rightarrow> int \<Rightarrow> u32 \<Rightarrow> u32 \<Rightarrow> tcp \<Rightarrow> net \<Rightarrow> (tcp \<times> net) option" where
  "tcp_on_rx ip_pkt ip_len src_ip dst_ip t n =
     (let s = g_sock t in
      if ts_in_use s = 0 then Some (t, n)
      else if src_ip \<noteq> ts_remote_ip s then Some (t, n)
      else if ip_len < 20 then Some (t, n)
      else do {
        dst \<leftarrow> ld16 ip_pkt 2;
        src \<leftarrow> ld16 ip_pkt 0;
        if ntohs dst \<noteq> ts_local_port s \<or> ntohs src \<noteq> ts_remote_port s then Some (t, n)
        else do {
          off_res \<leftarrow> ld8 ip_pkt 12;
          let hdrlen = int (unat (drop_bit 4 off_res)) * 4;
          if ip_len < hdrlen then Some (t, n)
          else do {
            let pl = drop (nat hdrlen) ip_pkt;
            let plen = ip_len - hdrlen;
            seq \<leftarrow> ld32 ip_pkt 4;
            flags \<leftarrow> ld8 ip_pkt 13;
            if flags AND 0x04 \<noteq> 0
            then Some (put_sock G_SOCK (s\<lparr>ts_state := TCP_CLOSED, ts_in_use := 0\<rparr>) t, n)
            else tcp_rx_state flags (ntohl seq) pl plen t n
          }
        }
      })"

section \<open>Sending, reading and closing\<close>

definition tcp_send :: "sock_ref \<Rightarrow> bytes \<Rightarrow> int \<Rightarrow> tcp \<Rightarrow> net \<Rightarrow> (int \<times> tcp \<times> net) option" where
  "tcp_send r data len t n =
     (let s = socks t r in
      if ts_state s \<noteq> TCP_ESTABLISHED then Some (-1, t, n)
      else if len \<le> 0 then Some (0, t, n)
      else do {
        d \<leftarrow> rdn data len;
        n' \<leftarrow> tcp_send_segment s 0x18 d n;
        Some (len, put_sock r (s\<lparr>ts_snd_nxt := ts_snd_nxt s + word_of_int len\<rparr>) t, n')
      })"

definition tcp_recv :: "sock_ref \<Rightarrow> int \<Rightarrow> tcp \<Rightarrow> (bytes \<times> tcp) option" where
  "tcp_recv r maxlen t =
     (let s = socks t r in
      if ts_rx_len s \<le> 0 then Some ([], t)
      else do {
        let m = (if maxlen > ts_rx_len s then ts_rx_len s else maxlen);
        assert_that (ts_rx_buf s = RX_RB);
        out \<leftarrow> rdn (rb t) m;
        rest \<leftarrow> rdn (drop (nat m) (rb t)) (ts_rx_len s - m);
        buf \<leftarrow> blit (rb t) 0 rest;
        Some (out, put_sock r (s\<lparr>ts_rx_len := ts_rx_len s - m\<rparr>) (t\<lparr>rb := buf\<rparr>))
      })"

definition tcp_close :: "sock_ref \<Rightarrow> tcp \<Rightarrow> net \<Rightarrow> (int \<times> tcp \<times> net) option" where
  "tcp_close r t n =
     (let s = socks t r in
      if ts_in_use s = 0 then Some (0, t, n)
      else if ts_state s = TCP_ESTABLISHED then do {
        n' \<leftarrow> tcp_send_segment s 0x11 [] n;
        Some (0, put_sock r (s\<lparr>ts_snd_nxt := ts_snd_nxt s + 1, ts_state := TCP_FIN_WAIT1\<rparr>) t, n')
      }
      else Some (0, put_sock r (s\<lparr>ts_in_use := 0, ts_state := TCP_CLOSED\<rparr>) t, n))"

definition tcp_poll :: "tcp \<Rightarrow> tcp" where
  "tcp_poll t = t"

section \<open>Segments on the wire\<close>


lemma length_tcp_hdr [simp]: "length (tcp_hdr src dst seq ack off flags win c) = 20"
  by (simp add: tcp_hdr_def)

lemma length_tcp_segment [simp]: "length (tcp_segment s flags payload) = 20 + length payload"
  by (simp add: tcp_segment_def Let_def)

lemma length_pseudo_hdr [simp]: "length (pseudo_hdr src dst n) = 12"
  by (simp add: pseudo_hdr_def)

lemma tcp_segment_checksum:
  assumes "length payload \<le> 1460"
  shows "csum16 (pseudo_hdr (ts_local_ip s) (ts_remote_ip s) (length (tcp_segment s flags payload)) @
      tcp_segment s flags payload) = 0"
proof -
  let ?ph = "pseudo_hdr (ts_local_ip s) (ts_remote_ip s) (20 + length payload)"
  let ?p = "?ph @ st16 (htons (ts_local_port s)) @ st16 (htons (ts_remote_port s)) @
     st32 (htonl (ts_snd_nxt s)) @ st32 (htonl (ts_rcv_nxt s)) @ [push_bit 4 5, flags] @ st16 (htons 4096)"
  let ?q = "st16 0 @ payload"
  have hdr: "?ph @ tcp_hdr (ts_local_port s) (ts_remote_port s) (ts_snd_nxt s) (ts_rcv_nxt s)
      (push_bit 4 5) flags 4096 c @ payload = ?p @ st16 c @ ?q" for c
    by (simp add: tcp_hdr_def)
  have "0 < wsum (?p @ st16 0 @ ?q)"
    by (simp add: wsum_append wsum_st16)
  then have "ip_checksum (?p @ st16 (ip_checksum (?p @ st16 0 @ ?q)) @ ?q) = 0"
    by (intro checksum_verifies) (use assms in simp_all)
  then show ?thesis
    unfolding length_tcp_segment by (simp only: tcp_segment_def Let_def csum16_ip_checksum hdr)
qed

section \<open>Invariant and memory safety\<close>

text \<open>
  A socket has no buffer, or the shared 8192-byte buffer with a fill level inside
  it; it is in use exactly when its state is not \<open>TCP_CLOSED\<close>. With the network
  state valid, every operation succeeds (no access out of bounds) and keeps this.
\<close>

definition sock_ok :: "tcp_socket \<Rightarrow> bool" where
  "sock_ok s \<longleftrightarrow>
     (case ts_rx_buf s of RX_NULL \<Rightarrow> ts_rx_cap s = 0 \<and> ts_rx_len s = 0
      | RX_RB \<Rightarrow> ts_rx_cap s = 8192 \<and> 0 \<le> ts_rx_len s \<and> ts_rx_len s \<le> 8192) \<and>
     (ts_in_use s = 0 \<longleftrightarrow> ts_state s = TCP_CLOSED)"

definition tcp_ok :: "tcp \<Rightarrow> bool" where
  "tcp_ok t \<longleftrightarrow> length (rb t) = 8192 \<and> (\<forall>r. sock_ok (socks t r))"

lemma sock_ok_zero [simp]: "sock_ok zero_socket"
  by (simp add: sock_ok_def zero_socket_def)

lemma tcp_ok_boot: "tcp_ok tcp_boot"
  by (simp add: tcp_ok_def tcp_boot_def)

lemma tcp_ok_put [intro]: "tcp_ok t \<Longrightarrow> sock_ok s \<Longrightarrow> tcp_ok (put_sock r s t)"
  by (simp add: tcp_ok_def put_sock_def)

lemma put_sock_simps [simp]:
  "rb (put_sock r s t) = rb t" "socks (put_sock r s t) r' = (if r' = r then s else socks t r')"
  "eph_p (put_sock r s t) = eph_p t" "iss_x (put_sock r s t) = iss_x t"
  by (simp_all add: put_sock_def)

lemma tcp_send_segment_ok:
  assumes "net_ok n" "length d \<le> 1460"
  shows "\<exists>n'. tcp_send_segment s flags d n = Some n' \<and> net_ok n'"
  using net_send_ip_ok [OF assms(1), of "20 + int (length d)" "tcp_segment s flags d" "ts_remote_ip s" 6] assms
  by (simp add: tcp_send_segment_def)

lemma tcp_init_ok: "tcp_ok t \<Longrightarrow> tcp_ok (tcp_init t)"
  by (auto simp: tcp_init_def)


lemma tcp_send_segment_obtain:
  assumes "net_ok n" "length d \<le> 1460"
  obtains n' where "tcp_send_segment s flags d n = Some n'" "net_ok n'"
  using tcp_send_segment_ok [OF assms] by blast

lemma tcp_ok_sock [simp]: "tcp_ok t \<Longrightarrow> sock_ok (socks t r)"
  by (simp add: tcp_ok_def)

lemma tcp_connect_ok:
  assumes "tcp_ok t" "net_ok n"
  shows "\<exists>res t' n'. tcp_connect r ip port sp t n = Some (res, t', n') \<and> tcp_ok t' \<and> net_ok n'"
proof (cases "ts_in_use (g_sock t) = 0")
  case False
  with assms show ?thesis by (simp add: tcp_connect_def)
next
  case True
  obtain p t1 where p: "(if sp \<noteq> 0 then (sp, t) else pick_ephemeral t) = (p, t1)"
    by fastforce
  then have t1: "tcp_ok t1" using assms(1) by (auto simp: pick_ephemeral_def tcp_ok_def split: if_splits)
  obtain x t2 where x: "iss t1 = (x, t2)" by fastforce
  then have t2: "tcp_ok t2" using t1 by (auto simp: iss_def tcp_ok_def Let_def)
  let ?s = "zero_socket\<lparr>ts_in_use := 1, ts_state := TCP_SYN_SENT, ts_remote_ip := ip,
          ts_remote_port := port, ts_local_ip := net_get_ip n, ts_local_port := p,
          ts_snd_iss := x, ts_snd_nxt := x, ts_rcv_nxt := 0,
          ts_rx_buf := RX_RB, ts_rx_cap := 8192, ts_rx_len := 0\<rparr>"
  obtain n' where n': "tcp_send_segment ?s 0x02 [] n = Some n'" "net_ok n'"
    by (rule tcp_send_segment_obtain [OF assms(2)]) auto
  have "sock_ok (?s\<lparr>ts_snd_nxt := y\<rparr>)" for y by (simp add: sock_ok_def)
  with t2 have "tcp_ok (put_sock G_SOCK (?s\<lparr>ts_snd_nxt := y\<rparr>) (put_sock r (?s\<lparr>ts_snd_nxt := y\<rparr>) t2))" for y
    by blast
  then show ?thesis using True p x n' by (auto simp: tcp_connect_def Let_def)
qed

lemma rx_data_into_buf_ok:
  assumes "sock_ok s" "ts_state s = TCP_ESTABLISHED" "length buf = 8192" "0 \<le> len" "len \<le> int (length pl)"
  shows "\<exists>buf'. rx_data_into_buf s buf pl len =
      Some (s\<lparr>ts_rx_len := ts_rx_len s + min len (ts_rx_cap s - ts_rx_len s)\<rparr>, buf') \<and>
    length buf' = 8192 \<and>
    take (nat (ts_rx_len s + min len (ts_rx_cap s - ts_rx_len s))) buf' =
      take (nat (ts_rx_len s)) buf @ take (nat (min len (ts_rx_cap s - ts_rx_len s))) pl"
proof (cases "ts_rx_buf s")
  case RX_NULL
  with assms show ?thesis by (auto simp: sock_ok_def rx_data_into_buf_def Let_def)
next
  case RX_RB
  define k where "k = min len (ts_rx_cap s - ts_rx_len s)"
  have k: "(if len > ts_rx_cap s - ts_rx_len s then ts_rx_cap s - ts_rx_len s else len) = k"
    by (simp add: k_def min_def)
  have b: "ts_rx_cap s = 8192" "0 \<le> ts_rx_len s" "ts_rx_len s \<le> 8192" "0 \<le> k" "k \<le> len"
      "k \<le> 8192 - ts_rx_len s"
    using RX_RB assms(1,4) by (auto simp: sock_ok_def k_def)
  show ?thesis
  proof (cases "k = 0")
    case True
    then show ?thesis using assms(3) unfolding rx_data_into_buf_def Let_def k k_def [symmetric] by simp
  next
    case False
    let ?d = "take (nat k) pl"
    have d: "rdn pl k = Some ?d" using b assms(5) by (simp add: rdn_def)
    have ld: "length ?d = nat k" using b assms(5) by simp
    have "nat (ts_rx_len s) + nat k \<le> 8192" using b by linarith
    then obtain buf' where buf': "blit buf (nat (ts_rx_len s)) ?d = Some buf'"
      using ld assms(3) by (simp add: blit_def)
    have "rx_data_into_buf s buf pl len = Some (s\<lparr>ts_rx_len := ts_rx_len s + k\<rparr>, buf')"
      unfolding rx_data_into_buf_def Let_def k using False b RX_RB d buf' by simp
    moreover have "nat (ts_rx_len s + k) = nat (ts_rx_len s) + length ?d"
      using b ld by (simp add: nat_add_distrib)
    ultimately show ?thesis
      using buf' blit_take [OF buf'] blit_length [OF buf'] assms(3) unfolding k_def [symmetric] by simp
  qed
qed


lemma rx_established_data_ok:
  assumes "tcp_ok t" "net_ok n" "ts_state (g_sock t) = TCP_ESTABLISHED" "plen \<le> int (length pl)"
  shows "\<exists>t' n'. rx_established_data pl plen seq t n = Some (t', n') \<and> tcp_ok t' \<and> net_ok n' \<and>
    ts_state (g_sock t') = TCP_ESTABLISHED"
proof (cases "plen > 0 \<and> seq = ts_rcv_nxt (g_sock t)")
  case False
  with assms show ?thesis by (auto simp: rx_established_data_def)
next
  case True
  let ?g = "g_sock t"
  let ?k = "min plen (ts_rx_cap ?g - ts_rx_len ?g)"
  let ?s = "?g\<lparr>ts_rx_len := ts_rx_len ?g + ?k\<rparr>"
  let ?s' = "?s\<lparr>ts_rcv_nxt := ts_rcv_nxt ?s + word_of_int plen\<rparr>"
  have g: "sock_ok ?g" "length (rb t) = 8192" using assms(1) by (simp_all add: tcp_ok_def)
  obtain buf where buf: "rx_data_into_buf ?g (rb t) pl plen = Some (?s, buf)" "length buf = 8192"
    using rx_data_into_buf_ok [OF g(1) assms(3) g(2) _ assms(4)] True by auto
  obtain n' where n': "tcp_send_segment ?s' 0x10 [] n = Some n'" "net_ok n'"
    by (rule tcp_send_segment_obtain [OF assms(2)]) auto
  have "sock_ok ?s'" using g(1) True by (auto simp: sock_ok_def split: rx_ptr.splits)
  then have "tcp_ok (put_sock G_SOCK ?s' (t\<lparr>rb := buf\<rparr>))"
    using assms(1) buf(2) by (intro tcp_ok_put) (simp_all add: tcp_ok_def)
  with True buf n' assms(3) show ?thesis by (simp add: rx_established_data_def Let_def)
qed

lemma sock_ok_update:
  assumes "sock_ok s" "ts_state s \<noteq> TCP_CLOSED" "st \<noteq> TCP_CLOSED"
  shows "sock_ok (s\<lparr>ts_state := st\<rparr>)"
  using assms by (auto simp: sock_ok_def split: rx_ptr.splits)

lemma sock_ok_seq [simp]:
  "sock_ok (s\<lparr>ts_rcv_nxt := x\<rparr>) = sock_ok s" "sock_ok (s\<lparr>ts_snd_nxt := x\<rparr>) = sock_ok s"
  by (simp_all add: sock_ok_def split: rx_ptr.split)

lemma sock_ok_closed [simp]:
  "sock_ok s \<Longrightarrow> sock_ok (s\<lparr>ts_in_use := 0, ts_state := TCP_CLOSED\<rparr>)"
  "sock_ok s \<Longrightarrow> sock_ok (s\<lparr>ts_state := TCP_CLOSED, ts_in_use := 0\<rparr>)"
  by (auto simp: sock_ok_def split: rx_ptr.splits)

lemma rx_established_fin_ok:
  assumes "tcp_ok t" "net_ok n" "ts_state (g_sock t) = TCP_ESTABLISHED"
  shows "\<exists>t' n'. rx_established_fin flags t n = Some (t', n') \<and> tcp_ok t' \<and> net_ok n'"
proof (cases "flags AND 0x01 = 0")
  case True
  with assms show ?thesis by (simp add: rx_established_fin_def)
next
  case False
  let ?s = "(g_sock t)\<lparr>ts_rcv_nxt := ts_rcv_nxt (g_sock t) + 1\<rparr>"
  obtain n1 where n1: "tcp_send_segment ?s 0x10 [] n = Some n1" "net_ok n1"
    by (rule tcp_send_segment_obtain [OF assms(2)]) auto
  obtain n2 where n2: "tcp_send_segment ?s 0x11 [] n1 = Some n2" "net_ok n2"
    by (rule tcp_send_segment_obtain [OF n1(2)]) auto
  have "tcp_ok (put_sock G_SOCK (?s\<lparr>ts_snd_nxt := ts_snd_nxt ?s + 1, ts_state := TCP_FIN_WAIT1\<rparr>) t)"
    using assms by (intro tcp_ok_put) (auto intro: sock_ok_update)
  with False n1 n2 show ?thesis by (simp add: rx_established_fin_def Let_def)
qed

lemma tcp_rx_state_ok:
  assumes "tcp_ok t" "net_ok n" "plen \<le> int (length pl)"
  shows "\<exists>t' n'. tcp_rx_state flags seq pl plen t n = Some (t', n') \<and> tcp_ok t' \<and> net_ok n'"
proof (cases "ts_state (g_sock t)")
  case TCP_SYN_SENT
  let ?s = "(g_sock t)\<lparr>ts_rcv_nxt := seq + 1\<rparr>"
  obtain n1 where "tcp_send_segment ?s 0x10 [] n = Some n1" "net_ok n1"
    by (rule tcp_send_segment_obtain [OF assms(2)]) auto
  with TCP_SYN_SENT assms show ?thesis
    by (auto simp: tcp_rx_state_def Let_def intro!: tcp_ok_put sock_ok_update)
next
  case TCP_ESTABLISHED
  obtain t1 n1 where 1: "rx_established_data pl plen seq t n = Some (t1, n1)" "tcp_ok t1" "net_ok n1"
      "ts_state (g_sock t1) = TCP_ESTABLISHED"
    using rx_established_data_ok [OF assms(1,2) TCP_ESTABLISHED assms(3)] by blast
  then show ?thesis
    using TCP_ESTABLISHED rx_established_fin_ok [OF 1(2-4)] by (simp add: tcp_rx_state_def Let_def)
next
  case TCP_FIN_WAIT2
  let ?s = "(g_sock t)\<lparr>ts_rcv_nxt := ts_rcv_nxt (g_sock t) + 1\<rparr>"
  obtain n1 where "tcp_send_segment ?s 0x10 [] n = Some n1" "net_ok n1"
    by (rule tcp_send_segment_obtain [OF assms(2)]) auto
  with TCP_FIN_WAIT2 assms show ?thesis
    by (auto simp: tcp_rx_state_def Let_def intro!: tcp_ok_put sock_ok_update)
next
  case TCP_FIN_WAIT1
  with assms show ?thesis
    by (auto simp: tcp_rx_state_def Let_def intro!: tcp_ok_put sock_ok_update)
qed (use assms in \<open>auto simp: tcp_rx_state_def Let_def\<close>)

lemma tcp_on_rx_ok:
  assumes "tcp_ok t" "net_ok n" "ip_len \<le> int (length pkt)"
  shows "\<exists>t' n'. tcp_on_rx pkt ip_len src dst t n = Some (t', n') \<and> tcp_ok t' \<and> net_ok n'"
proof (cases "ts_in_use (g_sock t) = 0 \<or> src \<noteq> ts_remote_ip (g_sock t) \<or> ip_len < 20")
  case True
  with assms show ?thesis by (auto simp: tcp_on_rx_def Let_def)
next
  case False
  then have len: "20 \<le> length pkt" using assms(3) by linarith
  then obtain d s sq where ld: "ld16 pkt 2 = Some d" "ld16 pkt 0 = Some s" "ld32 pkt 4 = Some sq"
      "ld8 pkt 12 = Some (pkt ! 12)" "ld8 pkt 13 = Some (pkt ! 13)"
    by (simp add: ld16_def ld32_def ld8_def)
  let ?h = "int (unat (drop_bit 4 (pkt ! 12))) * 4"
  have "ip_len - h \<le> int (length (drop (nat h) pkt))" if "0 \<le> h" for h :: int
    using assms(3) that by (simp add: nat_le_iff)
  from this [of ?h] have "ip_len - ?h \<le> int (length (drop (nat ?h) pkt))" by simp
  from tcp_rx_state_ok [OF assms(1,2) this, of "pkt ! 13" "ntohl sq"]
  show ?thesis using False assms by (auto simp: tcp_on_rx_def ld Let_def)
qed

lemma tcp_send_ok:
  assumes "tcp_ok t" "net_ok n" "len \<le> 1460" "len \<le> int (length data)"
  shows "\<exists>res t' n'. tcp_send r data len t n = Some (res, t', n') \<and> tcp_ok t' \<and> net_ok n'"
proof (cases "ts_state (socks t r) = TCP_ESTABLISHED \<and> len > 0")
  case False
  with assms show ?thesis by (cases "ts_state (socks t r) = TCP_ESTABLISHED") (simp_all add: tcp_send_def)
next
  case True
  then have "length (take (nat len) data) \<le> 1460" using assms(3) by simp
  then obtain n1 where n1: "tcp_send_segment (socks t r) 0x18 (take (nat len) data) n = Some n1" "net_ok n1"
    by (rule tcp_send_segment_obtain [OF assms(2)])
  have "rdn data len = Some (take (nat len) data)" using True assms(4) by (simp add: rdn_def)
  moreover have "tcp_ok (put_sock r ((socks t r)\<lparr>ts_snd_nxt := ts_snd_nxt (socks t r) + word_of_int len\<rparr>) t)"
    using assms(1) by (intro tcp_ok_put) simp_all
  ultimately show ?thesis using True n1 by (simp add: tcp_send_def Let_def)
qed

lemma tcp_close_ok:
  assumes "tcp_ok t" "net_ok n"
  shows "\<exists>res t' n'. tcp_close r t n = Some (res, t', n') \<and> tcp_ok t' \<and> net_ok n'"
proof (cases "ts_state (socks t r) = TCP_ESTABLISHED")
  case True
  obtain n1 where n1: "tcp_send_segment (socks t r) 0x11 [] n = Some n1" "net_ok n1"
    by (rule tcp_send_segment_obtain [OF assms(2)]) auto
  have "tcp_ok (put_sock r ((socks t r)\<lparr>ts_snd_nxt := x, ts_state := TCP_FIN_WAIT1\<rparr>) t)" for x
    using assms True by (intro tcp_ok_put) (auto intro!: sock_ok_update)
  with True n1 assms show ?thesis by (simp add: tcp_close_def Let_def)
next
  case False
  have "tcp_ok (put_sock r ((socks t r)\<lparr>ts_in_use := 0, ts_state := TCP_CLOSED\<rparr>) t)"
    using assms by (intro tcp_ok_put) auto
  with False assms show ?thesis by (simp add: tcp_close_def Let_def)
qed

section \<open>Reading\<close>

text \<open>The bytes received and not yet read.\<close>

definition recvd :: "sock_ref \<Rightarrow> tcp \<Rightarrow> bytes" where
  "recvd r t = take (nat (ts_rx_len (socks t r))) (rb t)"

lemma tcp_recv_spec:
  assumes "tcp_ok t" "0 \<le> maxlen"
  shows "\<exists>t'. tcp_recv r maxlen t = Some (take (nat maxlen) (recvd r t), t') \<and> tcp_ok t' \<and>
    recvd r t' = drop (nat maxlen) (recvd r t) \<and>
    socks t' r = (socks t r)\<lparr>ts_rx_len := ts_rx_len (socks t r) - min maxlen (ts_rx_len (socks t r))\<rparr> \<and>
    (\<forall>q. q \<noteq> r \<longrightarrow> socks t' q = socks t q) \<and> eph_p t' = eph_p t \<and> iss_x t' = iss_x t"
proof (cases "ts_rx_len (socks t r) \<le> 0")
  case True
  then have "ts_rx_len (socks t r) = 0"
    using tcp_ok_sock [OF assms(1), of r] by (auto simp: sock_ok_def split: rx_ptr.splits)
  with assms show ?thesis by (simp add: tcp_recv_def recvd_def)
next
  case False
  define l where "l = ts_rx_len (socks t r)"
  define m where "m = min maxlen l"
  have ok: "sock_ok (socks t r)" "length (rb t) = 8192" using assms(1) by (simp_all add: tcp_ok_def)
  have b: "ts_rx_buf (socks t r) = RX_RB" "0 < l" "l \<le> 8192" "0 \<le> m" "m \<le> l"
    using ok(1) False assms(2) by (auto simp: sock_ok_def l_def m_def split: rx_ptr.splits)
  have m_if: "(if maxlen > l then l else maxlen) = m" by (simp add: m_def min_def)
  let ?rest = "take (nat (l - m)) (drop (nat m) (rb t))"
  have rest: "length ?rest = nat (l - m)" using b ok(2) by simp
  have len: "length ?rest \<le> length (rb t)" using rest b ok(2) by linarith
  let ?buf = "?rest @ drop (nat (l - m)) (rb t)"
  let ?t = "put_sock r ((socks t r)\<lparr>ts_rx_len := l - m\<rparr>) (t\<lparr>rb := ?buf\<rparr>)"
  have "rdn (rb t) m = Some (take (nat m) (rb t))" using b ok(2) by (simp add: rdn_def)
  moreover have "rdn (drop (nat m) (rb t)) (l - m) = Some ?rest" using b ok(2) by (simp add: rdn_def)
  moreover have "blit (rb t) 0 ?rest = Some ?buf" using len rest by (simp add: blit_def)
  ultimately have "tcp_recv r maxlen t = Some (take (nat m) (rb t), ?t)"
    using False b m_if unfolding tcp_recv_def Let_def l_def [symmetric] by simp
  moreover have nm: "nat m = min (nat maxlen) (nat l)"
    using assms(2) b(2) by (cases "maxlen \<le> l") (simp_all add: m_def)
  then have "take (nat m) (rb t) = take (nat maxlen) (recvd r t)"
    by (simp only: recvd_def take_take flip: l_def)
  moreover have "recvd r ?t = drop (nat maxlen) (recvd r t)"
  proof -
    have "recvd r ?t = take (nat l - nat m) (drop (nat m) (rb t))"
      using rest b by (simp add: recvd_def nat_diff_distrib)
    also have "\<dots> = drop (nat m) (take (nat l) (rb t))" by (simp only: drop_take)
    also have "\<dots> = drop (nat maxlen) (take (nat l) (rb t))"
      using b ok(2) unfolding nm by (cases "nat maxlen \<le> nat l") simp_all
    finally show ?thesis by (simp only: recvd_def flip: l_def)
  qed
  moreover have "sock_ok ((socks t r)\<lparr>ts_rx_len := l - m\<rparr>)"
    using ok(1) b by (auto simp: sock_ok_def l_def)
  then have "tcp_ok ?t"
    using assms(1) len rest ok(2) b by (intro tcp_ok_put) (auto simp: tcp_ok_def)
  moreover have "socks ?t r = (socks t r)\<lparr>ts_rx_len := ts_rx_len (socks t r) -
      min maxlen (ts_rx_len (socks t r))\<rparr>"
    by (simp add: l_def m_def)
  ultimately show ?thesis by (intro exI [of _ ?t]) simp
qed

end
