(* ===== verification/Tcp_Run.thy ===== *)
theory Tcp_Run
  imports Tcp "HOL-Library.Sublist"
begin

text \<open>
  Runs of the TCP client: what a segment of the peer does to the socket, the
  state machine behind \<open>tcp_on_rx\<close>, all interleavings of the client's calls with
  received segments, and the byte stream the application reads.
\<close>


section \<open>Receiving a segment a peer built\<close>

definition connected :: "tcp_socket \<Rightarrow> tcp_socket \<Rightarrow> bool" where
  "connected a b \<longleftrightarrow> ts_local_port a = ts_remote_port b \<and> ts_remote_port a = ts_local_port b \<and>
     ts_local_ip a = ts_remote_ip b"

lemma tcp_segment_fields:
  "ld16 (tcp_segment a f d @ r) 0 = Some (htons (ts_local_port a))"
  "ld16 (tcp_segment a f d @ r) 2 = Some (htons (ts_remote_port a))"
  "ld32 (tcp_segment a f d @ r) 4 = Some (htonl (ts_snd_nxt a))"
  "ld32 (tcp_segment a f d @ r) 8 = Some (htonl (ts_rcv_nxt a))"
  "ld8 (tcp_segment a f d @ r) 12 = Some (push_bit 4 5)"
  "ld8 (tcp_segment a f d @ r) 13 = Some f"
  by (simp_all add: tcp_segment_def tcp_hdr_def Let_def wire_simps)

lemma drop_tcp_segment [simp]: "drop 20 (tcp_segment a f d) = d"
  by (simp add: tcp_segment_def Let_def)

lemma tcp_on_rx_segment:
  assumes "connected a (g_sock t)" "ts_in_use (g_sock t) \<noteq> 0" "f AND 0x04 = 0"
  shows "tcp_on_rx (tcp_segment a f d @ r) (20 + int (length d)) (ts_local_ip a) dst t n =
    tcp_rx_state f (ts_snd_nxt a) (d @ r) (int (length d)) t n"
proof -
  have "drop_bit 4 (push_bit 4 5 :: u8) = 5" by simp
  then have "int (unat (drop_bit 4 (push_bit 4 5 :: u8))) * 4 = 20" by simp
  then show ?thesis
    using assms by (simp add: tcp_on_rx_def Let_def tcp_segment_fields connected_def)
qed

lemma tcp_on_rx_rst:
  assumes "connected a (g_sock t)" "ts_in_use (g_sock t) \<noteq> 0" "f AND 0x04 \<noteq> 0"
  shows "tcp_on_rx (tcp_segment a f d @ r) (20 + int (length d)) (ts_local_ip a) dst t n =
    Some (put_sock G_SOCK ((g_sock t)\<lparr>ts_state := TCP_CLOSED, ts_in_use := 0\<rparr>) t, n)"
proof -
  have "drop_bit 4 (push_bit 4 5 :: u8) = 5" by simp
  then have "int (unat (drop_bit 4 (push_bit 4 5 :: u8))) * 4 = 20" by simp
  then show ?thesis
    using assms by (simp add: tcp_on_rx_def Let_def tcp_segment_fields connected_def)
qed

text \<open>A segment from another host, or for other ports, changes nothing.\<close>

lemma tcp_on_rx_foreign:
  assumes "20 \<le> length pkt"
    and "src \<noteq> ts_remote_ip (g_sock t) \<or> ld16 pkt 2 \<noteq> Some (htons (ts_local_port (g_sock t))) \<or>
      ld16 pkt 0 \<noteq> Some (htons (ts_remote_port (g_sock t)))"
  shows "tcp_on_rx pkt len src dst t n = Some (t, n)"
proof -
  have "ntohs x = p \<longleftrightarrow> x = htons p" for x p by auto
  moreover obtain a b where "ld16 pkt 2 = Some a" "ld16 pkt 0 = Some b"
    using assms(1) by (simp add: ld16_def)
  ultimately show ?thesis using assms(2) by (auto simp: tcp_on_rx_def Let_def)
qed

text \<open>An in-sequence data segment on an established connection.\<close>

lemma tcp_on_rx_data:
  assumes "connected a (g_sock t)" "ts_state (g_sock t) = TCP_ESTABLISHED" "tcp_ok t" "net_ok n"
    and "d \<noteq> []" "ts_snd_nxt a = ts_rcv_nxt (g_sock t)"
    and "k = min (int (length d)) (ts_rx_cap (g_sock t) - ts_rx_len (g_sock t))"
    and "g' = (g_sock t)\<lparr>ts_rx_len := ts_rx_len (g_sock t) + k,
      ts_rcv_nxt := ts_rcv_nxt (g_sock t) + of_nat (length d)\<rparr>"
  shows "\<exists>t' n'. tcp_on_rx (tcp_segment a 0x18 d @ r) (20 + int (length d)) (ts_local_ip a) dst t n = Some (t', n') \<and>
     tcp_send_segment g' 0x10 [] n = Some n' \<and> tcp_ok t' \<and> net_ok n' \<and> g_sock t' = g' \<and>
     recvd G_SOCK t' = recvd G_SOCK t @ take (nat k) d"
proof -
  let ?g = "g_sock t"
  have ok: "sock_ok ?g" "length (rb t) = 8192" "ts_in_use ?g \<noteq> 0"
    using assms(2,3) by (auto simp: tcp_ok_def sock_ok_def)
  have len: "int (length d) \<le> int (length (d @ r))" by simp
  obtain buf where buf: "rx_data_into_buf ?g (rb t) (d @ r) (int (length d)) =
      Some (?g\<lparr>ts_rx_len := ts_rx_len ?g + k\<rparr>, buf)" "length buf = 8192"
    "take (nat (ts_rx_len ?g + k)) buf = take (nat (ts_rx_len ?g)) (rb t) @ take (nat k) (d @ r)"
    using rx_data_into_buf_ok [OF ok(1) assms(2) ok(2) _ len] assms(7) by auto
  obtain n' where n': "tcp_send_segment g' 0x10 [] n = Some n'" "net_ok n'"
    by (rule tcp_send_segment_obtain [OF assms(4)]) auto
  let ?t = "put_sock G_SOCK g' (t\<lparr>rb := buf\<rparr>)"
  have "nat k \<le> length d" using assms(7) by linarith
  then have "take (nat k) (d @ r) = take (nat k) d" by simp
  then have r: "recvd G_SOCK ?t = recvd G_SOCK t @ take (nat k) d"
    using buf(3) assms(8) by (simp add: recvd_def)
  have "0 \<le> k" "k \<le> ts_rx_cap ?g - ts_rx_len ?g"
    using ok(1) assms(7) by (auto simp: sock_ok_def split: rx_ptr.splits)
  then have "sock_ok g'" using ok(1) assms(8) by (auto simp: sock_ok_def split: rx_ptr.splits)
  then have "tcp_ok ?t" using assms(3) buf(2) by (intro tcp_ok_put) (simp_all add: tcp_ok_def)
  moreover have "tcp_rx_state 0x18 (ts_snd_nxt a) (d @ r) (int (length d)) t n = Some (?t, n')"
    using assms(2,5,6,8) buf(1) n'(1)
    by (simp add: tcp_rx_state_def rx_established_data_def rx_established_fin_def Let_def)
  ultimately show ?thesis
    using tcp_on_rx_segment [OF assms(1) ok(3), where f = "0x18"] n' r by auto
qed

text \<open>Any other data segment is dropped without an answer.\<close>

lemma tcp_on_rx_out_of_order:
  assumes "connected a (g_sock t)" "ts_state (g_sock t) = TCP_ESTABLISHED" "tcp_ok t"
    and "ts_snd_nxt a \<noteq> ts_rcv_nxt (g_sock t)"
  shows "tcp_on_rx (tcp_segment a 0x18 d @ r) (20 + int (length d)) (ts_local_ip a) dst t n = Some (t, n)"
proof -
  have "ts_in_use (g_sock t) \<noteq> 0" using tcp_ok_sock [OF assms(3), of G_SOCK] assms(2) by (auto simp: sock_ok_def)
  then show ?thesis
    using tcp_on_rx_segment [OF assms(1), where f = "0x18"] assms(2,4)
    by (simp add: tcp_rx_state_def rx_established_data_def rx_established_fin_def)
qed


section \<open>The state machine\<close>

text \<open>
  The connection as seen by a client that opens it: from each state one edge leads on, taken by a segment
  that carries all the flags of the edge. A reset closes in every state, and the states without an
  edge are left by nothing else. The machine is deterministic.
\<close>

fun rx_edge :: "tcp_state \<Rightarrow> (u8 \<times> tcp_state) option" where
  "rx_edge TCP_SYN_SENT = Some (0x12, TCP_ESTABLISHED)"
| "rx_edge TCP_ESTABLISHED = Some (0x01, TCP_FIN_WAIT1)"
| "rx_edge TCP_FIN_WAIT1 = Some (0x10, TCP_FIN_WAIT2)"
| "rx_edge TCP_FIN_WAIT2 = Some (0x01, TCP_TIME_WAIT)"
| "rx_edge s = None"

inductive rx_fsm :: "u8 \<Rightarrow> tcp_state \<Rightarrow> tcp_state \<Rightarrow> bool" for flags where
  rst: "flags AND 0x04 \<noteq> 0 \<Longrightarrow> rx_fsm flags s TCP_CLOSED"
| advance: "flags AND 0x04 = 0 \<Longrightarrow> rx_edge s = Some (m, s') \<Longrightarrow> flags AND m = m \<Longrightarrow> rx_fsm flags s s'"
| wait: "flags AND 0x04 = 0 \<Longrightarrow> rx_edge s = Some (m, s') \<Longrightarrow> flags AND m \<noteq> m \<Longrightarrow> rx_fsm flags s s"
| stuck: "flags AND 0x04 = 0 \<Longrightarrow> rx_edge s = None \<Longrightarrow> rx_fsm flags s s"

lemma rx_fsm_deterministic: "rx_fsm flags s u \<Longrightarrow> rx_fsm flags s v \<Longrightarrow> u = v"
  by (auto elim!: rx_fsm.cases)

text \<open>The edges as the code tests them.\<close>

lemma one_flag:
  "x AND 0x10 = 0x10 \<longleftrightarrow> x AND 0x10 \<noteq> 0" "x AND 1 = 1 \<longleftrightarrow> x AND 1 \<noteq> 0" for x :: u8
proof -
  have b: "x AND 2 ^ k = (if bit x k then 2 ^ k else 0)" for k
    by (rule bit_word_eqI) (auto simp: bit_simps)
  from b [of 4] show "x AND 0x10 = 0x10 \<longleftrightarrow> x AND 0x10 \<noteq> 0" by (simp split: if_splits)
  from b [of 0] show "x AND 1 = 1 \<longleftrightarrow> x AND 1 \<noteq> 0" by (simp split: if_splits)
qed

lemma rx_fsm_edges:
  assumes "flags AND 0x04 = 0"
  shows "rx_fsm flags s (case s of
      TCP_SYN_SENT \<Rightarrow> if flags AND 0x12 = 0x12 then TCP_ESTABLISHED else s
    | TCP_ESTABLISHED \<Rightarrow> if flags AND 0x01 \<noteq> 0 then TCP_FIN_WAIT1 else s
    | TCP_FIN_WAIT1 \<Rightarrow> if flags AND 0x10 \<noteq> 0 then TCP_FIN_WAIT2 else s
    | TCP_FIN_WAIT2 \<Rightarrow> if flags AND 0x01 \<noteq> 0 then TCP_TIME_WAIT else s
    | _ \<Rightarrow> s)"
  using assms
  by (cases s) (auto simp: one_flag intro: rx_fsm.advance rx_fsm.wait [where s = TCP_SYN_SENT]
      rx_fsm.wait [where s = TCP_ESTABLISHED] rx_fsm.wait [where s = TCP_FIN_WAIT1]
      rx_fsm.wait [where s = TCP_FIN_WAIT2] rx_fsm.stuck)

lemma rx_established_data_state:
  "rx_established_data pl plen seq t n = Some (t', n') \<Longrightarrow>
    ts_state (g_sock t') = ts_state (g_sock t) \<and> (\<forall>r. r \<noteq> G_SOCK \<longrightarrow> socks t' r = socks t r)"
  by (auto simp: rx_established_data_def rx_data_into_buf_def bind_Some_iff Let_def split: if_splits)

lemma rx_established_fin_state:
  "rx_established_fin flags t n = Some (t', n') \<Longrightarrow>
    ts_state (g_sock t') = (if flags AND 1 \<noteq> 0 then TCP_FIN_WAIT1 else ts_state (g_sock t)) \<and>
    (\<forall>r. r \<noteq> G_SOCK \<longrightarrow> socks t' r = socks t r)"
  by (auto simp: rx_established_fin_def bind_Some_iff Let_def split: if_splits)

lemma tcp_rx_state_fsm:
  assumes "tcp_rx_state flags seq pl plen t n = Some (t', n')" "flags AND 0x04 = 0"
  shows "rx_fsm flags (ts_state (g_sock t)) (ts_state (g_sock t'))"
    and "\<forall>r. r \<noteq> G_SOCK \<longrightarrow> socks t' r = socks t r"
proof -
  have "rx_fsm flags (ts_state (g_sock t)) (ts_state (g_sock t')) \<and> (\<forall>r. r \<noteq> G_SOCK \<longrightarrow> socks t' r = socks t r)"
  proof (cases "ts_state (g_sock t)")
    case TCP_ESTABLISHED
    then obtain t1 n1 where 1: "rx_established_data pl plen seq t n = Some (t1, n1)"
        "rx_established_fin flags t1 n1 = Some (t', n')"
      using assms(1) by (auto simp: tcp_rx_state_def bind_Some_iff)
    from rx_established_data_state [OF 1(1)] rx_established_fin_state [OF 1(2)] TCP_ESTABLISHED
      rx_fsm_edges [OF assms(2), of TCP_ESTABLISHED]
    show ?thesis by auto
  next
    case TCP_SYN_SENT
    with assms(1) rx_fsm_edges [OF assms(2), of TCP_SYN_SENT] show ?thesis
      by (auto simp: tcp_rx_state_def bind_Some_iff Let_def split: if_splits)
  next
    case TCP_FIN_WAIT1
    with assms(1) rx_fsm_edges [OF assms(2), of TCP_FIN_WAIT1] show ?thesis
      by (auto simp: tcp_rx_state_def split: if_splits)
  next
    case TCP_FIN_WAIT2
    with assms(1) rx_fsm_edges [OF assms(2), of TCP_FIN_WAIT2] show ?thesis
      by (auto simp: tcp_rx_state_def bind_Some_iff Let_def split: if_splits)
  qed (use assms in \<open>auto simp: tcp_rx_state_def intro: rx_fsm.stuck\<close>)
  then show "rx_fsm flags (ts_state (g_sock t)) (ts_state (g_sock t'))"
    and "\<forall>r. r \<noteq> G_SOCK \<longrightarrow> socks t' r = socks t r" by simp_all
qed

text \<open>A segment is for the socket if its addresses, ports and lengths are.\<close>

definition for_sock :: "bytes \<Rightarrow> int \<Rightarrow> u32 \<Rightarrow> tcp_socket \<Rightarrow> bool" where
  "for_sock pkt len src s \<longleftrightarrow> ts_in_use s \<noteq> 0 \<and> src = ts_remote_ip s \<and> 20 \<le> len \<and>
     ld16 pkt 2 = Some (htons (ts_local_port s)) \<and> ld16 pkt 0 = Some (htons (ts_remote_port s)) \<and>
     (\<exists>off. ld8 pkt 12 = Some off \<and> int (unat (drop_bit 4 off)) * 4 \<le> len)"

lemma ntohs_eq_iff: "ntohs x = p \<longleftrightarrow> x = htons p"
  by auto

lemma tcp_on_rx_other:
  assumes "tcp_on_rx pkt len src dst t n = Some (t', n')" "\<not> for_sock pkt len src (g_sock t)"
  shows "(t', n') = (t, n)"
  using assms unfolding tcp_on_rx_def for_sock_def Let_def ntohs_eq_iff
  by (auto simp: bind_Some_iff split: if_splits)

lemma tcp_on_rx_for:
  assumes "tcp_on_rx pkt len src dst t n = Some (t', n')" "for_sock pkt len src (g_sock t)"
  shows "\<exists>flags. ld8 pkt 13 = Some flags \<and>
    (if flags AND 0x04 \<noteq> 0 then t' = put_sock G_SOCK ((g_sock t)\<lparr>ts_state := TCP_CLOSED, ts_in_use := 0\<rparr>) t
     else \<exists>seq pl plen. tcp_rx_state flags seq pl plen t n = Some (t', n'))"
  using assms unfolding tcp_on_rx_def for_sock_def Let_def ntohs_eq_iff
  by (auto simp: bind_Some_iff split: if_splits)

text \<open>The flags of the segment decide; a segment that is not for the socket changes nothing.\<close>

lemma tcp_on_rx_fsm:
  assumes "tcp_on_rx pkt len src dst t n = Some (t', n')"
  shows "if for_sock pkt len src (g_sock t)
      then \<exists>flags. ld8 pkt 13 = Some flags \<and> rx_fsm flags (ts_state (g_sock t)) (ts_state (g_sock t'))
      else (t', n') = (t, n)"
    and "\<forall>r. r \<noteq> G_SOCK \<longrightarrow> socks t' r = socks t r"
proof -
  have "(if for_sock pkt len src (g_sock t)
      then \<exists>flags. ld8 pkt 13 = Some flags \<and> rx_fsm flags (ts_state (g_sock t)) (ts_state (g_sock t'))
      else (t', n') = (t, n)) \<and> (\<forall>r. r \<noteq> G_SOCK \<longrightarrow> socks t' r = socks t r)"
  proof (cases "for_sock pkt len src (g_sock t)")
    case True
    from tcp_on_rx_for [OF assms this] obtain flags where f: "ld8 pkt 13 = Some flags"
      "if flags AND 0x04 \<noteq> 0 then t' = put_sock G_SOCK ((g_sock t)\<lparr>ts_state := TCP_CLOSED, ts_in_use := 0\<rparr>) t
       else \<exists>seq pl plen. tcp_rx_state flags seq pl plen t n = Some (t', n')" by blast
    show ?thesis
    proof (cases "flags AND 0x04 = 0")
      case False
      with f True show ?thesis by (auto intro: rx_fsm.rst)
    next
      case z: True
      with f(2) obtain seq pl plen where "tcp_rx_state flags seq pl plen t n = Some (t', n')" by auto
      from tcp_rx_state_fsm [OF this z] f(1) True show ?thesis by auto
    qed
  qed (use tcp_on_rx_other [OF assms] in auto)
  then show "if for_sock pkt len src (g_sock t)
      then \<exists>flags. ld8 pkt 13 = Some flags \<and> rx_fsm flags (ts_state (g_sock t)) (ts_state (g_sock t'))
      else (t', n') = (t, n)"
    and "\<forall>r. r \<noteq> G_SOCK \<longrightarrow> socks t' r = socks t r" by simp_all
qed

text \<open>Short of a reset the state only moves forward.\<close>

lemma rx_fsm_mono: "rx_fsm flags s s' \<Longrightarrow> s' = TCP_CLOSED \<or> s \<le> s'"
  by (erule rx_fsm.cases) (auto simp: less_eq_tcp_state_def elim!: rx_edge.elims)

section \<open>All interleavings\<close>

type_synonym tcp_world = "tcp \<times> net"

text \<open>
  The calls of the applications, the segments handed up by \<open>net_rx\<close> and whatever
  else happens to the network state in between (ARP answers, other packets).
  Payloads fit the 1460 bytes of the segment buffer and pointers cover their length.
\<close>

inductive tcp_step :: "tcp_world \<Rightarrow> tcp_world \<Rightarrow> bool" where
  connect: "tcp_connect r ip prt sp t n = Some (res, t', n') \<Longrightarrow> tcp_step (t, n) (t', n')"
| rx: "len \<le> int (length pkt) \<Longrightarrow> tcp_on_rx pkt len src dst t n = Some (t', n') \<Longrightarrow>
    tcp_step (t, n) (t', n')"
| send: "len \<le> 1460 \<Longrightarrow> len \<le> int (length d) \<Longrightarrow> tcp_send r d len t n = Some (res, t', n') \<Longrightarrow>
    tcp_step (t, n) (t', n')"
| recv: "0 \<le> m \<Longrightarrow> tcp_recv r m t = Some (out, t') \<Longrightarrow> tcp_step (t, n) (t', n)"
| close: "tcp_close r t n = Some (res, t', n') \<Longrightarrow> tcp_step (t, n) (t', n')"
| init: "tcp_step (t, n) (tcp_init t, n)"
| other: "net_ok n' \<Longrightarrow> tcp_step (t, n) (t, n')"

definition tcp_reachable :: "tcp_world \<Rightarrow> bool" where
  "tcp_reachable w \<longleftrightarrow> (\<exists>n. net_ok n \<and> tcp_step\<^sup>*\<^sup>* (tcp_boot, n) w)"

lemma tcp_step_ok:
  assumes "tcp_step w w'" "tcp_ok (fst w)" "net_ok (snd w)"
  shows "tcp_ok (fst w') \<and> net_ok (snd w')"
  using assms
proof (cases rule: tcp_step.cases)
  case (connect r ip prt sp t n res t' n')
  with assms tcp_connect_ok [of t n r ip prt sp] show ?thesis by auto
next
  case (rx len pkt src dst t n t' n')
  with assms tcp_on_rx_ok [of t n len pkt src dst] show ?thesis by auto
next
  case (send len d r t n res t' n')
  with assms tcp_send_ok [of t n len d r] show ?thesis by auto
next
  case (recv m r t out t' n)
  with assms tcp_recv_spec [of t m r] show ?thesis by auto
next
  case (close r t n res t' n')
  with assms tcp_close_ok [of t n r] show ?thesis by auto
qed (auto simp: tcp_init_ok)

lemma tcp_reachable_ok:
  assumes "tcp_reachable w"
  shows "tcp_ok (fst w) \<and> net_ok (snd w)"
proof -
  obtain n where "net_ok n" "tcp_step\<^sup>*\<^sup>* (tcp_boot, n) w" using assms by (auto simp: tcp_reachable_def)
  from this(2) show ?thesis
    by (induction rule: rtranclp_induct) (use \<open>net_ok n\<close> tcp_ok_boot tcp_step_ok in auto)
qed

text \<open>
  A socket other than \<open>g_sock\<close> (the TLS connection has one) never gets past
  \<open>TCP_SYN_SENT\<close>: \<open>tcp_connect\<close> copies it into \<open>g_sock\<close> and \<open>tcp_on_rx\<close> updates the
  copy only.
\<close>

definition heap_socks_idle :: "tcp \<Rightarrow> bool" where
  "heap_socks_idle t \<longleftrightarrow> (\<forall>k. ts_state (socks t (HEAP_SOCK k)) \<le> TCP_SYN_SENT \<and>
     ts_rx_len (socks t (HEAP_SOCK k)) = 0)"

lemma le_syn_sent: "s \<le> TCP_SYN_SENT \<longleftrightarrow> s = TCP_CLOSED \<or> s = TCP_SYN_SENT"
  by (cases s) (auto simp: less_eq_tcp_state_def)

lemma tcp_step_heap_idle:
  assumes "tcp_step w w'" "heap_socks_idle (fst w)"
  shows "heap_socks_idle (fst w')"
  using assms
proof (cases rule: tcp_step.cases)
  case (connect r ip prt sp t n res t' n')
  with assms(2) show ?thesis
    by (auto simp: heap_socks_idle_def tcp_connect_def bind_Some_iff Let_def iss_def pick_ephemeral_def
        le_syn_sent split: if_splits)
next
  case (rx len pkt src dst t n t' n')
  with assms(2) tcp_on_rx_fsm(2) [OF rx(4)] show ?thesis by (auto simp: heap_socks_idle_def)
next
  case (send len d r t n res t' n')
  with assms(2) show ?thesis
    by (auto simp: heap_socks_idle_def tcp_send_def bind_Some_iff Let_def le_syn_sent split: if_splits)
next
  case (recv m r t out t' n)
  with assms(2) show ?thesis
    by (cases r) (auto simp: heap_socks_idle_def tcp_recv_def bind_Some_iff Let_def split: if_splits)
next
  case (close r t n res t' n')
  with assms(2) show ?thesis
    by (cases r) (auto simp: heap_socks_idle_def tcp_close_def bind_Some_iff Let_def le_syn_sent split: if_splits)
qed (auto simp: heap_socks_idle_def tcp_init_def)

lemma tcp_reachable_heap_idle:
  assumes "tcp_reachable w"
  shows "heap_socks_idle (fst w)"
proof -
  obtain n where "tcp_step\<^sup>*\<^sup>* (tcp_boot, n) w" using assms by (auto simp: tcp_reachable_def)
  then show ?thesis
  proof (induction rule: rtranclp_induct)
    case base
    show ?case by (simp add: heap_socks_idle_def tcp_boot_def zero_socket_def le_syn_sent)
  qed (rule tcp_step_heap_idle)
qed

lemma heap_sock_send_fails:
  assumes "heap_socks_idle t"
  shows "tcp_send (HEAP_SOCK k) d len t n = Some (-1, t, n)" "tcp_recv (HEAP_SOCK k) m t = Some ([], t)"
proof -
  have "ts_state (socks t (HEAP_SOCK k)) \<noteq> TCP_ESTABLISHED"
    using assms by (auto simp: heap_socks_idle_def le_syn_sent dest: spec [of _ k])
  then show "tcp_send (HEAP_SOCK k) d len t n = Some (-1, t, n)" by (simp add: tcp_send_def Let_def)
  show "tcp_recv (HEAP_SOCK k) m t = Some ([], t)"
    using assms by (simp add: heap_socks_idle_def tcp_recv_def Let_def)
qed


section \<open>The byte stream\<close>

text \<open>
  The peer \<open>a\<close> sends the stream \<open>S\<close> from sequence number \<open>x\<close> on. Its segments may
  arrive in any order, repeatedly or not at all, each carrying any piece of the
  stream; the application reads in between. The last component counts what the buffer had no
  room for: the bytes of a segment in sequence that are not stored.
\<close>

definition dropped :: "tcp_socket \<Rightarrow> u32 \<Rightarrow> nat \<Rightarrow> nat" where
  "dropped g seq len = (if seq = ts_rcv_nxt g then nat (int len - (ts_rx_cap g - ts_rx_len g)) else 0)"

inductive stream_step ::
    "tcp_socket \<Rightarrow> u32 \<Rightarrow> bytes \<Rightarrow> tcp \<times> net \<times> bytes \<times> nat \<Rightarrow> tcp \<times> net \<times> bytes \<times> nat \<Rightarrow> bool"
  for a x S where
  deliver: "off + len \<le> length S \<Longrightarrow>
    tcp_on_rx (tcp_segment (a\<lparr>ts_snd_nxt := x + of_nat off\<rparr>) 0x18 (take len (drop off S)) @ junk)
      (20 + int len) (ts_local_ip a) dst t n = Some (t', n') \<Longrightarrow>
    stream_step a x S (t, n, out, lost) (t', n', out, lost + dropped (g_sock t) (x + of_nat off) len)"
| reading: "0 \<le> m \<Longrightarrow> tcp_recv G_SOCK m t = Some (d, t') \<Longrightarrow>
    stream_step a x S (t, n, out, lost) (t', n, out @ d, lost)"

inductive_cases stream_stepE: "stream_step a x S (t, n, out, lost) (t', n', out', lost')"

text \<open>
  What was read and what is buffered is the stream up to the next byte expected, without the bytes
  that were dropped.
\<close>

definition stream_inv :: "tcp_socket \<Rightarrow> u32 \<Rightarrow> bytes \<Rightarrow> tcp \<times> net \<times> bytes \<times> nat \<Rightarrow> bool" where
  "stream_inv a x S w \<longleftrightarrow> (case w of (t, n, out, lost) \<Rightarrow>
     tcp_ok t \<and> net_ok n \<and> connected a (g_sock t) \<and> ts_state (g_sock t) = TCP_ESTABLISHED \<and>
     (\<exists>k \<le> length S. subseq (out @ recvd G_SOCK t) (take k S) \<and> length (out @ recvd G_SOCK t) + lost = k \<and>
       ts_rcv_nxt (g_sock t) = x + of_nat k))"

lemma subseq_full: "subseq xs ys \<Longrightarrow> length xs = length ys \<Longrightarrow> xs = ys"
  by (rule subseq_same_length)

lemma of_nat_u32_inj: "i < 2 ^ 32 \<Longrightarrow> j < 2 ^ 32 \<Longrightarrow> (of_nat i :: u32) = of_nat j \<longleftrightarrow> i = j"
  by (auto simp: word_of_nat_eq_iff take_bit_nat_eq_self)

lemma connected_upd [simp]:
  "connected (a\<lparr>ts_snd_nxt := y\<rparr>) g = connected a g"
  "connected a (g\<lparr>ts_rx_len := l, ts_rcv_nxt := y\<rparr>) = connected a g"
  "connected a (g\<lparr>ts_rx_len := l\<rparr>) = connected a g"
  by (simp_all add: connected_def)

lemma tcp_on_rx_empty:
  assumes "connected a (g_sock t)" "ts_state (g_sock t) = TCP_ESTABLISHED" "tcp_ok t"
  shows "tcp_on_rx (tcp_segment a 0x18 [] @ r) 20 (ts_local_ip a) dst t n = Some (t, n)"
proof -
  have "ts_in_use (g_sock t) \<noteq> 0" using tcp_ok_sock [OF assms(3), of G_SOCK] assms(2) by (auto simp: sock_ok_def)
  then show ?thesis
    using tcp_on_rx_segment [OF assms(1), where f = "0x18" and d = "[]"] assms(2)
    by (simp add: tcp_rx_state_def rx_established_data_def rx_established_fin_def)
qed

lemma stream_deliver:
  assumes inv: "stream_inv a x S (t, n, out, lost)" and S: "length S < 2 ^ 32"
    and range: "off + len \<le> length S"
    and rx: "tcp_on_rx (tcp_segment (a\<lparr>ts_snd_nxt := x + of_nat off\<rparr>) 0x18 (take len (drop off S)) @ junk)
      (20 + int len) (ts_local_ip a) dst t n = Some (t', n')"
  shows "stream_inv a x S (t', n', out, lost + dropped (g_sock t) (x + of_nat off) len)"
proof -
  let ?a = "a\<lparr>ts_snd_nxt := x + of_nat off\<rparr>" and ?d = "take len (drop off S)" and ?g = "g_sock t"
  have len: "length ?d = len" using range by simp
  from inv obtain k where k: "k \<le> length S" "subseq (out @ recvd G_SOCK t) (take k S)"
      "length (out @ recvd G_SOCK t) + lost = k" "ts_rcv_nxt ?g = x + of_nat k"
    and st: "tcp_ok t" "net_ok n" "connected ?a ?g" "ts_state ?g = TCP_ESTABLISHED" "connected a ?g"
    unfolding stream_inv_def by auto
  have ip: "ts_local_ip ?a = ts_local_ip a" by simp
  have room: "0 \<le> ts_rx_cap ?g - ts_rx_len ?g"
    using tcp_ok_sock [OF st(1), of G_SOCK] by (auto simp: sock_ok_def split: rx_ptr.splits)
  have off: "x + of_nat off = ts_rcv_nxt ?g \<longleftrightarrow> off = k"
    using of_nat_u32_inj [of off k] range k(1,4) S by simp
  consider "len = 0" | "len \<noteq> 0" "off \<noteq> k" | "len \<noteq> 0" "off = k" by blast
  then show ?thesis
  proof cases
    case 1
    then have "(t', n') = (t, n)" using rx tcp_on_rx_empty [OF st(3,4,1), of junk dst n] by simp
    with inv 1 room show ?thesis by (simp add: dropped_def)
  next
    case 2
    then have "ts_snd_nxt ?a \<noteq> ts_rcv_nxt ?g" using off by simp
    from tcp_on_rx_out_of_order [OF st(3,4,1) this, of ?d junk dst n] rx len inv 2 off
    show ?thesis by (simp add: dropped_def)
  next
    case 3
    define m where "m = min (int len) (ts_rx_cap ?g - ts_rx_len ?g)"
    let ?g' = "?g\<lparr>ts_rx_len := ts_rx_len ?g + m, ts_rcv_nxt := ts_rcv_nxt ?g + of_nat len\<rparr>"
    have m: "nat m \<le> len" "dropped ?g (x + of_nat off) len + nat m = len"
      using 3 off room by (auto simp: m_def dropped_def)
    have d: "?d \<noteq> []" using 3 len by auto
    have seq: "ts_snd_nxt ?a = ts_rcv_nxt ?g" using 3 off by simp
    have room_d: "m = min (int (length ?d)) (ts_rx_cap ?g - ts_rx_len ?g)" unfolding m_def len ..
    have g': "?g' = ?g\<lparr>ts_rx_len := ts_rx_len ?g + m, ts_rcv_nxt := ts_rcv_nxt ?g + of_nat (length ?d)\<rparr>"
      unfolding len ..
    obtain u v where u: "tcp_on_rx (tcp_segment ?a 0x18 ?d @ junk) (20 + int (length ?d)) (ts_local_ip ?a) dst t n = Some (u, v)"
      "tcp_ok u" "net_ok v" "g_sock u = ?g'" "recvd G_SOCK u = recvd G_SOCK t @ take (nat m) ?d"
      using tcp_on_rx_data [OF st(3,4,1,2) d seq room_d g', of junk dst] by blast
    from u(1) rx have tn: "t' = u" "n' = v" unfolding len ip by simp_all
    have "subseq (take (nat m) ?d) ?d" by (rule prefix_imp_subseq) (rule take_is_prefix)
    then have "subseq ((out @ recvd G_SOCK t) @ take (nat m) ?d) (take k S @ ?d)"
      by (rule list_emb_append_mono [OF k(2)])
    moreover have "take k S @ ?d = take (k + len) S" using 3 by (simp add: take_add)
    ultimately have "subseq (out @ recvd G_SOCK u) (take (k + len) S)" using u(5) by simp
    moreover have "length (out @ recvd G_SOCK u) + (lost + dropped ?g (x + of_nat off) len) = k + len"
      using k(3) u(5) m len by simp
    moreover have "ts_rcv_nxt ?g' = x + of_nat (k + len)" using k(4) by simp
    moreover have "k + len \<le> length S" using 3 range by simp
    moreover have "connected a ?g'" "ts_state ?g' = TCP_ESTABLISHED" using st by simp_all
    ultimately show ?thesis
      unfolding stream_inv_def tn prod.case u(4) using u(2,3)
      by (intro conjI exI [of _ "k + len"]) simp_all
  qed
qed

lemma stream_read:
  assumes "stream_inv a x S (t, n, out, lost)" "0 \<le> m" "tcp_recv G_SOCK m t = Some (d, t')"
  shows "stream_inv a x S (t', n, out @ d, lost)"
proof -
  have "tcp_ok t" using assms(1) by (simp add: stream_inv_def)
  from tcp_recv_spec [OF this assms(2), of G_SOCK] assms(3)
  have t': "d = take (nat m) (recvd G_SOCK t)" "tcp_ok t'" "recvd G_SOCK t' = drop (nat m) (recvd G_SOCK t)"
    "g_sock t' = (g_sock t)\<lparr>ts_rx_len := ts_rx_len (g_sock t) - min m (ts_rx_len (g_sock t))\<rparr>"
    by auto
  then have "(out @ d) @ recvd G_SOCK t' = out @ recvd G_SOCK t" by simp
  with assms(1) t'(2,4) show ?thesis unfolding stream_inv_def by (simp only: prod.case) simp
qed

lemma stream_step_inv:
  assumes "stream_step a x S w w'" "stream_inv a x S w" "length S < 2 ^ 32"
  shows "stream_inv a x S w'"
  using assms by (cases rule: stream_step.cases) (auto intro: stream_deliver stream_read)

lemma stream_run_inv:
  assumes "(stream_step a x S)\<^sup>*\<^sup>* w w'" "stream_inv a x S w" "length S < 2 ^ 32"
  shows "stream_inv a x S w'"
  using assms by (induction rule: rtranclp_induct) (auto intro: stream_step_inv)

section \<open>In-order delivery\<close>

primrec deliver_all :: "tcp_socket \<Rightarrow> bytes list \<Rightarrow> tcp \<Rightarrow> net \<Rightarrow> (tcp \<times> net) option" where
  "deliver_all a [] t n = Some (t, n)"
| "deliver_all a (d # ds) t n = do {
     (t', n') \<leftarrow> tcp_on_rx (tcp_segment a 0x18 d) (20 + int (length d)) (ts_local_ip a) 0 t n;
     deliver_all (a\<lparr>ts_snd_nxt := ts_snd_nxt a + of_nat (length d)\<rparr>) ds t' n'
   }"

lemma deliver_all_recvd:
  assumes "tcp_ok t" "net_ok n" "connected a (g_sock t)" "ts_state (g_sock t) = TCP_ESTABLISHED"
    and "ts_snd_nxt a = ts_rcv_nxt (g_sock t)" "[] \<notin> set ds"
    and "ts_rx_len (g_sock t) + int (length (concat ds)) \<le> ts_rx_cap (g_sock t)"
  shows "\<exists>t' n'. deliver_all a ds t n = Some (t', n') \<and> tcp_ok t' \<and>
    recvd G_SOCK t' = recvd G_SOCK t @ concat ds \<and>
    ts_rcv_nxt (g_sock t') = ts_rcv_nxt (g_sock t) + of_nat (length (concat ds))"
  using assms
proof (induction ds arbitrary: a t n)
  case Nil
  then show ?case by simp
next
  case (Cons d ds)
  let ?g = "g_sock t"
  let ?g' = "?g\<lparr>ts_rx_len := ts_rx_len ?g + int (length d),
      ts_rcv_nxt := ts_rcv_nxt ?g + of_nat (length d)\<rparr>"
  have m: "min (int (length d)) (ts_rx_cap ?g - ts_rx_len ?g) = int (length d)" using Cons.prems(7) by simp
  obtain u v where u: "tcp_on_rx (tcp_segment a 0x18 d @ []) (20 + int (length d)) (ts_local_ip a) 0 t n = Some (u, v)"
      "tcp_ok u" "net_ok v" "g_sock u = ?g'" "recvd G_SOCK u = recvd G_SOCK t @ d"
    using tcp_on_rx_data [OF Cons.prems(3,4,1,2) _ Cons.prems(5), where d = d and g' = ?g' and r = "[]" and dst = 0]
      Cons.prems(6) m by auto
  have 1: "connected (a\<lparr>ts_snd_nxt := ts_snd_nxt a + of_nat (length d)\<rparr>) (g_sock u)"
      "ts_state (g_sock u) = TCP_ESTABLISHED"
      "ts_snd_nxt (a\<lparr>ts_snd_nxt := ts_snd_nxt a + of_nat (length d)\<rparr>) = ts_rcv_nxt (g_sock u)"
      "[] \<notin> set ds" "ts_rx_len (g_sock u) + int (length (concat ds)) \<le> ts_rx_cap (g_sock u)"
    using Cons.prems u(4) by simp_all
  from Cons.IH [OF u(2,3) 1] obtain t' n' where
    "deliver_all (a\<lparr>ts_snd_nxt := ts_snd_nxt a + of_nat (length d)\<rparr>) ds u v = Some (t', n')" "tcp_ok t'"
    "recvd G_SOCK t' = recvd G_SOCK u @ concat ds"
    "ts_rcv_nxt (g_sock t') = ts_rcv_nxt (g_sock u) + of_nat (length (concat ds))" by blast
  with u show ?case by simp
qed


section \<open>Opening a connection\<close>

lemma tcp_connect_spec:
  assumes "net_ok n" "ts_in_use (g_sock t) = 0"
  shows "\<exists>t1 n1. tcp_connect r ip prt sp t n = Some (0, t1, n1) \<and> net_ok n1 \<and>
    rb t1 = rb t \<and> iss_x t1 = iss_x t + 0x1000 \<and>
    g_sock t1 = zero_socket\<lparr>ts_in_use := 1, ts_state := TCP_SYN_SENT, ts_remote_ip := ip,
      ts_remote_port := prt, ts_local_ip := net_get_ip n,
      ts_local_port := (if sp \<noteq> 0 then sp else eph_p t), ts_snd_iss := iss_x t + 0x1000,
      ts_snd_nxt := iss_x t + 0x1000 + 1, ts_rx_buf := RX_RB, ts_rx_cap := 8192\<rparr>"
proof -
  define p where "p = (if sp \<noteq> 0 then sp else eph_p t)"
  define t' where "t' = (if sp \<noteq> 0 then t else t\<lparr>eph_p := eph_p t + 1\<rparr>)"
  have pick: "(if sp \<noteq> 0 then (sp, t) else pick_ephemeral t) = (p, t')"
    by (simp add: p_def t'_def pick_ephemeral_def)
  have t': "rb t' = rb t" "iss_x t' = iss_x t" by (simp_all add: t'_def)
  let ?s = "zero_socket\<lparr>ts_in_use := 1, ts_state := TCP_SYN_SENT, ts_remote_ip := ip,
      ts_remote_port := prt, ts_local_ip := net_get_ip n, ts_local_port := p,
      ts_snd_iss := iss_x t + 0x1000, ts_snd_nxt := iss_x t + 0x1000, ts_rcv_nxt := 0,
      ts_rx_buf := RX_RB, ts_rx_cap := 8192, ts_rx_len := 0\<rparr>"
  obtain n1 where n1: "tcp_send_segment ?s 0x02 [] n = Some n1" "net_ok n1"
    by (rule tcp_send_segment_obtain [OF assms(1)]) auto
  show ?thesis unfolding tcp_connect_def pick iss_def Let_def p_def [symmetric]
    using assms(2) n1 t' by (simp add: zero_socket_def)
qed

lemma tcp_rx_syn_ack:
  assumes "connected a (g_sock t)" "ts_state (g_sock t) = TCP_SYN_SENT" "tcp_ok t" "net_ok n"
    and "g' = (g_sock t)\<lparr>ts_rcv_nxt := ts_snd_nxt a + 1\<rparr>"
  shows "\<exists>n'. tcp_on_rx (tcp_segment a 0x12 []) 20 (ts_local_ip a) dst t n =
      Some (put_sock G_SOCK (g'\<lparr>ts_state := TCP_ESTABLISHED\<rparr>) t, n') \<and>
    tcp_send_segment g' 0x10 [] n = Some n' \<and> net_ok n'"
proof -
  have use: "ts_in_use (g_sock t) \<noteq> 0"
    using tcp_ok_sock [OF assms(3), of G_SOCK] assms(2) by (auto simp: sock_ok_def)
  obtain n' where n': "tcp_send_segment g' 0x10 [] n = Some n'" "net_ok n'"
    by (rule tcp_send_segment_obtain [OF assms(4)]) auto
  then show ?thesis
    using tcp_on_rx_segment [OF assms(1) use, where f = "0x12" and d = "[]" and r = "[]" and dst = dst and n = n]
      assms(2,5)
    by (simp add: tcp_rx_state_def Let_def)
qed

lemma handshake:
  assumes "tcp_ok t" "net_ok n" "ts_in_use (g_sock t) = 0" "ip = ts_local_ip a" "prt = ts_local_port a"
    and "ts_remote_port a = (if sp \<noteq> 0 then sp else eph_p t)"
  shows "\<exists>t1 n1 t2 n2. tcp_connect G_SOCK ip prt sp t n = Some (0, t1, n1) \<and>
    tcp_on_rx (tcp_segment a 0x12 []) 20 ip dst t1 n1 = Some (t2, n2) \<and>
    tcp_ok t2 \<and> net_ok n2 \<and> connected a (g_sock t2) \<and>
    ts_state (g_sock t2) = TCP_ESTABLISHED \<and> ts_rcv_nxt (g_sock t2) = ts_snd_nxt a + 1 \<and>
    ts_snd_nxt (g_sock t2) = iss_x t + 0x1001 \<and> recvd G_SOCK t2 = []"
proof -
  obtain t1 n1 where 1: "tcp_connect G_SOCK ip prt sp t n = Some (0, t1, n1)" "net_ok n1"
    and g: "g_sock t1 = zero_socket\<lparr>ts_in_use := 1, ts_state := TCP_SYN_SENT, ts_remote_ip := ip,
      ts_remote_port := prt, ts_local_ip := net_get_ip n,
      ts_local_port := (if sp \<noteq> 0 then sp else eph_p t), ts_snd_iss := iss_x t + 0x1000,
      ts_snd_nxt := iss_x t + 0x1000 + 1, ts_rx_buf := RX_RB, ts_rx_cap := 8192\<rparr>"
    using tcp_connect_spec [OF assms(2,3)] by blast
  have ok: "tcp_ok t1" using tcp_connect_ok [OF assms(1,2), of G_SOCK ip prt sp] 1(1) by auto
  have con: "connected a (g_sock t1)" "ts_state (g_sock t1) = TCP_SYN_SENT"
    using assms(4-6) g by (simp_all add: connected_def)
  obtain n2 where 2: "tcp_on_rx (tcp_segment a 0x12 []) 20 (ts_local_ip a) dst t1 n1 =
      Some (put_sock G_SOCK ((g_sock t1)\<lparr>ts_rcv_nxt := ts_snd_nxt a + 1, ts_state := TCP_ESTABLISHED\<rparr>) t1, n2)"
      "net_ok n2"
    using tcp_rx_syn_ack [OF con ok 1(2) refl] by auto
  let ?t2 = "put_sock G_SOCK ((g_sock t1)\<lparr>ts_rcv_nxt := ts_snd_nxt a + 1, ts_state := TCP_ESTABLISHED\<rparr>) t1"
  have "tcp_ok ?t2" using tcp_ok_sock [OF ok, of G_SOCK] con ok by (intro tcp_ok_put) (auto intro: sock_ok_update)
  then show ?thesis
    using 1 2 con assms(4) g by (intro exI [of _ t1] exI [of _ n1] exI [of _ ?t2] exI [of _ n2]) (auto simp: connected_def recvd_def zero_socket_def)
qed


lemma sock_ok_len: "sock_ok s \<Longrightarrow> 0 \<le> ts_rx_len s \<and> ts_rx_len s \<le> 8192"
  by (auto simp: sock_ok_def split: rx_ptr.splits)

text \<open>C1: In every run from an established connection with an empty buffer in which data segments of the peer's
  stream, shorter than 2^32 bytes, arrive in any order, repeatedly or not at all, with or without room for
  them, and the application reads in between, what it has read and what is buffered is the
  stream up to the byte acknowledged, in order, short of exactly the bytes for which the buffer had no
  room. While none was dropped it is a prefix of the stream.\<close>
lemma tcp_stream_prefix:
  assumes "(stream_step a x S)\<^sup>*\<^sup>* (t, n, [], 0) (t', n', out, lost)"
    and "tcp_ok t" "net_ok n" "connected a (g_sock t)" "ts_state (g_sock t) = TCP_ESTABLISHED"
    and "recvd G_SOCK t = []" "ts_rcv_nxt (g_sock t) = x" "length S < 2 ^ 32"
  shows "\<exists>k \<le> length S. ts_rcv_nxt (g_sock t') = x + of_nat k \<and>
    subseq (out @ recvd G_SOCK t') (take k S) \<and> length (out @ recvd G_SOCK t') + lost = k \<and>
    (lost = 0 \<longrightarrow> out @ recvd G_SOCK t' = take k S)"
proof -
  have "stream_inv a x S (t, n, [], 0)" using assms(2-7) by (auto simp: stream_inv_def intro: exI [of _ 0])
  then have "stream_inv a x S (t', n', out, lost)" using stream_run_inv [OF assms(1)] assms(8) by blast
  then obtain k where k: "k \<le> length S" "subseq (out @ recvd G_SOCK t') (take k S)"
    "length (out @ recvd G_SOCK t') + lost = k" "ts_rcv_nxt (g_sock t') = x + of_nat k" by (auto simp: stream_inv_def)
  then have "lost = 0 \<longrightarrow> out @ recvd G_SOCK t' = take k S" using subseq_full [OF k(2)] by simp
  with k show ?thesis by blast
qed

text \<open>An established connection and its peer, for the examples.\<close>

definition est_sock :: tcp_socket where
  "est_sock = zero_socket\<lparr>ts_in_use := 1, ts_state := TCP_ESTABLISHED, ts_remote_ip := 7,
     ts_remote_port := 80, ts_local_ip := 9, ts_local_port := 40000, ts_snd_nxt := 0x12341001,
     ts_rcv_nxt := 501, ts_rx_buf := RX_RB, ts_rx_cap := 8192\<rparr>"

definition est_peer :: tcp_socket where
  "est_peer = zero_socket\<lparr>ts_in_use := 1, ts_state := TCP_ESTABLISHED, ts_remote_ip := 9,
     ts_remote_port := 40000, ts_local_ip := 7, ts_local_port := 80, ts_snd_nxt := 501\<rparr>"

definition est_tcp :: tcp where
  "est_tcp = put_sock G_SOCK est_sock tcp_boot"

lemma est_facts [simp]:
  "tcp_ok est_tcp" "connected est_peer (g_sock est_tcp)" "g_sock est_tcp = est_sock"
  "ts_state est_sock = TCP_ESTABLISHED" "ts_rcv_nxt est_sock = 501" "ts_snd_nxt est_peer = 501"
  "ts_rx_len est_sock = 0" "ts_rx_cap est_sock = 8192" "recvd G_SOCK est_tcp = []"
  "ts_in_use est_sock = 1" "ts_rx_buf est_sock = RX_RB" "connected est_peer est_sock"
proof -
  show "g_sock est_tcp = est_sock" by (simp add: est_tcp_def)
  show "tcp_ok est_tcp" unfolding est_tcp_def
    by (rule tcp_ok_put) (simp_all add: tcp_ok_boot sock_ok_def est_sock_def zero_socket_def)
qed (simp_all add: est_tcp_def est_sock_def est_peer_def connected_def recvd_def zero_socket_def)

lemma tcp_stream_prefix_witness:
  "\<exists>t' n' k. (stream_step est_peer 501 [1, 2, 3])\<^sup>*\<^sup>* (est_tcp, net_boot, [], 0) (t', n', [], 0) \<and>
     t' \<noteq> est_tcp \<and> k \<le> length [1 :: u8, 2, 3] \<and> recvd G_SOCK t' = take k [1, 2, 3]"
proof -
  let ?g = "est_sock\<lparr>ts_rx_len := 2, ts_rcv_nxt := 503\<rparr>"
  obtain t' n' where r: "tcp_on_rx (tcp_segment est_peer 0x18 [1, 2] @ []) (20 + int (length [1 :: u8, 2]))
      (ts_local_ip est_peer) 0 est_tcp net_boot = Some (t', n')" "g_sock t' = ?g"
    using tcp_on_rx_data [of est_peer est_tcp net_boot "[1, 2]" 2 ?g "[]" 0] by auto
  have p: "est_peer\<lparr>ts_snd_nxt := 501\<rparr> = est_peer" by (simp add: est_peer_def zero_socket_def)
  have z: "dropped (g_sock est_tcp) 501 2 = 0" by (simp add: dropped_def)
  have "stream_step est_peer 501 [1, 2, 3] (est_tcp, net_boot, [], 0)
      (t', n', [], 0 + dropped (g_sock est_tcp) (501 + of_nat 0) 2)"
    by (rule stream_step.deliver [where junk = "[]" and dst = 0]) (use r(1) in \<open>simp_all add: p\<close>)
  then have s: "stream_step est_peer 501 [1, 2, 3] (est_tcp, net_boot, [], 0) (t', n', [], 0)"
    using z by simp
  have "t' \<noteq> est_tcp" using r(2) by (auto simp: est_sock_def zero_socket_def)
  have run: "(stream_step est_peer 501 [1, 2, 3])\<^sup>*\<^sup>* (est_tcp, net_boot, [], 0) (t', n', [], 0)"
    using s by (rule r_into_rtranclp)
  obtain k where "k \<le> length [1 :: u8, 2, 3]" "recvd G_SOCK t' = take k [1, 2, 3]"
    using tcp_stream_prefix [OF run] by auto
  with run \<open>t' \<noteq> est_tcp\<close> show ?thesis by blast
qed

text \<open>Segments that arrive in order on an established connection and fit the buffer are read
  back by \<open>tcp_recv\<close> as the concatenation of their payloads.\<close>
lemma tcp_in_order_delivery:
  assumes "tcp_ok t" "net_ok n" "connected a (g_sock t)" "ts_state (g_sock t) = TCP_ESTABLISHED"
    and "ts_snd_nxt a = ts_rcv_nxt (g_sock t)" "[] \<notin> set ds"
    and "ts_rx_len (g_sock t) + int (length (concat ds)) \<le> 8192" "ts_rx_cap (g_sock t) = 8192"
  shows "\<exists>t' n' t''. deliver_all a ds t n = Some (t', n') \<and>
    tcp_recv G_SOCK 8192 t' = Some (recvd G_SOCK t @ concat ds, t'') \<and>
    recvd G_SOCK t'' = [] \<and> ts_rx_len (g_sock t'') = 0 \<and>
    ts_rcv_nxt (g_sock t'') = ts_rcv_nxt (g_sock t) + of_nat (length (concat ds))"
proof -
  obtain t' n' where d: "deliver_all a ds t n = Some (t', n')" "tcp_ok t'"
    "recvd G_SOCK t' = recvd G_SOCK t @ concat ds"
    "ts_rcv_nxt (g_sock t') = ts_rcv_nxt (g_sock t) + of_nat (length (concat ds))"
    using deliver_all_recvd [OF assms(1-6)] assms(7,8) by auto
  have "length (rb t') = 8192" using d(2) by (simp add: tcp_ok_def)
  then have "length (recvd G_SOCK t') \<le> 8192" "ts_rx_len (g_sock t') \<le> 8192"
    using sock_ok_len [OF tcp_ok_sock [OF d(2), of G_SOCK]] by (auto simp: recvd_def)
  moreover obtain t'' where "tcp_recv G_SOCK 8192 t' = Some (take (nat 8192) (recvd G_SOCK t'), t'')"
    "recvd G_SOCK t'' = drop (nat 8192) (recvd G_SOCK t')"
    "g_sock t'' = (g_sock t')\<lparr>ts_rx_len := ts_rx_len (g_sock t') - min 8192 (ts_rx_len (g_sock t'))\<rparr>"
    using tcp_recv_spec [OF d(2), of 8192 G_SOCK] by auto
  ultimately show ?thesis using d by simp
qed

lemma tcp_in_order_delivery_witness:
  "\<exists>t' n' t''. deliver_all est_peer [[1, 2], [3]] est_tcp net_boot = Some (t', n') \<and>
     tcp_recv G_SOCK 8192 t' = Some ([1, 2, 3], t'')"
  using tcp_in_order_delivery [of est_tcp net_boot est_peer "[[1, 2], [3]]"] by auto


text \<open>C2: In every state the calls of the client, segments and the network can lead to, a segment of
  any bytes is processed without an access out of bounds, and the buffer and the state of the
  socket stay consistent.\<close>
lemma tcp_reachable_safe:
  assumes "tcp_reachable (t, n)" "len \<le> int (length pkt)"
  shows "\<exists>t' n'. tcp_on_rx pkt len src dst t n = Some (t', n') \<and> tcp_reachable (t', n') \<and>
    length (rb t') = 8192 \<and> 0 \<le> ts_rx_len (g_sock t') \<and> ts_rx_len (g_sock t') \<le> 8192 \<and>
    (ts_in_use (g_sock t') = 0 \<longleftrightarrow> ts_state (g_sock t') = TCP_CLOSED)"
proof -
  have ok: "tcp_ok t" "net_ok n" using tcp_reachable_ok [OF assms(1)] by simp_all
  obtain t' n' where r: "tcp_on_rx pkt len src dst t n = Some (t', n')" "tcp_ok t'"
    using tcp_on_rx_ok [OF ok assms(2)] by blast
  have "tcp_reachable (t', n')"
    using assms tcp_step.rx [OF assms(2) r(1)] by (auto simp: tcp_reachable_def intro: rtranclp.rtrancl_into_rtrancl)
  moreover have "sock_ok (g_sock t')" "length (rb t') = 8192" using r(2) by (simp_all add: tcp_ok_def)
  ultimately show ?thesis using r(1) sock_ok_len [of "g_sock t'"] by (auto simp: sock_ok_def)
qed

lemma tcp_reachable_safe_witness:
  "\<exists>t' n'. tcp_on_rx [1, 2, 3] 3 7 9 tcp_boot net_boot = Some (t', n') \<and> tcp_reachable (t', n')"
proof -
  have "tcp_reachable (tcp_boot, net_boot)"
    unfolding tcp_reachable_def by (intro exI [of _ net_boot]) simp
  then show ?thesis using tcp_reachable_safe [of tcp_boot net_boot 3 "[1, 2, 3]" 7 9] by auto
qed

text \<open>C3: A segment for the socket takes exactly the step of the abstract state machine that its flags
  allow: a reset closes, SYN and ACK establish, FIN and ACK advance, anything else leaves the state.
  A segment that is not for the socket changes nothing, no segment changes another
  socket, and short of a reset no state is entered again.\<close>
lemma tcp_state_machine:
  assumes "tcp_on_rx pkt len src dst t n = Some (t', n')"
  shows "(if for_sock pkt len src (g_sock t)
      then \<exists>flags. ld8 pkt 13 = Some flags \<and>
        (\<forall>s. rx_fsm flags (ts_state (g_sock t)) s \<longleftrightarrow> s = ts_state (g_sock t')) \<and>
        (ts_state (g_sock t') = TCP_CLOSED \<or> ts_state (g_sock t) \<le> ts_state (g_sock t'))
      else (t', n') = (t, n)) \<and> (\<forall>r. r \<noteq> G_SOCK \<longrightarrow> socks t' r = socks t r)"
  using tcp_on_rx_fsm [OF assms] rx_fsm_mono rx_fsm_deterministic by (simp split: if_splits) blast

lemma tcp_state_machine_witness:
  "\<exists>t' n'. tcp_on_rx (tcp_segment est_peer 0x04 []) 20 7 9 est_tcp net_boot = Some (t', n') \<and>
     ts_state (g_sock est_tcp) = TCP_ESTABLISHED \<and> ts_state (g_sock t') = TCP_CLOSED"
proof -
  let ?t = "put_sock G_SOCK (est_sock\<lparr>ts_state := TCP_CLOSED, ts_in_use := 0\<rparr>) est_tcp"
  have ip: "ts_local_ip est_peer = 7" by (simp add: est_peer_def)
  then have r: "tcp_on_rx (tcp_segment est_peer 0x04 []) 20 7 9 est_tcp net_boot = Some (?t, net_boot)"
    using tcp_on_rx_rst [of est_peer est_tcp "0x04" "[]" "[]" 9 net_boot] by simp
  have f: "ld8 (tcp_segment est_peer 0x04 []) 13 = Some 0x04"
    using tcp_segment_fields(6) [of est_peer "0x04" "[]" "[]"] by simp
  have "for_sock (tcp_segment est_peer 0x04 []) 20 7 (g_sock est_tcp)"
    using tcp_segment_fields [of est_peer "0x04" "[]" "[]"] est_facts(12) ip by (simp add: for_sock_def connected_def)
  with tcp_state_machine [OF r] f have m: "rx_fsm 0x04 TCP_ESTABLISHED s \<longleftrightarrow> s = ts_state (g_sock ?t)" for s by simp
  have "rx_fsm (0x04 :: u8) TCP_ESTABLISHED TCP_CLOSED" by (rule rx_fsm.rst) simp
  with m have "ts_state (g_sock ?t) = TCP_CLOSED" by metis
  with r show ?thesis by auto
qed

text \<open>\<open>tcp_connect\<close> followed by the answer of the peer with SYN and ACK gives an established
  connection with the sequence numbers of both sides and an empty buffer.\<close>
lemma tcp_handshake:
  assumes "tcp_ok t" "net_ok n" "ts_in_use (g_sock t) = 0" "ip = ts_local_ip a" "prt = ts_local_port a"
    and "ts_remote_port a = (if sp \<noteq> 0 then sp else eph_p t)"
  shows "\<exists>t1 n1 t2 n2. tcp_connect G_SOCK ip prt sp t n = Some (0, t1, n1) \<and>
    tcp_on_rx (tcp_segment a 0x12 []) 20 ip dst t1 n1 = Some (t2, n2) \<and>
    tcp_ok t2 \<and> net_ok n2 \<and> connected a (g_sock t2) \<and>
    ts_state (g_sock t2) = TCP_ESTABLISHED \<and> ts_rcv_nxt (g_sock t2) = ts_snd_nxt a + 1 \<and>
    ts_snd_nxt (g_sock t2) = iss_x t + 0x1001 \<and> recvd G_SOCK t2 = []"
  using handshake [OF assms] .

lemma tcp_handshake_witness:
  "\<exists>t1 n1 t2 n2. tcp_connect G_SOCK 7 80 0 tcp_boot net_boot = Some (0, t1, n1) \<and>
    tcp_on_rx (tcp_segment est_peer 0x12 []) 20 7 9 t1 n1 = Some (t2, n2) \<and>
    ts_state (g_sock t2) = TCP_ESTABLISHED \<and> ts_rcv_nxt (g_sock t2) = 502"
  using tcp_handshake [of tcp_boot net_boot 7 est_peer 80 0 9] tcp_ok_boot
  by (fastforce simp: tcp_boot_def zero_socket_def est_peer_def)

text \<open>With the receive buffer full, data in sequence is dropped, and yet counted and acknowledged
  as received: the peer never sends it again.\<close>
lemma tcp_full_buffer:
  assumes "connected a (g_sock t)" "ts_state (g_sock t) = TCP_ESTABLISHED" "tcp_ok t" "net_ok n"
    and "ts_rx_cap (g_sock t) = 8192" "ts_rx_len (g_sock t) = 8192"
    and "d \<noteq> []" "ts_snd_nxt a = ts_rcv_nxt (g_sock t)"
  shows "\<exists>t' n'. tcp_on_rx (tcp_segment a 0x18 d) (20 + int (length d)) (ts_local_ip a) dst t n = Some (t', n') \<and>
    recvd G_SOCK t' = recvd G_SOCK t \<and>
    ts_rcv_nxt (g_sock t') = ts_rcv_nxt (g_sock t) + of_nat (length d) \<and>
    tcp_send_segment (g_sock t') 0x10 [] n = Some n'"
  using tcp_on_rx_data [OF assms(1-4,7,8) refl refl, where r = "[]" and dst = dst] assms(5,6) by auto

lemma tcp_full_buffer_witness:
  "\<exists>t t' n'. length (recvd G_SOCK t) = 8192 \<and>
    tcp_on_rx (tcp_segment est_peer 0x18 [1]) 21 7 9 t net_boot = Some (t', n') \<and>
    recvd G_SOCK t' = recvd G_SOCK t \<and> ts_rcv_nxt (g_sock t') = ts_rcv_nxt (g_sock t) + 1"
proof -
  let ?g = "est_sock\<lparr>ts_rx_len := 8192\<rparr>"
  let ?t = "put_sock G_SOCK ?g est_tcp"
  have ok: "tcp_ok ?t" by (rule tcp_ok_put) (simp_all add: sock_ok_def)
  have "length (rb est_tcp) = 8192" using est_facts(1) unfolding tcp_ok_def by blast
  then have len: "length (recvd G_SOCK ?t) = 8192" by (simp add: recvd_def)
  have c: "connected est_peer (g_sock ?t)" by simp
  have "ts_local_ip est_peer = 7" by (simp add: est_peer_def)
  then obtain t' n' where "tcp_on_rx (tcp_segment est_peer 0x18 [1]) 21 7 9 ?t net_boot = Some (t', n')"
    "recvd G_SOCK t' = recvd G_SOCK ?t" "ts_rcv_nxt (g_sock t') = ts_rcv_nxt (g_sock ?t) + 1"
    using tcp_full_buffer [OF c _ ok net_ok_boot, of "[1]" 9] by auto
  with len show ?thesis by blast
qed

text \<open>On a socket other than \<open>g_sock\<close>, as the HTTPS client uses one, sending fails and nothing
  is ever received, in every state that can be reached.\<close>
lemma tls_socket_never_sends:
  assumes "tcp_reachable (t, n)"
  shows "tcp_send (HEAP_SOCK k) d len t n = Some (-1, t, n) \<and> tcp_recv (HEAP_SOCK k) m t = Some ([], t)"
  using heap_sock_send_fails tcp_reachable_heap_idle [OF assms] by simp

lemma tls_socket_never_sends_witness:
  "\<exists>t1 n1. tcp_connect (HEAP_SOCK 0) 7 443 0 tcp_boot net_boot = Some (0, t1, n1) \<and>
     tcp_send (HEAP_SOCK 0) [1] 1 t1 n1 = Some (-1, t1, n1)"
proof -
  have z: "ts_in_use (g_sock tcp_boot) = 0" by (simp add: tcp_boot_def zero_socket_def)
  obtain t1 n1 where c: "tcp_connect (HEAP_SOCK 0) 7 443 0 tcp_boot net_boot = Some (0, t1, n1)"
    using tcp_connect_spec [OF net_ok_boot z] by blast
  then have "tcp_reachable (t1, n1)"
    unfolding tcp_reachable_def
    by (intro exI [of _ net_boot] conjI net_ok_boot r_into_rtranclp tcp_step.connect)
  from tls_socket_never_sends [OF this] c show ?thesis by blast
qed

text \<open>C36: Every segment, put behind the pseudo header it was summed with, passes the checksum test of
  a receiver.\<close>
lemma tcp_checksum_valid:
  assumes "length payload \<le> 1460"
  shows "csum16 (pseudo_hdr (ts_local_ip s) (ts_remote_ip s) (length (tcp_segment s flags payload)) @
      tcp_segment s flags payload) = 0"
  by (rule tcp_segment_checksum) (rule assms)

lemma tcp_checksum_valid_witness:
  "csum16 (pseudo_hdr (ts_local_ip est_peer) (ts_remote_ip est_peer) 23 @
      tcp_segment est_peer 0x18 [1, 2, 3]) = 0"
  using tcp_checksum_valid [of "[1, 2, 3]" est_peer "0x18"] by simp

end
