(* ===== verification/Cstring.thy ===== *)
theory Cstring
  imports Prelude
begin

text \<open>
  The string and memory functions of \<open>src/string.c\<close>. A C string is the list of its
  bytes before the terminating NUL: \<open>*s == 0\<close> is the empty list, \<open>s++\<close> the tail. A
  pointer result is the offset into the argument, or \<open>None\<close> for \<open>NULL\<close>. \<open>memcpy\<close> between
  distinct objects is \<open>rdn\<close> and \<open>blit\<close> of the prelude; \<open>memmove\<close> works inside one object.
  The lemmas give each loop its mathematical meaning; \<open>snprintf\<close> knows \<open>%s\<close> only.
\<close>

type_synonym cstr = bytes

text \<open>String literals of the source.\<close>

definition lit :: "string \<Rightarrow> cstr" where
  "lit s = map (\<lambda>c. word_of_nat (of_char c)) s"

section \<open>Strings\<close>

fun strlen :: "cstr \<Rightarrow> nat" where
  "strlen [] = 0"
| "strlen (c # s) = strlen s + 1"

fun strchr :: "cstr \<Rightarrow> u8 \<Rightarrow> nat option" where
  "strchr [] c = None"
| "strchr (x # s) c = (if x = c then Some 0 else map_option Suc (strchr s c))"

text \<open>The inner loop of \<open>strstr\<close>: did the needle run out?\<close>

fun str_prefix :: "cstr \<Rightarrow> cstr \<Rightarrow> bool" where
  "str_prefix h [] = True"
| "str_prefix [] (n # ns) = False"
| "str_prefix (h # hs) (n # ns) = (h = n \<and> str_prefix hs ns)"

fun strstr_loop :: "cstr \<Rightarrow> cstr \<Rightarrow> nat option" where
  "strstr_loop [] n = None"
| "strstr_loop (h # hs) n =
     (if str_prefix (h # hs) n then Some 0 else map_option Suc (strstr_loop hs n))"

definition strstr :: "cstr \<Rightarrow> cstr \<Rightarrow> nat option" where
  "strstr h n = (if n = [] then Some 0 else strstr_loop h n)"

text \<open>Signed overflow of the accumulator is undefined behaviour.\<close>

fun atoi_loop :: "cstr \<Rightarrow> int \<Rightarrow> int option" where
  "atoi_loop [] n = Some n"
| "atoi_loop (c # s) n =
     (if 48 \<le> c \<and> c \<le> 57 then do {
        let m = n * 10 + (int (unat c) - 48);
        assert_that (m < 2 ^ 31);
        atoi_loop s m
      }
      else Some n)"

definition atoi :: "cstr \<Rightarrow> int option" where
  "atoi s = atoi_loop s 0"

fun strcmp :: "cstr \<Rightarrow> cstr \<Rightarrow> int" where
  "strcmp (a # as) (b # bs) = (if a = b then strcmp as bs else int (unat a) - int (unat b))"
| "strcmp [] [] = 0"
| "strcmp (a # as) [] = int (unat a)"
| "strcmp [] (b # bs) = - int (unat b)"

fun strncmp :: "cstr \<Rightarrow> cstr \<Rightarrow> nat \<Rightarrow> int" where
  "strncmp as bs 0 = 0"
| "strncmp (a # as) (b # bs) (Suc n) = (if a = b then strncmp as bs n else int (unat a) - int (unat b))"
| "strncmp [] [] (Suc n) = 0"
| "strncmp (a # as) [] (Suc n) = int (unat a)"
| "strncmp [] (b # bs) (Suc n) = - int (unat b)"

text \<open>The string in the destination after \<open>strncpy\<close>: unlike the standard's, at most \<open>n - 1\<close> bytes.\<close>

fun strncpy :: "cstr \<Rightarrow> nat \<Rightarrow> cstr" where
  "strncpy (c # s) (Suc (Suc n)) = c # strncpy s (Suc n)"
| "strncpy s n = []"

text \<open>\<open>while (*s && i < size-1) buf[i++] = *s++\<close> with \<open>n\<close> places left.\<close>

fun put_str :: "cstr \<Rightarrow> nat \<Rightarrow> cstr" where
  "put_str (c # s) (Suc n) = c # put_str s n"
| "put_str s n = []"

fun snprintf_loop :: "nat \<Rightarrow> cstr \<Rightarrow> cstr list \<Rightarrow> cstr \<Rightarrow> cstr option" where
  "snprintf_loop cap (c # p) args out =
     (if length out < cap then
        (if c = 37 \<and> (case p of x # _ \<Rightarrow> x = 115 | [] \<Rightarrow> False) then
           (case args of [] \<Rightarrow> None
            | s # rest \<Rightarrow> snprintf_loop cap (tl p) rest (out @ put_str s (cap - length out)))
         else snprintf_loop cap p args (out @ [c]))
      else Some out)"
| "snprintf_loop cap [] args out = Some out"

text \<open>
  The string written; the return value is its length. A missing argument is
  undefined behaviour, a size of 0 writes nothing.
\<close>

definition snprintf :: "nat \<Rightarrow> cstr \<Rightarrow> cstr list \<Rightarrow> cstr option" where
  "snprintf sz fmt args = (if sz = 0 then Some [] else snprintf_loop (sz - 1) fmt args [])"

section \<open>Memory\<close>

definition memset :: "u8 \<Rightarrow> nat \<Rightarrow> bytes \<Rightarrow> nat \<Rightarrow> bytes option" where
  "memset v n m d = for_loop (\<lambda>i m. do {
     assert_that (d + i < length m);
     Some (m[d + i := v]) }) [0..<n] m"

definition copy_byte :: "nat \<Rightarrow> nat \<Rightarrow> nat \<Rightarrow> bytes \<Rightarrow> bytes option" where
  "copy_byte d s i m = do {
     v \<leftarrow> ld8 m (s + i);
     assert_that (d + i < length m);
     Some (m[d + i := v])
   }"

definition memcpy :: "nat \<Rightarrow> nat \<Rightarrow> nat \<Rightarrow> bytes \<Rightarrow> bytes option" where
  "memcpy d s n m = for_loop (copy_byte d s) [0..<n] m"

definition memmove :: "nat \<Rightarrow> nat \<Rightarrow> nat \<Rightarrow> bytes \<Rightarrow> bytes option" where
  "memmove d s n m =
     (if d = s \<or> n = 0 then Some m
      else if d < s then for_loop (copy_byte d s) [0..<n] m
      else for_loop (copy_byte d s) (rev [0..<n]) m)"

section \<open>What the string loops compute\<close>

lemma strlen_length [simp]: "strlen s = length s"
  by (induction s) auto

lemma strchr_None: "strchr s c = None \<longleftrightarrow> c \<notin> set s"
  by (induction s) auto

lemma strchr_Some: "strchr s c = Some i \<longleftrightarrow> i < length s \<and> s ! i = c \<and> c \<notin> set (take i s)"
proof (induction s arbitrary: i)
  case Nil
  then show ?case by simp
next
  case (Cons x s)
  then show ?case by (cases i) auto
qed

lemma str_prefix_take: "str_prefix h n \<longleftrightarrow> take (length n) h = n"
  by (induction h n rule: str_prefix.induct) auto

lemma strstr_loop_None: "n \<noteq> [] \<Longrightarrow> strstr_loop h n = None \<longleftrightarrow> (\<forall>i. take (length n) (drop i h) \<noteq> n)"
proof (induction h)
  case Nil
  then show ?case by simp
next
  case (Cons x h)
  have "(\<forall>i. P i) \<longleftrightarrow> P 0 \<and> (\<forall>i. P (Suc i))" for P :: "nat \<Rightarrow> bool"
    by (metis not0_implies_Suc)
  from this [of "\<lambda>i. take (length n) (drop i (x # h)) \<noteq> n"] Cons show ?case
    by (simp add: str_prefix_take)
qed

lemma strstr_loop_Some: "n \<noteq> [] \<Longrightarrow> strstr_loop h n = Some i \<longleftrightarrow>
    take (length n) (drop i h) = n \<and> (\<forall>j < i. take (length n) (drop j h) \<noteq> n)"
proof (induction h arbitrary: i)
  case Nil
  then show ?case by simp
next
  case (Cons x h)
  show ?case
  proof (cases i)
    case 0
    then show ?thesis by (auto simp: str_prefix_take)
  next
    case (Suc k)
    have "(\<forall>j < Suc k. P j) \<longleftrightarrow> P 0 \<and> (\<forall>j < k. P (Suc j))" for P :: "nat \<Rightarrow> bool"
      using less_Suc_eq_0_disj by auto
    from this [of "\<lambda>j. take (length n) (drop j (x # h)) \<noteq> n"] Suc Cons show ?thesis
      by (auto simp: str_prefix_take)
  qed
qed

lemma strcmp_eq_0: "0 \<notin> set a \<Longrightarrow> 0 \<notin> set b \<Longrightarrow> strcmp a b = 0 \<longleftrightarrow> a = b"
  by (induction a b rule: strcmp.induct) (auto simp: uint_0_iff simp flip: word_uint_eq_iff)

lemma strncmp_eq_0:
  "0 \<notin> set a \<Longrightarrow> 0 \<notin> set b \<Longrightarrow> strncmp a b n = 0 \<longleftrightarrow> take n a = take n b"
  by (induction a b n rule: strncmp.induct) (auto simp: uint_0_iff simp flip: word_uint_eq_iff)

lemma strncpy_take: "strncpy s n = take (n - 1) s"
  by (induction s n rule: strncpy.induct) auto

lemma put_str_take: "put_str s n = take n s"
  by (induction s n rule: put_str.induct) auto

text \<open>What \<open>snprintf\<close> writes is the expansion of the format, cut to the buffer.\<close>

fun fmt_expand :: "cstr \<Rightarrow> cstr list \<Rightarrow> cstr option" where
  "fmt_expand (c # p) args =
     (if c = 37 \<and> (case p of x # _ \<Rightarrow> x = 115 | [] \<Rightarrow> False) then
        (case args of [] \<Rightarrow> None | s # rest \<Rightarrow> map_option ((@) s) (fmt_expand (tl p) rest))
      else map_option ((#) c) (fmt_expand p args))"
| "fmt_expand [] args = Some []"

lemma snprintf_loop_expand:
  "fmt_expand p args = Some e \<Longrightarrow> length out \<le> cap \<Longrightarrow>
    snprintf_loop cap p args out = Some (take cap (out @ e))"
proof (induction cap p args out arbitrary: e rule: snprintf_loop.induct)
  case (1 cap c p args out)
  show ?case
  proof (cases "length out < cap")
    case False
    with 1 show ?thesis by simp
  next
    case room: True
    show ?thesis
    proof (cases "c = 37 \<and> (case p of x # _ \<Rightarrow> x = 115 | [] \<Rightarrow> False)")
      case True
      with "1.prems" obtain s rest e' where a: "args = s # rest" "fmt_expand (tl p) rest = Some e'" "e = s @ e'"
        by (auto split: list.splits)
      have "snprintf_loop cap (tl p) rest (out @ put_str s (cap - length out)) =
          Some (take cap ((out @ put_str s (cap - length out)) @ e'))"
        by (rule "1.IH"(1) [OF room True a(1,2)]) (use room in \<open>simp add: put_str_take\<close>)
      moreover have "take cap ((out @ put_str s (cap - length out)) @ e') = take cap (out @ e)"
        using room a(3) by (auto simp: put_str_take min_def)
      ultimately show ?thesis using room True a(1) by simp
    next
      case False
      with "1.prems" obtain e' where e: "fmt_expand p args = Some e'" "e = c # e'" by auto
      from "1.IH"(2) [OF room False e(1)] room e(2) False show ?thesis by auto
    qed
  qed
qed simp

lemma snprintf_expand:
  "fmt_expand fmt args = Some e \<Longrightarrow> 0 < sz \<Longrightarrow> snprintf sz fmt args = Some (take (sz - 1) e)"
  by (simp add: snprintf_def snprintf_loop_expand)

lemma fmt_expand_append:
  assumes "37 \<notin> set p"
  shows "fmt_expand (p @ q) args = map_option ((@) p) (fmt_expand q args)"
  using assms by (induction p) (auto split: option.splits simp: map_option_case)


section \<open>Memory\<close>

lemma memset_spec:
  assumes "d + n \<le> length m"
  shows "memset v n m d = Some (take d m @ replicate n v @ drop (d + n) m)"
proof -
  have "for_loop (\<lambda>i m. do { assert_that (d + i < length m); Some (m[d + i := v]) }) [0..<k] m =
      Some (take d m @ replicate k v @ drop (d + k) m)" if "k \<le> n" for k
    using that
  proof (induction k)
    case 0
    then show ?case by simp
  next
    case (Suc k)
    then have dk: "d + k < length m" using assms by simp
    have drop: "drop (d + k) m = m ! (d + k) # drop (d + Suc k) m"
      using dk by (simp add: Cons_nth_drop_Suc)
    let ?m = "take d m @ replicate k v @ drop (d + k) m"
    have "length ?m = length m" using dk by simp
    moreover have "?m[d + k := v] = take d m @ replicate (Suc k) v @ drop (d + Suc k) m"
      using dk unfolding drop by (simp add: list_update_append replicate_app_Cons_same)
    ultimately show ?case using Suc dk by (simp add: for_loop_append del: length_append)
  qed
  then show ?thesis by (simp add: memset_def)
qed

text \<open>The state of a copy loop after some of the bytes: \<open>I\<close> says which were copied.\<close>

definition copied :: "nat \<Rightarrow> nat \<Rightarrow> (nat \<Rightarrow> bool) \<Rightarrow> bytes \<Rightarrow> bytes \<Rightarrow> bool" where
  "copied d s I m m' \<longleftrightarrow> length m' = length m \<and>
     (\<forall>j < length m. m' ! j = (if d \<le> j \<and> I (j - d) then m ! (s + (j - d)) else m ! j))"

lemma copied_step:
  assumes "copied d s I m m'" "s + i < length m" "d + i < length m"
    and "\<not> (d \<le> s + i \<and> I (s + i - d))"
  shows "\<exists>m''. copy_byte d s i m' = Some m'' \<and> copied d s (\<lambda>k. k = i \<or> I k) m m''"
proof -
  have len: "length m' = length m" and nth: "m' ! j = (if d \<le> j \<and> I (j - d) then m ! (s + (j - d)) else m ! j)"
    if "j < length m" for j
    using assms(1) that by (auto simp: copied_def)
  have "m' ! (s + i) = m ! (s + i)" using assms nth [of "s + i"] by auto
  then have "copy_byte d s i m' = Some (m'[d + i := m ! (s + i)])"
    using assms len by (simp add: copy_byte_def ld8_def copied_def)
  moreover have "m'[d + i := m ! (s + i)] ! j =
      (if d \<le> j \<and> (j - d = i \<or> I (j - d)) then m ! (s + (j - d)) else m ! j)" if "j < length m" for j
  proof (cases "j = d + i")
    case True
    then show ?thesis using assms(3) len [OF that] by simp
  next
    case False
    then have "\<not> (d \<le> j \<and> j - d = i)" by arith
    then have "(d \<le> j \<and> (j - d = i \<or> I (j - d))) = (d \<le> j \<and> I (j - d))" by blast
    with False nth [OF that] show ?thesis by simp
  qed
  then have "copied d s (\<lambda>k. k = i \<or> I k) m (m'[d + i := m ! (s + i)])"
    using assms(1) by (simp add: copied_def)
  ultimately show ?thesis by blast
qed

lemma copied_all:
  assumes "copied d s (\<lambda>k. k < n) m m'" "d + n \<le> length m" "s + n \<le> length m"
  shows "m' = take d m @ take n (drop s m) @ drop (d + n) m"
proof (rule nth_equalityI)
  show "length m' = length (take d m @ take n (drop s m) @ drop (d + n) m)"
    using assms by (simp add: copied_def)
  fix j
  assume "j < length m'"
  then show "m' ! j = (take d m @ take n (drop s m) @ drop (d + n) m) ! j"
    using assms by (auto simp: copied_def nth_append)
qed

lemma copy_forward:
  assumes "d \<le> s" "d + n \<le> length m" "s + n \<le> length m"
  shows "\<exists>m'. for_loop (copy_byte d s) [0..<n] m = Some m' \<and> copied d s (\<lambda>k. k < n) m m'"
  using assms(2,3)
proof (induction n)
  case 0
  then show ?case by (simp add: copied_def)
next
  case (Suc n)
  then obtain m' where m': "for_loop (copy_byte d s) [0..<n] m = Some m'" "copied d s (\<lambda>k. k < n) m m'"
    by auto
  have "\<not> s + n - d < n" using assms(1) by arith
  with copied_step [OF m'(2), of n] Suc.prems obtain m'' where
    "copy_byte d s n m' = Some m''" "copied d s (\<lambda>k. k = n \<or> k < n) m m''" by auto
  moreover have "(\<lambda>k. k = n \<or> k < n) = (\<lambda>k. k < Suc n)" by auto
  ultimately show ?case using m'(1) by (simp add: for_loop_append)
qed

lemma copy_backward:
  assumes "s < d" "k \<le> n" "d + n \<le> length m"
  shows "\<exists>m'. for_loop (copy_byte d s) (rev [k..<n]) m = Some m' \<and> copied d s (\<lambda>i. k \<le> i \<and> i < n) m m'"
  using assms(2)
proof (induction "n - k" arbitrary: k)
  case 0
  then have none: "(\<lambda>i. k \<le> i \<and> i < n) = (\<lambda>_. False)" by auto
  from 0 show ?case unfolding none by (simp add: copied_def)
next
  case (Suc q)
  then have k: "k < n" "q = n - Suc k" "Suc k \<le> n" by auto
  from Suc.hyps(1) [OF k(2,3)] obtain m' where
    m': "for_loop (copy_byte d s) (rev [Suc k..<n]) m = Some m'" "copied d s (\<lambda>i. Suc k \<le> i \<and> i < n) m m'"
    by blast
  have "\<not> Suc k \<le> s + k - d" using assms(1) by arith
  with copied_step [OF m'(2), of k] k(1) assms(1,3) obtain m'' where
    "copy_byte d s k m' = Some m''" "copied d s (\<lambda>i. i = k \<or> Suc k \<le> i \<and> i < n) m m''" by auto
  moreover have "(\<lambda>i. i = k \<or> Suc k \<le> i \<and> i < n) = (\<lambda>i. k \<le> i \<and> i < n)" using k(1) by auto
  moreover have "rev [k..<n] = rev [Suc k..<n] @ [k]" using k(1) by (simp add: upt_conv_Cons)
  ultimately show ?case using m'(1) by (simp add: for_loop_append)
qed

lemma memmove_spec:
  assumes "d + n \<le> length m" "s + n \<le> length m"
  shows "memmove d s n m = Some (take d m @ take n (drop s m) @ drop (d + n) m)"
proof -
  consider "d = s \<or> n = 0" | "d < s" "n \<noteq> 0" | "s < d" "n \<noteq> 0" by linarith
  then show ?thesis
  proof cases
    case 1
    have "take s m @ take n (drop s m) @ drop (s + n) m = m"
      by (simp add: add.commute flip: drop_drop)
    with 1 show ?thesis by (auto simp: memmove_def)
  next
    case 2
    with copy_forward [of d s n m] assms obtain m' where
      "for_loop (copy_byte d s) [0..<n] m = Some m'" "copied d s (\<lambda>k. k < n) m m'" by auto
    with 2 copied_all [OF _ assms] show ?thesis by (simp add: memmove_def)
  next
    case 3
    with copy_backward [of s d 0 n m] assms obtain m' where
      "for_loop (copy_byte d s) (rev [0..<n]) m = Some m'" "copied d s (\<lambda>k. k < n) m m'" by auto
    with 3 copied_all [OF _ assms] show ?thesis by (simp add: memmove_def)
  qed
qed

text \<open>\<open>memcpy\<close> copies upwards: right for a destination below the source, or far enough above it.\<close>

lemma memcpy_below:
  assumes "d \<le> s" "d + n \<le> length m" "s + n \<le> length m"
  shows "memcpy d s n m = Some (take d m @ take n (drop s m) @ drop (d + n) m)"
  using copy_forward [OF assms] copied_all [OF _ assms(2,3)] by (auto simp: memcpy_def)

section \<open>Properties\<close>

text \<open>C38: \<open>memmove\<close> copies the original bytes of the source range, however it overlaps the destination.\<close>
lemma memmove_overlap_safe:
  assumes "d + n \<le> length m" "s + n \<le> length m"
  shows "memmove d s n m = Some (take d m @ take n (drop s m) @ drop (d + n) m)"
  by (rule memmove_spec) (rule assms)+

lemma memmove_overlap_safe_witness:
  "memmove 1 0 3 [1, 2, 3, 4, 5] = Some [1, 1, 2, 3, 5]"
  using memmove_overlap_safe [of 1 3 "[1, 2, 3, 4, 5]" 0] by simp

text \<open>\<open>strstr\<close> returns the first position at which the needle occurs, and \<open>NULL\<close> only when there is none.\<close>
lemma strstr_first_occurrence:
  "(strstr h n = None \<longleftrightarrow> (n \<noteq> [] \<and> (\<forall>i. take (length n) (drop i h) \<noteq> n))) \<and>
   (strstr h n = Some i \<longleftrightarrow> (take (length n) (drop i h) = n \<and> (\<forall>j < i. take (length n) (drop j h) \<noteq> n)))"
  by (auto simp: strstr_def strstr_loop_None strstr_loop_Some)

lemma strstr_first_occurrence_witness:
  "strstr [1, 2, 1, 3] [1, 3] = Some 2"
  using strstr_first_occurrence [of "[1, 2, 1, 3]" "[1, 3]" 2]
  by (simp add: less_Suc_eq numeral_2_eq_2)

text \<open>\<open>snprintf\<close> writes the expansion of its format cut to \<open>size - 1\<close> bytes, so it never
  overruns the buffer and the return value is the number of bytes written.\<close>
lemma snprintf_truncates:
  assumes "fmt_expand fmt args = Some e" "0 < sz"
  shows "snprintf sz fmt args = Some (take (sz - 1) e)"
  by (rule snprintf_expand) (rule assms)+

lemma snprintf_truncates_witness:
  "snprintf 4 [71, 37, 115, 33] [[1, 2, 3, 4]] = Some [71, 1, 2]"
  using snprintf_truncates [of "[71, 37, 115, 33]" "[[1, 2, 3, 4]]" "[71, 1, 2, 3, 4, 33]" 4] by simp

text \<open>\<open>strcmp\<close> answers 0 exactly for equal strings, \<open>strncmp\<close> for strings that agree on
  the first \<open>n\<close> bytes, and \<open>strncpy\<close> keeps at most \<open>n - 1\<close> bytes.\<close>
lemma string_functions_correct:
  assumes "0 \<notin> set a" "0 \<notin> set b"
  shows "(strcmp a b = 0 \<longleftrightarrow> a = b) \<and> (strncmp a b n = 0 \<longleftrightarrow> take n a = take n b) \<and>
    strncpy a n = take (n - 1) a"
  using strcmp_eq_0 [OF assms] strncmp_eq_0 [OF assms] strncpy_take by simp

lemma string_functions_correct_witness:
  "strcmp [72, 105] [72, 105] = 0 \<and> strncmp [72, 105] [72, 106] 1 = 0 \<and> strncpy [72, 105] 2 = [72]"
  using string_functions_correct [of "[72, 105]" "[72, 105]" 2] string_functions_correct [of "[72, 105]" "[72, 106]" 1]
  by simp

end
