(* ===== verification/Dns.thy ===== *)
theory Dns
  imports Ipv4 Cstring
begin

text \<open>
  The resolver of \<open>src/dns.c\<close>: the cache of eight names, the table of outstanding
  queries, the encoder of names, the query packet and the parser of responses. The
  name of an entry is the string in its 128-byte array. The parser works on the
  bytes readable from the data pointer and an \<open>int\<close> length, as \<open>net_rx\<close> passes them;
  it answers \<open>None\<close> for a read behind the readable bytes.
\<close>

section \<open>State\<close>

record dns_cache_entry =
  dc_name :: cstr
  dc_ip :: u32

record qtrack =
  qt_qid :: u16
  qt_name :: cstr

record dns =
  dns_cache :: "dns_cache_entry list"
  qtracks :: "qtrack list"
  qid_counter :: u16

definition dns_boot :: dns where
  "dns_boot = \<lparr>dns_cache = replicate 8 \<lparr>dc_name = [], dc_ip = 0\<rparr>,
     qtracks = replicate 8 \<lparr>qt_qid = 0, qt_name = []\<rparr>, qid_counter = 0x4000\<rparr>"

section \<open>Encoding names\<close>

text \<open>\<open>None\<close> is the return value -1: an empty or too long label, or no room.\<close>

function pack_labels :: "nat \<Rightarrow> cstr \<Rightarrow> bytes \<Rightarrow> bytes option" where
  "pack_labels cap p out =
     (if p \<noteq> [] \<and> length out < cap then
        let dot = strchr p 46;
            len = (case dot of Some d \<Rightarrow> d | None \<Rightarrow> strlen p)
        in if len = 0 \<or> len > 63 then None
           else if length out + 1 + len \<ge> cap then None
           else case dot of
             None \<Rightarrow> Some (out @ [word_of_nat len] @ take len p)
           | Some d \<Rightarrow> pack_labels cap (drop (d + 1) p) (out @ [word_of_nat len] @ take len p)
      else Some out)"
  by pat_completeness auto
termination
  by (relation "measure (\<lambda>(cap, p, out). length p)") auto

declare pack_labels.simps [simp del]

definition pack_name :: "cstr \<Rightarrow> nat \<Rightarrow> bytes option" where
  "pack_name name out_cap = do {
     out \<leftarrow> pack_labels out_cap name [];
     if length out \<ge> out_cap then None else Some (out @ [0])
   }"

section \<open>Cache and outstanding queries\<close>

definition dc_is :: "cstr \<Rightarrow> dns_cache_entry \<Rightarrow> bool" where
  "dc_is name e \<longleftrightarrow> dc_ip e \<noteq> 0 \<and> strcmp (dc_name e) name = 0"

definition dns_cache_store :: "dns_cache_entry list \<Rightarrow> cstr \<Rightarrow> u32 \<Rightarrow> dns_cache_entry list" where
  "dns_cache_store c name ip =
     slot_store (dc_is name) (\<lambda>e. e) (\<lambda>e. dc_ip e = 0)
       (\<lambda>e. e\<lparr>dc_name := strncpy name 127, dc_ip := ip\<rparr>) c"

definition dns_get_cached :: "dns_cache_entry list \<Rightarrow> cstr \<Rightarrow> u32 option" where
  "dns_get_cached c name = map_option dc_ip (find (dc_is name) c)"

definition qtrack_add :: "u16 \<Rightarrow> cstr \<Rightarrow> qtrack list \<Rightarrow> qtrack list" where
  "qtrack_add qid name qs =
     (let new = (\<lambda>q. q\<lparr>qt_qid := qid, qt_name := strncpy name 127\<rparr>) in
      case upd_first (\<lambda>q. qt_qid q = 0) new qs of
        Some qs' \<Rightarrow> qs'
      | None \<Rightarrow> qs[0 := new (qs ! 0)])"

definition qtrack_getname :: "u16 \<Rightarrow> qtrack list \<Rightarrow> cstr option" where
  "qtrack_getname qid qs = map_option qt_name (find (\<lambda>q. qt_qid q = qid) qs)"

definition qtrack_clear :: "u16 \<Rightarrow> qtrack list \<Rightarrow> qtrack list" where
  "qtrack_clear qid qs = map (\<lambda>q. if qt_qid q = qid then q\<lparr>qt_qid := 0, qt_name := []\<rparr> else q) qs"

section \<open>Responses\<close>

definition be16 :: "bytes \<Rightarrow> nat \<Rightarrow> u16 option" where
  "be16 d i = do { a \<leftarrow> ld8 d i; b \<leftarrow> ld8 d (i + 1); Some (push_bit 8 (ucast a) OR ucast b) }"

definition be32 :: "bytes \<Rightarrow> nat \<Rightarrow> u32 option" where
  "be32 d i = do {
     a \<leftarrow> ld8 d i; b \<leftarrow> ld8 d (i + 1); c \<leftarrow> ld8 d (i + 2); e \<leftarrow> ld8 d (i + 3);
     Some (push_bit 24 (ucast a) OR push_bit 16 (ucast b) OR push_bit 8 (ucast c) OR ucast e)
   }"

text \<open>\<open>while (off < len && data[off] != 0) off += 1 + data[off]\<close>\<close>

function skip_name :: "bytes \<Rightarrow> int \<Rightarrow> nat \<Rightarrow> nat option" where
  "skip_name data len off =
     (if int off < len then
        (case ld8 data off of
           None \<Rightarrow> None
         | Some lab \<Rightarrow> if lab \<noteq> 0 then skip_name data len (off + 1 + unat lab) else Some off)
      else Some off)"
  by pat_completeness auto
termination
  by (relation "measure (\<lambda>(data, len, off). nat (len - int off))") auto

declare skip_name.simps [simp del]

text \<open>The inner \<open>None\<close> of these two is an early \<open>return\<close>.\<close>

primrec skip_questions :: "bytes \<Rightarrow> int \<Rightarrow> nat \<Rightarrow> nat \<Rightarrow> nat option option" where
  "skip_questions data len 0 off = Some (Some off)"
| "skip_questions data len (Suc q) off = do {
     off1 \<leftarrow> skip_name data len off;
     let off2 = off1 + 1;
     if int off2 + 4 > len then Some None else skip_questions data len q (off2 + 4)
   }"

definition parse_answer ::
    "bytes \<Rightarrow> int \<Rightarrow> cstr option \<Rightarrow> nat \<Rightarrow> dns_cache_entry list \<Rightarrow> (nat \<times> dns_cache_entry list) option option" where
  "parse_answer data len queried off c =
     (if int off + 12 > len then Some None
      else do {
        b \<leftarrow> ld8 data off;
        off1 \<leftarrow> (if b AND 0xC0 = 0xC0 then Some (off + 2)
                else map_option Suc (skip_name data len off));
        if int off1 + 10 > len then Some None
        else do {
          atype \<leftarrow> be16 data off1;
          aclass \<leftarrow> be16 data (off1 + 2);
          rdlen \<leftarrow> be16 data (off1 + 8);
          let off2 = off1 + 10;
          if int off2 + int (unat rdlen) > len then Some None
          else do {
            c' \<leftarrow> (if atype = 1 \<and> aclass = 1 \<and> rdlen = 4 \<and> queried \<noteq> None then do {
                     a \<leftarrow> be32 data off2;
                     Some (dns_cache_store c (the queried) a)
                   } else Some c);
            Some (Some (off2 + unat rdlen, c'))
          }
        }
      })"

text \<open>The flag says whether the loop ran to its end, so that the query is forgotten.\<close>

primrec parse_answers ::
    "bytes \<Rightarrow> int \<Rightarrow> cstr option \<Rightarrow> nat \<Rightarrow> nat \<Rightarrow> dns_cache_entry list \<Rightarrow> (bool \<times> dns_cache_entry list) option" where
  "parse_answers data len queried 0 off c = Some (True, c)"
| "parse_answers data len queried (Suc k) off c = do {
     r \<leftarrow> parse_answer data len queried off c;
     case r of
       None \<Rightarrow> Some (False, c)
     | Some (off', c') \<Rightarrow> parse_answers data len queried k off' c'
   }"

definition dns_on_response :: "u32 \<Rightarrow> bytes \<Rightarrow> int \<Rightarrow> dns \<Rightarrow> dns option" where
  "dns_on_response src_ip data len s =
     (if len < 12 then Some s
      else do {
        ident \<leftarrow> be16 data 0;
        qdcount \<leftarrow> be16 data 4;
        ancount \<leftarrow> be16 data 6;
        let queried = qtrack_getname ident (qtracks s);
        q \<leftarrow> skip_questions data len (unat qdcount) 12;
        case q of
          None \<Rightarrow> Some s
        | Some off \<Rightarrow> do {
            (fin, c) \<leftarrow> parse_answers data len queried (unat ancount) off (dns_cache s);
            Some (s\<lparr>dns_cache := c,
              qtracks := (if fin then qtrack_clear ident (qtracks s) else qtracks s)\<rparr>)
          }
      })"

section \<open>Queries\<close>

definition dns_header :: "u16 \<Rightarrow> bytes" where
  "dns_header ident =
     [ucast (drop_bit 8 ident), ucast (ident AND 0xFF), 1, 0, 0, 1, 0, 0, 0, 0, 0, 0]"

definition DNS_SERVER :: u32 where
  "DNS_SERVER = push_bit 24 10 OR push_bit 16 0 OR push_bit 8 2 OR 3"

text \<open>\<open>buf\<close> has 512 bytes; the name may fill all of the 500 after the header.\<close>

definition dns_query_async :: "cstr \<Rightarrow> dns \<Rightarrow> net \<Rightarrow> (int \<times> dns \<times> net) option" where
  "dns_query_async name s n =
     (if dns_get_cached (dns_cache s) name \<noteq> None then Some (1, s, n)
      else
        let ident = qid_counter s + 1;
            s1 = s\<lparr>qid_counter := ident\<rparr>
        in case pack_name name (512 - 12) of
             None \<Rightarrow> Some (0, s1, n)
           | Some p \<Rightarrow> do {
               let off = 12 + length p;
               assert_that (off + 4 \<le> 512);
               let buf = dns_header ident @ p @ [0, 1, 0, 1];
               let s2 = s1\<lparr>qtracks := qtrack_add ident name (qtracks s1)\<rparr>;
               n' \<leftarrow> net_send_udp_ipv4 DNS_SERVER 53 50000 buf n;
               Some (1, s2, n')
             })"

text \<open>
  \<open>dns_resolve\<close> polls the network card at most 20000 times for an answer; \<open>poll\<close> is
  \<open>rtl8139_poll\<close>, which may run \<open>dns_on_response\<close> and change an environment \<open>'e\<close> of its own.
\<close>

primrec resolve_loop ::
    "(dns \<times> net \<times> 'e \<Rightarrow> (dns \<times> net \<times> 'e) option) \<Rightarrow> cstr \<Rightarrow> nat \<Rightarrow> dns \<times> net \<times> 'e \<Rightarrow>
     (u32 option \<times> dns \<times> net \<times> 'e) option" where
  "resolve_loop poll name 0 w = Some (None, w)"
| "resolve_loop poll name (Suc k) w = do {
     w' \<leftarrow> poll w;
     case dns_get_cached (dns_cache (fst w')) name of
       Some ip \<Rightarrow> Some (Some ip, w')
     | None \<Rightarrow> resolve_loop poll name k w'
   }"

definition dns_resolve ::
    "(dns \<times> net \<times> 'e \<Rightarrow> (dns \<times> net \<times> 'e) option) \<Rightarrow> cstr \<Rightarrow> dns \<times> net \<times> 'e \<Rightarrow>
     (u32 option \<times> dns \<times> net \<times> 'e) option" where
  "dns_resolve poll name w =
     (case dns_get_cached (dns_cache (fst w)) name of
        Some ip \<Rightarrow> Some (Some ip, w)
      | None \<Rightarrow> do {
          (r, s, n) \<leftarrow> dns_query_async name (fst w) (fst (snd w));
          resolve_loop poll name 20000 (s, n, snd (snd w))
        })"


section \<open>The cache\<close>

definition name_ok :: "cstr \<Rightarrow> bool" where
  "name_ok name \<longleftrightarrow> 0 \<notin> set name \<and> length name \<le> 126"

definition dns_cache_ok :: "dns_cache_entry list \<Rightarrow> bool" where
  "dns_cache_ok c \<longleftrightarrow> length c = 8 \<and> (\<forall>e \<in> set c. name_ok (dc_name e)) \<and>
     distinct (map dc_name (filter (\<lambda>e. dc_ip e \<noteq> 0) c))"

lemma dc_is_eq: "name_ok (dc_name e) \<Longrightarrow> 0 \<notin> set name \<Longrightarrow> dc_is name e \<longleftrightarrow> dc_ip e \<noteq> 0 \<and> dc_name e = name"
  by (auto simp: dc_is_def name_ok_def strcmp_eq_0)

lemma dns_cache_ok_nonempty: "dns_cache_ok c \<Longrightarrow> c \<noteq> []"
  by (auto simp: dns_cache_ok_def)

lemma dns_store_fold:
  "slot_store (dc_is name) (\<lambda>e. e) (\<lambda>e. dc_ip e = 0)
     (\<lambda>e. e\<lparr>dc_name := strncpy name 127, dc_ip := ip\<rparr>) c = dns_cache_store c name ip"
  by (simp add: dns_cache_store_def)

lemmas dns_store_cases =
  slot_store_cases [where hit = "dc_is name" and upd = "\<lambda>e. e" and free = "\<lambda>e. dc_ip e = 0"
    and new = "\<lambda>e. e\<lparr>dc_name := strncpy name 127, dc_ip := ip\<rparr>"
    and xs = "c :: dns_cache_entry list", unfolded dns_store_fold] for name ip c

lemma name_ok_strncpy [simp]: "0 \<notin> set name \<Longrightarrow> name_ok (strncpy name 127)"
  by (auto simp: name_ok_def strncpy_take dest: in_set_takeD)

lemma name_ok_keep: "name_ok name \<Longrightarrow> strncpy name 127 = name"
  by (simp add: name_ok_def strncpy_take)

text \<open>Lookups read the live entries only.\<close>

lemma dns_get_cached_append:
  "dns_get_cached (us @ e # vs) q = (case dns_get_cached us q of Some a \<Rightarrow> Some a
     | None \<Rightarrow> if dc_is q e then Some (dc_ip e) else dns_get_cached vs q)"
  by (simp add: dns_get_cached_def find_append split: option.splits)

lemma dns_get_cached_None:
  "dns_get_cached c q = None \<longleftrightarrow> (\<forall>e \<in> set c. \<not> dc_is q e)"
  by (auto simp: dns_get_cached_def find_None_iff)

lemma dns_get_cached_Some:
  assumes "dns_cache_ok c" "0 \<notin> set q"
  shows "dns_get_cached c q = Some ip \<longleftrightarrow> (\<exists>e \<in> set c. dc_ip e = ip \<and> ip \<noteq> 0 \<and> dc_name e = q)"
proof
  assume "dns_get_cached c q = Some ip"
  then obtain e where "find (dc_is q) c = Some e" "dc_ip e = ip" by (auto simp: dns_get_cached_def)
  then have "e \<in> set c" "dc_is q e" "dc_ip e = ip" by (auto simp: find_Some_iff)
  with assms show "\<exists>e \<in> set c. dc_ip e = ip \<and> ip \<noteq> 0 \<and> dc_name e = q"
    by (intro bexI [of _ e]) (auto simp: dns_cache_ok_def dc_is_eq)
next
  assume "\<exists>e \<in> set c. dc_ip e = ip \<and> ip \<noteq> 0 \<and> dc_name e = q"
  then obtain e where e: "e \<in> set c" "dc_ip e = ip" "ip \<noteq> 0" "dc_name e = q" by blast
  with assms have "dc_is q e" by (auto simp: dns_cache_ok_def dc_is_eq)
  with e(1) have "dns_get_cached c q \<noteq> None" by (auto simp: dns_get_cached_None)
  then obtain b where b: "find (dc_is q) c = Some b" by (auto simp: dns_get_cached_def)
  then have b': "b \<in> set c" "dc_is q b" by (auto simp: find_Some_iff)
  with assms have "dc_ip b \<noteq> 0" "dc_name b = q" by (auto simp: dns_cache_ok_def dc_is_eq)
  moreover have "inj_on dc_name (set (filter (\<lambda>e. dc_ip e \<noteq> 0) c))"
    using assms(1) by (simp add: dns_cache_ok_def distinct_map)
  ultimately have "b = e" using e b'(1) by (auto dest: inj_onD)
  with b e(2) show "dns_get_cached c q = Some ip" by (simp add: dns_get_cached_def)
qed

lemma dns_cache_store_ok:
  assumes "dns_cache_ok c" "name_ok name" "ip \<noteq> 0"
  shows "dns_cache_ok (dns_cache_store c name ip)"
proof -
  have ne: "c \<noteq> []" using assms(1) by (rule dns_cache_ok_nonempty)
  have names: "\<forall>e \<in> set c. name_ok (dc_name e)" using assms(1) by (simp add: dns_cache_ok_def)
  have nul: "0 \<notin> set name" using assms(2) by (simp add: name_ok_def)
  have ok: "\<forall>e \<in> set (dns_cache_store c name ip). name_ok (dc_name e)"
    unfolding dns_cache_store_def
    by (rule slot_store_all) (use assms nul ne in \<open>auto simp: dns_cache_ok_def\<close>)
  have fresh: "\<forall>e \<in> set c. dc_ip e \<noteq> 0 \<longrightarrow> dc_name e \<noteq> name" if "\<forall>e \<in> set c. \<not> dc_is name e"
    using that names dc_is_eq [OF _ nul] by auto
  have "distinct (map dc_name (filter (\<lambda>e. dc_ip e \<noteq> 0) (dns_cache_store c name ip)))"
  proof (cases rule: dns_store_cases [OF ne, of name ip, case_names hit free evict])
    case (hit us x vs)
    with assms(1) show ?thesis by (simp add: dns_cache_ok_def)
  next
    case (free us x vs)
    then show ?thesis
      using assms fresh [OF free(1)] name_ok_keep [OF assms(2)] by (auto simp: dns_cache_ok_def)
  next
    case (evict x vs)
    then show ?thesis
      using assms fresh [OF evict(1)] name_ok_keep [OF assms(2)] by (auto simp: dns_cache_ok_def split: if_splits)
  qed
  moreover have "length (dns_cache_store c name ip) = 8"
    using assms(1) by (simp add: dns_cache_ok_def dns_cache_store_def)
  ultimately show ?thesis using ok by (simp add: dns_cache_ok_def)
qed

lemma dns_cache_store_zero:
  assumes "dns_cache_ok c" "name_ok name"
  shows "dns_cache_ok (dns_cache_store c name 0)"
proof -
  have ne: "c \<noteq> []" using assms(1) by (rule dns_cache_ok_nonempty)
  have nul: "0 \<notin> set name" using assms(2) by (simp add: name_ok_def)
  have ok: "\<forall>e \<in> set (dns_cache_store c name 0). name_ok (dc_name e)"
    unfolding dns_cache_store_def
    by (rule slot_store_all) (use assms nul ne in \<open>auto simp: dns_cache_ok_def\<close>)
  moreover have "distinct (map dc_name (filter (\<lambda>e. dc_ip e \<noteq> 0) (dns_cache_store c name 0)))"
    by (cases rule: dns_store_cases [OF ne, of name 0])
       (use assms(1) in \<open>auto simp: dns_cache_ok_def split: if_splits\<close>)
  moreover have "length (dns_cache_store c name 0) = 8"
    using assms(1) by (simp add: dns_cache_ok_def dns_cache_store_def)
  ultimately show ?thesis by (simp add: dns_cache_ok_def)
qed

lemma dns_store_hit:
  assumes "dns_cache_ok c" "name_ok name" "ip \<noteq> 0"
  shows "dns_get_cached (dns_cache_store c name ip) name \<noteq> None"
proof -
  have ne: "c \<noteq> []" using assms(1) by (rule dns_cache_ok_nonempty)
  have nul: "0 \<notin> set name" using assms(2) by (simp add: name_ok_def)
  have new: "dc_is name (e\<lparr>dc_name := strncpy name 127, dc_ip := ip\<rparr>)" for e
    using assms(2,3) nul by (simp add: dc_is_eq name_ok_keep)
  show ?thesis
    by (cases rule: dns_store_cases [OF ne, of name ip, case_names hit free evict]) (auto simp: dns_get_cached_None new)
qed

lemma dns_store_sound:
  assumes "dns_cache_ok c" "name_ok name" "ip \<noteq> 0" "0 \<notin> set q"
    and "dns_get_cached (dns_cache_store c name ip) q = Some w"
  shows "(q = name \<and> w = ip) \<or> dns_get_cached c q = Some w"
proof -
  obtain e where e: "e \<in> set (dns_cache_store c name ip)" "dc_ip e = w" "w \<noteq> 0" "dc_name e = q"
    using assms(5) dns_get_cached_Some [OF dns_cache_store_ok [OF assms(1-3)] assms(4)] by auto
  have ne: "c \<noteq> []" using assms(1) by (rule dns_cache_ok_nonempty)
  have "e \<in> set c \<or> (dc_name e = name \<and> dc_ip e = ip)"
    using e(1) by (cases rule: dns_store_cases [OF ne, of name ip]) (auto simp: name_ok_keep [OF assms(2)])
  with e show ?thesis by (auto simp: dns_get_cached_Some [OF assms(1,4)])
qed

lemma dns_store_keep:
  assumes "dns_cache_ok c" "dns_get_cached c name \<noteq> None"
  shows "dns_cache_store c name ip = c"
  using assms(2) upd_first_None [of "dc_is name" "\<lambda>e. e" c]
  by (auto simp: dns_get_cached_None dns_cache_store_def slot_store_def split: option.splits
      elim!: upd_first_SomeE)

interpretation dnsc: first_wins_cache dns_get_cached dns_cache_store dns_cache_ok "\<lambda>n. 0 \<notin> set n"
    "\<lambda>name ip. name_ok name \<and> ip \<noteq> 0"
  by unfold_locales
     (auto simp: dns_cache_store_ok dns_store_hit dns_store_keep name_ok_def dest: dns_store_sound)


section \<open>The parser stays inside the packet\<close>

definition dns_ok :: "dns \<Rightarrow> bool" where
  "dns_ok s \<longleftrightarrow> dns_cache_ok (dns_cache s) \<and> length (qtracks s) = 8 \<and>
     (\<forall>q \<in> set (qtracks s). name_ok (qt_name q))"

lemma dns_ok_boot: "dns_ok dns_boot"
  by (auto simp: dns_ok_def dns_boot_def dns_cache_ok_def name_ok_def)

lemma be16_ok: "i + 2 \<le> length d \<Longrightarrow> \<exists>w. be16 d i = Some w"
  by (simp add: be16_def ld8_def)

lemma be32_ok: "i + 4 \<le> length d \<Longrightarrow> \<exists>w. be32 d i = Some w"
  by (simp add: be32_def ld8_def)

lemma skip_name_ok:
  assumes "len \<le> int (length data)"
  shows "\<exists>off'. skip_name data len off = Some off' \<and> off \<le> off'"
  using assms
proof (induction data len off rule: skip_name.induct)
  case (1 data len off)
  show ?case
  proof (cases "int off < len")
    case False
    then show ?thesis by (simp add: skip_name.simps [of data len off])
  next
    case True
    then have ld: "ld8 data off = Some (data ! off)" using "1.prems" by (simp add: ld8_def)
    show ?thesis
    proof (cases "data ! off = 0")
      case z: True
      with True ld show ?thesis by (simp add: skip_name.simps [of data len off])
    next
      case False
      from "1.IH" [OF True ld False "1.prems"] True ld False show ?thesis
        by (fastforce simp: skip_name.simps [of data len off])
    qed
  qed
qed

lemma skip_questions_ok:
  "len \<le> int (length data) \<Longrightarrow> \<exists>r. skip_questions data len k off = Some r"
proof (induction k arbitrary: off)
  case 0
  then show ?case by simp
next
  case (Suc k)
  from skip_name_ok [OF Suc.prems, of off] obtain o1 where "skip_name data len off = Some o1" by blast
  with Suc show ?case by (simp add: Let_def)
qed

definition queried_ok :: "cstr option \<Rightarrow> bool" where
  "queried_ok q \<longleftrightarrow> (\<forall>name. q = Some name \<longrightarrow> name_ok name)"

lemma parse_answer_ok:
  assumes "len \<le> int (length data)" "dns_cache_ok c" "queried_ok queried"
  shows "\<exists>r. parse_answer data len queried off c = Some r \<and>
    (\<forall>off' c'. r = Some (off', c') \<longrightarrow> dns_cache_ok c')"
proof (cases "int off + 12 > len")
  case True
  then show ?thesis by (simp add: parse_answer_def)
next
  case in1: False
  then have b: "ld8 data off = Some (data ! off)" using assms(1) by (simp add: ld8_def)
  obtain o1 where o1: "(if data ! off AND 0xC0 = 0xC0 then Some (off + 2)
      else map_option Suc (skip_name data len off)) = Some o1"
    using skip_name_ok [OF assms(1), of off] by (cases "data ! off AND 0xC0 = 0xC0") auto
  show ?thesis
  proof (cases "int o1 + 10 > len")
    case True
    with in1 b o1 show ?thesis by (simp add: parse_answer_def)
  next
    case in2: False
    then obtain t cl rd where f: "be16 data o1 = Some t" "be16 data (o1 + 2) = Some cl"
        "be16 data (o1 + 8) = Some rd"
      using be16_ok [of o1 data] be16_ok [of "o1 + 2" data] be16_ok [of "o1 + 8" data] assms(1) by auto
    show ?thesis
    proof (cases "int (o1 + 10) + int (unat rd) > len")
      case True
      with in1 b o1 in2 f show ?thesis by (simp add: parse_answer_def Let_def)
    next
      case in3: False
      have "\<exists>c'. (if t = 1 \<and> cl = 1 \<and> rd = 4 \<and> queried \<noteq> None then do {
               a \<leftarrow> be32 data (o1 + 10);
               Some (dns_cache_store c (the queried) a)
             } else Some c) = Some c' \<and> dns_cache_ok c'"
      proof (cases "t = 1 \<and> cl = 1 \<and> rd = 4 \<and> queried \<noteq> None")
        case True
        then have "o1 + 10 + 4 \<le> length data" using in3 assms(1) by simp
        then obtain a where a: "be32 data (o1 + 10) = Some a" using be32_ok by blast
        have "dns_cache_ok (dns_cache_store c (the queried) a)"
          using True assms(2,3) dns_cache_store_ok dns_cache_store_zero
          by (cases "a = 0") (auto simp: queried_ok_def)
        with True a show ?thesis by simp
      next
        case False
        with assms(2) show ?thesis by auto
      qed
      with in1 b o1 in2 f in3 show ?thesis by (fastforce simp: parse_answer_def Let_def)
    qed
  qed
qed

lemma parse_answers_ok:
  assumes "len \<le> int (length data)" "dns_cache_ok c" "queried_ok queried"
  shows "\<exists>fin c'. parse_answers data len queried k off c = Some (fin, c') \<and> dns_cache_ok c'"
  using assms(2)
proof (induction k arbitrary: off c)
  case 0
  then show ?case by auto
next
  case (Suc k)
  from parse_answer_ok [OF assms(1) Suc.prems assms(3), of off] obtain r where
    r: "parse_answer data len queried off c = Some r" "\<forall>off' c'. r = Some (off', c') \<longrightarrow> dns_cache_ok c'"
    by blast
  with Suc show ?case by (cases r) auto
qed

lemma qtrack_getname_ok:
  assumes "\<forall>q \<in> set qs. name_ok (qt_name q)"
  shows "queried_ok (qtrack_getname qid qs)"
  using assms by (auto simp: queried_ok_def qtrack_getname_def find_Some_iff)

lemma dns_on_response_ok:
  assumes "dns_ok s" "len \<le> int (length data)"
  shows "\<exists>s'. dns_on_response src data len s = Some s' \<and> dns_ok s'"
proof (cases "len < 12")
  case True
  with assms show ?thesis by (simp add: dns_on_response_def)
next
  case False
  with assms(2) obtain ident qd an where h: "be16 data 0 = Some ident" "be16 data 4 = Some qd" "be16 data 6 = Some an"
    using be16_ok [of 0 data] be16_ok [of 4 data] be16_ok [of 6 data] by auto
  obtain q where q: "skip_questions data len (unat qd) 12 = Some q"
    using skip_questions_ok [OF assms(2)] by blast
  show ?thesis
  proof (cases q)
    case None
    with False h q assms show ?thesis by (simp add: dns_on_response_def Let_def)
  next
    case (Some off)
    have qs: "length (qtracks s) = 8" "\<forall>q \<in> set (qtracks s). name_ok (qt_name q)" "dns_cache_ok (dns_cache s)"
      using assms(1) by (simp_all add: dns_ok_def)
    obtain fin c' where p: "parse_answers data len (qtrack_getname ident (qtracks s)) (unat an) off (dns_cache s) =
        Some (fin, c')" "dns_cache_ok c'"
      using parse_answers_ok [OF assms(2) qs(3) qtrack_getname_ok [OF qs(2)]] by blast
    have "dns_ok (s\<lparr>dns_cache := c', qtracks := (if fin then qtrack_clear ident (qtracks s) else qtracks s)\<rparr>)"
      using qs p(2) by (auto simp: dns_ok_def qtrack_clear_def name_ok_def)
    with False h q Some p show ?thesis by (simp add: dns_on_response_def Let_def)
  qed
qed

section \<open>Encoding and decoding names\<close>

text \<open>The reference decoder: labels up to the zero byte, joined by dots.\<close>

function decode_labels :: "bytes \<Rightarrow> cstr" where
  "decode_labels [] = []"
| "decode_labels (l # r) =
     (if l = 0 then [] else take (unat l) r @ 46 # decode_labels (drop (unat l) r))"
  by pat_completeness auto
termination
  by (relation "measure length") auto

definition with_dot :: "cstr \<Rightarrow> cstr" where
  "with_dot p = (if p = [] \<or> last p = 46 then p else p @ [46])"

lemma unat_small: "n \<le> 63 \<Longrightarrow> unat (word_of_nat n :: u8) = n"
  by (simp add: unat_of_nat)

lemma label_ne_0: "0 < n \<Longrightarrow> n \<le> 63 \<Longrightarrow> (word_of_nat n :: u8) \<noteq> 0"
  using unat_small [of n] by (metis less_numeral_extra(3) unsigned_0)

definition label_len :: "cstr \<Rightarrow> nat" where
  "label_len p = (case strchr p 46 of Some d \<Rightarrow> d | None \<Rightarrow> strlen p)"

lemma pack_labels_step:
  assumes "p \<noteq> [] \<and> length out < cap"
  shows "pack_labels cap p out = (if label_len p = 0 \<or> label_len p > 63 then None
    else if length out + 1 + label_len p \<ge> cap then None
    else case strchr p 46 of
        None \<Rightarrow> Some (out @ [word_of_nat (label_len p)] @ take (label_len p) p)
      | Some d \<Rightarrow> pack_labels cap (drop (d + 1) p) (out @ [word_of_nat (label_len p)] @ take (label_len p) p))"
  unfolding label_len_def by (subst pack_labels.simps) (simp only: Let_def assms if_True simp_thms)

lemma label_len_None: "strchr p 46 = None \<Longrightarrow> label_len p = length p \<and> 46 \<notin> set p"
  using strchr_None [of p 46] by (simp add: label_len_def)

lemma label_len_Some: "strchr p 46 = Some d \<Longrightarrow>
    label_len p = d \<and> d < length p \<and> p ! d = 46 \<and> 46 \<notin> set (take d p)"
  using strchr_Some [of p 46 d] by (simp add: label_len_def)

text \<open>What the encoder appends to \<open>out\<close>, without the zero byte.\<close>

lemma pack_labels_decode:
  assumes "pack_labels cap p out = Some r" "p = [] \<or> length out < cap"
  shows "\<exists>q. r = out @ q \<and> (\<forall>tail. decode_labels (q @ 0 # tail) = with_dot p) \<and> length r < max cap (Suc (length out))"
  using assms
proof (induction cap p out arbitrary: r rule: pack_labels.induct)
  case (1 cap p out)
  show ?case
  proof (cases "p = []")
    case True
    with "1.prems" show ?thesis by (simp add: pack_labels.simps [of cap "[]" out] with_dot_def)
  next
    case ne: False
    define len where "len = label_len p"
    let ?out = "out @ [word_of_nat len] @ take len p"
    have guard: "p \<noteq> [] \<and> length out < cap" using ne "1.prems"(2) by simp
    note step = pack_labels_step [OF guard, folded len_def]
    have bounds: "len \<noteq> 0" "len \<le> 63" "length out + 1 + len < cap"
      using "1.prems"(1) unfolding step by (auto split: if_splits)
    have w: "unat (word_of_nat len :: u8) = len" "(word_of_nat len :: u8) \<noteq> 0"
      using bounds unat_small label_ne_0 by auto
    show ?thesis
    proof (cases "strchr p 46")
      case None
      then have p: "46 \<notin> set p" "len = length p" using label_len_None [OF None] by (simp_all add: len_def)
      then have "last p \<noteq> 46" using ne by (metis last_in_set)
      moreover have "r = ?out"
        using "1.prems"(1) bounds None unfolding step by simp
      ultimately show ?thesis using p w ne bounds by (auto simp: with_dot_def)
    next
      case (Some d)
      then have d: "d < length p" "p ! d = 46" "46 \<notin> set (take d p)" "len = d"
        using label_len_Some [OF Some] by (simp_all add: len_def)
      have rec: "pack_labels cap (drop (d + 1) p) ?out = Some r"
        using "1.prems"(1) bounds Some unfolding step by simp
      have lo: "length ?out = length out + 1 + len" using d by simp
      have "\<exists>q. r = ?out @ q \<and> (\<forall>tail. decode_labels (q @ 0 # tail) = with_dot (drop (d + 1) p)) \<and>
          length r < max cap (Suc (length ?out))"
        by (rule "1.IH" [OF guard refl len_def [unfolded label_len_def] _ _ Some rec]) (use bounds lo in auto)
      then obtain q where q: "r = ?out @ q" "\<And>tail. decode_labels (q @ 0 # tail) = with_dot (drop (d + 1) p)"
          "length r < max cap (Suc (length ?out))" by blast
      have "decode_labels (([word_of_nat len] @ take len p @ q) @ 0 # tail) = with_dot p" for tail
      proof -
        have "decode_labels (([word_of_nat len] @ take len p @ q) @ 0 # tail) =
            take d p @ 46 # with_dot (drop (d + 1) p)"
          using w d q(2) by simp
        also have "\<dots> = with_dot p"
        proof (cases "drop (d + 1) p = []")
          case True
          then have "p = take d p @ [46]" using d by (metis Suc_eq_plus1 append_take_drop_id Cons_nth_drop_Suc)
          moreover from this have "last p = 46" by (metis last_snoc)
          ultimately show ?thesis using True ne by (simp add: with_dot_def)
        next
          case False
          have "p = take d p @ 46 # drop (d + 1) p" using d by (metis Suc_eq_plus1 id_take_nth_drop)
          moreover have "last p = last (drop (d + 1) p)" using False by simp
          ultimately show ?thesis using False ne by (auto simp: with_dot_def)
        qed
        finally show ?thesis .
      qed
      moreover have "length r < max cap (Suc (length out))" using q(3) lo bounds by simp
      ultimately show ?thesis using q(1) by (intro exI [of _ "[word_of_nat len] @ take len p @ q"]) simp
    qed
  qed
qed

lemma pack_name_decode:
  assumes "pack_name name cap = Some p"
  shows "decode_labels p = with_dot name" "length p \<le> cap"
proof -
  from assms obtain out where out: "pack_labels cap name [] = Some out" "p = out @ [0]" "length out < cap"
    by (auto simp: pack_name_def bind_Some_iff split: if_splits)
  have "name = [] \<or> length ([] :: bytes) < cap" using out(3) by auto
  from pack_labels_decode [OF out(1) this] show "decode_labels p = with_dot name" using out(2) by auto
  show "length p \<le> cap" using out by simp
qed


section \<open>A query and its answer\<close>

definition label_bytes :: "cstr list \<Rightarrow> bytes" where
  "label_bytes ls = concat (map (\<lambda>l. word_of_nat (length l) # l) ls)"

definition labels_ok :: "cstr list \<Rightarrow> bool" where
  "labels_ok ls \<longleftrightarrow> (\<forall>l \<in> set ls. 0 < length l \<and> length l \<le> 63)"

lemma pack_labels_struct:
  "pack_labels cap p out = Some r \<Longrightarrow> \<exists>ls. r = out @ label_bytes ls \<and> labels_ok ls"
proof (induction cap p out arbitrary: r rule: pack_labels.induct)
  case (1 cap p out)
  show ?case
  proof (cases "p \<noteq> [] \<and> length out < cap")
    case False
    then have "r = out" using "1.prems" by (subst (asm) pack_labels.simps) (simp only: if_False option.inject)
    then show ?thesis by (intro exI [of _ "[]"]) (simp add: label_bytes_def labels_ok_def)
  next
    case guard: True
    note step = pack_labels_step [OF guard]
    let ?l = "take (label_len p) p"
    have bounds: "label_len p \<noteq> 0" "label_len p \<le> 63"
      using "1.prems" unfolding step by (auto split: if_splits)
    have len: "length ?l = label_len p"
      using label_len_None label_len_Some by (cases "strchr p 46") fastforce+
    show ?thesis
    proof (cases "strchr p 46")
      case None
      then have "r = out @ label_bytes [?l]"
        using "1.prems" bounds len unfolding step by (auto simp: label_bytes_def split: if_splits)
      with bounds len show ?thesis by (intro exI [of _ "[?l]"]) (simp add: labels_ok_def)
    next
      case (Some d)
      then have rec: "pack_labels cap (drop (d + 1) p) (out @ [word_of_nat (label_len p)] @ ?l) = Some r"
        and room: "\<not> cap \<le> length out + 1 + label_len p"
        using "1.prems" bounds unfolding step by (auto split: if_splits)
      have "\<exists>ls. r = (out @ [word_of_nat (label_len p)] @ ?l) @ label_bytes ls \<and> labels_ok ls"
        by (rule "1.IH" [OF guard refl label_len_def _ _ Some rec]) (use bounds room in auto)
      then obtain ls where "r = out @ label_bytes (?l # ls)" "labels_ok ls"
        by (auto simp: label_bytes_def len simp del: length_take)
      with bounds len guard show ?thesis by (intro exI [of _ "?l # ls"]) (simp add: labels_ok_def)
    qed
  qed
qed

lemma skip_name_labels:
  assumes "labels_ok ls" "length pre + length (label_bytes ls) < length data" "length data = nat len"
    and "data = pre @ label_bytes ls @ 0 # tail"
  shows "skip_name data len (length pre) = Some (length pre + length (label_bytes ls))"
  using assms
proof (induction ls arbitrary: pre)
  case Nil
  then have "int (length pre) < len" "data ! length pre = 0" "length pre < length data"
    by (auto simp: label_bytes_def nth_append)
  then show ?case
    by (simp add: skip_name.simps [of data len "length pre"] label_bytes_def ld8_def)
next
  case (Cons l ls)
  have l: "0 < length l" "length l \<le> 63" "labels_ok ls" using Cons.prems(1) by (auto simp: labels_ok_def)
  have lb: "label_bytes (l # ls) = word_of_nat (length l) # l @ label_bytes ls" by (simp add: label_bytes_def)
  have w: "unat (word_of_nat (length l) :: u8) = length l" "(word_of_nat (length l) :: u8) \<noteq> 0"
    using unat_small [OF l(2)] label_ne_0 [OF l(1,2)] by auto
  have "ld8 data (length pre) = Some (word_of_nat (length l))"
    using Cons.prems(4) by (simp add: ld8_def lb nth_append)
  moreover have "int (length pre) < len" using Cons.prems(2,3) by linarith
  ultimately have "skip_name data len (length pre) = skip_name data len (length pre + 1 + length l)"
    using w by (simp add: skip_name.simps [of data len "length pre"])
  also have "\<dots> = skip_name data len (length (pre @ word_of_nat (length l) # l))" by simp
  also have "\<dots> = Some (length (pre @ word_of_nat (length l) # l) + length (label_bytes ls))"
    by (rule Cons.IH [OF l(3)]) (use Cons.prems in \<open>auto simp: lb\<close>)
  finally show ?case by (simp add: lb)
qed

text \<open>
  Responses: the question, then resource records. The owner of a record is a pointer or a list
  of labels; of the record types only A records of the class IN say something to the resolver.
\<close>

record dns_rr =
  rr_owner :: bytes
  rr_type :: u16
  rr_class :: u16
  rr_ttl :: u32
  rr_data :: bytes

definition be16_bytes :: "u16 \<Rightarrow> bytes" where
  "be16_bytes w = [ucast (drop_bit 8 w), ucast w]"

definition be32_bytes :: "u32 \<Rightarrow> bytes" where
  "be32_bytes a = [ucast (drop_bit 24 a), ucast (drop_bit 16 a), ucast (drop_bit 8 a), ucast a]"

definition rr_bytes :: "dns_rr \<Rightarrow> bytes" where
  "rr_bytes r = rr_owner r @ be16_bytes (rr_type r) @ be16_bytes (rr_class r) @ be32_bytes (rr_ttl r) @
     be16_bytes (word_of_nat (length (rr_data r))) @ rr_data r"

definition owner_ok :: "bytes \<Rightarrow> bool" where
  "owner_ok n \<longleftrightarrow> (\<exists>a b. n = [a, b] \<and> a AND 0xC0 = 0xC0) \<or> (\<exists>ls. n = label_bytes ls @ [0] \<and> labels_ok ls)"

text \<open>The parser wants 12 bytes for a record: only one of the root without data is shorter.\<close>

definition rr_ok :: "dns_rr \<Rightarrow> bool" where
  "rr_ok r \<longleftrightarrow> owner_ok (rr_owner r) \<and> length (rr_data r) < 65536 \<and> 12 \<le> length (rr_bytes r)"

definition rr_addr :: "dns_rr \<Rightarrow> u32 option" where
  "rr_addr r = (if rr_type r = 1 \<and> rr_class r = 1 \<and> length (rr_data r) = 4 then be32 (rr_data r) 0 else None)"

definition dns_answer :: "u16 \<Rightarrow> u16 \<Rightarrow> bytes \<Rightarrow> dns_rr list \<Rightarrow> u16 \<Rightarrow> u16 \<Rightarrow> bytes \<Rightarrow> bytes" where
  "dns_answer ident flags p rs ns ar behind =
     be16_bytes ident @ be16_bytes flags @ be16_bytes 1 @ be16_bytes (word_of_nat (length rs)) @ be16_bytes ns @ be16_bytes ar @
     p @ [0, 1, 0, 1] @ concat (map rr_bytes rs) @ behind"

lemma be16_ucast: "push_bit 8 (ucast (ucast (drop_bit 8 w) :: u8)) OR ucast (ucast w :: u8) = (w :: u16)"
  by (rule bit_word_eqI) (auto simp: bit_simps)

lemma be32_ucast:
  "push_bit 24 (ucast (ucast (drop_bit 24 w) :: u8)) OR push_bit 16 (ucast (ucast (drop_bit 16 w) :: u8)) OR
   push_bit 8 (ucast (ucast (drop_bit 8 w) :: u8)) OR ucast (ucast w :: u8) = (w :: u32)"
proof (rule bit_word_eqI)
  fix n
  assume "n < LENGTH(32)"
  then consider "n < 8" | "8 \<le> n" "n < 16" | "16 \<le> n" "n < 24" | "24 \<le> n" "n < 32" by fastforce
  then show "bit ((push_bit 24 (ucast (ucast (drop_bit 24 w) :: u8)) OR push_bit 16 (ucast (ucast (drop_bit 16 w) :: u8)) OR
     push_bit 8 (ucast (ucast (drop_bit 8 w) :: u8)) OR ucast (ucast w :: u8)) :: u32) n = bit w n"
    by cases (auto simp: bit_simps)
qed

lemma be16_skip: "length xs \<le> i \<Longrightarrow> be16 (xs @ ys) i = be16 ys (i - length xs)"
  by (simp add: be16_def ld8_skip Suc_diff_le)

lemma be32_skip: "length xs \<le> i \<Longrightarrow> be32 (xs @ ys) i = be32 ys (i - length xs)"
  by (simp add: be32_def ld8_skip Suc_diff_le numeral_eq_Suc)

lemma be16_be16_bytes: "be16 (be16_bytes w @ xs) 0 = Some w"
  by (simp add: be16_bytes_def be16_def ld8_def be16_ucast)

lemma length_be_bytes [simp]: "length (be16_bytes w) = 2" "length (be32_bytes a) = 4"
  by (simp_all add: be16_bytes_def be32_bytes_def)

lemma be16_field: "length xs = i \<Longrightarrow> be16 (xs @ be16_bytes w @ ys) i = Some w"
  by (simp add: be16_skip be16_be16_bytes)

lemma be32_take4: "length d = 4 \<Longrightarrow> be32 (d @ xs) 0 = be32 d 0"
  by (simp add: be32_def ld8_def nth_append)

lemma small_no_pointer: "unat x \<le> 63 \<Longrightarrow> x AND 0xC0 \<noteq> 0xC0" for x :: u8
proof
  assume "unat x \<le> 63" "x AND 0xC0 = 0xC0"
  then have "(0xC0 :: u8) \<le> x" by (metis word_and_le2)
  with \<open>unat x \<le> 63\<close> show False by (simp add: word_le_nat_alt)
qed

text \<open>The parser steps over one record and keeps the address of an A record.\<close>

lemma parse_record:
  assumes "rr_ok r" "data = pre @ rr_bytes r @ post"
  shows "parse_answer data (int (length data)) (Some q) (length pre) c =
    Some (Some (length pre + length (rr_bytes r), case rr_addr r of None \<Rightarrow> c | Some ip \<Rightarrow> dns_cache_store c q ip))"
proof -
  let ?o = "rr_owner r" and ?k = "word_of_nat (length (rr_data r)) :: u16"
  define rest where "rest = be16_bytes (rr_type r) @ be16_bytes (rr_class r) @ be32_bytes (rr_ttl r) @ be16_bytes ?k @ rr_data r @ post"
  have d: "data = pre @ ?o @ rest" unfolding assms(2) rest_def rr_bytes_def by simp
  have len: "length (rr_bytes r) = length ?o + 10 + length (rr_data r)" by (simp add: rr_bytes_def)
  have owner: "\<exists>b. ld8 data (length pre) = Some b \<and> (if b AND 0xC0 = 0xC0 then Some (length pre + 2)
      else map_option Suc (skip_name data (int (length data)) (length pre))) = Some (length pre + length ?o)"
  proof -
    consider a b where "?o = [a, b]" "a AND 0xC0 = 0xC0" | ls where "?o = label_bytes ls @ [0]" "labels_ok ls"
      using assms(1) by (auto simp: rr_ok_def owner_ok_def)
    then show ?thesis
    proof cases
      case 1
      then show ?thesis by (simp add: d ld8_def nth_append)
    next
      case 2
      have dl: "data = pre @ label_bytes ls @ 0 # rest" by (simp add: d 2(1))
      then have s: "skip_name data (int (length data)) (length pre) = Some (length pre + length (label_bytes ls))"
        using skip_name_labels [OF 2(2) _ _ dl, of "int (length data)"] by simp
      have "\<exists>b. ld8 data (length pre) = Some b \<and> b AND 0xC0 \<noteq> 0xC0"
      proof (cases ls)
        case Nil
        then show ?thesis by (simp add: dl label_bytes_def ld8_def nth_append)
      next
        case (Cons l ls')
        then have "length l \<le> 63" using 2(2) by (simp add: labels_ok_def)
        with Cons show ?thesis
          by (simp add: dl label_bytes_def ld8_def nth_append small_no_pointer unat_small)
      qed
      with s 2(1) show ?thesis by auto
    qed
  qed
  let ?off = "length pre + length ?o"
  have f: "be16 data ?off = Some (rr_type r)" "be16 data (?off + 2) = Some (rr_class r)" "be16 data (?off + 8) = Some ?k"
    using be16_field [of "pre @ ?o" ?off "rr_type r"] be16_field [of "pre @ ?o @ be16_bytes (rr_type r)" "?off + 2" "rr_class r"]
      be16_field [of "pre @ ?o @ be16_bytes (rr_type r) @ be16_bytes (rr_class r) @ be32_bytes (rr_ttl r)" "?off + 8" ?k]
    by (simp_all add: d rest_def)
  have k: "unat ?k = length (rr_data r)" using assms(1) by (simp add: rr_ok_def unat_of_nat take_bit_nat_eq_self)
  then have k4: "?k = 4 \<longleftrightarrow> length (rr_data r) = 4" using word_unat_eq_iff [of ?k 4] by simp
  have a: "length (rr_data r) = 4 \<Longrightarrow> be32 data (?off + 10) = be32 (rr_data r) 0"
    using be32_skip [of "pre @ ?o @ be16_bytes (rr_type r) @ be16_bytes (rr_class r) @ be32_bytes (rr_ttl r) @ be16_bytes ?k" "?off + 10" "rr_data r @ post"]
    by (simp add: d rest_def be32_take4)
  have a_ex: "length (rr_data r) = 4 \<Longrightarrow> \<exists>ip. be32 (rr_data r) 0 = Some ip" by (simp add: be32_def ld8_def)
  have b: "length pre + length (rr_bytes r) \<le> length data" "12 \<le> length (rr_bytes r)" using assms by (simp_all add: rr_ok_def)
  from owner obtain h where h: "ld8 data (length pre) = Some h"
    "(if h AND 0xC0 = 0xC0 then Some (length pre + 2) else map_option Suc (skip_name data (int (length data)) (length pre))) = Some ?off" by blast
  have "parse_answer data (int (length data)) (Some q) (length pre) c =
    do { c' \<leftarrow> (if rr_type r = 1 \<and> rr_class r = 1 \<and> ?k = 4 then do { a \<leftarrow> be32 data (?off + 10); Some (dns_cache_store c q a) } else Some c);
      Some (Some (?off + 10 + length (rr_data r), c')) }"
    unfolding parse_answer_def Let_def h bind.simps f k option.sel using b len by simp
  then show ?thesis using a a_ex k4 len by (auto simp: rr_addr_def)
qed

text \<open>The first address wins.\<close>

primrec first_addr :: "dns_rr list \<Rightarrow> u32 option" where
  "first_addr [] = None"
| "first_addr (r # rs) = (case rr_addr r of None \<Rightarrow> first_addr rs | Some ip \<Rightarrow> Some ip)"

definition learn :: "cstr \<Rightarrow> dns_rr list \<Rightarrow> dns_cache_entry list \<Rightarrow> dns_cache_entry list" where
  "learn q rs c = fold (\<lambda>r c. case rr_addr r of None \<Rightarrow> c | Some ip \<Rightarrow> dns_cache_store c q ip) rs c"

lemma parse_records:
  assumes "\<forall>r \<in> set rs. rr_ok r" "data = pre @ concat (map rr_bytes rs) @ post"
  shows "parse_answers data (int (length data)) (Some q) (length rs) (length pre) c = Some (True, learn q rs c)"
  using assms
proof (induction rs arbitrary: pre c)
  case Nil
  then show ?case by (simp add: learn_def)
next
  case (Cons r rs)
  let ?c = "case rr_addr r of None \<Rightarrow> c | Some ip \<Rightarrow> dns_cache_store c q ip"
  have "parse_answer data (int (length data)) (Some q) (length pre) c = Some (Some (length pre + length (rr_bytes r), ?c))"
    by (rule parse_record [where post = "concat (map rr_bytes rs) @ post"]) (use Cons.prems in simp_all)
  moreover have "parse_answers data (int (length data)) (Some q) (length rs) (length (pre @ rr_bytes r)) ?c = Some (True, learn q rs ?c)"
    by (rule Cons.IH) (use Cons.prems in simp_all)
  ultimately show ?case by (simp add: learn_def)
qed

lemma learn_known:
  assumes "dns_cache_ok c" "dns_get_cached c q \<noteq> None"
  shows "learn q rs c = c"
  using dns_store_keep [OF assms] by (induction rs) (auto simp: learn_def split: option.splits)

lemma learn_first:
  assumes "dns_cache_ok c" "name_ok q" "dns_get_cached c q = None" "first_addr rs = Some ip" "ip \<noteq> 0"
  shows "dns_get_cached (learn q rs c) q = Some ip"
  using assms(4)
proof (induction rs)
  case (Cons r rs)
  show ?case
  proof (cases "rr_addr r")
    case None
    with Cons show ?thesis by (simp add: learn_def)
  next
    case (Some a)
    then have a: "a = ip" using Cons.prems by simp
    let ?c = "dns_cache_store c q ip"
    have nul: "0 \<notin> set q" using assms(2) by (simp add: name_ok_def)
    obtain w where w: "dns_get_cached ?c q = Some w" using dns_store_hit [OF assms(1,2,5)] by auto
    then have "w = ip" using dns_store_sound [OF assms(1,2,5) nul w] assms(3) by simp
    moreover have "learn q (r # rs) c = learn q rs ?c" using Some a by (simp add: learn_def)
    moreover have "learn q rs ?c = ?c" by (rule learn_known) (use dns_cache_store_ok [OF assms(1,2,5)] w in auto)
    ultimately show ?thesis using w by simp
  qed
qed simp

lemma answer_parses:
  assumes "pack_name name cap = Some p" "qtrack_getname ident (qtracks s) = Some q" "\<forall>r \<in> set rs. rr_ok r" "length rs < 65536"
    and "d = dns_answer ident flags p rs ns ar behind"
  shows "dns_on_response src d (int (length d)) s =
    Some (s\<lparr>dns_cache := learn q rs (dns_cache s), qtracks := qtrack_clear ident (qtracks s)\<rparr>)"
proof -
  let ?h = "be16_bytes ident @ be16_bytes flags @ be16_bytes 1 @ be16_bytes (word_of_nat (length rs)) @ be16_bytes ns @ be16_bytes ar"
  let ?n = "length p" and ?c = "concat (map rr_bytes rs)"
  obtain out where out: "pack_labels cap name [] = Some out" "p = out @ [0]"
    using assms(1) by (auto simp: pack_name_def bind_Some_iff split: if_splits)
  obtain ls where ls: "p = label_bytes ls @ [0]" "labels_ok ls"
    using pack_labels_struct [OF out(1)] out(2) by auto
  have d: "d = ?h @ label_bytes ls @ 0 # [0, 1, 0, 1] @ ?c @ behind" by (simp add: assms(5) dns_answer_def ls(1))
  define pre where "pre = ?h @ p @ [0, 1, 0, 1]"
  have d': "d = pre @ ?c @ behind" by (simp add: assms(5) dns_answer_def pre_def)
  have pre: "length pre = 16 + ?n" by (simp add: pre_def)
  have lh: "length ?h = 12" by simp
  have len: "length d = 16 + ?n + length ?c + length behind" using d' pre by simp
  have k: "unat (word_of_nat (length rs) :: u16) = length rs" using assms(4) by (simp add: unat_of_nat take_bit_nat_eq_self)
  have hd: "be16 d 0 = Some ident" "be16 d 4 = Some 1" "be16 d 6 = Some (word_of_nat (length rs))"
    using be16_field [of "[]" 0 ident] be16_field [of "be16_bytes ident @ be16_bytes flags" 4 1]
      be16_field [of "be16_bytes ident @ be16_bytes flags @ be16_bytes 1" 6 "word_of_nat (length rs)"]
    by (simp_all add: d)
  have "skip_name d (int (length d)) (length ?h) = Some (length ?h + length (label_bytes ls))"
    by (rule skip_name_labels [OF ls(2) _ _ d]) (use len ls(1) in simp_all)
  then have "skip_name d (int (length d)) 12 = Some (11 + ?n)" unfolding lh by (simp add: ls(1))
  then have "skip_questions d (int (length d)) (unat (1 :: u16)) 12 = Some (Some (16 + ?n))"
    by (simp add: len)
  moreover have "parse_answers d (int (length d)) (Some q) (length rs) (16 + ?n) (dns_cache s) = Some (True, learn q rs (dns_cache s))"
    using parse_records [OF assms(3) d'] unfolding pre .
  ultimately show ?thesis
    using hd k assms(2) len unfolding dns_on_response_def Let_def by simp
qed

lemma qtrack_add_get:
  assumes "length qs = 8" "\<forall>q \<in> set qs. qt_qid q \<noteq> qid" "qid \<noteq> 0"
  shows "qtrack_getname qid (qtrack_add qid name qs) = Some (strncpy name 127)"
proof (cases "upd_first (\<lambda>q. qt_qid q = 0) (\<lambda>q. q\<lparr>qt_qid := qid, qt_name := strncpy name 127\<rparr>) qs")
  case None
  moreover obtain x xs where "qs = x # xs" using assms(1) by (cases qs) auto
  ultimately show ?thesis by (simp add: qtrack_add_def qtrack_getname_def)
next
  case (Some qs')
  from upd_first_SomeE [OF this] obtain us x vs where
    q: "qs = us @ x # vs" "qs' = us @ (x\<lparr>qt_qid := qid, qt_name := strncpy name 127\<rparr>) # vs" by metis
  have "find (\<lambda>q. qt_qid q = qid) us = None" using assms(2) q(1) by (auto simp: find_None_iff)
  then show ?thesis using Some q by (simp add: qtrack_add_def qtrack_getname_def find_append)
qed


lemma net_send_udp_ok:
  assumes "net_ok n" "length payload \<le> 1472"
  shows "\<exists>n'. net_send_udp_ipv4 ip dp sp payload n = Some n' \<and> net_ok n'"
proof -
  let ?seg = "st16 (htons sp) @ st16 (htons dp) @ st16 (htons (word_of_nat (8 + length payload))) @ st16 0 @ payload"
  have "0 \<le> 8 + int (length payload)" "8 + int (length payload) \<le> 1480"
      "8 + int (length payload) \<le> int (length ?seg)"
    using assms(2) by simp_all
  from net_send_ip_ok [OF assms(1) this] assms(2) show ?thesis
    by (simp add: net_send_udp_ipv4_def)
qed

lemma dns_query_async_spec:
  assumes "net_ok n" "dns_get_cached (dns_cache s) name = None"
    and "pack_name name 500 = Some p" "length p \<le> 496"
  shows "\<exists>n'. dns_query_async name s n = Some (1, s\<lparr>qid_counter := qid_counter s + 1,
      qtracks := qtrack_add (qid_counter s + 1) name (qtracks s)\<rparr>, n') \<and> net_ok n' \<and>
    net_send_udp_ipv4 DNS_SERVER 53 50000 (dns_header (qid_counter s + 1) @ p @ [0, 1, 0, 1]) n = Some n'"
proof -
  have "length (dns_header (qid_counter s + 1) @ p @ [0, 1, 0, 1]) \<le> 1472"
    using assms(4) by (simp add: dns_header_def)
  then obtain n' where "net_send_udp_ipv4 DNS_SERVER 53 50000
      (dns_header (qid_counter s + 1) @ p @ [0, 1, 0, 1]) n = Some n'" "net_ok n'"
    using net_send_udp_ok [OF assms(1)] by blast
  with assms(2-4) show ?thesis by (simp add: dns_query_async_def Let_def)
qed

lemma pack_labels_dot:
  assumes "46 \<notin> set l" "0 < length l" "length l \<le> 63" "length out + 1 + length l < cap"
  shows "pack_labels cap (l @ 46 # r) out = pack_labels cap r (out @ word_of_nat (length l) # l)"
proof -
  have "strchr (l @ 46 # r) 46 = Some (length l)" using assms(1) by (simp add: strchr_Some nth_append)
  with assms show ?thesis using pack_labels_step [of "l @ 46 # r" out cap] by (simp add: label_len_def)
qed

lemma pack_labels_end:
  assumes "46 \<notin> set l" "0 < length l" "length l \<le> 63" "length out + 1 + length l < cap"
  shows "pack_labels cap l out = Some (out @ word_of_nat (length l) # l)"
proof -
  have "strchr l 46 = None" using assms(1) by (simp add: strchr_None)
  with assms show ?thesis using pack_labels_step [of l out cap] by (simp add: label_len_def)
qed

lemma qtrack_add_ok:
  assumes "length qs = 8" "\<forall>q \<in> set qs. name_ok (qt_name q)" "0 \<notin> set name"
  shows "length (qtrack_add qid name qs) = 8 \<and> (\<forall>q \<in> set (qtrack_add qid name qs). name_ok (qt_name q))"
proof (cases "upd_first (\<lambda>q. qt_qid q = 0) (\<lambda>q. q\<lparr>qt_qid := qid, qt_name := strncpy name 127\<rparr>) qs")
  case None
  with assms show ?thesis by (auto simp: qtrack_add_def dest!: set_update_subset_insert [THEN subsetD])
next
  case (Some qs')
  with upd_first_set [OF this] assms show ?thesis by (auto simp: qtrack_add_def subset_iff)
qed

lemma dns_query_async_dns_ok:
  assumes "dns_query_async name s n = Some (r, s', n')" "dns_ok s" "0 \<notin> set name"
  shows "dns_ok s'"
  using assms qtrack_add_ok [of "qtracks s" name "qid_counter s + 1"]
  by (auto simp: dns_query_async_def dns_ok_def Let_def bind_Some_iff split: if_splits option.splits)

lemma dns_long_name_uncached:
  assumes "dns_cache_ok c" "0 \<notin> set name" "126 < length name"
  shows "dns_get_cached c name = None"
proof (rule ccontr)
  assume "dns_get_cached c name \<noteq> None"
  then obtain e where "e \<in> set c" "dc_name e = name"
    using dns_get_cached_Some [OF assms(1,2)] by auto
  then have "length name \<le> 126" using assms(1) by (auto simp: dns_cache_ok_def name_ok_def)
  with assms(3) show False by simp
qed

lemma resolve_loop_long:
  assumes "\<And>w w'. I w \<Longrightarrow> poll w = Some w' \<Longrightarrow> I w'" "\<And>w. I w \<Longrightarrow> dns_ok (fst w)"
    and "0 \<notin> set name" "126 < length name"
  shows "I w \<Longrightarrow> resolve_loop poll name k w = Some (r, w') \<Longrightarrow> r = None"
proof (induction k arbitrary: w)
  case 0
  then show ?case by simp
next
  case (Suc k)
  then obtain w1 where w1: "poll w = Some w1" by (auto simp: bind_Some_iff)
  then have "I w1" using assms(1) Suc.prems(1) by blast
  moreover from this have "dns_get_cached (dns_cache (fst w1)) name = None"
    using assms(2-4) dns_long_name_uncached by (auto simp: dns_ok_def)
  ultimately show ?case using Suc w1 by (auto simp: bind_Some_iff)
qed

section \<open>Properties\<close>

text \<open>C26: Whatever bytes arrive from port 53, the parser of responses reads only inside the
  packet, returns, and keeps the tables well formed.\<close>
lemma dns_response_memory_safe:
  assumes "dns_ok s" "len \<le> int (length data)"
  shows "\<exists>s'. dns_on_response src data len s = Some s' \<and> dns_ok s'"
  by (rule dns_on_response_ok) (rule assms)+

lemma dns_response_memory_safe_witness:
  "\<exists>s'. dns_on_response 7 (replicate 12 0xFF @ [0xC0]) 13 dns_boot = Some s' \<and> dns_ok s'"
  using dns_response_memory_safe [OF dns_ok_boot, of 13 "replicate 12 0xFF @ [0xC0]" 7] by simp

text \<open>The encoding is at most two bytes longer than the name.\<close>

lemma pack_labels_length:
  "pack_labels cap p out = Some r \<Longrightarrow> length r \<le> length out + 1 + length p"
proof (induction cap p out arbitrary: r rule: pack_labels.induct)
  case (1 cap p out)
  show ?case
  proof (cases "p \<noteq> [] \<and> length out < cap")
    case False
    then have "r = out" using "1.prems" by (subst (asm) pack_labels.simps) (simp only: if_False option.inject)
    then show ?thesis by simp
  next
    case guard: True
    note step = pack_labels_step [OF guard]
    have bounds: "label_len p \<noteq> 0" "label_len p \<le> 63" using "1.prems" unfolding step by (auto split: if_splits)
    show ?thesis
    proof (cases "strchr p 46")
      case None
      then show ?thesis using "1.prems" bounds unfolding step by (auto split: if_splits)
    next
      case (Some d)
      then have rec: "pack_labels cap (drop (d + 1) p) (out @ [word_of_nat (label_len p)] @ take (label_len p) p) = Some r"
        and room: "\<not> cap \<le> length out + 1 + label_len p"
        using "1.prems" bounds unfolding step by (auto split: if_splits)
      have "length r \<le> length (out @ [word_of_nat (label_len p)] @ take (label_len p) p) + 1 + length (drop (d + 1) p)"
        by (rule "1.IH" [OF guard refl label_len_def _ _ Some rec]) (use bounds room in auto)
      with label_len_Some [OF Some] show ?thesis by (cases "length p") auto
    qed
  qed
qed

lemma pack_name_length: "pack_name name cap = Some p \<Longrightarrow> length p \<le> length name + 2"
  by (auto simp: pack_name_def bind_Some_iff dest!: pack_labels_length split: if_splits)


text \<open>A response with an alias in front of the address.\<close>

definition rrs_demo :: "dns_rr list" where
  "rrs_demo = [\<lparr>rr_owner = [0xC0, 12], rr_type = 5, rr_class = 1, rr_ttl = 60, rr_data = [1, 99, 0]\<rparr>,
     \<lparr>rr_owner = [1, 99, 0], rr_type = 1, rr_class = 1, rr_ttl = 60, rr_data = [10, 0, 0, 9]\<rparr>]"

lemma rrs_demo_ok: "\<forall>r \<in> set rrs_demo. rr_ok r" "first_addr rrs_demo = Some 0x0A000009"
proof -
  have "[1, 99, 0] = label_bytes [[99]] @ [0]" "labels_ok [[99]]" by (simp_all add: label_bytes_def labels_ok_def)
  then have "owner_ok [1, 99, 0]" unfolding owner_ok_def by blast
  moreover have "owner_ok [0xC0, 12]" by (simp add: owner_ok_def)
  ultimately show "\<forall>r \<in> set rrs_demo. rr_ok r" by (simp add: rrs_demo_def rr_ok_def rr_bytes_def)
  show "first_addr rrs_demo = Some 0x0A000009" by code_simp
qed


text \<open>C37: The encoder and the label format agree: decoding an encoded name gives the name
  back (ended by a dot), and the encoding never exceeds its buffer.\<close>
lemma dns_name_roundtrip:
  assumes "pack_name name cap = Some p"
  shows "decode_labels p = with_dot name \<and> length p \<le> cap"
  using pack_name_decode [OF assms] by simp

lemma dns_name_roundtrip_witness:
  "decode_labels [1, 97, 1, 98, 0] = [97, 46, 98, 46]"
proof -
  have "pack_name [97, 46, 98] 500 = Some [1, 97, 1, 98, 0]"
    by (simp add: pack_name_def pack_labels.simps Let_def)
  from dns_name_roundtrip [OF this] show ?thesis by (simp add: with_dot_def)
qed

text \<open>A name that encodes to more than 496 bytes overruns the query buffer: the encoder
  is given all 500 bytes behind the header and four more bytes follow.\<close>
lemma dns_query_overflow:
  assumes "dns_get_cached (dns_cache s) name = None" "pack_name name 500 = Some p" "496 < length p"
  shows "dns_query_async name s n = None"
  using assms by (simp add: dns_query_async_def Let_def)

lemma dns_query_overflow_witness:
  "dns_query_async (concat (replicate 8 (replicate 60 97 @ [46])) @ replicate 8 97) dns_boot net_boot = None"
proof -
  define l :: cstr where "l = replicate 60 97"
  define e :: cstr where "e = replicate 8 97"
  have l: "46 \<notin> set l" "length l = 60" and e: "46 \<notin> set e" "length e = 8" by (simp_all add: l_def e_def)
  let ?name = "concat (replicate 8 (l @ [46])) @ e"
  have name: "?name = l @ 46 # l @ 46 # l @ 46 # l @ 46 # l @ 46 # l @ 46 # l @ 46 # l @ 46 # e"
    by (simp add: eval_nat_numeral)
  obtain p where "pack_name ?name 500 = Some p" "496 < length p"
    unfolding name pack_name_def using l e by (simp add: pack_labels_dot pack_labels_end)
  moreover have "dns_get_cached (dns_cache dns_boot) ?name = None"
    by (simp only: dns_get_cached_None) (simp add: dns_boot_def dc_is_def)
  ultimately show ?thesis using dns_query_overflow unfolding l_def e_def by blast
qed

text \<open>A name of 127 bytes or more never resolves: entries keep 126 bytes of a name, so
  the lookup never finds one, whatever the polls bring in.\<close>
lemma dns_long_name_never_resolves:
  assumes "\<And>w w'. dns_ok (fst w) \<Longrightarrow> poll w = Some w' \<Longrightarrow> dns_ok (fst w')"
    and "dns_ok (fst w)" "0 \<notin> set name" "126 < length name"
    and "dns_resolve poll name w = Some (r, w')"
  shows "r = None"
proof -
  have "dns_get_cached (dns_cache (fst w)) name = None"
    using assms(2-4) dns_long_name_uncached by (simp add: dns_ok_def)
  with assms(5) obtain q s n where q: "dns_query_async name (fst w) (fst (snd w)) = Some (q, s, n)"
    "resolve_loop poll name 20000 (s, n, snd (snd w)) = Some (r, w')"
    by (auto simp: dns_resolve_def bind_Some_iff)
  have ok: "dns_ok s" using dns_query_async_dns_ok [OF q(1) assms(2,3)] .
  show ?thesis
    by (rule resolve_loop_long [where I = "\<lambda>w. dns_ok (fst w)", OF _ _ assms(3,4) _ q(2)])
       (use assms(1) ok in auto)
qed

lemma dns_long_name_never_resolves_witness:
  "\<exists>w'. dns_resolve (\<lambda>w. Some w) (replicate 127 97) (dns_boot, net_boot, ()) = Some (None, w')"
proof -
  have c: "dns_get_cached (dns_cache dns_boot) (replicate 127 97) = None"
    by (simp add: dns_get_cached_None) (simp add: dns_boot_def dc_is_def)
  have p: "pack_name (replicate 127 97) 500 = None"
  proof -
    have "strchr (replicate 127 97) 46 = None" by (simp add: strchr_None)
    then show ?thesis
      using pack_labels_step [of "replicate 127 97" "[]" 500] by (simp add: pack_name_def label_len_def)
  qed
  have "resolve_loop Some name k w \<noteq> None" for name k and w :: "dns \<times> net \<times> unit"
    by (induction k) (auto split: option.split simp del: not_None_eq)
  moreover obtain s where "dns_query_async (replicate 127 97) dns_boot net_boot = Some (0, s, net_boot)"
    using c p by (simp add: dns_query_async_def Let_def)
  ultimately have "dns_resolve (\<lambda>w. Some w) (replicate 127 97) (dns_boot, net_boot, ()) \<noteq> None"
    using c by (simp add: dns_resolve_def del: not_None_eq)
  then obtain r w' where "dns_resolve (\<lambda>w. Some w) (replicate 127 97) (dns_boot, net_boot, ()) = Some (r, w')" by auto
  moreover from this have "r = None"
    by (rule dns_long_name_never_resolves [rotated 4]) (auto simp: dns_ok_boot)
  ultimately show ?thesis by blast
qed

text \<open>Whatever bindings were stored, every answer of the DNS cache is one that was stored,
  and storing a name again changes nothing: the first address is kept.\<close>
lemma dns_cache_answers_sound:
  assumes "dns_cache_ok c" "\<forall>b \<in> set bs. name_ok (fst b) \<and> snd b \<noteq> 0" "0 \<notin> set q"
    and "dns_get_cached (dnsc.stores c bs) q = Some ip"
  shows "((q, ip) \<in> set bs \<or> dns_get_cached c q = Some ip) \<and>
    dns_cache_store (dnsc.stores c bs) q ip' = dnsc.stores c bs"
proof
  show "(q, ip) \<in> set bs \<or> dns_get_cached c q = Some ip"
    using dnsc.stores_sound [of c bs q ip] assms by simp
  show "dns_cache_store (dnsc.stores c bs) q ip' = dnsc.stores c bs"
    using dns_store_keep [OF dnsc.stores_invar] assms by simp
qed

lemma dns_cache_answers_sound_witness:
  "dns_cache_store (dnsc.stores (dns_cache dns_boot) [([97], 9)]) [97] 10 =
    dnsc.stores (dns_cache dns_boot) [([97], 9)]"
proof -
  have ok: "dns_cache_ok (dns_cache dns_boot)" using dns_ok_boot by (simp add: dns_ok_def)
  obtain w where "dns_get_cached (dnsc.stores (dns_cache dns_boot) [([97], 9)]) [97] = Some w"
    using dns_store_hit [OF ok, of "[97]" 9] by (auto simp: name_ok_def)
  from dns_cache_answers_sound [OF ok _ _ this, of 10] show ?thesis by (simp add: name_ok_def)
qed

end
