(* ===== verification/Netrx.thy ===== *)
theory Netrx
  imports Tcp_Run Dns
begin

text \<open>
  The receive path: \<open>net_rx\<close> of \<open>src/net.c\<close>, which hands ARP packets to the cache, DNS
  answers to the resolver, UDP to \<open>udp_on_datagram\<close> of \<open>src/net_demo.c\<close> and TCP to
  \<open>tcp_on_rx\<close>. The frame is the list of bytes readable from the pointer the driver
  passes, which may be longer than the received length \<open>len\<close>.
\<close>

section \<open>State\<close>

text \<open>\<open>st_udp\<close> is the list of the datagrams \<open>udp_on_datagram\<close> got: source, port and bytes used.\<close>

record stack =
  st_net :: net
  st_tcp :: tcp
  st_dns :: dns
  st_udp :: "(u32 \<times> u16 \<times> bytes) list"

definition stack_boot :: stack where
  "stack_boot = \<lparr>st_net = net_boot, st_tcp = tcp_boot, st_dns = dns_boot, st_udp = []\<rparr>"

section \<open>UDP datagrams\<close>

text \<open>\<open>while (*p && *p != '"' && i < 63) title[i++] = *p++\<close>\<close>

fun copy_title :: "cstr \<Rightarrow> nat \<Rightarrow> cstr" where
  "copy_title (c # p) (Suc n) = (if c \<noteq> 34 then c # copy_title p n else [])"
| "copy_title p n = []"

lemma length_copy_title: "length (copy_title p n) \<le> length p"
  by (induction p n rule: copy_title.induct) auto

text \<open>The titles drawn, with the line of each.\<close>

function titles_loop :: "cstr \<Rightarrow> nat \<Rightarrow> (nat \<times> cstr) list" where
  "titles_loop p y =
     (case strstr p (34 # lit ''title'' @ [34]) of
        None \<Rightarrow> []
      | Some i \<Rightarrow>
          (case strchr (drop i p) 58 of
             None \<Rightarrow> []
           | Some j \<Rightarrow>
               let p2 = dropWhile (\<lambda>c. c = 34 \<or> c = 32 \<or> c = 58) (drop (j + 1) (drop i p));
                   title = copy_title p2 63
               in (y, title) # (if y + 20 > 350 then [] else titles_loop (drop (length title) p2) (y + 20))))"
  by pat_completeness auto
termination
proof (relation "measure (\<lambda>(p, y). length p)")
  fix p :: cstr and y i j p2 title
  assume "strchr (drop i p) 58 = Some j" and p2: "p2 = dropWhile (\<lambda>c. c = 34 \<or> c = 32 \<or> c = 58) (drop (j + 1) (drop i p))"
  then have "i < length p" using strchr_Some [of "drop i p" 58 j] by auto
  moreover have "length p2 \<le> length (drop (j + 1) (drop i p))" unfolding p2 by (rule length_dropWhile_le)
  ultimately show "((drop (length title) p2, y + 20), (p, y)) \<in> measure (\<lambda>(p, y). length p)" by simp
qed simp

declare titles_loop.simps [simp del]

definition udp_titles :: "bytes \<Rightarrow> (nat \<times> cstr) list" where
  "udp_titles buf = titles_loop (takeWhile (\<lambda>c. c \<noteq> 0) buf) 100"

text \<open>\<open>udp_on_datagram\<close> copies at most 1000 bytes and draws the titles in them.\<close>

definition udp_on_datagram :: "u32 \<Rightarrow> u16 \<Rightarrow> bytes \<Rightarrow> int \<Rightarrow> stack \<Rightarrow> stack option" where
  "udp_on_datagram src_ip src_port data len s = do {
     let len = (if len > 1000 then 1000 else len);
     buf \<leftarrow> rdn data len;
     Some (s\<lparr>st_udp := st_udp s @ [(src_ip, src_port, buf)]\<rparr>)
   }"

section \<open>Demultiplexing\<close>

definition net_rx_arp :: "bytes \<Rightarrow> int \<Rightarrow> net \<Rightarrow> net option" where
  "net_rx_arp frame len n =
     (if len < 14 + 28 then Some n
      else do {
        let a = drop 14 frame;
        htype \<leftarrow> ld16 a 0;
        ptype \<leftarrow> ld16 a 2;
        hlen \<leftarrow> ld8 a 4;
        plen \<leftarrow> ld8 a 5;
        if ntohs htype = 1 \<and> ntohs ptype = 0x0800 \<and> hlen = 6 \<and> plen = 4 then do {
          spa \<leftarrow> ld32 a 14;
          tpa \<leftarrow> ld32 a 24;
          if ntohl spa \<noteq> 0 then do {
            sha \<leftarrow> rdn (drop 8 a) 6;
            flush_pending_for_ip (ntohl spa) (n\<lparr>arp_cache := arp_store (arp_cache n) (ntohl spa) sha\<rparr>)
          }
          else Some n
        }
        else Some n
      })"

definition net_rx_udp :: "u32 \<Rightarrow> bytes \<Rightarrow> int \<Rightarrow> stack \<Rightarrow> stack option" where
  "net_rx_udp src pl pl_len s =
     (if pl_len < 8 then Some s
      else do {
        sp \<leftarrow> ld16 pl 0;
        dp \<leftarrow> ld16 pl 2;
        s' \<leftarrow> (if ntohs sp = 53 then do {
                 d \<leftarrow> dns_on_response (ntohl src) (drop 8 pl) (pl_len - 8) (st_dns s);
                 Some (s\<lparr>st_dns := d\<rparr>)
               } else Some s);
        udp_on_datagram (ntohl src) (ntohs sp) (drop 8 pl) (pl_len - 8) s'
      })"

definition net_rx_tcp :: "u32 \<Rightarrow> u32 \<Rightarrow> bytes \<Rightarrow> int \<Rightarrow> stack \<Rightarrow> stack option" where
  "net_rx_tcp src dst pl pl_len s =
     (if pl_len < 20 then Some s
      else do {
        (t, n) \<leftarrow> tcp_on_rx pl pl_len (ntohl src) (ntohl dst) (st_tcp s) (st_net s);
        Some (s\<lparr>st_tcp := t, st_net := n\<rparr>)
      })"

definition net_rx_ip :: "bytes \<Rightarrow> int \<Rightarrow> stack \<Rightarrow> stack option" where
  "net_rx_ip frame len s =
     (if len < 14 + 20 then Some s
      else do {
        let ip = drop 14 frame;
        ver_ihl \<leftarrow> ld8 ip 0;
        if drop_bit 4 ver_ihl \<noteq> 4 then Some s
        else do {
          let ihl = unat (ver_ihl AND 0xF) * 4;
          if len < 14 + int ihl then Some s
          else do {
            tot_len \<leftarrow> ld16 ip 2;
            let pl_len = int (unat (ntohs tot_len)) - int ihl;
            if pl_len < 0 then Some s
            else do {
              let pl = drop ihl ip;
              proto \<leftarrow> ld8 ip 9;
              src \<leftarrow> ld32 ip 12;
              dst \<leftarrow> ld32 ip 16;
              if proto = IP_PROTO_UDP then net_rx_udp src pl pl_len s
              else if proto = IP_PROTO_TCP then net_rx_tcp src dst pl pl_len s
              else Some s
            }
          }
        }
      })"

definition net_rx :: "bytes \<Rightarrow> int \<Rightarrow> stack \<Rightarrow> stack option" where
  "net_rx frame len s =
     (if len < 14 then Some s
      else do {
        type \<leftarrow> ld16 frame 12;
        if ntohs type = ETH_TYPE_ARP then do {
          n \<leftarrow> net_rx_arp frame len (st_net s);
          Some (s\<lparr>st_net := n\<rparr>)
        }
        else if ntohs type = ETH_TYPE_IP then net_rx_ip frame len s
        else Some s
      })"

section \<open>Safety\<close>

definition stack_ok :: "stack \<Rightarrow> bool" where
  "stack_ok s \<longleftrightarrow> net_ok (st_net s) \<and> tcp_ok (st_tcp s) \<and> dns_ok (st_dns s)"

lemma stack_ok_boot: "stack_ok stack_boot"
  by (simp add: stack_ok_def stack_boot_def tcp_ok_boot dns_ok_boot)

lemma udp_on_datagram_ok:
  assumes "stack_ok s" "0 \<le> len" "len \<le> int (length data)"
  shows "\<exists>s'. udp_on_datagram src sp data len s = Some s' \<and> stack_ok s'"
  using assms by (auto simp: udp_on_datagram_def rdn_def stack_ok_def)

lemma net_rx_arp_ok:
  assumes "net_ok n" "len \<le> int (length frame)"
  shows "\<exists>n'. net_rx_arp frame len n = Some n' \<and> net_ok n'"
proof (cases "len < 42")
  case True
  with assms show ?thesis by (simp add: net_rx_arp_def)
next
  case False
  define a where "a = drop 14 frame"
  have len: "28 \<le> length a" using False assms(2) by (simp add: a_def)
  obtain ht where ht: "ld16 a 0 = Some ht" using ld_ex(2) [of 0 a] len by auto
  obtain pt where pt: "ld16 a 2 = Some pt" using ld_ex(2) [of 2 a] len by auto
  obtain hl where hl: "ld8 a 4 = Some hl" using ld_ex(1) [of 4 a] len by auto
  obtain pl where pl: "ld8 a 5 = Some pl" using ld_ex(1) [of 5 a] len by auto
  obtain spa where spa: "ld32 a 14 = Some spa" using ld_ex(3) [of 14 a] len by auto
  obtain tpa where tpa: "ld32 a 24 = Some tpa" using ld_ex(3) [of 24 a] len by auto
  let ?sha = "take 6 (drop 8 a)"
  have sha: "rdn (drop 8 a) 6 = Some ?sha" "length ?sha = 6"
    using len by (simp_all add: rdn_def)
  let ?n = "n\<lparr>arp_cache := arp_store (arp_cache n) (ntohl spa) ?sha\<rparr>"
  have "net_ok ?n" using assms(1) arp_store_ok [OF _ sha(2)] by (simp add: net_ok_def)
  then obtain n' where "flush_pending_for_ip (ntohl spa) ?n = Some n'" "net_ok n'"
    using flush_pending_ok by blast
  then show ?thesis using False ht pt hl pl spa tpa sha(1) assms(1)
    unfolding net_rx_arp_def Let_def a_def [symmetric] by (simp del: drop_drop)
qed

lemma net_rx_udp_ok:
  assumes "stack_ok s" "pl_len \<le> int (length pl)"
  shows "\<exists>s'. net_rx_udp src pl pl_len s = Some s' \<and> stack_ok s'"
proof (cases "pl_len < 8")
  case True
  with assms show ?thesis by (simp add: net_rx_udp_def)
next
  case False
  then have "8 \<le> length pl" using assms(2) by linarith
  then obtain sp dp where f: "ld16 pl 0 = Some sp" "ld16 pl 2 = Some dp" by (simp add: ld16_def)
  have len: "0 \<le> pl_len - 8" "pl_len - 8 \<le> int (length (drop 8 pl))"
    using False assms(2) by simp_all
  have "dns_ok (st_dns s)" using assms(1) by (simp add: stack_ok_def)
  then obtain d where d: "dns_on_response (ntohl src) (drop 8 pl) (pl_len - 8) (st_dns s) = Some d" "dns_ok d"
    using dns_on_response_ok [OF _ len(2)] by blast
  define s1 where "s1 = (if ntohs sp = 53 then s\<lparr>st_dns := d\<rparr> else s)"
  have "stack_ok s1" using assms(1) d(2) by (simp add: s1_def stack_ok_def)
  then obtain s' where "udp_on_datagram (ntohl src) (ntohs sp) (drop 8 pl) (pl_len - 8) s1 = Some s'" "stack_ok s'"
    using udp_on_datagram_ok [OF _ len] by blast
  then show ?thesis using False f d(1) by (auto simp: net_rx_udp_def s1_def split: if_splits)
qed

lemma net_rx_tcp_ok:
  assumes "stack_ok s" "pl_len \<le> int (length pl)"
  shows "\<exists>s'. net_rx_tcp src dst pl pl_len s = Some s' \<and> stack_ok s'"
proof -
  have "tcp_ok (st_tcp s)" "net_ok (st_net s)" using assms(1) by (simp_all add: stack_ok_def)
  then obtain t n where "tcp_on_rx pl pl_len (ntohl src) (ntohl dst) (st_tcp s) (st_net s) = Some (t, n)"
    "tcp_ok t" "net_ok n"
    using tcp_on_rx_ok [OF _ _ assms(2)] by blast
  with assms show ?thesis by (simp add: net_rx_tcp_def stack_ok_def)
qed

text \<open>
  The total length of an IPv4 frame, which the code does not compare with the received length, lies
  inside the readable bytes. Frames of other types, as of ARP, have no such field.
\<close>

definition ip_len_fits :: "bytes \<Rightarrow> bool" where
  "ip_len_fits frame \<longleftrightarrow> (ld16 frame 12 = Some (htons ETH_TYPE_IP) \<longrightarrow>
     (\<forall>t. ld16 frame 16 = Some t \<longrightarrow> 14 + unat (ntohs t) \<le> length frame))"

lemma net_rx_ip_ok:
  assumes "stack_ok s" "len \<le> int (length frame)" "ip_len_fits frame" "ld16 frame 12 = Some (htons ETH_TYPE_IP)"
  shows "\<exists>s'. net_rx_ip frame len s = Some s' \<and> stack_ok s'"
proof (cases "len < 34")
  case True
  with assms show ?thesis by (simp add: net_rx_ip_def)
next
  case False
  define ip where "ip = drop 14 frame"
  have len: "20 \<le> length ip" "34 \<le> length frame" using False assms(2) by (simp_all add: ip_def)
  obtain v where v: "ld8 ip 0 = Some v" using len by (cases ip) (simp_all add: ld8_def)
  obtain tl where tl: "ld16 ip 2 = Some tl" using ld_ex(2) [of 2 ip] len by auto
  obtain pr where pr: "ld8 ip 9 = Some pr" using ld_ex(1) [of 9 ip] len by auto
  obtain src where src: "ld32 ip 12 = Some src" using ld_ex(3) [of 12 ip] len by auto
  obtain dst where dst: "ld32 ip 16 = Some dst" using ld_ex(3) [of 16 ip] len by auto
  have "ld16 frame 16 = Some tl" using tl len by (simp add: ld16_def ip_def)
  then have fits: "14 + unat (ntohs tl) \<le> length frame" using assms(3,4) by (simp add: ip_len_fits_def)
  define ihl where "ihl = unat (v AND 0xF) * 4"
  define pl_len where "pl_len = int (unat (ntohs tl)) - int ihl"
  define pl where "pl = drop ihl ip"
  have pl: "pl_len \<le> int (length pl)" if "0 \<le> pl_len"
  proof -
    have "ihl \<le> unat (ntohs tl)" using that unfolding pl_len_def by linarith
    then have "length pl = length frame - 14 - ihl" "unat (ntohs tl) - ihl \<le> length pl"
      using fits by (simp_all add: pl_def ip_def)
    moreover from \<open>ihl \<le> unat (ntohs tl)\<close> have "pl_len = int (unat (ntohs tl) - ihl)"
      by (simp only: pl_len_def of_nat_diff)
    ultimately show ?thesis by (simp only: of_nat_le_iff)
  qed
  have "net_rx_ip frame len s =
      (if drop_bit 4 v \<noteq> 4 then Some s
       else if len < 14 + int ihl then Some s
       else if pl_len < 0 then Some s
       else if pr = IP_PROTO_UDP then net_rx_udp src pl pl_len s
       else if pr = IP_PROTO_TCP then net_rx_tcp src dst pl pl_len s
       else Some s)"
    using False v tl pr src dst unfolding net_rx_ip_def Let_def ip_def [symmetric]
    by (simp add: ihl_def pl_len_def pl_def)
  then show ?thesis
    using assms(1) pl net_rx_udp_ok net_rx_tcp_ok by (auto split: if_splits)
qed

lemma net_rx_ok:
  assumes "stack_ok s" "len \<le> int (length frame)" "ip_len_fits frame"
  shows "\<exists>s'. net_rx frame len s = Some s' \<and> stack_ok s'"
proof (cases "len < 14")
  case True
  with assms show ?thesis by (simp add: net_rx_def)
next
  case False
  then have "14 \<le> length frame" using assms(2) by linarith
  then obtain ty where ty: "ld16 frame 12 = Some ty" by (simp add: ld16_def)
  have "net_ok (st_net s)" using assms(1) by (simp add: stack_ok_def)
  then obtain n' where "net_rx_arp frame len (st_net s) = Some n'" "net_ok n'"
    using net_rx_arp_ok [OF _ assms(2)] by blast
  then show ?thesis
    using False ty net_rx_ip_ok [OF assms] assms(1) ntohs_eq_iff by (auto simp: net_rx_def stack_ok_def)
qed


section \<open>From one host to another\<close>

definition ip_frame :: "bytes \<Rightarrow> bytes \<Rightarrow> net_if \<Rightarrow> u32 \<Rightarrow> u8 \<Rightarrow> bytes \<Rightarrow> bytes" where
  "ip_frame dst_mac src_mac nif dst pr d = eth_hdr dst_mac src_mac ETH_TYPE_IP @ ip_packet nif dst pr d"

lemma unat_of_nat_u16: "n < 65536 \<Longrightarrow> unat (word_of_nat n :: u16) = n"
  by (simp add: unat_of_nat take_bit_nat_eq_self)

lemma length_ip_frame: "length m = 6 \<Longrightarrow> length m' = 6 \<Longrightarrow> length (ip_frame m m' nif dst pr d) = 34 + length d"
  by (simp add: ip_frame_def eth_hdr_def)

lemma drop_ip_frame:
  assumes "length m = 6" "length m' = 6"
  shows "drop 14 (ip_frame m m' nif dst pr d @ r) = ip_packet nif dst pr d @ r"
  using assms by (simp add: ip_frame_def eth_hdr_def)

lemma ip_hdr_fields:
  "ld8 (ip_hdr tln pr c src dst @ x) 0 = Some 0x45"
  "ld16 (ip_hdr tln pr c src dst @ x) 2 = Some (htons tln)"
  "ld8 (ip_hdr tln pr c src dst @ x) 9 = Some pr"
  "ld32 (ip_hdr tln pr c src dst @ x) 12 = Some (htonl src)"
  "ld32 (ip_hdr tln pr c src dst @ x) 16 = Some (htonl dst)"
  by (simp_all add: ip_hdr_def wire_simps)

lemma int_unat_u16: "int (unat (w :: u16)) = uint w"
  by simp

text \<open>The demultiplexer on a frame with a given header: the header says how long \<open>x\<close> is.\<close>

lemma net_rx_ip_hdr:
  assumes "length m = 6" "length m' = 6" "34 \<le> len" "20 \<le> unat tln"
  shows "net_rx (eth_hdr m m' ETH_TYPE_IP @ ip_hdr tln pr c src dst @ x) len s =
    (if pr = IP_PROTO_UDP then net_rx_udp (htonl src) x (int (unat tln) - 20) s
     else if pr = IP_PROTO_TCP then net_rx_tcp (htonl src) (htonl dst) x (int (unat tln) - 20) s
     else Some s)"
proof -
  let ?f = "eth_hdr m m' ETH_TYPE_IP @ ip_hdr tln pr c src dst @ x"
  have ty: "ld16 ?f 12 = Some (htons ETH_TYPE_IP)"
    using assms(1,2) by (simp add: eth_hdr_def wire_simps)
  have d: "drop 14 ?f = ip_hdr tln pr c src dst @ x" using assms(1,2) by (simp add: eth_hdr_def)
  have v: "drop_bit 4 (0x45 :: u8) = 4" "unat ((0x45 :: u8) AND 0xF) * 4 = 20" by simp_all
  have tl: "\<not> uint tln < 20" using assms(4) by (metis int_unat_u16 not_less of_nat_le_iff of_nat_numeral)
  have "net_rx_ip ?f len s = (if pr = IP_PROTO_UDP then net_rx_udp (htonl src) x (int (unat tln) - 20) s
     else if pr = IP_PROTO_TCP then net_rx_tcp (htonl src) (htonl dst) x (int (unat tln) - 20) s
     else Some s)"
    unfolding net_rx_ip_def Let_def d using assms(3) v tl by (simp add: ip_hdr_fields)
  then show ?thesis using assms(3) ty by (simp add: net_rx_def ETH_TYPE_IP_def ETH_TYPE_ARP_def)
qed

text \<open>The receiver's demultiplexer on a frame the sender built, with anything behind it.\<close>

lemma net_rx_ip_frame:
  assumes "length m = 6" "length m' = 6" "length d \<le> 1480" "34 \<le> len"
  shows "net_rx (ip_frame m m' nif dst pr d @ r) len s =
    (if pr = IP_PROTO_UDP then net_rx_udp (htonl (nif_ip nif)) (d @ r) (int (length d)) s
     else if pr = IP_PROTO_TCP then net_rx_tcp (htonl (nif_ip nif)) (htonl dst) (d @ r) (int (length d)) s
     else Some s)"
proof -
  have tl: "unat (word_of_nat (20 + length d) :: u16) = 20 + length d"
    by (rule unat_of_nat_u16) (use assms(3) in simp)
  then have "20 \<le> unat (word_of_nat (20 + length d) :: u16)" by simp
  from net_rx_ip_hdr [OF assms(1,2,4) this] show ?thesis
    unfolding ip_frame_def ip_packet_def Let_def append_assoc tl by simp
qed

definition udp_segment :: "u16 \<Rightarrow> u16 \<Rightarrow> bytes \<Rightarrow> bytes" where
  "udp_segment sp dp payload = st16 (htons sp) @ st16 (htons dp) @
     st16 (htons (word_of_nat (8 + length payload))) @ st16 0 @ payload"

lemma net_send_udp_known:
  assumes "arp_lookup (arp_cache n) (next_hop (g_netif n) dst) = Some m" "length payload \<le> 1472"
  shows "net_send_udp_ipv4 dst dp sp payload n = Some (nic_tx
    (ip_frame m (nif_mac (g_netif n)) (g_netif n) dst IP_PROTO_UDP (udp_segment sp dp payload)) n)"
  using net_send_ip_known [OF assms(1), of "udp_segment sp dp payload" "8 + int (length payload)" IP_PROTO_UDP "[]"] assms(2)
  by (simp add: net_send_udp_ipv4_def udp_segment_def ip_frame_def)

lemma net_rx_udp_segment:
  assumes "sp \<noteq> 53"
  shows "net_rx_udp src (udp_segment sp dp payload @ r) (8 + int (length payload)) s =
    udp_on_datagram (ntohl src) sp (payload @ r) (int (length payload)) s"
  using assms by (simp add: net_rx_udp_def udp_segment_def wire_simps)

lemma tcp_send_known:
  assumes "ts_state (socks t k) = TCP_ESTABLISHED" "d \<noteq> []" "length d \<le> 1460"
    and "arp_lookup (arp_cache n) (next_hop (g_netif n) (ts_remote_ip (socks t k))) = Some m"
  shows "tcp_send k d (int (length d)) t n = Some (int (length d),
    put_sock k ((socks t k)\<lparr>ts_snd_nxt := ts_snd_nxt (socks t k) + word_of_nat (length d)\<rparr>) t,
    nic_tx (ip_frame m (nif_mac (g_netif n)) (g_netif n) (ts_remote_ip (socks t k)) 6
      (tcp_segment (socks t k) 0x18 d)) n)"
  using net_send_ip_known [OF assms(4), of "tcp_segment (socks t k) 0x18 d" "20 + int (length d)" 6 "[]"] assms(1-3)
  by (simp add: tcp_send_def tcp_send_segment_def ip_frame_def rdn_int_length Let_def)


section \<open>ARP answers\<close>

definition arp_frame :: "bytes \<Rightarrow> u16 \<Rightarrow> bytes \<Rightarrow> u32 \<Rightarrow> bytes \<Rightarrow> u32 \<Rightarrow> bytes" where
  "arp_frame dst oper sha spa tha tpa = eth_hdr dst sha ETH_TYPE_ARP @ arp_ipv4 oper sha spa tha tpa"

lemma net_rx_arp_frame:
  assumes "length dst = 6" "length sha = 6" "length tha = 6" "spa \<noteq> 0" "42 \<le> len"
  shows "net_rx (arp_frame dst oper sha spa tha tpa @ r) len s = do {
    n \<leftarrow> flush_pending_for_ip spa ((st_net s)\<lparr>arp_cache := arp_store (arp_cache (st_net s)) spa sha\<rparr>);
    Some (s\<lparr>st_net := n\<rparr>) }"
proof -
  let ?f = "arp_frame dst oper sha spa tha tpa @ r"
  have ty: "ld16 ?f 12 = Some (htons ETH_TYPE_ARP)"
    using assms(1,2) by (simp add: arp_frame_def eth_hdr_def wire_simps)
  have a: "drop 14 ?f = arp_ipv4 oper sha spa tha tpa @ r"
    using assms(1,2) by (simp add: arp_frame_def eth_hdr_def)
  have f: "ld16 (drop 14 ?f) 0 = Some (htons 1)" "ld16 (drop 14 ?f) 2 = Some (htons 0x0800)"
    "ld8 (drop 14 ?f) 4 = Some 6" "ld8 (drop 14 ?f) 5 = Some 4" "ld32 (drop 14 ?f) 14 = Some (htonl spa)"
    "ld32 (drop 14 ?f) 24 = Some (htonl tpa)" "rdn (drop 8 (drop 14 ?f)) 6 = Some sha"
    unfolding a using assms(2,3) by (simp_all add: arp_ipv4_def wire_simps rdn_def)
  have "net_rx_arp ?f len (st_net s) =
      flush_pending_for_ip spa ((st_net s)\<lparr>arp_cache := arp_store (arp_cache (st_net s)) spa sha\<rparr>)"
    unfolding net_rx_arp_def Let_def using f assms(4,5) by (simp del: drop_drop drop_append)
  then show ?thesis using ty assms(5) by (simp add: net_rx_def)
qed

lemma net_send_ip_unknown:
  assumes "arp_lookup (arp_cache s) (next_hop (g_netif s) dst) = None"
    and "pending s = p # ps" "pp_dst_ip p = 0" "0 \<le> n" "n \<le> 1500" "n \<le> int (length d)"
  shows "net_send_ip dst pr d n s = Some (send_arp_request (next_hop (g_netif s) dst) (s\<lparr>pending :=
    p\<lparr>pp_dst_ip := dst, pp_proto := pr, pp_payload_len := n,
      pp_payload := take (nat n) d @ drop (nat n) (pp_payload p)\<rparr> # ps\<rparr>))"
  using assms by (simp add: net_send_ip_def enqueue_pending_def rdn_def)

text \<open>A host that knows one neighbour, for the examples.\<close>

definition host_net :: "u32 \<Rightarrow> u32 \<Rightarrow> bytes \<Rightarrow> net" where
  "host_net ip peer m = net_boot\<lparr>g_netif := (g_netif net_boot)\<lparr>nif_ip := ip\<rparr>,
     arp_cache := arp_store (arp_cache net_boot) peer m\<rparr>"

lemma host_net_facts:
  assumes "peer \<noteq> 0" "length m = 6"
  shows "arp_lookup (arp_cache (host_net ip peer m)) (next_hop (g_netif (host_net ip peer m)) peer) = Some m"
    and "length (nif_mac (g_netif (host_net ip peer m))) = 6" "nif_ip (g_netif (host_net ip peer m)) = ip"
    and "net_ok (host_net ip peer m)"
proof -
  have ok: "arp_ok (arp_cache net_boot)" using net_ok_boot by (simp add: net_ok_def)
  then show "arp_lookup (arp_cache (host_net ip peer m)) (next_hop (g_netif (host_net ip peer m)) peer) = Some m"
    using arp_lookup_store_all [OF ok assms(1), of peer m]
    by (simp add: host_net_def next_hop_def net_boot_def)
  show "net_ok (host_net ip peer m)"
    using net_ok_boot arp_store_ok [OF ok assms(2), of peer] by (simp add: host_net_def net_ok_def)
qed (simp_all add: host_net_def net_boot_def)

section \<open>Properties\<close>


text \<open>An ARP answer and a datagram in a receive buffer of 2048 bytes.\<close>

definition rx_arp :: bytes where
  "rx_arp = arp_frame bcast 2 [1, 2, 3, 4, 5, 6] 9 bcast 7 @ replicate 2006 0"

definition rx_udp :: bytes where
  "rx_udp = ip_frame bcast bcast (g_netif net_boot) 9 IP_PROTO_UDP (udp_segment 6000 6001 [104, 105]) @ replicate 2004 0"

lemma rx_buffers: "length rx_arp = 2048" "ip_len_fits rx_arp" "length rx_udp = 2048" "ip_len_fits rx_udp"
proof -
  show "length rx_arp = 2048" by (simp add: rx_arp_def arp_frame_def eth_hdr_def arp_ipv4_def bcast_def)
  have "ld16 rx_arp 12 = Some (htons ETH_TYPE_ARP)"
    by (simp add: rx_arp_def arp_frame_def eth_hdr_def bcast_def wire_simps)
  then show "ip_len_fits rx_arp" by (simp add: ip_len_fits_def ETH_TYPE_ARP_def ETH_TYPE_IP_def htons_def)
  show len: "length rx_udp = 2048" by (simp add: rx_udp_def ip_frame_def eth_hdr_def udp_segment_def bcast_def)
  have "ld16 rx_udp 16 = Some (htons 30)" by code_simp
  then show "ip_len_fits rx_udp" by (simp add: ip_len_fits_def len)
qed


text \<open>C27: A datagram of at most 1472 bytes that one host sends, from a port other than 53, to an address its
  ARP cache knows arrives at the other host's \<open>udp_on_datagram\<close> with the sender's address and
  port, which takes its payload up to byte 1000.\<close>
lemma udp_end_to_end:
  assumes "arp_lookup (arp_cache n) (next_hop (g_netif n) dst) = Some m" "length m = 6"
    and "length (nif_mac (g_netif n)) = 6" "length payload \<le> 1472" "sp \<noteq> 53"
  shows "\<exists>f. net_send_udp_ipv4 dst dp sp payload n = Some (nic_tx f n) \<and>
    net_rx (f @ junk) (int (length f)) s =
      Some (s\<lparr>st_udp := st_udp s @ [(nif_ip (g_netif n), sp, take 1000 payload)]\<rparr>)"
proof -
  let ?seg = "udp_segment sp dp payload"
  let ?f = "ip_frame m (nif_mac (g_netif n)) (g_netif n) dst IP_PROTO_UDP ?seg"
  have len: "length ?seg = 8 + length payload" by (simp add: udp_segment_def)
  have "net_rx (?f @ junk) (int (length ?f)) s =
      net_rx_udp (htonl (nif_ip (g_netif n))) (?seg @ junk) (int (length ?seg)) s"
    using net_rx_ip_frame [OF assms(2,3), of ?seg "int (length ?f)"] assms(2-4) len
    by (simp add: length_ip_frame)
  also have "\<dots> = udp_on_datagram (nif_ip (g_netif n)) sp (payload @ junk) (int (length payload)) s"
    using net_rx_udp_segment [OF assms(5)] len by simp
  also have "\<dots> = Some (s\<lparr>st_udp := st_udp s @ [(nif_ip (g_netif n), sp, take 1000 payload)]\<rparr>)"
    by (simp add: udp_on_datagram_def rdn_def)
  finally show ?thesis using net_send_udp_known [OF assms(1)] assms(4) by auto
qed

lemma udp_end_to_end_witness:
  "\<exists>f. net_send_udp_ipv4 9 6000 6001 [104, 105] (host_net 7 9 [1, 2, 3, 4, 5, 6]) =
      Some (nic_tx f (host_net 7 9 [1, 2, 3, 4, 5, 6])) \<and>
    net_rx f (int (length f)) stack_boot = Some (stack_boot\<lparr>st_udp := [(7, 6001, [104, 105])]\<rparr>)"
proof -
  note h = host_net_facts [of 9 "[1, 2, 3, 4, 5, 6]" 7]
  have "st_udp stack_boot = []" by (simp add: stack_boot_def)
  with udp_end_to_end [OF h(1), of "[104, 105]" 6001 6000 "[]" stack_boot] h show ?thesis by simp
qed

text \<open>C14: What a connected peer, whose ARP cache knows the next hop, sends with \<open>tcp_send\<close>, at most 1460 bytes, put
  on the wire and received by \<open>net_rx\<close>, is appended to the receive buffer of the other host as
  far as its 8192 bytes have room (the rest is lost), and the two ends agree on the sequence
  numbers again.\<close>
lemma tcp_end_to_end:
  assumes "tcp_ok ta" "ts_state (socks ta k) = TCP_ESTABLISHED" "d \<noteq> []" "length d \<le> 1460"
    and "arp_lookup (arp_cache na) (next_hop (g_netif na) (ts_remote_ip (socks ta k))) = Some m" "length m = 6"
    and "length (nif_mac (g_netif na)) = 6" "nif_ip (g_netif na) = ts_local_ip (socks ta k)"
    and "stack_ok b" "connected (socks ta k) (g_sock (st_tcp b))" "ts_state (g_sock (st_tcp b)) = TCP_ESTABLISHED"
    and "ts_snd_nxt (socks ta k) = ts_rcv_nxt (g_sock (st_tcp b))" "ts_rx_cap (g_sock (st_tcp b)) = 8192"
  shows "\<exists>f ta' b'. tcp_send k d (int (length d)) ta na = Some (int (length d), ta', nic_tx f na) \<and>
    net_rx (f @ junk) (int (length f)) b = Some b' \<and> stack_ok b' \<and>
    recvd G_SOCK (st_tcp b') = recvd G_SOCK (st_tcp b) @ take (8192 - length (recvd G_SOCK (st_tcp b))) d \<and>
    ts_snd_nxt (socks ta' k) = ts_rcv_nxt (g_sock (st_tcp b'))"
proof -
  let ?a = "socks ta k"
  let ?seg = "tcp_segment ?a 0x18 d"
  let ?f = "ip_frame m (nif_mac (g_netif na)) (g_netif na) (ts_remote_ip ?a) 6 ?seg"
  let ?g = "g_sock (st_tcp b)"
  let ?k = "min (int (length d)) (ts_rx_cap ?g - ts_rx_len ?g)"
  let ?g' = "?g\<lparr>ts_rx_len := ts_rx_len ?g + ?k, ts_rcv_nxt := ts_rcv_nxt ?g + of_nat (length d)\<rparr>"
  have ok: "tcp_ok (st_tcp b)" "net_ok (st_net b)" using assms(9) by (simp_all add: stack_ok_def)
  have "length (rb (st_tcp b)) = 8192" using ok(1) by (simp add: tcp_ok_def)
  moreover have rx_len: "0 \<le> ts_rx_len ?g" "ts_rx_len ?g \<le> 8192"
    using sock_ok_len [OF tcp_ok_sock [OF ok(1), of G_SOCK]] by simp_all
  moreover from rx_len have "nat (ts_rx_len ?g) \<le> 8192" by (simp add: nat_le_iff)
  ultimately have "length (recvd G_SOCK (st_tcp b)) = nat (ts_rx_len ?g)" by (simp add: recvd_def min_absorb2)
  with rx_len have k: "take (nat ?k) d = take (8192 - length (recvd G_SOCK (st_tcp b))) d"
    using assms(13) by (cases "int (length d) \<le> 8192 - ts_rx_len ?g") (simp_all add: nat_diff_distrib)
  obtain t' n' where rx: "tcp_on_rx (?seg @ junk) (20 + int (length d)) (ts_local_ip ?a) (ts_remote_ip ?a) (st_tcp b) (st_net b) =
      Some (t', n')" "tcp_ok t'" "net_ok n'" "g_sock t' = ?g'"
      "recvd G_SOCK t' = recvd G_SOCK (st_tcp b) @ take (nat ?k) d"
    using tcp_on_rx_data [OF assms(10,11) ok assms(3,12) refl refl] by blast
  have "net_rx (?f @ junk) (int (length ?f)) b =
      net_rx_tcp (htonl (ts_local_ip ?a)) (htonl (ts_remote_ip ?a)) (?seg @ junk) (20 + int (length d)) b"
    using net_rx_ip_frame [OF assms(6,7), of ?seg "int (length ?f)"] assms(4,6-8)
    by (simp add: length_ip_frame IP_PROTO_UDP_def IP_PROTO_TCP_def)
  also have "\<dots> = Some (b\<lparr>st_tcp := t', st_net := n'\<rparr>)" using rx(1) by (simp add: net_rx_tcp_def)
  finally show ?thesis
    using tcp_send_known [OF assms(2-5)] rx(2-5) assms(9,12) k by (auto simp: stack_ok_def)
qed

lemma tcp_end_to_end_witness:
  "\<exists>f ta' b'. tcp_send G_SOCK [104, 105] 2 (put_sock G_SOCK est_peer tcp_boot) (host_net 7 9 [1, 2, 3, 4, 5, 6]) =
      Some (2, ta', nic_tx f (host_net 7 9 [1, 2, 3, 4, 5, 6])) \<and>
    net_rx f (int (length f)) (stack_boot\<lparr>st_tcp := est_tcp\<rparr>) = Some b' \<and>
    recvd G_SOCK (st_tcp b') = [104, 105]"
proof -
  let ?ta = "put_sock G_SOCK est_peer tcp_boot"
  let ?b = "stack_boot\<lparr>st_tcp := est_tcp\<rparr>"
  note h = host_net_facts [of 9 "[1, 2, 3, 4, 5, 6]" 7]
  have p: "ts_state est_peer = TCP_ESTABLISHED" "ts_remote_ip est_peer = 9" "ts_local_ip est_peer = 7" "sock_ok est_peer"
    by (simp_all add: est_peer_def sock_ok_def zero_socket_def)
  have ta: "tcp_ok ?ta" by (rule tcp_ok_put [OF tcp_ok_boot p(4)])
  have b: "stack_ok ?b" using stack_ok_boot by (simp add: stack_ok_def)
  show ?thesis
    using tcp_end_to_end [OF ta, of G_SOCK "[104, 105]" "host_net 7 9 [1, 2, 3, 4, 5, 6]" "[1, 2, 3, 4, 5, 6]" ?b "[]"]
      p b h by auto
qed

text \<open>A packet for an address not yet known is held back; the ARP answer of that host
  sends it, with the hardware address of the answer and the same payload, and frees the slot.\<close>
lemma arp_reply_releases_packet:
  assumes "net_ok (st_net s)" "dst \<noteq> 0" "next_hop (g_netif (st_net s)) dst = dst"
    and "arp_lookup (arp_cache (st_net s)) dst = None" "\<forall>p \<in> set (pending (st_net s)). pp_dst_ip p = 0"
    and "length d \<le> 1480" "length m = 6" "42 \<le> len"
  shows "\<exists>n s'. net_send_ip dst pr d (int (length d)) (st_net s) = Some n \<and>
    net_rx (arp_frame (nif_mac (g_netif n)) 2 m dst (nif_mac (g_netif n)) (nif_ip (g_netif n)) @ junk) len (s\<lparr>st_net := n\<rparr>) = Some s' \<and>
    nic_log (st_net s') = nic_log n @ [ip_frame m (nif_mac (g_netif n)) (g_netif n) dst pr d] \<and>
    (\<forall>p \<in> set (pending (st_net s')). pp_dst_ip p = 0) \<and> arp_lookup (arp_cache (st_net s')) dst = Some m"
proof -
  let ?n = "st_net s"
  have len8: "length (pending ?n) = 8" using assms(1) by (simp add: net_ok_def pending_ok_def)
  then obtain p ps where pend: "pending ?n = p # ps" by (cases "pending ?n") auto
  have mac: "length (nif_mac (g_netif ?n)) = 6" using assms(1) by (simp add: net_ok_def)
  let ?p = "p\<lparr>pp_dst_ip := dst, pp_proto := pr, pp_payload_len := int (length d),
      pp_payload := d @ drop (length d) (pp_payload p)\<rparr>"
  let ?n1 = "send_arp_request dst (?n\<lparr>pending := ?p # ps\<rparr>)"
  have send: "net_send_ip dst pr d (int (length d)) ?n = Some ?n1"
    using net_send_ip_unknown [of ?n dst p ps "int (length d)" d pr] assms(3-6) pend by simp
  obtain t where t: "net_send_ip dst pr d (int (length d)) ?n = Some t" "net_ok t"
    using net_send_ip_ok [OF assms(1), of "int (length d)" d dst pr] assms(6) by auto
  then have ok1: "net_ok ?n1" using send by simp
  let ?n2 = "?n1\<lparr>arp_cache := arp_store (arp_cache ?n1) dst m\<rparr>"
  have look: "arp_lookup (arp_cache ?n2) (next_hop (g_netif ?n2) dst) = Some m"
    using ok1 assms(2,3) arp_lookup_store_all [of "arp_cache ?n1" dst dst m] by (simp add: net_ok_def)
  have po: "pending_ok (pending ?n2)" using ok1 by (simp add: net_ok_def)
  have fl: "flush_pending_for_ip dst ?n2 = Some (?n2\<lparr>
     nic_log := nic_log ?n2 @ map (pending_frame ?n2 m) (filter (\<lambda>p. pp_dst_ip p = dst) (pending ?n2)),
     pending := map (\<lambda>p. if pp_dst_ip p = dst then cleared p else p) (pending ?n2)\<rparr>)"
    by (rule flush_pending_known [OF look po assms(2)])
  have rest: "\<forall>q \<in> set ps. pp_dst_ip q \<noteq> dst" using assms(2,5) pend by auto
  have fr: "map (pending_frame ?n2 m) (filter (\<lambda>p. pp_dst_ip p = dst) (pending ?n2)) =
      [ip_frame m (nif_mac (g_netif ?n1)) (g_netif ?n1) dst pr d]"
    using rest by (simp add: pending_frame_def ip_frame_def filter_False)
  have rx: "net_rx (arp_frame (nif_mac (g_netif ?n1)) 2 m dst (nif_mac (g_netif ?n1)) (nif_ip (g_netif ?n1)) @ junk) len
      (s\<lparr>st_net := ?n1\<rparr>) = Some (s\<lparr>st_net := ?n2\<lparr>
     nic_log := nic_log ?n2 @ [ip_frame m (nif_mac (g_netif ?n1)) (g_netif ?n1) dst pr d],
     pending := map (\<lambda>p. if pp_dst_ip p = dst then cleared p else p) (pending ?n2)\<rparr>\<rparr>)"
    using net_rx_arp_frame [of "nif_mac (g_netif ?n1)" m "nif_mac (g_netif ?n1)" dst len 2 "nif_ip (g_netif ?n1)" junk "s\<lparr>st_net := ?n1\<rparr>"]
      mac assms(2,7,8) fl fr by simp
  show ?thesis
    by (intro exI conjI, rule send, rule rx) (use look assms(3,5) pend in \<open>auto simp: cleared_def\<close>)
qed


lemma arp_reply_releases_packet_witness:
  "\<exists>n s'. net_send_ip 9 17 [1, 2, 3] 3 (st_net stack_boot) = Some n \<and>
    net_rx (arp_frame (nif_mac (g_netif n)) 2 [1, 2, 3, 4, 5, 6] 9 (nif_mac (g_netif n)) (nif_ip (g_netif n))) 60
      (stack_boot\<lparr>st_net := n\<rparr>) = Some s' \<and>
    nic_log (st_net s') = nic_log n @ [ip_frame [1, 2, 3, 4, 5, 6] (nif_mac (g_netif n)) (g_netif n) 9 17 [1, 2, 3]]"
proof -
  have n: "net_ok (st_net stack_boot)" "next_hop (g_netif (st_net stack_boot)) 9 = 9"
    "\<forall>p \<in> set (pending (st_net stack_boot)). pp_dst_ip p = 0"
    "arp_lookup (arp_cache (st_net stack_boot)) 9 = None"
    by (simp_all add: stack_boot_def) (simp_all add: net_boot_def next_hop_def arp_lookup_def find_None_all)
  from arp_reply_releases_packet [OF n(1) _ n(2,4,3), of "[1, 2, 3]" "[1, 2, 3, 4, 5, 6]" 60 17 "[]"]
  show ?thesis by fastforce
qed

text \<open>The answer of the gateway does not release the packets queued for hosts behind it:
  the flush compares the ARP sender with the final destination of the packet, so packets for
  other networks that met an unresolved gateway stay queued.\<close>
lemma gateway_reply_strands_packets:
  assumes "length (pending (st_net s)) = 8" "gw \<noteq> 0" "\<forall>p \<in> set (pending (st_net s)). pp_dst_ip p \<noteq> gw"
    and "length dst = 6" "length m = 6" "length tha = 6" "42 \<le> len"
  shows "net_rx (arp_frame dst 2 m gw tha tpa @ junk) len s =
    Some (s\<lparr>st_net := (st_net s)\<lparr>arp_cache := arp_store (arp_cache (st_net s)) gw m\<rparr>\<rparr>)"
  using net_rx_arp_frame [OF assms(4-6,2,7)] flush_pending_none [OF _ assms(3)] assms(1,3)
    flush_pending_none [of "(st_net s)\<lparr>arp_cache := arp_store (arp_cache (st_net s)) gw m\<rparr>" gw]
  by simp

lemma gateway_reply_strands_packets_witness:
  "\<exists>s n s'. st_net s = net_set_ipv4 0x0A00020F 0xFFFFFF00 0x0A000202 net_boot \<and>
    net_send_ip 0x08080808 17 [1] 1 (st_net s) = Some n \<and> pp_dst_ip (hd (pending n)) = 0x08080808 \<and>
    net_rx (arp_frame bcast 2 [1, 2, 3, 4, 5, 6] 0x0A000202 bcast 0x0A00020F) 42 (s\<lparr>st_net := n\<rparr>) = Some s' \<and>
    pp_dst_ip (hd (pending (st_net s'))) = 0x08080808 \<and> nic_log (st_net s') = nic_log n"
proof -
  let ?net = "net_set_ipv4 0x0A00020F 0xFFFFFF00 0x0A000202 net_boot"
  let ?s = "stack_boot\<lparr>st_net := ?net\<rparr>"
  let ?p = "\<lparr>pp_dst_ip = 0, pp_proto = 0, pp_payload_len = 0, pp_payload = replicate 1500 0\<rparr>"
  let ?n = "send_arp_request 0x0A000202 (?net\<lparr>pending := ?p\<lparr>pp_dst_ip := 0x08080808, pp_proto := 17,
      pp_payload_len := 1, pp_payload := 1 # drop 1 (replicate 1500 0)\<rparr> # replicate 7 ?p\<rparr>)"
  have "replicate 8 q = q # replicate 7 q" for q :: pending_pkt by (subst replicate_Suc [symmetric]) simp
  then have pend: "pending ?net = ?p # replicate 7 ?p" by (simp only: net_set_ipv4_def net_boot_def net.simps)
  have nh: "next_hop (g_netif ?net) 0x08080808 = 0x0A000202"
    by (simp add: next_hop_def net_set_ipv4_def)
  have "arp_lookup (arp_cache ?net) 0x0A000202 = None"
    by (simp add: net_set_ipv4_def net_boot_def arp_lookup_def find_None_all)
  then have send: "net_send_ip 0x08080808 17 [1] 1 ?net = Some ?n"
    using net_send_ip_unknown [of ?net "0x08080808" ?p "replicate 7 ?p" 1 "[1]" 17] nh pend by simp
  have "length (pending ?n) = 8" "\<forall>q \<in> set (pending ?n). pp_dst_ip q \<noteq> 0x0A000202" by simp_all
  then have rx: "net_rx (arp_frame bcast 2 [1, 2, 3, 4, 5, 6] 0x0A000202 bcast 0x0A00020F @ []) 42 (?s\<lparr>st_net := ?n\<rparr>) =
      Some (?s\<lparr>st_net := ?n\<lparr>arp_cache := arp_store (arp_cache ?n) 0x0A000202 [1, 2, 3, 4, 5, 6]\<rparr>\<rparr>)"
    using gateway_reply_strands_packets [of "?s\<lparr>st_net := ?n\<rparr>" "0x0A000202" bcast "[1, 2, 3, 4, 5, 6]" bcast 42 "0x0A00020F" "[]"]
    by (simp add: bcast_def)
  show ?thesis
    by (rule exI [of _ ?s], rule exI [of _ ?n],
        rule exI [of _ "?s\<lparr>st_net := ?n\<lparr>arp_cache := arp_store (arp_cache ?n) 0x0A000202 [1, 2, 3, 4, 5, 6]\<rparr>\<rparr>"])
       (use send rx in simp)
qed

text \<open>The IP total length is not compared with the received length: a UDP packet that
  claims more bytes than arrived hands the application whatever lies behind the frame in the
  receive buffer, and reads outside the buffer when nothing does.\<close>
lemma total_len_overread:
  assumes "length m = 6" "length m' = 6" "sp \<noteq> 53" "length d + length stale \<le> 1000"
    and "frame = ip_frame m m' nif dst IP_PROTO_UDP (udp_segment sp dp (d @ stale))"
  shows "net_rx frame (42 + int (length d)) s = Some (s\<lparr>st_udp := st_udp s @ [(nif_ip nif, sp, d @ stale)]\<rparr>) \<and>
    (stale \<noteq> [] \<longrightarrow> net_rx (take (42 + length d) frame) (42 + int (length d)) s = None)"
proof
  let ?seg = "udp_segment sp dp (d @ stale)"
  have len: "length ?seg = 8 + length d + length stale" by (simp add: udp_segment_def)
  have "net_rx (frame @ []) (42 + int (length d)) s = net_rx_udp (htonl (nif_ip nif)) (?seg @ []) (int (length ?seg)) s"
    unfolding assms(5) by (subst net_rx_ip_frame) (use assms(1,2,4) len in simp_all)
  also have "\<dots> = udp_on_datagram (nif_ip nif) sp (d @ stale) (int (length (d @ stale))) s"
    using net_rx_udp_segment [OF assms(3), of _ dp "d @ stale" "[]"] len by (simp add: add.assoc)
  finally show "net_rx frame (42 + int (length d)) s = Some (s\<lparr>st_udp := st_udp s @ [(nif_ip nif, sp, d @ stale)]\<rparr>)"
    using assms(4) by (simp add: udp_on_datagram_def rdn_def)
  show "stale \<noteq> [] \<longrightarrow> net_rx (take (42 + length d) frame) (42 + int (length d)) s = None"
  proof
    assume ne: "stale \<noteq> []"
    define tl :: u16 where "tl = word_of_nat (20 + length ?seg)"
    have tl: "unat tl = 20 + length ?seg"
      unfolding tl_def by (rule unat_of_nat_u16) (use assms(4) len in simp)
    let ?u = "st16 (htons sp) @ st16 (htons dp) @ st16 (htons (word_of_nat (8 + length (d @ stale)))) @ st16 0"
    define c where "c = ip_checksum (ip_hdr tl IP_PROTO_UDP 0 (nif_ip nif) dst)"
    have "frame = eth_hdr m m' ETH_TYPE_IP @ ip_hdr tl IP_PROTO_UDP c (nif_ip nif) dst @ ?u @ d @ stale"
      unfolding assms(5) ip_frame_def ip_packet_def Let_def c_def tl_def udp_segment_def by simp
    then have "take (42 + length d) frame =
        eth_hdr m m' ETH_TYPE_IP @ ip_hdr tl IP_PROTO_UDP c (nif_ip nif) dst @ ?u @ d"
      using assms(1,2) by (simp add: eth_hdr_def)
    moreover have "net_rx (eth_hdr m m' ETH_TYPE_IP @ ip_hdr tl IP_PROTO_UDP c (nif_ip nif) dst @ ?u @ d) (42 + int (length d)) s =
        net_rx_udp (htonl (nif_ip nif)) (?u @ d) (int (unat tl) - 20) s"
      by (subst net_rx_ip_hdr) (use assms(1,2) tl in simp_all)
    moreover have "net_rx_udp (htonl (nif_ip nif)) (?u @ d) (int (unat tl) - 20) s = None"
      using assms(3,4) ne unfolding tl by (simp add: net_rx_udp_def wire_simps len udp_on_datagram_def rdn_def)
    ultimately show "net_rx (take (42 + length d) frame) (42 + int (length d)) s = None" by simp
  qed
qed

lemma total_len_overread_witness:
  "net_rx (take 43 (ip_frame bcast bcast (g_netif net_boot) 9 IP_PROTO_UDP (udp_segment 1 2 ([3] @ [4])))) 43 stack_boot = None"
  using total_len_overread [of bcast bcast 1 "[3]" "[4]" _ "g_netif net_boot" 9 2] by (simp add: bcast_def)

end
