(* ===== verification/Kmalloc.thy ===== *)
theory Kmalloc
  imports Prelude
begin

text \<open>
  The allocator and the random numbers of \<open>src/kmalloc_stub.c\<close>. \<open>kmalloc\<close> bumps one
  pointer and never fails; \<open>free\<close> does nothing. A \<open>size_t\<close> is 32 bits wide on the
  target, so sizes and addresses wrap. The main lemma: as long as the heap does not
  run past the end of the address space, blocks are aligned and disjoint.
\<close>

definition heap_start :: u32 where "heap_start = 0x01000000"

definition round16 :: "u32 \<Rightarrow> u32" where
  "round16 sz = (sz + 15) AND NOT 15"

text \<open>The block and the heap pointer after the call.\<close>

definition kmalloc :: "u32 \<Rightarrow> u32 \<Rightarrow> u32 \<times> u32" where
  "kmalloc sz heap = (heap, heap + round16 sz)"

definition malloc :: "u32 \<Rightarrow> u32 \<Rightarrow> u32 \<times> u32" where
  "malloc sz heap = kmalloc sz heap"

definition free :: "u32 \<Rightarrow> u32 \<Rightarrow> u32" where
  "free p heap = heap"

text \<open>\<open>calloc\<close> multiplies without an overflow check; the third component is the size it clears.\<close>

definition calloc :: "u32 \<Rightarrow> u32 \<Rightarrow> u32 \<Rightarrow> u32 \<times> u32 \<times> u32" where
  "calloc n sz heap = (let tot = n * sz; (p, heap') = kmalloc tot heap in (p, heap', tot))"

definition rand :: "u32 \<Rightarrow> 32 word \<times> u32" where
  "rand rng = (let r = rng * 1103515245 + 12345 in (drop_bit 16 r, r))"

definition srand :: "u32 \<Rightarrow> u32" where
  "srand seed = (if seed \<noteq> 0 then seed else 1)"

text \<open>\<open>mem\<close> is what physical memory holds: fresh blocks keep its bytes.\<close>

definition block :: "(u32 \<Rightarrow> u8) \<Rightarrow> u32 \<Rightarrow> nat \<Rightarrow> bytes" where
  "block mem p n = map (\<lambda>i. mem (p + word_of_nat i)) [0..<n]"

section \<open>Blocks\<close>

text \<open>A run of allocations: the blocks, each with its size.\<close>

primrec kmallocs :: "u32 list \<Rightarrow> u32 \<Rightarrow> (u32 \<times> u32) list \<times> u32" where
  "kmallocs [] heap = ([], heap)"
| "kmallocs (sz # szs) heap =
     (let (p, h1) = kmalloc sz heap; (bs, h2) = kmallocs szs h1 in ((p, sz) # bs, h2))"

definition r16 :: "nat \<Rightarrow> nat" where
  "r16 n = (n + 15) div 16 * 16"

lemma r16_bounds: "n \<le> r16 n" "r16 n \<le> n + 15" "16 dvd r16 n"
  by (simp_all add: r16_def)

lemma unat_and_not_15: "unat ((x :: u32) AND NOT 15) = unat x div 16 * 16"
proof -
  have m: "(15 :: u32) = mask 4" by (simp add: mask_eq_exp_minus_1)
  have "x AND NOT (mask 4) = push_bit 4 (drop_bit 4 x)"
    by (rule bit_word_eqI) (auto simp: bit_simps)
  then have "x AND NOT 15 = push_bit 4 (drop_bit 4 x)" by (simp only: m)
  moreover have "unat x < 2 ^ 32" using unsigned_less [of x, where 'a = nat] by simp
  then have "unat x div 16 * 16 < 2 ^ 32" by simp
  ultimately show ?thesis unfolding \<open>x AND NOT 15 = _\<close>
    by (simp add: unsigned_push_bit_eq unat_drop_bit_eq drop_bit_nat_def push_bit_nat_def take_bit_nat_def)
qed

lemma unat_round16:
  assumes "unat sz + 15 < 2 ^ 32"
  shows "unat (round16 sz) = r16 (unat sz)"
proof -
  have "unat (sz + 15) = unat sz + 15" using assms by (simp add: unat_word_ariths)
  then show ?thesis by (simp only: round16_def unat_and_not_15 r16_def)
qed

text \<open>The ranges of a run of allocations that stays inside the address space.\<close>

lemma kmallocs_ranges:
  assumes "unat heap + sum_list (map (\<lambda>s. r16 (unat s)) szs) + 15 < 2 ^ 32" "16 dvd unat heap"
    and "kmallocs szs heap = (bs, h)"
  shows "unat h = unat heap + sum_list (map (\<lambda>s. r16 (unat s)) szs) \<and> length bs = length szs \<and>
    map snd bs = szs \<and>
    (\<forall>b \<in> set bs. 16 dvd unat (fst b) \<and> unat heap \<le> unat (fst b) \<and> unat (fst b) + unat (snd b) \<le> unat h) \<and>
    sorted_wrt (\<lambda>a b. unat (fst a) + unat (snd a) \<le> unat (fst b)) bs"
  using assms
proof (induction szs arbitrary: heap bs h)
  case Nil
  then show ?case by simp
next
  case (Cons sz szs)
  let ?h1 = "heap + round16 sz"
  obtain bs' where bs': "kmallocs szs ?h1 = (bs', h)" "bs = (heap, sz) # bs'"
    using Cons.prems(3) by (auto simp: kmalloc_def split: prod.splits)
  have r: "unat (round16 sz) = r16 (unat sz)"
    using Cons.prems(1) r16_bounds(1) [of "unat sz"] by (intro unat_round16) simp
  then have h1: "unat ?h1 = unat heap + r16 (unat sz)"
    using Cons.prems(1) by (simp add: unat_word_ariths)
  then have "16 dvd unat ?h1" using Cons.prems(2) r16_bounds(3) by simp
  moreover have "unat ?h1 + sum_list (map (\<lambda>s. r16 (unat s)) szs) + 15 < 2 ^ 32"
    using Cons.prems(1) h1 by simp
  ultimately have IH: "unat h = unat ?h1 + sum_list (map (\<lambda>s. r16 (unat s)) szs)" "length bs' = length szs"
    "map snd bs' = szs"
    "\<forall>b \<in> set bs'. 16 dvd unat (fst b) \<and> unat ?h1 \<le> unat (fst b) \<and> unat (fst b) + unat (snd b) \<le> unat h"
    "sorted_wrt (\<lambda>a b. unat (fst a) + unat (snd a) \<le> unat (fst b)) bs'"
    using Cons.IH [OF _ _ bs'(1)] by blast+
  have sz: "unat sz \<le> r16 (unat sz)" by (rule r16_bounds)
  show ?case
    unfolding bs'(2) using IH h1 sz Cons.prems(2) by (auto intro: order_trans)
qed

section \<open>Properties\<close>

text \<open>As long as the heap stays inside the address space, the blocks of any run of
  allocations are 16-byte aligned, lie one behind the other and do not overlap.\<close>
lemma kmalloc_blocks_disjoint:
  assumes "unat heap + sum_list (map (\<lambda>s. r16 (unat s)) szs) + 15 < 2 ^ 32" "16 dvd unat heap"
    and "kmallocs szs heap = (bs, h)"
  shows "map snd bs = szs \<and> (\<forall>b \<in> set bs. 16 dvd unat (fst b)) \<and>
    (\<forall>i j. i < j \<longrightarrow> j < length bs \<longrightarrow> unat (fst (bs ! i)) + unat (snd (bs ! i)) \<le> unat (fst (bs ! j)))"
  using kmallocs_ranges [OF assms] by (auto simp: sorted_wrt_iff_nth_less)

lemma kmalloc_blocks_disjoint_witness:
  "\<exists>bs h. kmallocs [512, 2048] heap_start = (bs, h) \<and>
     unat (fst (bs ! 0)) + 512 \<le> unat (fst (bs ! 1))"
proof -
  obtain bs h where k: "kmallocs [512, 2048] heap_start = (bs, h)" by fastforce
  have "map snd bs = [512, 2048] \<and> (\<forall>b \<in> set bs. 16 dvd unat (fst b)) \<and>
    (\<forall>i j. i < j \<longrightarrow> j < length bs \<longrightarrow> unat (fst (bs ! i)) + unat (snd (bs ! i)) \<le> unat (fst (bs ! j)))"
    by (rule kmalloc_blocks_disjoint [OF _ _ k]) (simp_all add: heap_start_def r16_def)
  then have s: "map snd bs = [512, 2048]"
    and d: "\<And>i j. i < j \<Longrightarrow> j < length bs \<Longrightarrow> unat (fst (bs ! i)) + unat (snd (bs ! i)) \<le> unat (fst (bs ! j))"
    by blast+
  from s have "length bs = 2" "snd (bs ! 0) = 512" by (auto simp: map_eq_Cons_conv)
  with d [of 0 1] k show ?thesis by (intro exI [of _ bs] exI [of _ h]) simp
qed

end
