(* ===== verification/Pci.thy ===== *)
theory Pci
  imports Prelude
begin

text \<open>
  PCI configuration space: \<open>src/pci.c\<close> and the scan of \<open>src/drivers/e1000e.c\<close>. The
  hardware is a function from the dword written to \<open>CONFIG_ADDRESS\<close> to the dword
  read from \<open>CONFIG_DATA\<close>. The bus counter of both scans is a \<open>uint8_t\<close> compared with
  256: the loop over the buses has no end, so it is a \<open>partial_function\<close>, whose value
  is \<open>None\<close> when the call never returns.
\<close>

type_synonym pci_hw = "u32 \<Rightarrow> u32"

definition pci_config_addr :: "u8 \<Rightarrow> u8 \<Rightarrow> u8 \<Rightarrow> u8 \<Rightarrow> u32" where
  "pci_config_addr bus slot func offset =
     0x80000000 OR push_bit 16 (ucast bus) OR push_bit 11 (ucast slot) OR push_bit 8 (ucast func) OR
     ucast (offset AND 0xFC)"

definition pci_config_read32 :: "pci_hw \<Rightarrow> u8 \<Rightarrow> u8 \<Rightarrow> u8 \<Rightarrow> u8 \<Rightarrow> u32" where
  "pci_config_read32 hw bus slot func offset = hw (pci_config_addr bus slot func offset)"

definition pci_config_read16 :: "pci_hw \<Rightarrow> u8 \<Rightarrow> u8 \<Rightarrow> u8 \<Rightarrow> u8 \<Rightarrow> u16" where
  "pci_config_read16 hw bus slot func offset =
     (let v = pci_config_read32 hw bus slot func (offset AND 0xFC);
          shift = unat (offset AND 2) * 8
      in ucast (drop_bit shift v AND 0xFFFF))"

definition pci_config_read8 :: "pci_hw \<Rightarrow> u8 \<Rightarrow> u8 \<Rightarrow> u8 \<Rightarrow> u8 \<Rightarrow> u8" where
  "pci_config_read8 hw bus slot func offset =
     (let v = pci_config_read32 hw bus slot func (offset AND 0xFC);
          shift = unat (offset AND 3) * 8
      in ucast (drop_bit shift v AND 0xFF))"

text \<open>The register takes the value written.\<close>

definition pci_config_write32 :: "u8 \<Rightarrow> u8 \<Rightarrow> u8 \<Rightarrow> u8 \<Rightarrow> u32 \<Rightarrow> pci_hw \<Rightarrow> pci_hw" where
  "pci_config_write32 bus slot func offset v hw = hw(pci_config_addr bus slot func offset := v)"

section \<open>Scanning\<close>

text \<open>
  The loop over the functions of a slot: absent functions are skipped, a match
  ends the search, and a single-function device ends the slot after function 0.
\<close>

fun scan_funcs :: "(u8 \<Rightarrow> u8 \<Rightarrow> u8 \<Rightarrow> bool) \<Rightarrow> pci_hw \<Rightarrow> u8 \<Rightarrow> u8 \<Rightarrow> u8 list \<Rightarrow> u8 option" where
  "scan_funcs match hw bus slot [] = None"
| "scan_funcs match hw bus slot (func # fs) =
     (if pci_config_read16 hw bus slot func 0 = 0xFFFF then scan_funcs match hw bus slot fs
      else if match bus slot func then Some func
      else if pci_config_read8 hw bus slot 0 0x0E AND 0x80 = 0 \<and> func = 0 then None
      else scan_funcs match hw bus slot fs)"

fun scan_slots :: "(u8 \<Rightarrow> u8 \<Rightarrow> u8 \<Rightarrow> bool) \<Rightarrow> pci_hw \<Rightarrow> u8 \<Rightarrow> u8 list \<Rightarrow> (u8 \<times> u8) option" where
  "scan_slots match hw bus [] = None"
| "scan_slots match hw bus (slot # ss) =
     (case scan_funcs match hw bus slot (map word_of_nat [0..<8]) of
        Some func \<Rightarrow> Some (slot, func)
      | None \<Rightarrow> scan_slots match hw bus ss)"

partial_function (option) scan_buses ::
    "(u8 \<Rightarrow> u8 \<Rightarrow> u8 \<Rightarrow> bool) \<Rightarrow> pci_hw \<Rightarrow> u8 \<Rightarrow> (u8 \<times> u8 \<times> u8) option" where
  "scan_buses match hw bus =
     (case scan_slots match hw bus (map word_of_nat [0..<32]) of
        Some (slot, func) \<Rightarrow> Some (bus, slot, func)
      | None \<Rightarrow> scan_buses match hw (bus + 1))"

definition pci_find_device :: "pci_hw \<Rightarrow> u16 \<Rightarrow> u16 \<Rightarrow> (u8 \<times> u8 \<times> u8) option" where
  "pci_find_device hw vendor device =
     scan_buses (\<lambda>bus slot func. pci_config_read16 hw bus slot func 0 = vendor \<and>
       pci_config_read16 hw bus slot func 2 = device) hw 0"

definition pci_find_intel_net :: "pci_hw \<Rightarrow> (u8 \<times> u8 \<times> u8) option" where
  "pci_find_intel_net hw =
     scan_buses (\<lambda>bus slot func. pci_config_read16 hw bus slot func 0 = 0x8086 \<and>
       pci_config_read8 hw bus slot func 0x0B = 0x02) hw 0"

section \<open>What a scan finds\<close>

lemma scan_funcs_Some:
  "scan_funcs match hw bus slot fs = Some func \<Longrightarrow>
    func \<in> set fs \<and> match bus slot func \<and> pci_config_read16 hw bus slot func 0 \<noteq> 0xFFFF"
  by (induction match hw bus slot fs rule: scan_funcs.induct) (auto split: if_splits)

lemma scan_slots_Some:
  "scan_slots match hw bus ss = Some (slot, func) \<Longrightarrow> slot \<in> set ss \<and>
    scan_funcs match hw bus slot (map word_of_nat [0..<8]) = Some func"
  by (induction match hw bus ss rule: scan_slots.induct) (auto split: option.splits)

lemma scan_slots_None:
  "scan_slots match hw bus ss = None \<longleftrightarrow>
    (\<forall>slot \<in> set ss. scan_funcs match hw bus slot (map word_of_nat [0..<8]) = None)"
  by (induction match hw bus ss rule: scan_slots.induct) (auto split: option.splits)

definition bus_hit :: "(u8 \<Rightarrow> u8 \<Rightarrow> u8 \<Rightarrow> bool) \<Rightarrow> pci_hw \<Rightarrow> u8 \<Rightarrow> bool" where
  "bus_hit match hw bus \<longleftrightarrow> scan_slots match hw bus (map word_of_nat [0..<32]) \<noteq> None"

text \<open>The scan returns exactly when some bus has a hit: there is no bus after the last.\<close>

lemma scan_buses_Some:
  assumes "scan_buses match hw bus = Some r"
  shows "case r of (b, slot, func) \<Rightarrow> scan_slots match hw b (map word_of_nat [0..<32]) = Some (slot, func)"
  by (rule scan_buses.raw_induct [OF _ assms]) (auto split: option.splits)

lemma scan_buses_steps:
  assumes "\<forall>i < k. \<not> bus_hit match hw (bus + word_of_nat i)"
  shows "scan_buses match hw bus = scan_buses match hw (bus + word_of_nat k)"
  using assms
proof (induction k)
  case 0
  then show ?case by simp
next
  case (Suc k)
  then have "scan_buses match hw bus = scan_buses match hw (bus + word_of_nat k)" by simp
  moreover have "scan_slots match hw (bus + word_of_nat k) (map word_of_nat [0..<32]) = None"
    using Suc.prems unfolding bus_hit_def by blast
  ultimately have "scan_buses match hw bus = scan_buses match hw (bus + word_of_nat k + 1)"
    using scan_buses.simps [of match hw "bus + word_of_nat k"] by simp
  then show ?case by (simp add: ac_simps)
qed

lemma scan_buses_first:
  assumes "bus_hit match hw (word_of_nat k)" "\<forall>i < k. \<not> bus_hit match hw (word_of_nat i)"
  shows "\<exists>slot func. scan_buses match hw 0 = Some (word_of_nat k, slot, func) \<and>
    scan_slots match hw (word_of_nat k) (map word_of_nat [0..<32]) = Some (slot, func)"
proof -
  obtain slot func where s: "scan_slots match hw (word_of_nat k) (map word_of_nat [0..<32]) = Some (slot, func)"
    using assms(1) by (auto simp: bus_hit_def)
  have "scan_buses match hw 0 = scan_buses match hw (word_of_nat k)"
    using scan_buses_steps [of k match hw 0] assms(2) by simp
  with s scan_buses.simps [of match hw "word_of_nat k"] show ?thesis by simp
qed

lemma scan_buses_never:
  assumes "\<forall>b. \<not> bus_hit match hw b"
  shows "scan_buses match hw bus = None"
proof (rule ccontr)
  assume "scan_buses match hw bus \<noteq> None"
  then obtain b slot func where "scan_buses match hw bus = Some (b, slot, func)" by (metis option.exhaust prod_cases3)
  from scan_buses_Some [OF this] assms show False by (auto simp: bus_hit_def)
qed


section \<open>Addresses\<close>

text \<open>Different functions have different addresses, and the address names the aligned register.\<close>

lemma bit_top: "bit (0x80000000 :: u32) n \<longleftrightarrow> n = 31"
proof -
  have "(0x80000000 :: u32) = push_bit 31 1" by simp
  then show ?thesis by (auto simp only: bit_push_bit_iff) (auto simp: bit_simps)
qed

lemma bit_u8: "bit (w :: u8) n \<Longrightarrow> n < 8"
  using bit_imp_le_length [of w n] by simp

lemma bit_addr:
  assumes "take_bit 5 slot = slot" "take_bit 3 func = func" "n < 32"
  shows "bit (pci_config_addr bus slot func offset) n \<longleftrightarrow>
    n = 31 \<or> (16 \<le> n \<and> bit bus (n - 16)) \<or> (11 \<le> n \<and> n < 16 \<and> bit slot (n - 11)) \<or>
    (8 \<le> n \<and> n < 11 \<and> bit func (n - 8)) \<or> (n < 8 \<and> bit (offset AND 0xFC) n)"
proof -
  have s: "bit slot k \<longleftrightarrow> k < 5 \<and> bit slot k" for k using assms(1) by (metis bit_take_bit_iff)
  have f: "bit func k \<longleftrightarrow> k < 3 \<and> bit func k" for k using assms(2) by (metis bit_take_bit_iff)
  have "bit (pci_config_addr bus slot func offset) n \<longleftrightarrow>
      n = 31 \<or> (16 \<le> n \<and> bit bus (n - 16)) \<or> (11 \<le> n \<and> bit slot (n - 11)) \<or>
      (8 \<le> n \<and> bit func (n - 8)) \<or> bit (offset AND 0xFC) n"
    using assms(3) unfolding pci_config_addr_def bit_or_iff bit_top bit_push_bit_iff bit_ucast_iff
    by (auto simp: possible_bit_word)
  then show ?thesis using s [of "n - 11"] f [of "n - 8"] bit_u8 [of "offset AND 0xFC" n] by auto
qed

lemma pci_config_addr_decode:
  assumes "take_bit 5 slot = slot" "take_bit 3 func = func"
  shows "ucast (drop_bit 16 (pci_config_addr bus slot func offset)) = bus"
    "ucast (take_bit 5 (drop_bit 11 (pci_config_addr bus slot func offset))) = slot"
    "ucast (take_bit 3 (drop_bit 8 (pci_config_addr bus slot func offset))) = func"
    "ucast (pci_config_addr bus slot func offset) = offset AND 0xFC"
proof -
  note b = bit_addr [OF assms]
  have s: "bit slot k \<Longrightarrow> k < 5" for k using assms(1) by (metis bit_take_bit_iff)
  have f: "bit func k \<Longrightarrow> k < 3" for k using assms(2) by (metis bit_take_bit_iff)
  show "ucast (drop_bit 16 (pci_config_addr bus slot func offset)) = bus"
    by (rule bit_word_eqI) (simp add: bit_ucast_iff bit_drop_bit_eq b)
  show "ucast (take_bit 5 (drop_bit 11 (pci_config_addr bus slot func offset))) = slot"
    using s by (intro bit_word_eqI) (auto simp: bit_ucast_iff bit_drop_bit_eq bit_take_bit_iff b)
  show "ucast (take_bit 3 (drop_bit 8 (pci_config_addr bus slot func offset))) = func"
    using f by (intro bit_word_eqI) (auto simp: bit_ucast_iff bit_drop_bit_eq bit_take_bit_iff b)
  show "ucast (pci_config_addr bus slot func offset) = offset AND 0xFC"
    by (rule bit_word_eqI) (simp add: bit_ucast_iff b)
qed

lemma scan_buses_None_iff:
  "scan_buses match hw 0 = None \<longleftrightarrow> (\<forall>b. \<not> bus_hit match hw b)"
proof
  assume none: "scan_buses match hw 0 = None"
  show "\<forall>b. \<not> bus_hit match hw b"
  proof (rule ccontr)
    assume "\<not> (\<forall>b. \<not> bus_hit match hw b)"
    then obtain b where b: "bus_hit match hw b" by blast
    let ?P = "\<lambda>k. bus_hit match hw (word_of_nat k)"
    have "?P (unat b)" using b by simp
    then have "?P (LEAST k. ?P k)" by (rule LeastI)
    moreover have "\<forall>i < (LEAST k. ?P k). \<not> ?P i" by (auto dest: not_less_Least)
    ultimately show False using scan_buses_first none by fastforce
  qed
next
  assume "\<forall>b. \<not> bus_hit match hw b"
  then show "scan_buses match hw 0 = None" by (rule scan_buses_never)
qed

section \<open>Properties\<close>

text \<open>\<open>pci_find_device\<close> returns only devices with the vendor and device it was asked for,
  and it does not return at all when no bus has one: its loop \<open>for (uint8_t bus = 0; bus < 256;
  ++bus)\<close> starts over with bus 0.\<close>
lemma pci_find_device_spec:
  "(\<forall>bus slot func. pci_find_device hw vendor device = Some (bus, slot, func) \<longrightarrow>
      pci_config_read16 hw bus slot func 0 = vendor \<and> pci_config_read16 hw bus slot func 2 = device) \<and>
   (pci_find_device hw vendor device = None \<longleftrightarrow>
      (\<forall>bus. \<not> bus_hit (\<lambda>bus slot func. pci_config_read16 hw bus slot func 0 = vendor \<and>
         pci_config_read16 hw bus slot func 2 = device) hw bus))"
  unfolding pci_find_device_def scan_buses_None_iff
  using scan_buses_Some scan_slots_Some scan_funcs_Some by fastforce

lemma pci_find_device_spec_witness:
  "pci_find_device (\<lambda>_. 0xFFFFFFFF) 0x10EC 0x8139 = None"
proof -
  let ?hw = "\<lambda>_. 0xFFFFFFFF :: u32"
  have r: "pci_config_read16 ?hw bus slot func 0 = 0xFFFF" for bus slot func
    by (simp add: pci_config_read16_def pci_config_read32_def)
  have "scan_funcs m ?hw bus slot fs = None" for m bus slot fs
    by (induction fs) (simp_all add: r)
  then have "scan_slots m ?hw bus ss = None" for m bus ss
    by (induction ss) auto
  then show ?thesis using pci_find_device_spec [of ?hw "0x10EC" "0x8139"] by (simp add: bus_hit_def)
qed

end
