(* ===== verification/Nic.thy ===== *)
theory Nic
  imports Netrx Kmalloc Pci
begin

text \<open>
  The interface between the stack and a network card driver. \<open>nic_tx\<close> does not change
  the stack, so the frames a call of the stack hands down are collected in \<open>nic_log\<close>
  and given to the driver after the call, in order (\<open>transmit_log\<close>). The locale states
  what the stack needs from a driver; \<open>E1000e\<close> and \<open>Rtl8139\<close> interpret it.
\<close>

primrec tx_all :: "(bytes \<Rightarrow> 'd \<Rightarrow> 'd option) \<Rightarrow> bytes list \<Rightarrow> 'd \<Rightarrow> 'd option" where
  "tx_all tx [] d = Some d"
| "tx_all tx (f # fs) d = do { d' \<leftarrow> tx f d; tx_all tx fs d' }"

definition transmit_log :: "(bytes \<Rightarrow> 'd \<Rightarrow> 'd option) \<Rightarrow> 'd \<times> stack \<Rightarrow> ('d \<times> stack) option" where
  "transmit_log tx w = do {
     d \<leftarrow> tx_all tx (nic_log (st_net (snd w))) (fst w);
     Some (d, (snd w)\<lparr>st_net := (st_net (snd w))\<lparr>nic_log := []\<rparr>\<rparr>)
   }"

text \<open>A frame from the card goes through \<open>net_rx\<close>; what the stack answers goes out.\<close>

definition nic_receive ::
    "(bytes \<Rightarrow> 'd \<Rightarrow> 'd option) \<Rightarrow> bytes \<Rightarrow> int \<Rightarrow> 'd \<times> stack \<Rightarrow> ('d \<times> stack) option" where
  "nic_receive tx frame len w = do {
     s \<leftarrow> net_rx frame len (snd w);
     transmit_log tx (fst w, s)
   }"

lemma tx_all_append: "tx_all tx (fs @ gs) d = (tx_all tx fs d \<bind> tx_all tx gs)"
  by (induction fs arbitrary: d) (auto split: Option.bind_splits)

text \<open>A driver accepts every frame of the sizes it is made for.\<close>

locale nic =
  fixes tx :: "bytes \<Rightarrow> 'd \<Rightarrow> 'd option"
    and invar :: "'d \<Rightarrow> bool"
    and lo :: nat
    and hi :: nat
  assumes tx_ok: "invar d \<Longrightarrow> lo \<le> length f \<Longrightarrow> length f \<le> hi \<Longrightarrow> \<exists>d'. tx f d = Some d' \<and> invar d'"
begin

lemma tx_all_ok:
  "invar d \<Longrightarrow> \<forall>f \<in> set fs. lo \<le> length f \<and> length f \<le> hi \<Longrightarrow> \<exists>d'. tx_all tx fs d = Some d' \<and> invar d'"
proof (induction fs arbitrary: d)
  case Nil
  then show ?case by simp
next
  case (Cons f fs)
  then obtain d1 where "tx f d = Some d1" "invar d1" using tx_ok [of d f] by auto
  with Cons show ?case by simp
qed

text \<open>With sizes that cover the frames of the stack, every received frame is served safely.\<close>

lemma nic_receive_ok:
  assumes "lo \<le> 34" "1514 \<le> hi" "invar (fst w)" "stack_ok (snd w)"
    and "len \<le> int (length frame)" "ip_len_fits frame"
  shows "\<exists>w'. nic_receive tx frame len w = Some w' \<and> invar (fst w') \<and> stack_ok (snd w') \<and>
    nic_log (st_net (snd w')) = []"
proof -
  obtain s where s: "net_rx frame len (snd w) = Some s" "stack_ok s"
    using net_rx_ok [OF assms(4-6)] by blast
  have "\<forall>f \<in> set (nic_log (st_net s)). frame_ok f" using s(2) by (simp add: stack_ok_def net_ok_def)
  then have "\<forall>f \<in> set (nic_log (st_net s)). lo \<le> length f \<and> length f \<le> hi"
    using assms(1,2) by (auto simp: frame_ok_def)
  then obtain d where "tx_all tx (nic_log (st_net s)) (fst w) = Some d" "invar d"
    using tx_all_ok [OF assms(3)] by blast
  with s show ?thesis by (simp add: nic_receive_def transmit_log_def stack_ok_def net_ok_def)
qed

end

end
