(* ===== verification/E1000e.thy ===== *)
theory E1000e
  imports Nic
begin

text \<open>
  The Intel driver \<open>src/drivers/e1000e.c\<close>, the one the build links: ring set-up,
  \<open>nic_tx\<close> and \<open>rtl8139_poll\<close> over 32 receive and 16 transmit descriptors with 2048-byte
  buffers. The registers are a map from MMIO offsets to their values; buffers are the
  bytes of their \<open>kmalloc\<close> blocks.
\<close>

section \<open>State\<close>

record e1000_rx_desc =
  rd_addr :: u64
  rd_length :: u16
  rd_status :: u8

record e1000_tx_desc =
  td_addr :: u64
  td_length :: u16
  td_cmd :: u8
  td_status :: u8

record e1000 =
  driver_ready :: bool
  mmio :: u32
  regs :: "u32 \<Rightarrow> u32"
  rx_ring :: "e1000_rx_desc list"
  rx_bufs :: "bytes list"
  rx_tail :: u32
  tx_ring :: "e1000_tx_desc list"
  tx_bufs :: "bytes list"
  tx_tail :: u32
  tx_head :: u32

definition E1000_RCTL :: u32 where "E1000_RCTL = 0x00100"
definition E1000_RDBAL :: u32 where "E1000_RDBAL = 0x02800"
definition E1000_RDBAH :: u32 where "E1000_RDBAH = 0x02804"
definition E1000_RDLEN :: u32 where "E1000_RDLEN = 0x02808"
definition E1000_RDH :: u32 where "E1000_RDH = 0x02810"
definition E1000_RDT :: u32 where "E1000_RDT = 0x02818"
definition E1000_TCTL :: u32 where "E1000_TCTL = 0x00400"
definition E1000_TDBAL :: u32 where "E1000_TDBAL = 0x03800"
definition E1000_TDBAH :: u32 where "E1000_TDBAH = 0x03804"
definition E1000_TDLEN :: u32 where "E1000_TDLEN = 0x03808"
definition E1000_TDH :: u32 where "E1000_TDH = 0x03810"
definition E1000_TDT :: u32 where "E1000_TDT = 0x03818"

definition e1000_readl :: "u32 \<Rightarrow> e1000 \<Rightarrow> u32" where
  "e1000_readl off d = regs d off"

definition e1000_writel :: "u32 \<Rightarrow> u32 \<Rightarrow> e1000 \<Rightarrow> e1000" where
  "e1000_writel off v d = d\<lparr>regs := (regs d)(off := v)\<rparr>"

section \<open>Set-up\<close>

primrec alloc_bufs :: "nat \<Rightarrow> u32 \<Rightarrow> u32 list \<times> u32" where
  "alloc_bufs 0 heap = ([], heap)"
| "alloc_bufs (Suc n) heap =
     (let (p, h1) = kmalloc 2048 heap; (ps, h2) = alloc_bufs n h1 in (p # ps, h2))"

definition rx_ring_init :: "u32 list \<Rightarrow> (nat \<Rightarrow> u16) \<Rightarrow> e1000_rx_desc list" where
  "rx_ring_init ps old = map (\<lambda>i. \<lparr>rd_addr = ucast (ps ! i), rd_length = old i, rd_status = 0\<rparr>) [0..<length ps]"

definition tx_ring_init :: "u32 list \<Rightarrow> (nat \<Rightarrow> u16) \<Rightarrow> (nat \<Rightarrow> u8) \<Rightarrow> e1000_tx_desc list" where
  "tx_ring_init ps old cmd =
     map (\<lambda>i. \<lparr>td_addr = ucast (ps ! i), td_length = old i, td_cmd = cmd i, td_status = 0\<rparr>) [0..<length ps]"

definition e1000_init_rx :: "(u32 \<Rightarrow> u8) \<Rightarrow> u32 \<Rightarrow> e1000 \<Rightarrow> e1000 \<times> u32" where
  "e1000_init_rx mem heap d =
     (let (ring, h1) = kmalloc (16 * 32) heap;
          (ps, h2) = alloc_bufs 32 h1;
          old = (\<lambda>i. mk16 (mem (ring + word_of_nat (16 * i + 8))) (mem (ring + word_of_nat (16 * i + 9))));
          d1 = d\<lparr>rx_ring := rx_ring_init ps old, rx_bufs := map (\<lambda>p. block mem p 2048) ps, rx_tail := 31\<rparr>
      in (e1000_writel E1000_RDT 31 (e1000_writel E1000_RDH 0 (e1000_writel E1000_RDLEN (32 * 16)
            (e1000_writel E1000_RDBAH 0 (e1000_writel E1000_RDBAL ring d1)))), h2))"

definition e1000_init_tx :: "(u32 \<Rightarrow> u8) \<Rightarrow> u32 \<Rightarrow> e1000 \<Rightarrow> e1000 \<times> u32" where
  "e1000_init_tx mem heap d =
     (let (ring, h1) = kmalloc (16 * 16) heap;
          (ps, h2) = alloc_bufs 16 h1;
          old = (\<lambda>i. mk16 (mem (ring + word_of_nat (16 * i + 8))) (mem (ring + word_of_nat (16 * i + 9))));
          d1 = d\<lparr>tx_ring := tx_ring_init ps old (\<lambda>i. mem (ring + word_of_nat (16 * i + 11))),
            tx_bufs := map (\<lambda>p. block mem p 2048) ps, tx_head := 0, tx_tail := 0\<rparr>
      in (e1000_writel E1000_TDT 0 (e1000_writel E1000_TDH 0 (e1000_writel E1000_TDLEN (16 * 16)
            (e1000_writel E1000_TDBAH 0 (e1000_writel E1000_TDBAL ring d1)))), h2))"

definition e1000_mac :: "e1000 \<Rightarrow> bytes" where
  "e1000_mac d = (let ral = e1000_readl 0x5400 d; rah = e1000_readl 0x5404 d in
     [ucast (ral AND 0xFF), ucast (drop_bit 8 ral AND 0xFF), ucast (drop_bit 16 ral AND 0xFF),
      ucast (drop_bit 24 ral AND 0xFF), ucast (rah AND 0xFF), ucast (drop_bit 8 rah AND 0xFF)])"

text \<open>The result is \<open>None\<close> if the PCI scan never returns.\<close>

definition e1000_init ::
    "(u32 \<Rightarrow> u8) \<Rightarrow> pci_hw \<Rightarrow> u32 \<Rightarrow> e1000 \<Rightarrow> net \<Rightarrow> (int \<times> pci_hw \<times> u32 \<times> e1000 \<times> net) option" where
  "e1000_init mem hw heap d n = do {
     (bus, slot, func) \<leftarrow> pci_find_intel_net hw;
     let cmd = pci_config_read32 hw bus slot func 0x04 OR 0x0006;
     let hw1 = pci_config_write32 bus slot func 0x04 cmd hw;
     let base = pci_config_read32 hw1 bus slot func 0x10 AND NOT 0xF;
     let d1 = d\<lparr>mmio := base\<rparr>;
     if base = 0 then Some (-1, hw1, heap, d1, n)
     else if fst (kmalloc (16 * 32) heap) = 0 then Some (-1, hw1, snd (kmalloc (16 * 32) heap), d1, n)
     else do {
       let (d2, h2) = e1000_init_rx mem heap d1;
       if fst (kmalloc (16 * 16) h2) = 0 then Some (-1, hw1, snd (kmalloc (16 * 16) h2), d2, n)
       else do {
       let (d3, h3) = e1000_init_tx mem h2 d2;
       let d4 = e1000_writel E1000_TCTL (push_bit 1 1 OR push_bit 3 1)
         (e1000_writel E1000_RCTL (push_bit 1 1 OR push_bit 26 1) d3);
       Some (0, hw1, h3, d4\<lparr>driver_ready := True\<rparr>, net_init (e1000_mac d4) n)
       }
     }
   }"

section \<open>Sending and polling\<close>

definition e1000_nic_tx :: "bytes \<Rightarrow> e1000 \<Rightarrow> e1000 option" where
  "e1000_nic_tx data d =
     (if \<not> driver_ready d then Some d
      else do {
        let len = (if length data > 2048 then 2048 else length data);
        let nxt = unat (tx_tail d);
        assert_that (nxt < length (tx_bufs d) \<and> nxt < length (tx_ring d));
        src \<leftarrow> rdn data (int len);
        buf \<leftarrow> blit (tx_bufs d ! nxt) 0 src;
        let desc = (tx_ring d ! nxt)\<lparr>td_length := word_of_nat len, td_cmd := 0x1B, td_status := 0\<rparr>;
        let tail = (tx_tail d + 1) mod 16;
        Some (e1000_writel E1000_TDT tail
          (d\<lparr>tx_bufs := (tx_bufs d)[nxt := buf], tx_ring := (tx_ring d)[nxt := desc], tx_tail := tail\<rparr>))
      })"

definition e1000_poll_slot :: "nat \<Rightarrow> e1000 \<times> stack \<Rightarrow> (e1000 \<times> stack) option" where
  "e1000_poll_slot i w = do {
     assert_that (i < length (rx_ring (fst w)) \<and> i < length (rx_bufs (fst w)));
     if rd_status (rx_ring (fst w) ! i) AND 0x01 \<noteq> 0 then do {
       let len = int (unat (rd_length (rx_ring (fst w) ! i)));
       (d, s) \<leftarrow> (if len > 0 then nic_receive e1000_nic_tx (rx_bufs (fst w) ! i) len w else Some w);
       Some (e1000_writel E1000_RDT (word_of_nat i)
         (d\<lparr>rx_ring := (rx_ring d)[i := (rx_ring d ! i)\<lparr>rd_status := 0\<rparr>]\<rparr>), s)
     }
     else Some w
   }"

definition e1000_poll :: "e1000 \<times> stack \<Rightarrow> (e1000 \<times> stack) option" where
  "e1000_poll w = (if \<not> driver_ready (fst w) then Some w else for_loop e1000_poll_slot [0..<32] w)"

section \<open>Invariant\<close>

definition e1000_ok :: "e1000 \<Rightarrow> bool" where
  "e1000_ok d \<longleftrightarrow> length (tx_bufs d) = 16 \<and> length (tx_ring d) = 16 \<and> (\<forall>b \<in> set (tx_bufs d). length b = 2048) \<and>
     unat (tx_tail d) < 16 \<and> length (rx_ring d) = 32 \<and> length (rx_bufs d) = 32 \<and>
     (\<forall>b \<in> set (rx_bufs d). length b = 2048)"

lemma e1000_writel_simps [simp]:
  "tx_bufs (e1000_writel r v d) = tx_bufs d" "tx_ring (e1000_writel r v d) = tx_ring d"
  "tx_tail (e1000_writel r v d) = tx_tail d" "rx_ring (e1000_writel r v d) = rx_ring d"
  "rx_bufs (e1000_writel r v d) = rx_bufs d" "driver_ready (e1000_writel r v d) = driver_ready d"
  "e1000_ok (e1000_writel r v d) = e1000_ok d"
  by (simp_all add: e1000_writel_def e1000_ok_def)

lemma unat_tail:
  "unat t < 16 \<Longrightarrow> unat ((t + 1 :: u32) mod 16) = (unat t + 1) mod 16"
  by (simp add: unat_mod_distrib unat_word_ariths)

text \<open>What a transmission does: the frame is in the next slot, the tail moves on.\<close>

lemma e1000_nic_tx_spec:
  assumes "e1000_ok d" "driver_ready d" "length f \<le> 2048" "i = unat (tx_tail d)"
  shows "e1000_nic_tx f d = Some (e1000_writel E1000_TDT ((tx_tail d + 1) mod 16)
    (d\<lparr>tx_bufs := (tx_bufs d)[i := f @ drop (length f) (tx_bufs d ! i)],
      tx_ring := (tx_ring d)[i := (tx_ring d ! i)\<lparr>td_length := word_of_nat (length f), td_cmd := 0x1B, td_status := 0\<rparr>],
      tx_tail := (tx_tail d + 1) mod 16\<rparr>))"
proof -
  have "tx_bufs d ! i \<in> set (tx_bufs d)" using assms(1,4) by (simp add: e1000_ok_def)
  then have "length (tx_bufs d ! i) = 2048" using assms(1) by (simp add: e1000_ok_def)
  then show ?thesis
    using assms by (simp add: e1000_nic_tx_def e1000_ok_def rdn_def blit_def Let_def)
qed

lemma e1000_nic_tx_ok:
  assumes "e1000_ok d" "length f \<le> 2048"
  shows "\<exists>d'. e1000_nic_tx f d = Some d' \<and> e1000_ok d' \<and> rx_ring d' = rx_ring d \<and> rx_bufs d' = rx_bufs d \<and>
    driver_ready d' = driver_ready d"
proof (cases "driver_ready d")
  case False
  with assms show ?thesis by (simp add: e1000_nic_tx_def)
next
  case True
  let ?i = "unat (tx_tail d)"
  have i: "?i < 16" "length (tx_bufs d ! ?i) = 2048"
    using assms(1) by (auto simp: e1000_ok_def)
  have "unat ((tx_tail d + 1) mod 16) < 16" using unat_tail [OF i(1)] by simp
  then show ?thesis
    using e1000_nic_tx_spec [OF assms(1) True assms(2) refl] assms i
    by (auto simp: e1000_ok_def dest!: set_update_subset_insert [THEN subsetD])
qed

interpretation e1k: nic e1000_nic_tx e1000_ok 0 2048
  by unfold_locales (use e1000_nic_tx_ok in blast)


section \<open>The transmit ring\<close>

text \<open>After frames \<open>fs\<close> from tail \<open>t\<close>: which bytes and length each slot has.\<close>

definition slot_has :: "e1000 \<Rightarrow> nat \<Rightarrow> bytes \<Rightarrow> bool" where
  "slot_has d i f \<longleftrightarrow> take (length f) (tx_bufs d ! i) = f \<and> td_length (tx_ring d ! i) = word_of_nat (length f)"

lemma e1000_tx_one:
  assumes "e1000_ok d" "driver_ready d" "length f \<le> 2048"
  shows "\<exists>d'. e1000_nic_tx f d = Some d' \<and> e1000_ok d' \<and> driver_ready d' \<and>
    unat (tx_tail d') = (unat (tx_tail d) + 1) mod 16 \<and> regs d' E1000_TDT = tx_tail d' \<and>
    slot_has d' (unat (tx_tail d)) f \<and>
    (\<forall>i g. i \<noteq> unat (tx_tail d) \<longrightarrow> slot_has d' i g = slot_has d i g)"
proof -
  let ?i = "unat (tx_tail d)"
  let ?d = "e1000_writel E1000_TDT ((tx_tail d + 1) mod 16)
    (d\<lparr>tx_bufs := (tx_bufs d)[?i := f @ drop (length f) (tx_bufs d ! ?i)],
      tx_ring := (tx_ring d)[?i := (tx_ring d ! ?i)\<lparr>td_length := word_of_nat (length f), td_cmd := 0x1B, td_status := 0\<rparr>],
      tx_tail := (tx_tail d + 1) mod 16\<rparr>)"
  have s: "e1000_nic_tx f d = Some ?d" by (rule e1000_nic_tx_spec [OF assms refl])
  then have ok: "e1000_ok ?d" using e1000_nic_tx_ok [OF assms(1,3)] by auto
  have i: "?i < 16" "length (tx_bufs d) = 16" "length (tx_ring d) = 16" using assms(1) by (auto simp: e1000_ok_def)
  have "slot_has ?d ?i f" using i by (simp add: slot_has_def)
  moreover have "\<forall>i g. i \<noteq> ?i \<longrightarrow> slot_has ?d i g = slot_has d i g" by (simp add: slot_has_def)
  moreover have "regs ?d E1000_TDT = tx_tail ?d" by (simp add: e1000_writel_def)
  moreover have "unat (tx_tail ?d) = (?i + 1) mod 16" using unat_tail [OF i(1)] by simp
  moreover have "driver_ready ?d" using assms(2) by simp
  ultimately show ?thesis using s ok by blast
qed

lemma e1000_tx_many:
  assumes "e1000_ok d" "driver_ready d" "\<forall>f \<in> set fs. length f \<le> 2048"
  shows "\<exists>d'. tx_all e1000_nic_tx fs d = Some d' \<and> e1000_ok d' \<and> driver_ready d' \<and>
    unat (tx_tail d') = (unat (tx_tail d) + length fs) mod 16 \<and>
    (fs \<noteq> [] \<longrightarrow> regs d' E1000_TDT = tx_tail d') \<and>
    (\<forall>j < length fs. length fs \<le> j + 16 \<longrightarrow> slot_has d' ((unat (tx_tail d) + j) mod 16) (fs ! j))"
  using assms
proof (induction fs rule: rev_induct)
  case Nil
  then have "unat (tx_tail d) < 16" by (simp add: e1000_ok_def)
  with Nil show ?case by simp
next
  case (snoc f fs)
  then obtain d1 where d1: "tx_all e1000_nic_tx fs d = Some d1" "e1000_ok d1" "driver_ready d1"
    "unat (tx_tail d1) = (unat (tx_tail d) + length fs) mod 16"
    "\<forall>j < length fs. length fs \<le> j + 16 \<longrightarrow> slot_has d1 ((unat (tx_tail d) + j) mod 16) (fs ! j)" by auto
  have "length f \<le> 2048" using snoc.prems(3) by simp
  from e1000_tx_one [OF d1(2,3) this] obtain d2 where d2: "e1000_nic_tx f d1 = Some d2" "e1000_ok d2" "driver_ready d2"
    "unat (tx_tail d2) = (unat (tx_tail d1) + 1) mod 16" "regs d2 E1000_TDT = tx_tail d2"
    "slot_has d2 (unat (tx_tail d1)) f"
    "\<forall>i g. i \<noteq> unat (tx_tail d1) \<longrightarrow> slot_has d2 i g = slot_has d1 i g" by blast
  have "slot_has d2 ((unat (tx_tail d) + j) mod 16) ((fs @ [f]) ! j)"
    if j: "j < length (fs @ [f])" "length (fs @ [f]) \<le> j + 16" for j
  proof (cases "j = length fs")
    case True
    then show ?thesis using d2(6) d1(4) by simp
  next
    case False
    then have jl: "j < length fs" using j(1) by simp
    have "(unat (tx_tail d) + j) mod 16 \<noteq> (unat (tx_tail d) + length fs) mod 16"
    proof
      assume "(unat (tx_tail d) + j) mod 16 = (unat (tx_tail d) + length fs) mod 16"
      then have "16 dvd (unat (tx_tail d) + length fs) - (unat (tx_tail d) + j)"
        using jl by (intro iffD1 [OF mod_eq_dvd_iff_nat]) auto
      then have "16 dvd length fs - j" by simp
      moreover have "0 < length fs - j" "length fs - j < 16" using jl j(2) by auto
      ultimately show False using dvd_imp_le by fastforce
    qed
    then have "slot_has d2 ((unat (tx_tail d) + j) mod 16) (fs ! j) =
        slot_has d1 ((unat (tx_tail d) + j) mod 16) (fs ! j)" using d2(7) d1(4) by simp
    moreover have "length fs \<le> j + 16" using j(2) by simp
    ultimately show ?thesis using d1(5) jl by (simp add: nth_append)
  qed
  moreover have "unat (tx_tail d2) = (unat (tx_tail d) + length (fs @ [f])) mod 16"
    using d2(4) d1(4) by (simp add: mod_simps)
  ultimately show ?case using d1(1) d2 by (auto simp: tx_all_append)
qed

section \<open>Polling\<close>

text \<open>What the card may have written: lengths within the buffers, those of IPv4 frames too.\<close>

definition rx_fits :: "e1000 \<Rightarrow> bool" where
  "rx_fits d \<longleftrightarrow> (\<forall>i < 32. rd_status (rx_ring d ! i) AND 1 \<noteq> 0 \<longrightarrow>
     unat (rd_length (rx_ring d ! i)) \<le> 2048 \<and> ip_len_fits (rx_bufs d ! i))"

lemma tx_all_rx:
  "tx_all e1000_nic_tx fs d = Some d' \<Longrightarrow> rx_ring d' = rx_ring d \<and> rx_bufs d' = rx_bufs d \<and> driver_ready d' = driver_ready d"
proof (induction fs arbitrary: d)
  case Nil
  then show ?case by simp
next
  case (Cons f fs)
  then obtain d1 where d1: "e1000_nic_tx f d = Some d1" "tx_all e1000_nic_tx fs d1 = Some d'" by (auto simp: bind_Some_iff)
  have "rx_ring d1 = rx_ring d \<and> rx_bufs d1 = rx_bufs d \<and> driver_ready d1 = driver_ready d"
    using d1(1) by (auto simp: e1000_nic_tx_def bind_Some_iff Let_def split: if_splits)
  with Cons.IH [OF d1(2)] show ?case by simp
qed

lemma e1000_poll_slot_ok:
  assumes "e1000_ok d" "stack_ok s" "rx_fits d" "i < 32" "nic_log (st_net s) = []"
  shows "\<exists>d' s'. e1000_poll_slot i (d, s) = Some (d', s') \<and> e1000_ok d' \<and> stack_ok s' \<and> rx_fits d' \<and>
    nic_log (st_net s') = [] \<and> rd_status (rx_ring d' ! i) AND 1 = 0 \<and>
    (\<forall>j. j \<noteq> i \<longrightarrow> rx_ring d' ! j = rx_ring d ! j) \<and> driver_ready d' = driver_ready d"
proof (cases "rd_status (rx_ring d ! i) AND 1 = 0")
  case True
  with assms show ?thesis by (simp add: e1000_poll_slot_def e1000_ok_def)
next
  case False
  let ?len = "int (unat (rd_length (rx_ring d ! i)))"
  have len: "length (rx_ring d) = 32" "length (rx_bufs d) = 32" using assms(1) by (simp_all add: e1000_ok_def)
  have "rx_bufs d ! i \<in> set (rx_bufs d)" using len assms(4) by simp
  then have buf: "length (rx_bufs d ! i) = 2048" using assms(1) by (simp add: e1000_ok_def)
  have "unat (rd_length (rx_ring d ! i)) \<le> 2048" and fits2: "ip_len_fits (rx_bufs d ! i)"
    using assms(3,4) False by (auto simp: rx_fits_def)
  then have fits1: "?len \<le> int (length (rx_bufs d ! i))" unfolding buf by linarith
  note fits = fits1 fits2
  obtain d1 s1 where r: "(if ?len > 0 then nic_receive e1000_nic_tx (rx_bufs d ! i) ?len (d, s) else Some (d, s)) = Some (d1, s1)"
    "e1000_ok d1" "stack_ok s1" "nic_log (st_net s1) = []" "rx_ring d1 = rx_ring d" "rx_bufs d1 = rx_bufs d"
    "driver_ready d1 = driver_ready d"
  proof (cases "?len > 0")
    case True
    obtain w where w: "nic_receive e1000_nic_tx (rx_bufs d ! i) ?len (d, s) = Some w" "e1000_ok (fst w)"
      "stack_ok (snd w)" "nic_log (st_net (snd w)) = []"
      using e1k.nic_receive_ok [of "(d, s)", OF _ _ _ _ fits] assms(1,2) by auto
    then have "rx_ring (fst w) = rx_ring d" "rx_bufs (fst w) = rx_bufs d" "driver_ready (fst w) = driver_ready d"
      by (auto simp: nic_receive_def transmit_log_def bind_Some_iff dest!: tx_all_rx)
    with True w that [of "fst w" "snd w"] show ?thesis by simp
  next
    case False
    with assms that [of d s] show ?thesis by simp
  qed
  let ?d = "e1000_writel E1000_RDT (word_of_nat i) (d1\<lparr>rx_ring := (rx_ring d1)[i := (rx_ring d1 ! i)\<lparr>rd_status := 0\<rparr>]\<rparr>)"
  have "e1000_poll_slot i (d, s) = Some (?d, s1)"
    unfolding e1000_poll_slot_def Let_def fst_conv snd_conv r(1) using assms(4) len False by simp
  moreover have "e1000_ok ?d" using r(2) by (simp add: e1000_ok_def)
  moreover have "rx_fits ?d" using assms(3,4) r(5,6) len by (auto simp: rx_fits_def nth_list_update split: if_splits)
  ultimately show ?thesis using r len assms(4) by simp
qed

text \<open>What a poll owes the stack for a descriptor: its frame, if any, through \<open>net_rx\<close>, the answers sent.\<close>

definition served :: "e1000 \<Rightarrow> nat \<Rightarrow> stack \<Rightarrow> stack option" where
  "served d i s =
     (let r = rx_ring d ! i in
      if rd_status r AND 1 \<noteq> 0 \<and> 0 < unat (rd_length r) then do {
        s' \<leftarrow> net_rx (rx_bufs d ! i) (int (unat (rd_length r))) s;
        Some (s'\<lparr>st_net := (st_net s')\<lparr>nic_log := []\<rparr>\<rparr>)
      }
      else Some s)"

lemma e1000_poll_slot_serves:
  assumes "e1000_poll_slot i (d, s) = Some (d', s')"
  shows "served d i s = Some s' \<and> rx_bufs d' = rx_bufs d"
proof (cases "rd_status (rx_ring d ! i) AND 1 \<noteq> 0 \<and> 0 < unat (rd_length (rx_ring d ! i))")
  case False
  with assms show ?thesis
    by (auto simp: e1000_poll_slot_def served_def bind_Some_iff Let_def split: if_splits)
next
  case True
  then have "0 < int (unat (rd_length (rx_ring d ! i)))" by linarith
  then obtain d1 s1 where 1: "nic_receive e1000_nic_tx (rx_bufs d ! i) (int (unat (rd_length (rx_ring d ! i)))) (d, s) = Some (d1, s1)"
      "s' = s1" "rx_bufs d' = rx_bufs d1"
    using assms True unfolding e1000_poll_slot_def fst_conv by (auto simp: bind_Some_iff Let_def split: if_splits)
  from 1(1) have "served d i s = Some s1" using True
    by (auto simp: served_def nic_receive_def transmit_log_def bind_Some_iff Let_def)
  moreover have "rx_bufs d1 = rx_bufs d"
    using 1(1) by (auto simp: nic_receive_def transmit_log_def bind_Some_iff dest!: tx_all_rx)
  ultimately show ?thesis using 1(2,3) by simp
qed

lemma e1000_poll_loop:
  assumes "e1000_ok d" "stack_ok s" "rx_fits d" "nic_log (st_net s) = []" "n \<le> 32"
  shows "\<exists>d' s'. for_loop e1000_poll_slot [0..<n] (d, s) = Some (d', s') \<and> e1000_ok d' \<and> stack_ok s' \<and>
    rx_fits d' \<and> nic_log (st_net s') = [] \<and> (\<forall>i < n. rd_status (rx_ring d' ! i) AND 1 = 0) \<and>
    for_loop (served d) [0..<n] s = Some s' \<and> rx_bufs d' = rx_bufs d \<and> (\<forall>i \<ge> n. rx_ring d' ! i = rx_ring d ! i)"
  using assms(5)
proof (induction n)
  case 0
  with assms show ?case by simp
next
  case (Suc n)
  then obtain d1 s1 where 1: "for_loop e1000_poll_slot [0..<n] (d, s) = Some (d1, s1)" "e1000_ok d1" "stack_ok s1"
    "rx_fits d1" "nic_log (st_net s1) = []" "\<forall>i < n. rd_status (rx_ring d1 ! i) AND 1 = 0"
    "for_loop (served d) [0..<n] s = Some s1" "rx_bufs d1 = rx_bufs d" "\<forall>i \<ge> n. rx_ring d1 ! i = rx_ring d ! i" by auto
  have "n < 32" using Suc.prems by simp
  from e1000_poll_slot_ok [OF 1(2-4) this 1(5)] obtain d2 s2 where
    2: "e1000_poll_slot n (d1, s1) = Some (d2, s2)" "e1000_ok d2" "stack_ok s2" "rx_fits d2" "nic_log (st_net s2) = []"
      "rd_status (rx_ring d2 ! n) AND 1 = 0" "\<forall>j. j \<noteq> n \<longrightarrow> rx_ring d2 ! j = rx_ring d1 ! j" by blast
  have "\<forall>i < Suc n. rd_status (rx_ring d2 ! i) AND 1 = 0" using 1(6) 2(6,7) by (auto simp: less_Suc_eq)
  moreover have r: "rx_ring d1 ! n = rx_ring d ! n" using 1(9) by simp
  have "served d1 n = served d n" by (rule ext) (simp only: served_def r 1(8))
  with e1000_poll_slot_serves [OF 2(1)] 1(8) have "served d n s1 = Some s2" "rx_bufs d2 = rx_bufs d" by simp_all
  moreover have "\<forall>i \<ge> Suc n. rx_ring d2 ! i = rx_ring d ! i" using 1(9) 2(7) by simp
  ultimately show ?case using 1(1,7) 2(1-5) by (simp add: for_loop_append)
qed

section \<open>Set-up\<close>

lemma alloc_bufs_length: "alloc_bufs n h = (ps, h') \<Longrightarrow> length ps = n"
  by (induction n arbitrary: h ps h') (auto split: prod.splits)

lemma round16_bufs: "round16 2048 = 2048" "round16 512 = 512"
  by (simp_all add: round16_def)

lemma alloc_bufs_heap: "snd (alloc_bufs n h) = h + of_nat n * 2048"
proof (induction n arbitrary: h)
  case (Suc n)
  have "snd (alloc_bufs (Suc n) h) = snd (alloc_bufs n (h + 2048))"
    by (cases "alloc_bufs n (h + 2048)") (simp add: kmalloc_def round16_bufs)
  with Suc show ?case by (simp add: algebra_simps)
qed simp

lemma e1000_init_rx_heap: "snd (e1000_init_rx mem heap d) = heap + 512 + 32 * 2048"
  using alloc_bufs_heap [of 32 "heap + 512"]
  by (auto simp: e1000_init_rx_def kmalloc_def round16_bufs Let_def split: prod.splits)

lemma e1000_init_ok:
  assumes "e1000_init mem hw heap d n = Some (0, hw', heap', d', n')"
  shows "e1000_ok d' \<and> driver_ready d' \<and> regs d' E1000_RDT = 31 \<and> regs d' E1000_TDT = 0 \<and>
    (\<forall>i < 32. rd_status (rx_ring d' ! i) = 0)"
proof -
  from assms obtain base d2 h2 d3 h3 where i: "e1000_init_rx mem heap (d\<lparr>mmio := base\<rparr>) = (d2, h2)"
    "e1000_init_tx mem h2 d2 = (d3, h3)"
    "d' = (e1000_writel E1000_TCTL (push_bit 1 1 OR push_bit 3 1)
         (e1000_writel E1000_RCTL (push_bit 1 1 OR push_bit 26 1) d3))\<lparr>driver_ready := True\<rparr>"
    by (auto simp: e1000_init_def bind_Some_iff Let_def split: if_splits prod.splits)
  obtain ps h1 where ps: "alloc_bufs 32 (snd (kmalloc (16 * 32) heap)) = (ps, h1)" by fastforce
  obtain qs h4 where qs: "alloc_bufs 16 (snd (kmalloc (16 * 16) h2)) = (qs, h4)" by fastforce
  have len: "length ps = 32" "length qs = 16" using ps qs alloc_bufs_length by auto
  note defs = e1000_writel_def E1000_RDT_def E1000_TDT_def E1000_TDH_def E1000_TDLEN_def E1000_TDBAL_def
    E1000_TDBAH_def E1000_TCTL_def E1000_RCTL_def
  have d2: "rx_ring d2 = rx_ring_init ps (\<lambda>i. mk16 (mem (heap + word_of_nat (16 * i + 8))) (mem (heap + word_of_nat (16 * i + 9))))"
    "rx_bufs d2 = map (\<lambda>p. block mem p 2048) ps" "regs d2 E1000_RDT = 31"
    using i(1) ps by (auto simp: e1000_init_rx_def kmalloc_def Let_def e1000_writel_def)
  have d3: "rx_ring d3 = rx_ring d2" "rx_bufs d3 = rx_bufs d2" "regs d3 E1000_RDT = regs d2 E1000_RDT"
    "length (tx_ring d3) = 16" "tx_bufs d3 = map (\<lambda>p. block mem p 2048) qs" "tx_tail d3 = 0" "regs d3 E1000_TDT = 0"
    using i(2) qs len by (auto simp: e1000_init_tx_def kmalloc_def Let_def defs tx_ring_init_def)
  show ?thesis
    unfolding i(3) using d2 d3 len by (auto simp: e1000_ok_def rx_ring_init_def block_def defs)
qed


section \<open>Properties\<close>

text \<open>A driver with an ARP answer, a datagram and empty frames to receive, for the examples.\<close>

definition e1000_demo :: e1000 where
  "e1000_demo = \<lparr>driver_ready = True, mmio = 0xFEB80000, regs = (\<lambda>_. 0),
     rx_ring = replicate 32 \<lparr>rd_addr = 0, rd_length = 60, rd_status = 1\<rparr>, rx_bufs = rx_arp # rx_udp # replicate 30 (replicate 2048 0),
     rx_tail = 31, tx_ring = replicate 16 \<lparr>td_addr = 0, td_length = 0, td_cmd = 0, td_status = 0\<rparr>,
     tx_bufs = replicate 16 (replicate 2048 0), tx_tail = 0, tx_head = 0\<rparr>"

lemma e1000_demo_ok [simp]: "e1000_ok e1000_demo" "driver_ready e1000_demo" "tx_tail e1000_demo = 0"
  by (simp_all add: e1000_demo_def e1000_ok_def rx_buffers)

lemma e1000_demo_fits: "rx_fits e1000_demo"
  unfolding rx_fits_def
proof (intro allI impI conjI)
  fix i :: nat
  assume i: "i < 32"
  show "unat (rd_length (rx_ring e1000_demo ! i)) \<le> 2048" using i by (simp add: e1000_demo_def)
  have z: "ip_len_fits (replicate 2048 0)" by (simp add: ip_len_fits_def ld16_def mk16_def htons_def ETH_TYPE_IP_def)
  consider "i = 0" | "i = 1" | k where "i = Suc (Suc k)" "k < 30"
  proof (cases "i < 2")
    case True
    then show ?thesis using that(1,2) by linarith
  next
    case False
    then have "i = Suc (Suc (i - 2))" "i - 2 < 30" using i by simp_all
    then show ?thesis by (rule that(3))
  qed
  then show "ip_len_fits (rx_bufs e1000_demo ! i)"
    by cases (simp_all add: e1000_demo_def rx_buffers z)
qed



text \<open>C32: The transmit ring keeps the last 16 frames in order: the \<open>j\<close>th frame sent is in slot
  \<open>tail + j\<close> modulo 16 unless 16 more followed it. Nothing waits for the card, so a 17th frame
  overwrites the first, and after exactly 16 frames the tail is back where it was, which the card
  reads as an empty ring.\<close>
lemma e1000_tx_ring:
  assumes "e1000_ok d" "driver_ready d" "\<forall>f \<in> set fs. length f \<le> 2048"
  shows "\<exists>d'. tx_all e1000_nic_tx fs d = Some d' \<and> e1000_ok d' \<and>
    (\<forall>j < length fs. length fs \<le> j + 16 \<longrightarrow> slot_has d' ((unat (tx_tail d) + j) mod 16) (fs ! j)) \<and>
    unat (tx_tail d') = (unat (tx_tail d) + length fs) mod 16 \<and>
    (fs \<noteq> [] \<longrightarrow> regs d' E1000_TDT = tx_tail d') \<and>
    (length fs = 16 \<longrightarrow> tx_tail d' = tx_tail d)"
proof -
  obtain d' where d': "tx_all e1000_nic_tx fs d = Some d'" "e1000_ok d'"
    "unat (tx_tail d') = (unat (tx_tail d) + length fs) mod 16"
    "fs \<noteq> [] \<longrightarrow> regs d' E1000_TDT = tx_tail d'"
    "\<forall>j < length fs. length fs \<le> j + 16 \<longrightarrow> slot_has d' ((unat (tx_tail d) + j) mod 16) (fs ! j)"
    using e1000_tx_many [OF assms] by blast
  have "tx_tail d' = tx_tail d" if "length fs = 16"
  proof -
    have "unat (tx_tail d) < 16" using assms(1) by (simp add: e1000_ok_def)
    then have "unat (tx_tail d') = unat (tx_tail d)" using d'(3) that by simp
    then show ?thesis by (rule word_unat_eq_iff [THEN iffD2])
  qed
  with d' show ?thesis by blast
qed

lemma e1000_tx_ring_witness:
  "\<exists>d'. tx_all e1000_nic_tx (replicate 16 [1, 2]) e1000_demo = Some d' \<and> slot_has d' 3 [1, 2] \<and> tx_tail d' = 0"
proof -
  obtain d' where d': "tx_all e1000_nic_tx (replicate 16 [1, 2]) e1000_demo = Some d'" "tx_tail d' = 0"
    "\<forall>j < length (replicate 16 [1 :: u8, 2]). length (replicate 16 [1 :: u8, 2]) \<le> j + 16 \<longrightarrow>
      slot_has d' ((unat (tx_tail e1000_demo) + j) mod 16) (replicate 16 [1, 2] ! j)"
    using e1000_tx_ring [of e1000_demo "replicate 16 [1, 2]"] by auto
  then have "slot_has d' 3 [1, 2]" by (auto dest: spec [of _ 3])
  with d'(1,2) show ?thesis by blast
qed

text \<open>When the set-up succeeds the driver is ready, both rings have their descriptors with
  2048-byte buffers and the tail registers say so to the card.\<close>
lemma e1000_init_establishes:
  assumes "e1000_init mem hw heap d n = Some (0, hw', heap', d', n')"
  shows "e1000_ok d' \<and> driver_ready d' \<and> regs d' E1000_RDT = 31 \<and> regs d' E1000_TDT = 0"
  using e1000_init_ok [OF assms] by blast

lemma e1000_init_establishes_witness:
  "\<exists>hw hw' heap' d' n'. e1000_init (\<lambda>_. 0) hw heap_start e1000_demo net_boot = Some (0, hw', heap', d', n') \<and>
     e1000_ok d' \<and> regs d' E1000_RDT = 31"
proof -
  let ?hw = "\<lambda>a. if a = 0x80000000 then 0x100E8086 else if a = 0x80000008 then 0x02000000
    else if a = 0x80000010 then 0xFEB80000 else 0 :: u32"
  have addr: "pci_config_addr 0 0 0 0 = 0x80000000" "pci_config_addr 0 0 0 8 = 0x80000008"
    "pci_config_addr 0 0 0 4 = 0x80000004" "pci_config_addr 0 0 0 0x10 = 0x80000010"
    by (simp_all add: pci_config_addr_def)
  have r: "pci_config_read16 ?hw 0 0 0 0 = 0x8086" "pci_config_read8 ?hw 0 0 0 0x0B = 0x02"
    by (simp_all add: pci_config_read16_def pci_config_read8_def pci_config_read32_def addr)
  have up: "[0..<8] = 0 # [1..<8]" "[0..<32] = 0 # [1..<32]" by (simp_all add: upt_conv_Cons)
  have f: "pci_find_intel_net ?hw = Some (0, 0, 0)"
    unfolding pci_find_intel_net_def
    by (subst scan_buses.simps) (simp add: up r del: upt_rec_numeral)
  have b: "pci_config_read32 (pci_config_write32 0 0 0 4 v ?hw) 0 0 0 0x10 = 0xFEB80000" for v
    by (simp add: pci_config_read32_def pci_config_write32_def addr)
  obtain hw' heap' d' n' where i: "e1000_init (\<lambda>_. 0) ?hw heap_start e1000_demo net_boot = Some (0, hw', heap', d', n')"
  proof -
    obtain d2 h2 where 1: "e1000_init_rx (\<lambda>_. 0) heap_start (e1000_demo\<lparr>mmio := 0xFEB80000\<rparr>) = (d2, h2)" by fastforce
    obtain d3 h3 where 2: "e1000_init_tx (\<lambda>_. 0) h2 d2 = (d3, h3)" by fastforce
    have "h2 = heap_start + 512 + 32 * 2048"
      using e1000_init_rx_heap [of "\<lambda>_. 0" heap_start "e1000_demo\<lparr>mmio := 0xFEB80000\<rparr>"] 1 by simp
    then have "fst (kmalloc 256 h2) \<noteq> 0" "fst (kmalloc 512 heap_start) \<noteq> 0"
      by (simp_all add: kmalloc_def heap_start_def)
    then show ?thesis using that unfolding e1000_init_def f by (simp add: b Let_def 1 2)
  qed
  with e1000_init_establishes [OF i] show ?thesis by blast
qed

end
