(* ===== verification/Font.thy ===== *)
theory Font
  imports Prelude
begin

text \<open>
  The glyph table of \<open>src/font.c\<close>: 128 glyphs of eight rows; the rest of the 256 entries,
  written out or left to the initializer, is zero.
\<close>

definition font_glyphs :: "u8 list list" where
  "font_glyphs = [
     [0x00, 0x00, 0x00, 0x00, 0x00, 0x00, 0x00, 0x00],
     [0x18, 0x3c, 0x3c, 0x18, 0x3c, 0x24, 0x3c, 0x18],
     [0xc3, 0xc3, 0xc3, 0x66, 0x3c, 0x18, 0x3c, 0x66],
     [0x6c, 0x99, 0x99, 0x6c, 0x99, 0x99, 0x6c, 0x00],
     [0x66, 0x95, 0x81, 0xff, 0x81, 0x95, 0x66, 0x00],
     [0x48, 0x5a, 0x14, 0x3e, 0x14, 0x5a, 0x48, 0x00],
     [0x3c, 0x42, 0x5c, 0x44, 0x5c, 0x42, 0x3c, 0x00],
     [0x00, 0x18, 0x18, 0x18, 0x18, 0x00, 0x18, 0x00],
     [0x18, 0x28, 0x48, 0x00, 0x48, 0x28, 0x18, 0x00],
     [0x3c, 0x42, 0x42, 0x42, 0x42, 0x42, 0x3c, 0x00],
     [0x00, 0x66, 0x66, 0x66, 0xff, 0x00, 0x00, 0x00],
     [0x0c, 0x1c, 0x3e, 0x6e, 0x3e, 0x1c, 0x0c, 0x00],
     [0x00, 0x00, 0xff, 0x66, 0x66, 0x66, 0x00, 0x00],
     [0x00, 0x00, 0x00, 0x00, 0x00, 0xff, 0x66, 0x66],
     [0x0e, 0x1e, 0x3d, 0x7b, 0x77, 0x6f, 0x5e, 0x1c],
     [0x7c, 0xfe, 0xdb, 0xdb, 0xdb, 0xfe, 0x7c, 0x00],
     [0x04, 0x0e, 0x0e, 0x0e, 0x1f, 0x1f, 0x0e, 0x04],
     [0x18, 0x3c, 0x7e, 0x18, 0x18, 0x18, 0x18, 0x00],
     [0x18, 0x3c, 0x7e, 0x3c, 0x7e, 0x3c, 0x18, 0x00],
     [0x6c, 0x99, 0x6c, 0x99, 0x6c, 0x99, 0x6c, 0x00],
     [0x18, 0x18, 0x18, 0x18, 0x7e, 0x3c, 0x18, 0x00],
     [0x00, 0x00, 0x00, 0xe0, 0x70, 0x38, 0x1c, 0x0e],
     [0x3e, 0x41, 0x55, 0x55, 0x55, 0x49, 0x3e, 0x00],
     [0x18, 0x3c, 0x7e, 0x18, 0x7e, 0x3c, 0x18, 0x00],
     [0x18, 0x18, 0x18, 0x18, 0x18, 0x18, 0x18, 0x18],
     [0x18, 0x18, 0x18, 0x18, 0x18, 0x18, 0x18, 0x00],
     [0x18, 0x3c, 0x7e, 0x18, 0x7e, 0x3c, 0x18, 0x00],
     [0x00, 0x00, 0x00, 0x00, 0x00, 0x7c, 0x38, 0x10],
     [0x7f, 0x40, 0x40, 0x40, 0x40, 0x40, 0x40, 0x7f],
     [0x7f, 0x01, 0x01, 0x01, 0x01, 0x01, 0x01, 0x7f],
     [0x18, 0x3c, 0x7e, 0x00, 0x7e, 0x3c, 0x18, 0x00],
     [0x7f, 0x7f, 0x7f, 0x7f, 0x7f, 0x7f, 0x7f, 0x7f],
     [0x00, 0x00, 0x00, 0x00, 0x00, 0x00, 0x00, 0x00],
     [0x18, 0x18, 0x18, 0x18, 0x18, 0x00, 0x18, 0x00],
     [0x24, 0x24, 0x24, 0x00, 0x00, 0x00, 0x00, 0x00],
     [0x24, 0x24, 0x7e, 0x24, 0x7e, 0x24, 0x24, 0x00],
     [0x18, 0x2a, 0x2a, 0x18, 0x2a, 0x2a, 0x18, 0x00],
     [0x63, 0x66, 0x0c, 0x18, 0x30, 0x66, 0xc6, 0x00],
     [0x38, 0x44, 0x54, 0x28, 0x54, 0x44, 0x38, 0x00],
     [0x18, 0x18, 0x18, 0x00, 0x00, 0x00, 0x00, 0x00],
     [0x0c, 0x18, 0x20, 0x20, 0x20, 0x18, 0x0c, 0x00],
     [0x30, 0x18, 0x04, 0x04, 0x04, 0x18, 0x30, 0x00],
     [0x00, 0x28, 0x18, 0x7e, 0x18, 0x28, 0x00, 0x00],
     [0x00, 0x18, 0x18, 0x7e, 0x18, 0x18, 0x00, 0x00],
     [0x00, 0x00, 0x00, 0x00, 0x00, 0x18, 0x18, 0x30],
     [0x00, 0x00, 0x00, 0x7e, 0x00, 0x00, 0x00, 0x00],
     [0x00, 0x00, 0x00, 0x00, 0x00, 0x18, 0x18, 0x00],
     [0x03, 0x06, 0x0c, 0x18, 0x30, 0x60, 0xc0, 0x00],
     [0x3c, 0x42, 0x4a, 0x52, 0x5a, 0x42, 0x3c, 0x00],
     [0x18, 0x38, 0x18, 0x18, 0x18, 0x18, 0x3c, 0x00],
     [0x3c, 0x42, 0x02, 0x04, 0x08, 0x10, 0x7e, 0x00],
     [0x3c, 0x42, 0x04, 0x18, 0x04, 0x42, 0x3c, 0x00],
     [0x0c, 0x1c, 0x2c, 0x4c, 0x7e, 0x0c, 0x0c, 0x00],
     [0x7e, 0x40, 0x7c, 0x02, 0x02, 0x42, 0x3c, 0x00],
     [0x1c, 0x20, 0x40, 0x7c, 0x42, 0x42, 0x3c, 0x00],
     [0x7e, 0x02, 0x04, 0x08, 0x10, 0x20, 0x20, 0x00],
     [0x3c, 0x42, 0x42, 0x3c, 0x42, 0x42, 0x3c, 0x00],
     [0x3c, 0x42, 0x42, 0x3e, 0x02, 0x04, 0x38, 0x00],
     [0x00, 0x18, 0x18, 0x00, 0x18, 0x18, 0x00, 0x00],
     [0x00, 0x18, 0x18, 0x00, 0x18, 0x18, 0x30, 0x00],
     [0x0c, 0x18, 0x20, 0x40, 0x20, 0x18, 0x0c, 0x00],
     [0x00, 0x00, 0x7e, 0x00, 0x7e, 0x00, 0x00, 0x00],
     [0x30, 0x18, 0x04, 0x02, 0x04, 0x18, 0x30, 0x00],
     [0x3c, 0x42, 0x04, 0x08, 0x18, 0x00, 0x18, 0x00],
     [0x3c, 0x42, 0x55, 0x55, 0x5d, 0x41, 0x3e, 0x00],
     [0x18, 0x24, 0x24, 0x24, 0x7e, 0x42, 0x42, 0x00],
     [0x7c, 0x42, 0x42, 0x7c, 0x42, 0x42, 0x7c, 0x00],
     [0x3c, 0x42, 0x40, 0x40, 0x40, 0x42, 0x3c, 0x00],
     [0x7c, 0x42, 0x42, 0x42, 0x42, 0x42, 0x7c, 0x00],
     [0x7e, 0x40, 0x40, 0x7c, 0x40, 0x40, 0x7e, 0x00],
     [0x7e, 0x40, 0x40, 0x7c, 0x40, 0x40, 0x40, 0x00],
     [0x3c, 0x42, 0x40, 0x4e, 0x42, 0x42, 0x3c, 0x00],
     [0x42, 0x42, 0x42, 0x7e, 0x42, 0x42, 0x42, 0x00],
     [0x3c, 0x18, 0x18, 0x18, 0x18, 0x18, 0x3c, 0x00],
     [0x06, 0x02, 0x02, 0x02, 0x42, 0x42, 0x3c, 0x00],
     [0x42, 0x44, 0x48, 0x70, 0x48, 0x44, 0x42, 0x00],
     [0x40, 0x40, 0x40, 0x40, 0x40, 0x40, 0x7e, 0x00],
     [0x42, 0x66, 0x5a, 0x42, 0x42, 0x42, 0x42, 0x00],
     [0x42, 0x62, 0x52, 0x4a, 0x46, 0x42, 0x42, 0x00],
     [0x3c, 0x42, 0x42, 0x42, 0x42, 0x42, 0x3c, 0x00],
     [0x7c, 0x42, 0x42, 0x7c, 0x40, 0x40, 0x40, 0x00],
     [0x3c, 0x42, 0x42, 0x42, 0x52, 0x4a, 0x3c, 0x04],
     [0x7c, 0x42, 0x42, 0x7c, 0x48, 0x44, 0x42, 0x00],
     [0x3c, 0x42, 0x40, 0x3c, 0x02, 0x42, 0x3c, 0x00],
     [0x7e, 0x18, 0x18, 0x18, 0x18, 0x18, 0x18, 0x00],
     [0x42, 0x42, 0x42, 0x42, 0x42, 0x42, 0x3c, 0x00],
     [0x42, 0x42, 0x42, 0x42, 0x42, 0x24, 0x18, 0x00],
     [0x42, 0x42, 0x42, 0x5a, 0x66, 0x42, 0x42, 0x00],
     [0x42, 0x24, 0x18, 0x18, 0x24, 0x42, 0x42, 0x00],
     [0x42, 0x42, 0x24, 0x18, 0x18, 0x18, 0x18, 0x00],
     [0x7e, 0x04, 0x08, 0x10, 0x20, 0x40, 0x7e, 0x00],
     [0x3c, 0x20, 0x20, 0x20, 0x20, 0x20, 0x3c, 0x00],
     [0xc0, 0x60, 0x30, 0x18, 0x0c, 0x06, 0x03, 0x00],
     [0x3c, 0x04, 0x04, 0x04, 0x04, 0x04, 0x3c, 0x00],
     [0x18, 0x24, 0x00, 0x00, 0x00, 0x00, 0x00, 0x00],
     [0x00, 0x00, 0x00, 0x00, 0x00, 0x00, 0x00, 0xff],
     [0x18, 0x0c, 0x00, 0x00, 0x00, 0x00, 0x00, 0x00],
     [0x00, 0x00, 0x3c, 0x04, 0x3e, 0x44, 0x3e, 0x00],
     [0x40, 0x40, 0x7c, 0x44, 0x44, 0x44, 0x7c, 0x00],
     [0x00, 0x00, 0x3c, 0x40, 0x40, 0x40, 0x3c, 0x00],
     [0x04, 0x04, 0x3e, 0x44, 0x44, 0x44, 0x3e, 0x00],
     [0x00, 0x00, 0x3c, 0x44, 0x7c, 0x40, 0x3c, 0x00],
     [0x0c, 0x10, 0x7c, 0x10, 0x10, 0x10, 0x10, 0x00],
     [0x00, 0x00, 0x3e, 0x44, 0x44, 0x3e, 0x04, 0x78],
     [0x40, 0x40, 0x7c, 0x44, 0x44, 0x44, 0x44, 0x00],
     [0x18, 0x00, 0x18, 0x18, 0x18, 0x18, 0x18, 0x00],
     [0x0c, 0x00, 0x0c, 0x0c, 0x0c, 0x0c, 0x4c, 0x38],
     [0x40, 0x40, 0x48, 0x50, 0x68, 0x48, 0x48, 0x00],
     [0x18, 0x18, 0x18, 0x18, 0x18, 0x18, 0x1c, 0x00],
     [0x00, 0x00, 0x6c, 0x54, 0x54, 0x44, 0x44, 0x00],
     [0x00, 0x00, 0x7c, 0x44, 0x44, 0x44, 0x44, 0x00],
     [0x00, 0x00, 0x3c, 0x44, 0x44, 0x44, 0x3c, 0x00],
     [0x00, 0x00, 0x7c, 0x44, 0x44, 0x7c, 0x40, 0x40],
     [0x00, 0x00, 0x3e, 0x44, 0x44, 0x3e, 0x04, 0x04],
     [0x00, 0x00, 0x5c, 0x64, 0x40, 0x40, 0x40, 0x00],
     [0x00, 0x00, 0x3e, 0x40, 0x3c, 0x04, 0x7c, 0x00],
     [0x10, 0x10, 0x7c, 0x10, 0x10, 0x14, 0x0c, 0x00],
     [0x00, 0x00, 0x44, 0x44, 0x44, 0x44, 0x3e, 0x00],
     [0x00, 0x00, 0x44, 0x44, 0x44, 0x28, 0x18, 0x00],
     [0x00, 0x00, 0x44, 0x44, 0x54, 0x54, 0x36, 0x00],
     [0x00, 0x00, 0x48, 0x30, 0x30, 0x48, 0x48, 0x00],
     [0x00, 0x00, 0x44, 0x44, 0x44, 0x3e, 0x04, 0x78],
     [0x00, 0x00, 0x7c, 0x08, 0x10, 0x20, 0x7c, 0x00],
     [0x0c, 0x18, 0x18, 0x30, 0x18, 0x18, 0x0c, 0x00],
     [0x18, 0x18, 0x18, 0x18, 0x18, 0x18, 0x18, 0x18],
     [0x30, 0x18, 0x18, 0x0c, 0x18, 0x18, 0x30, 0x00],
     [0x36, 0x18, 0x00, 0x00, 0x00, 0x00, 0x00, 0x00],
     [0x18, 0x24, 0x3c, 0x42, 0x7c, 0x42, 0x3c, 0x00]
     ]"

definition font :: "u8 list list" where
  "font = font_glyphs @ replicate 128 (replicate 8 0)"

lemma length_font_glyphs: "length font_glyphs = 128" "\<forall>g \<in> set font_glyphs. length g = 8"
  by (simp_all add: font_glyphs_def)

lemma length_font [simp]: "length font = 256"
  by (simp add: font_def length_font_glyphs)

lemma font_rows: "g \<in> set font \<Longrightarrow> length g = 8"
  using length_font_glyphs(2) by (auto simp: font_def)

end
