(* ===== verification/Graphics.thy ===== *)
theory Graphics
  imports Font Cstring
begin

text \<open>
  The framebuffer of \<open>src/graphics.c\<close>: pixels, rectangles, characters and strings. The
  memory behind the framebuffer address is a list of dwords, \<open>None\<close> an access behind its
  end. Coordinates are \<open>int\<close>; sums of coordinates are assumed not to overflow. The index
  of a pixel is computed in 32-bit unsigned arithmetic, as the source does. The locale
  \<open>screen\<close> states what drawing rests on: a pixel that is set changes just that pixel, or
  nothing if it is off the screen.
\<close>

section \<open>State and pixels\<close>

record fb =
  fb_addr :: u32
  fb_width :: u32
  fb_height :: u32
  fb_bpp :: u32
  fb_pitch :: u32
  fb_mem :: "u32 list"

definition pix_index :: "int \<Rightarrow> int \<Rightarrow> fb \<Rightarrow> nat" where
  "pix_index x y s = unat (word_of_int y * (fb_pitch s div 4) + word_of_int x :: u32)"

definition put_pixel :: "int \<Rightarrow> int \<Rightarrow> u32 \<Rightarrow> fb \<Rightarrow> fb option" where
  "put_pixel x y c s =
     (if fb_addr s = 0 then Some s
      else if x < 0 \<or> y < 0 \<or> sint (fb_width s) \<le> x \<or> sint (fb_height s) \<le> y then Some s
      else do {
        assert_that (pix_index x y s < length (fb_mem s));
        Some (s\<lparr>fb_mem := (fb_mem s)[pix_index x y s := c]\<rparr>)
      })"

definition get_pixel :: "int \<Rightarrow> int \<Rightarrow> fb \<Rightarrow> u32 option" where
  "get_pixel x y s =
     (if fb_addr s = 0 then Some 0
      else if x < 0 \<or> y < 0 \<or> sint (fb_width s) \<le> x \<or> sint (fb_height s) \<le> y then Some 0
      else ld8 (fb_mem s) (pix_index x y s))"

definition xor_pixel :: "int \<Rightarrow> int \<Rightarrow> u32 \<Rightarrow> fb \<Rightarrow> fb option" where
  "xor_pixel x y c s =
     (if fb_addr s = 0 then Some s
      else if x < 0 \<or> y < 0 \<or> sint (fb_width s) \<le> x \<or> sint (fb_height s) \<le> y then Some s
      else do {
        v \<leftarrow> ld8 (fb_mem s) (pix_index x y s);
        Some (s\<lparr>fb_mem := (fb_mem s)[pix_index x y s := v XOR c]\<rparr>)
      })"

section \<open>Drawing\<close>

text \<open>\<open>for (i = a; i < b; i++)\<close> runs over \<open>[a..b - 1]\<close>.\<close>

definition draw_rect :: "int \<Rightarrow> int \<Rightarrow> int \<Rightarrow> int \<Rightarrow> u32 \<Rightarrow> fb \<Rightarrow> fb option" where
  "draw_rect x y w h c = for_loop (\<lambda>i. for_loop (\<lambda>j. put_pixel j i c) [x..x + w - 1]) [y..y + h - 1]"

text \<open>\<open>font[(int)c]\<close> with a signed \<open>char\<close>: a byte from 0x80 on is a negative index.\<close>

definition draw_char :: "int \<Rightarrow> int \<Rightarrow> u8 \<Rightarrow> u32 \<Rightarrow> fb \<Rightarrow> fb option" where
  "draw_char x y c color s =
     (if sint c < 0 then None
      else do {
        glyph \<leftarrow> ld8 font (nat (sint c));
        for_loop (\<lambda>i s. do {
          row \<leftarrow> ld8 glyph i;
          for_loop (\<lambda>j s. if drop_bit (7 - j) row AND 1 \<noteq> 0
              then put_pixel (x + int j) (y + int i) color s else Some s) [0..<8] s }) [0..<8] s
      })"

fun draw_string :: "int \<Rightarrow> int \<Rightarrow> cstr \<Rightarrow> u32 \<Rightarrow> fb \<Rightarrow> fb option" where
  "draw_string x y [] color s = Some s"
| "draw_string x y (c # cs) color s = do { s' \<leftarrow> draw_char x y c color s; draw_string (x + 8) y cs color s' }"

definition xor_cursor :: "int \<Rightarrow> int \<Rightarrow> fb \<Rightarrow> fb option" where
  "xor_cursor x y = for_loop (\<lambda>dy. for_loop (\<lambda>dx. xor_pixel (x + int dx) (y + int dy) 0x00FFFFFF) [0..<6]) [0..<6]"

text \<open>
  The multiboot tags from offset \<open>off\<close> of the boot information on. The result is \<open>None\<close> if
  a tag is read outside the memory, or if the loop never ends (a tag of size 0).
\<close>

partial_function (option) find_fb_tag :: "bytes \<Rightarrow> nat \<Rightarrow> nat option option" where
  "find_fb_tag m off =
     (case ld32 m off of None \<Rightarrow> None
      | Some ty \<Rightarrow>
        (if ty = 0 then Some None
         else if ty = 8 then Some (Some off)
         else case ld32 m (off + 4) of None \<Rightarrow> None
           | Some sz \<Rightarrow> find_fb_tag m (off + unat ((sz + 7) AND NOT 7))))"

definition init_graphics :: "bytes \<Rightarrow> fb \<Rightarrow> fb option" where
  "init_graphics m s =
     (case find_fb_tag m 8 of
        None \<Rightarrow> None
      | Some None \<Rightarrow> Some s
      | Some (Some off) \<Rightarrow> do {
          addr \<leftarrow> ld32 m (off + 8);
          pitch \<leftarrow> ld32 m (off + 16);
          w \<leftarrow> ld32 m (off + 20);
          h \<leftarrow> ld32 m (off + 24);
          bpp \<leftarrow> ld8 m (off + 28);
          Some (s\<lparr>fb_addr := addr, fb_width := w, fb_height := h, fb_bpp := ucast bpp, fb_pitch := pitch\<rparr>)
        })"

section \<open>Pictures\<close>

text \<open>
  What is on a screen: a colour for every point, \<open>None\<close> outside. A drawing routine is
  described by its effect on pictures; \<open>paint\<close> colours a set of points.
\<close>

type_synonym 'c picture = "int \<times> int \<Rightarrow> 'c option"

definition paint :: "(int \<times> int) set \<Rightarrow> 'c \<Rightarrow> 'c picture \<Rightarrow> 'c picture" where
  "paint P c m = (\<lambda>q. if q \<in> P \<and> m q \<noteq> None then Some c else m q)"

definition renders :: "('s \<Rightarrow> bool) \<Rightarrow> ('s \<Rightarrow> 'c picture) \<Rightarrow> ('s \<Rightarrow> 's option) \<Rightarrow> ('c picture \<Rightarrow> 'c picture) \<Rightarrow> bool" where
  "renders ok look f F \<longleftrightarrow> (\<forall>s. ok s \<longrightarrow> (\<exists>t. f s = Some t \<and> ok t \<and> look t = F (look s)))"

lemma paint_None [simp]: "paint P c m q = None \<longleftrightarrow> m q = None"
  by (simp add: paint_def)

lemma paint_empty [simp]: "paint {} c = (\<lambda>m. m)"
  by (auto simp: paint_def)

lemma paint_paint: "paint Q c (paint P c m) = paint (P \<union> Q) c m"
  by (auto simp: paint_def)

lemma renders_id: "renders ok look Some (\<lambda>m. m)"
  by (simp add: renders_def)

lemma renders_bind:
  "renders ok look f F \<Longrightarrow> renders ok look g G \<Longrightarrow> renders ok look (\<lambda>s. f s \<bind> g) (\<lambda>m. G (F m))"
  unfolding renders_def by (metis bind.bind_lunit)

lemma rendersD: "renders ok look f F \<Longrightarrow> ok s \<Longrightarrow> \<exists>t. f s = Some t \<and> ok t \<and> look t = F (look s)"
  by (simp add: renders_def)

text \<open>A list of drawing commands, and a loop that paints a set of points per iteration.\<close>

definition draw_all :: "('s \<Rightarrow> 's option) list \<Rightarrow> 's \<Rightarrow> 's option" where
  "draw_all fs = for_loop (\<lambda>f. f) fs"

lemma draw_all_simps [simp]: "draw_all [] = Some" "draw_all (f # fs) = (\<lambda>s. f s \<bind> draw_all fs)"
  by (auto simp: draw_all_def)

lemma renders_loop:
  assumes "\<And>i. i \<in> set is \<Longrightarrow> renders ok look (f i) (paint (P i) c)"
  shows "renders ok look (for_loop f is) (paint (\<Union>i \<in> set is. P i) c)"
  using assms
proof (induction "is")
  case Nil
  show ?case using renders_id by (simp add: renders_def)
next
  case (Cons i "is")
  have "renders ok look (\<lambda>s. f i s \<bind> for_loop f is) (\<lambda>m. paint (\<Union>i \<in> set is. P i) c (paint (P i) c m))"
    using Cons by (intro renders_bind) auto
  then show ?case by (simp add: paint_paint fun_eq_iff renders_def)
qed

locale screen =
  fixes ok :: "'s \<Rightarrow> bool"
    and put :: "int \<Rightarrow> int \<Rightarrow> 'c \<Rightarrow> 's \<Rightarrow> 's option"
    and get :: "int \<Rightarrow> int \<Rightarrow> 's \<Rightarrow> 'c option"
    and look :: "'s \<Rightarrow> 'c picture"
  assumes put_renders: "renders ok look (put x y c) (paint {(x, y)} c)"
    and get_look: "ok s \<Longrightarrow> look s (x, y) = Some v \<Longrightarrow> get x y s = Some v"
begin

lemma rect_renders:
  "renders ok look (for_loop (\<lambda>i. for_loop (\<lambda>j. put j i c) [x..x + w - 1]) [y..y + h - 1])
    (paint ({x..<x + w} \<times> {y..<y + h}) c)"
proof -
  have "renders ok look (for_loop (\<lambda>j. put j i c) [x..x + w - 1]) (paint (\<Union>j \<in> set [x..x + w - 1]. {(j, i)}) c)" for i
    by (rule renders_loop) (rule put_renders)
  then have "renders ok look (for_loop (\<lambda>i. for_loop (\<lambda>j. put j i c) [x..x + w - 1]) [y..y + h - 1])
      (paint (\<Union>i \<in> set [y..y + h - 1]. \<Union>j \<in> set [x..x + w - 1]. {(j, i)}) c)"
    by (rule renders_loop)
  moreover have "(\<Union>i \<in> set [y..y + h - 1]. \<Union>j \<in> set [x..x + w - 1]. {(j, i)}) = {x..<x + w} \<times> {y..<y + h}"
    by auto
  ultimately show ?thesis by simp
qed

text \<open>Pixels that are set on a condition, as the rows of a glyph or of the cursor shape.\<close>

lemma cond_renders:
  "renders ok look (\<lambda>s. if b then put x y c s else Some s) (paint (if b then {(x, y)} else {}) c)"
  using put_renders [of x y c] renders_id [of ok look] by (cases b) (simp_all add: renders_def)

end

section \<open>The framebuffer is a screen\<close>

definition stride :: "fb \<Rightarrow> int" where
  "stride s = uint (fb_pitch s div 4)"

definition fb_ok :: "u32 \<Rightarrow> u32 \<Rightarrow> fb \<Rightarrow> bool" where
  "fb_ok w h s \<longleftrightarrow> fb_width s = w \<and> fb_height s = h \<and> uint w \<le> stride s \<and>
     uint h * stride s \<le> int (length (fb_mem s)) \<and> uint h * stride s < 2 ^ 32 \<and>
     uint w < 2 ^ 31 \<and> uint h < 2 ^ 31"

definition on_screen :: "u32 \<Rightarrow> u32 \<Rightarrow> (int \<times> int) set" where
  "on_screen w h = {0..<uint w} \<times> {0..<uint h}"

definition look :: "fb \<Rightarrow> u32 picture" where
  "look s = (\<lambda>(x, y). if fb_addr s \<noteq> 0 \<and> (x, y) \<in> on_screen (fb_width s) (fb_height s)
     then Some (fb_mem s ! pix_index x y s) else None)"

lemma sint_small: "uint (w :: u32) < 2 ^ 31 \<Longrightarrow> sint w = uint w"
  unfolding sint_uint by (subst signed_take_bit_int_eq_self) (auto intro: order_trans [of _ 0])

lemma pix_index_int:
  assumes "fb_ok w h s" "(x, y) \<in> on_screen w h"
  shows "int (pix_index x y s) = y * stride s + x" and "y * stride s + x < uint h * stride s"
proof -
  from assms have xy: "0 \<le> x" "0 \<le> y" "x < stride s" "y + 1 \<le> uint h" and lim: "uint h * stride s < 2 ^ 32"
    by (auto simp: fb_ok_def on_screen_def)
  have "y * stride s + x < (y + 1) * stride s" using xy by (simp add: algebra_simps)
  also have "\<dots> \<le> uint h * stride s" using xy by (intro mult_right_mono) auto
  finally show less: "y * stride s + x < uint h * stride s" .
  have "word_of_int y * (fb_pitch s div 4) + word_of_int x = (word_of_int (y * stride s + x) :: u32)"
    by (simp add: stride_def)
  then have "int (pix_index x y s) = uint (word_of_int (y * stride s + x) :: u32)" by (simp add: pix_index_def)
  also have "\<dots> = (y * stride s + x) mod 2 ^ 32" unfolding uint_word_of_int by simp
  also have "\<dots> = y * stride s + x" using less lim xy by (intro mod_pos_pos_trivial) auto
  finally show "int (pix_index x y s) = y * stride s + x" .
qed

lemma pix_index_length:
  assumes "fb_ok w h s" "(x, y) \<in> on_screen w h"
  shows "pix_index x y s < length (fb_mem s)"
proof -
  have "int (pix_index x y s) < int (length (fb_mem s))"
    using pix_index_int [OF assms] assms(1) by (simp add: fb_ok_def)
  then show ?thesis by simp
qed

lemma pix_index_inj:
  assumes "fb_ok w h s" "(x, y) \<in> on_screen w h" "(x', y') \<in> on_screen w h" "pix_index x y s = pix_index x' y' s"
  shows "x = x' \<and> y = y'"
proof -
  have lt: "0 \<le> x" "0 \<le> x'" "x < stride s" "x' < stride s"
    using assms(1-3) by (auto simp: fb_ok_def on_screen_def)
  have e: "y * stride s + x = y' * stride s + x'"
    using assms(4) pix_index_int(1) [OF assms(1,2)] pix_index_int(1) [OF assms(1,3)] by simp
  then have "(y * stride s + x) div stride s = (y' * stride s + x') div stride s" by simp
  then have "y = y'" using lt by simp
  with e show ?thesis by simp
qed

lemma off_screen_iff:
  assumes "fb_ok w h s"
  shows "(x < 0 \<or> y < 0 \<or> sint (fb_width s) \<le> x \<or> sint (fb_height s) \<le> y) \<longleftrightarrow> (x, y) \<notin> on_screen w h"
proof -
  have "sint (fb_width s) = uint w" "sint (fb_height s) = uint h" using assms by (simp_all add: fb_ok_def sint_small)
  then show ?thesis by (simp only: on_screen_def mem_Sigma_iff atLeastLessThan_iff) linarith
qed

lemma put_pixel_renders: "renders (fb_ok w h) look (put_pixel x y c) (paint {(x, y)} c)"
  unfolding renders_def
proof (intro allI impI)
  fix s
  assume ok: "fb_ok w h s"
  then have dims: "fb_width s = w" "fb_height s = h" by (simp_all add: fb_ok_def)
  show "\<exists>t. put_pixel x y c s = Some t \<and> fb_ok w h t \<and> look t = paint {(x, y)} c (look s)"
  proof (cases "fb_addr s = 0 \<or> (x, y) \<notin> on_screen w h")
    case True
    then have "put_pixel x y c s = Some s" using off_screen_iff [OF ok, of x y] unfolding put_pixel_def by auto
    moreover have "look s = paint {(x, y)} c (look s)"
      using True dims by (auto simp: paint_def look_def)
    ultimately show ?thesis using ok by auto
  next
    case False
    let ?i = "pix_index x y s"
    let ?t = "s\<lparr>fb_mem := (fb_mem s)[?i := c]\<rparr>"
    have i: "?i < length (fb_mem s)" using pix_index_length [OF ok, of x y] False by simp
    then have "put_pixel x y c s = Some ?t" using False off_screen_iff [OF ok, of x y] unfolding put_pixel_def by auto
    moreover have "fb_ok w h ?t" using ok by (simp add: fb_ok_def stride_def)
    moreover have "look ?t = paint {(x, y)} c (look s)"
    proof
      fix q
      obtain x' y' :: int where q: "q = (x', y')" by fastforce
      have idx: "pix_index x' y' ?t = pix_index x' y' s" by (simp add: pix_index_def)
      show "look ?t q = paint {(x, y)} c (look s) q"
      proof (cases "q \<in> on_screen w h")
        case on: True
        then have "pix_index x' y' s = ?i \<longleftrightarrow> x' = x \<and> y' = y"
          using pix_index_inj [OF ok, of x' y' x y] False q by auto
        then show ?thesis using on False dims i q by (auto simp: look_def paint_def idx)
      next
        case False
        then show ?thesis using dims q by (simp add: look_def paint_def)
      qed
    qed
    ultimately show ?thesis by blast
  qed
qed

lemma get_pixel_look:
  assumes "fb_ok w h s" "look s (x, y) = Some v"
  shows "get_pixel x y s = Some v"
proof -
  have on: "fb_addr s \<noteq> 0" "(x, y) \<in> on_screen w h" "v = fb_mem s ! pix_index x y s"
    using assms by (auto simp: look_def fb_ok_def split: if_splits)
  moreover have "pix_index x y s < length (fb_mem s)" by (rule pix_index_length [OF assms(1) on(2)])
  ultimately show ?thesis using off_screen_iff [OF assms(1), of x y] unfolding get_pixel_def ld8_def by auto
qed

interpretation fbs: screen "fb_ok w h" put_pixel get_pixel look for w h
  by unfold_locales (simp_all add: put_pixel_renders get_pixel_look)

lemma draw_rect_renders: "renders (fb_ok w h) look (draw_rect x y rw rh c) (paint ({x..<x + rw} \<times> {y..<y + rh}) c)"
  unfolding draw_rect_def by (rule fbs.rect_renders)

section \<open>Characters\<close>

definition glyph_points :: "int \<Rightarrow> int \<Rightarrow> u8 \<Rightarrow> (int \<times> int) set" where
  "glyph_points x y c = {(x + int j, y + int i) | i j. i < 8 \<and> j < 8 \<and>
     drop_bit (7 - j) (font ! nat (sint c) ! i) AND 1 \<noteq> 0}"

lemma draw_char_renders:
  assumes "0 \<le> sint c"
  shows "renders (fb_ok w h) look (draw_char x y c color) (paint (glyph_points x y c) color)"
proof -
  have "sint c < 128" using sint_lt [of c] by simp
  then have n: "nat (sint c) < 256" using assms by simp
  let ?g = "font ! nat (sint c)"
  have g: "ld8 font (nat (sint c)) = Some ?g" "length ?g = 8" using n font_rows [of ?g] by (simp_all add: ld8_def)
  let ?P = "\<lambda>i j. if drop_bit (7 - j) (?g ! i) AND 1 \<noteq> 0 then {(x + int j, y + int i)} else {}"
  let ?f = "\<lambda>i s. do { row \<leftarrow> ld8 ?g i; for_loop (\<lambda>j s. if drop_bit (7 - j) row AND 1 \<noteq> 0
              then put_pixel (x + int j) (y + int i) color s else Some s) [0..<8] s }"
  have "renders (fb_ok w h) look (?f i) (paint (\<Union>j \<in> set [0..<8]. ?P i j) color)" if "i \<in> set [0..<8]" for i
  proof -
    have "ld8 ?g i = Some (?g ! i)" using that g(2) by (simp add: ld8_def)
    moreover have "renders (fb_ok w h) look (for_loop (\<lambda>j s. if drop_bit (7 - j) (?g ! i) AND 1 \<noteq> 0
              then put_pixel (x + int j) (y + int i) color s else Some s) [0..<8]) (paint (\<Union>j \<in> set [0..<8]. ?P i j) color)"
      by (rule renders_loop) (rule fbs.cond_renders)
    ultimately show ?thesis by simp
  qed
  then have "renders (fb_ok w h) look (for_loop ?f [0..<8]) (paint (\<Union>i \<in> set [0..<8]. \<Union>j \<in> set [0..<8]. ?P i j) color)"
    by (rule renders_loop)
  moreover have "(\<Union>i \<in> set [0..<8]. \<Union>j \<in> set [0..<8]. ?P i j) = glyph_points x y c"
    by (auto simp: glyph_points_def split: if_splits)
  moreover have "draw_char x y c color = for_loop ?f [0..<8]"
    using assms g(1) by (simp add: draw_char_def fun_eq_iff)
  ultimately show ?thesis by simp
qed

fun string_points :: "int \<Rightarrow> int \<Rightarrow> cstr \<Rightarrow> (int \<times> int) set" where
  "string_points x y [] = {}"
| "string_points x y (c # cs) = glyph_points x y c \<union> string_points (x + 8) y cs"

lemma draw_string_renders:
  "\<forall>c \<in> set cs. 0 \<le> sint c \<Longrightarrow> renders (fb_ok w h) look (draw_string x y cs color) (paint (string_points x y cs) color)"
proof (induction cs arbitrary: x)
  case Nil
  show ?case using renders_id by (simp add: renders_def)
next
  case (Cons c cs)
  then have "renders (fb_ok w h) look (\<lambda>s. draw_char x y c color s \<bind> draw_string (x + 8) y cs color)
      (\<lambda>m. paint (string_points (x + 8) y cs) color (paint (glyph_points x y c) color m))"
    by (intro renders_bind draw_char_renders) auto
  then show ?case by (simp add: paint_paint renders_def)
qed

end
