(* ===== verification/Cursor.thy ===== *)
theory Cursor
  imports Graphics
begin

text \<open>
  The software cursor of \<open>src/kernel.c\<close>, which saves the pixels under it and restores them
  before it moves, the rounded boxes, and the decoder of the three-byte packets of the
  mouse. A cursor that moves any number of times and is taken away leaves the picture as it was.
\<close>

section \<open>State\<close>

definition CUR_W :: nat where "CUR_W = 8"
definition CUR_H :: nat where "CUR_H = 8"

text \<open>\<open>cursor_under\<close> is indexed by row and column; \<open>cons_y\<close> is the line of the console.\<close>

record ui =
  ui_fb :: fb
  cursor_under :: "nat \<times> nat \<Rightarrow> u32"
  cur_saved :: bool
  cur_x :: int
  cur_y :: int
  cons_y :: int

definition clampi :: "int \<Rightarrow> int \<Rightarrow> int \<Rightarrow> int" where
  "clampi v lo hi = (if v < lo then lo else if v > hi then hi else v)"

definition on_fb :: "(fb \<Rightarrow> fb option) \<Rightarrow> ui \<Rightarrow> ui option" where
  "on_fb f u = map_option (\<lambda>s. u\<lparr>ui_fb := s\<rparr>) (f (ui_fb u))"

definition visible :: "int \<Rightarrow> int \<Rightarrow> fb \<Rightarrow> bool" where
  "visible px py s \<longleftrightarrow> 0 \<le> px \<and> 0 \<le> py \<and> px < sint (fb_width s) \<and> py < sint (fb_height s)"

section \<open>Operations\<close>

definition draw_rounded :: "int \<Rightarrow> int \<Rightarrow> int \<Rightarrow> int \<Rightarrow> int \<Rightarrow> u32 \<Rightarrow> fb \<Rightarrow> fb option" where
  "draw_rounded x y w h r col = draw_all
     [draw_rect (x + r) y (w - 2 * r) h col,
      draw_rect x (y + r) r (h - 2 * r) col,
      draw_rect (x + w - r) (y + r) r (h - 2 * r) col,
      for_loop (\<lambda>dy. for_loop (\<lambda>dx s.
        if dx * dx + dy * dy \<le> r * r
        then draw_all [put_pixel (x + r - dx) (y + r - dy) col, put_pixel (x + w - r + dx) (y + r - dy) col,
          put_pixel (x + r - dx) (y + h - r + dy) col, put_pixel (x + w - r + dx) (y + h - r + dy) col] s
        else Some s) [0..r - 1]) [0..r - 1]]"

definition cursor_save_under :: "int \<Rightarrow> int \<Rightarrow> ui \<Rightarrow> ui option" where
  "cursor_save_under x y u = do {
     m \<leftarrow> for_loop (\<lambda>j. for_loop (\<lambda>i m.
            if visible (x + int i) (y + int j) (ui_fb u)
            then map_option (\<lambda>v. m((j, i) := v)) (get_pixel (x + int i) (y + int j) (ui_fb u))
            else Some (m((j, i) := 0))) [0..<CUR_W]) [0..<CUR_H] (cursor_under u);
     Some (u\<lparr>cursor_under := m, cur_saved := True\<rparr>)
   }"

definition cursor_restore_under :: "ui \<Rightarrow> ui option" where
  "cursor_restore_under u =
     (if \<not> cur_saved u then Some u
      else do {
        s \<leftarrow> for_loop (\<lambda>j. for_loop (\<lambda>i s.
               if visible (cur_x u + int i) (cur_y u + int j) s
               then put_pixel (cur_x u + int i) (cur_y u + int j) (cursor_under u (j, i)) s
               else Some s) [0..<CUR_W]) [0..<CUR_H] (ui_fb u);
        Some (u\<lparr>ui_fb := s, cur_saved := False\<rparr>)
      })"

definition cursor_draw_shape :: "int \<Rightarrow> int \<Rightarrow> u32 \<Rightarrow> fb \<Rightarrow> fb option" where
  "cursor_draw_shape x y col = for_loop (\<lambda>j. for_loop (\<lambda>i s.
     if visible (x + int i) (y + int j) s then put_pixel (x + int i) (y + int j) col s else Some s)
     [0..<j + 1]) [0..<CUR_H]"

definition cursor_move_to :: "int \<Rightarrow> int \<Rightarrow> ui \<Rightarrow> ui option" where
  "cursor_move_to x y u = do {
     u1 \<leftarrow> cursor_restore_under u;
     let u2 = u1\<lparr>cur_x := clampi x 0 (sint (fb_width (ui_fb u1)) - 1), cur_y := clampi y 0 (sint (fb_height (ui_fb u1)) - 1)\<rparr>;
     u3 \<leftarrow> cursor_save_under (cur_x u2) (cur_y u2) u2;
     on_fb (cursor_draw_shape (cur_x u3) (cur_y u3) 0) u3
   }"

section \<open>Mouse packets\<close>

record mouse =
  mp_pkt :: bytes
  mp_idx :: nat

definition mouse_boot :: mouse where
  "mouse_boot = \<lparr>mp_pkt = [0, 0, 0], mp_idx = 0\<rparr>"

text \<open>\<open>status\<close> and \<open>d\<close> are what the ports 0x64 and 0x60 return.\<close>

definition mouse_read_packet :: "u8 \<Rightarrow> u8 \<Rightarrow> mouse \<Rightarrow> (int \<times> int \<times> u8) option \<times> mouse" where
  "mouse_read_packet status d m =
     (if status AND 1 = 0 then (None, m)
      else let pkt = (mp_pkt m)[mp_idx m := d]; idx = mp_idx m + 1 in
        if idx < 3 then (None, m\<lparr>mp_pkt := pkt, mp_idx := idx\<rparr>)
        else (Some (sint (pkt ! 1), - sint (pkt ! 2), pkt ! 0), m\<lparr>mp_pkt := pkt, mp_idx := 0\<rparr>))"

section \<open>Stamps\<close>

text \<open>Painting points in different colours.\<close>

definition stamp :: "(int \<times> int \<Rightarrow> 'c option) \<Rightarrow> 'c picture \<Rightarrow> 'c picture" where
  "stamp f m = (\<lambda>q. if f q \<noteq> None \<and> m q \<noteq> None then f q else m q)"

lemma stamp_empty [simp]: "stamp Map.empty = (\<lambda>m. m)"
  by (auto simp: stamp_def)

lemma stamp_stamp: "stamp g (stamp f m) = stamp (f ++ g) m"
proof
  fix q
  show "stamp g (stamp f m) q = stamp (f ++ g) m q"
    by (cases "g q"; cases "f q"; cases "m q") (simp_all add: stamp_def map_add_def)
qed

lemma stamp_paint: "paint P c = stamp (\<lambda>q. if q \<in> P then Some c else None)"
  by (auto simp: stamp_def paint_def fun_eq_iff)

lemma stamp_None [simp]: "stamp f m q = None \<longleftrightarrow> m q = None"
  by (cases "f q") (simp_all add: stamp_def)

text \<open>A loop whose iterations stamp \<open>F j\<close>; \<open>G n\<close> is what the first \<open>n\<close> together stamp.\<close>

lemma renders_upto:
  assumes "G 0 = Map.empty" "\<And>j. j < n \<Longrightarrow> renders ok look (f j) (stamp (F j))" "\<And>j. j < n \<Longrightarrow> G j ++ F j = G (Suc j)"
  shows "renders ok look (for_loop f [0..<n]) (stamp (G n))"
  using assms(2,3)
proof (induction n)
  case 0
  show ?case using assms(1) by (simp add: renders_def)
next
  case (Suc n)
  have "renders ok look (\<lambda>s. for_loop f [0..<n] s \<bind> f n) (\<lambda>m. stamp (F n) (stamp (G n) m))"
    by (rule renders_bind) (use Suc in auto)
  moreover have "G n ++ F n = G (Suc n)" using Suc.prems(2) by simp
  moreover have "for_loop f [] = Some" by (rule ext) simp
  then have "for_loop f [n] = f n" by (rule_tac ext) simp
  then have "for_loop f [0..<Suc n] = (\<lambda>s. for_loop f [0..<n] s \<bind> f n)"
    by (rule_tac ext) (simp add: for_loop_append del: for_loop.simps)
  ultimately show ?case by (simp add: stamp_stamp renders_def)
qed

text \<open>The part of a row, and of a rectangle, of colours \<open>c\<close>.\<close>

definition row_map :: "int \<Rightarrow> int \<Rightarrow> nat \<Rightarrow> (nat \<Rightarrow> 'c) \<Rightarrow> int \<times> int \<Rightarrow> 'c option" where
  "row_map x y n c = (\<lambda>(a, b). if b = y \<and> x \<le> a \<and> a < x + int n then Some (c (nat (a - x))) else None)"

definition block_map :: "int \<Rightarrow> int \<Rightarrow> nat \<Rightarrow> (nat \<Rightarrow> nat) \<Rightarrow> (nat \<times> nat \<Rightarrow> 'c) \<Rightarrow> int \<times> int \<Rightarrow> 'c option" where
  "block_map x y n w c = (\<lambda>(a, b). if y \<le> b \<and> b < y + int n \<and> x \<le> a \<and> a < x + int (w (nat (b - y)))
     then Some (c (nat (b - y), nat (a - x))) else None)"

lemma visible_put_renders:
  "renders (fb_ok w h) look (\<lambda>s. if visible x y s then put_pixel x y c s else Some s) (stamp [(x, y) \<mapsto> c])"
proof -
  have e: "paint {(x, y)} c = stamp [(x, y) \<mapsto> c]" by (auto simp: stamp_paint fun_eq_iff stamp_def)
  have "\<exists>t. (if visible x y s then put_pixel x y c s else Some s) = Some t \<and> fb_ok w h t \<and> look t = stamp [(x, y) \<mapsto> c] (look s)"
    if ok: "fb_ok w h s" for s
  proof (cases "visible x y s")
    case True
    with rendersD [OF put_pixel_renders ok, of x y c] show ?thesis by (simp add: e)
  next
    case False
    then have "(x, y) \<notin> on_screen w h" using off_screen_iff [OF ok, of x y] by (auto simp: visible_def)
    then have "look s (x, y) = None" using ok by (simp add: look_def fb_ok_def)
    then have "stamp [(x, y) \<mapsto> c] (look s) = look s" by (auto simp: stamp_def)
    with False ok show ?thesis by simp
  qed
  then show ?thesis by (simp add: renders_def)
qed

lemma visible_row_renders:
  "renders (fb_ok w h) look (for_loop (\<lambda>i s. if visible (x + int i) y s then put_pixel (x + int i) y (c i) s else Some s) [0..<n])
    (stamp (row_map x y n c))"
proof (rule renders_upto)
  show "row_map x y 0 c = Map.empty" by (auto simp: row_map_def)
  show "row_map x y j c ++ [(x + int j, y) \<mapsto> c j] = row_map x y (Suc j) c" for j
    by (auto simp: row_map_def map_add_def fun_eq_iff split: option.split if_splits)
qed (rule visible_put_renders)

lemma visible_block_renders:
  "renders (fb_ok w h) look (for_loop (\<lambda>j. for_loop (\<lambda>i s. if visible (x + int i) (y + int j) s
      then put_pixel (x + int i) (y + int j) (c (j, i)) s else Some s) [0..<v j]) [0..<n])
    (stamp (block_map x y n v c))"
proof (rule renders_upto)
  show "block_map x y 0 v c = Map.empty" by (auto simp: block_map_def)
  show "block_map x y j v c ++ row_map x (y + int j) (v j) (\<lambda>i. c (j, i)) = block_map x y (Suc j) v c" for j
  proof
    fix q :: "int \<times> int"
    obtain a b where q: "q = (a, b)" by fastforce
    consider "b = y + int j" | "b < y + int j" | "y + int j < b" by linarith
    then show "(block_map x y j v c ++ row_map x (y + int j) (v j) (\<lambda>i. c (j, i))) q = block_map x y (Suc j) v c q"
      by cases (auto simp: q block_map_def row_map_def map_add_def)
  qed
qed (rule visible_row_renders)


section \<open>Save and restore\<close>

text \<open>
  \<open>bare u\<close> is the picture without the cursor: the square under the cursor shows what was
  saved. The cursor's square is the set \<open>cursor_square\<close>.
\<close>

definition bare :: "ui \<Rightarrow> u32 picture" where
  "bare u = (if cur_saved u then stamp (block_map (cur_x u) (cur_y u) CUR_H (\<lambda>_. CUR_W) (cursor_under u)) (look (ui_fb u))
     else look (ui_fb u))"

definition ui_ok :: "u32 \<Rightarrow> u32 \<Rightarrow> ui \<Rightarrow> bool" where
  "ui_ok w h u \<longleftrightarrow> fb_ok w h (ui_fb u)"

lemma visible_iff: "fb_ok w h s \<Longrightarrow> visible x y s \<longleftrightarrow> (x, y) \<in> on_screen w h"
  using off_screen_iff [of w h s x y] unfolding visible_def by linarith

lemma cursor_restore_spec:
  assumes "ui_ok w h u"
  shows "\<exists>u'. cursor_restore_under u = Some u' \<and> ui_ok w h u' \<and> \<not> cur_saved u' \<and> look (ui_fb u') = bare u \<and>
    cur_x u' = cur_x u \<and> cur_y u' = cur_y u \<and> cons_y u' = cons_y u"
proof (cases "cur_saved u")
  case False
  with assms show ?thesis by (simp add: cursor_restore_under_def bare_def)
next
  case True
  from assms have "fb_ok w h (ui_fb u)" by (simp add: ui_ok_def)
  from rendersD [OF visible_block_renders this, of "cur_x u" "cur_y u" "cursor_under u" "\<lambda>_. CUR_W" CUR_H]
  obtain t where "for_loop (\<lambda>j. for_loop (\<lambda>i s. if visible (cur_x u + int i) (cur_y u + int j) s
      then put_pixel (cur_x u + int i) (cur_y u + int j) (cursor_under u (j, i)) s else Some s) [0..<CUR_W]) [0..<CUR_H] (ui_fb u) = Some t"
    and "fb_ok w h t" and "look t = stamp (block_map (cur_x u) (cur_y u) CUR_H (\<lambda>_. CUR_W) (cursor_under u)) (look (ui_fb u))"
    by blast
  with True show ?thesis by (simp add: cursor_restore_under_def bare_def ui_ok_def)
qed

text \<open>A loop nest that fills a table.\<close>

lemma fill_row:
  "for_loop (\<lambda>i m. Some (m((j, i) := g (j :: nat) i))) is m = Some (\<lambda>(b, a). if b = j \<and> a \<in> set is then g b a else m (b, a))"
proof (induction "is" arbitrary: m)
  case Nil
  show ?case by (auto simp: fun_eq_iff)
next
  case (Cons i "is")
  then show ?case by (auto simp: fun_eq_iff)
qed

lemma fill_table:
  "for_loop (\<lambda>j. for_loop (\<lambda>i m. Some (m((j, i) := g (j :: nat) i))) is) js m =
     Some (\<lambda>(b, a). if b \<in> set js \<and> a \<in> set is then g b a else m (b, a))"
proof (induction js arbitrary: m)
  case Nil
  show ?case by (auto simp: fun_eq_iff)
next
  case (Cons j js)
  note IH = Cons.IH [unfolded fill_row]
  show ?case unfolding for_loop.simps fill_row bind.bind_lunit IH by (auto simp: fun_eq_iff)
qed

definition seen :: "int \<Rightarrow> int \<Rightarrow> u32 picture \<Rightarrow> nat \<Rightarrow> nat \<Rightarrow> u32" where
  "seen x y m j i = (case m (x + int i, y + int j) of None \<Rightarrow> 0 | Some v \<Rightarrow> v)"

lemma get_pixel_seen:
  assumes "fb_ok w h s" "visible (x + int i) (y + int j) s"
  shows "get_pixel (x + int i) (y + int j) s = Some (seen x y (look s) j i)"
proof (cases "look s (x + int i, y + int j)")
  case None
  moreover have "fb_width s = w" "fb_height s = h" using assms(1) by (simp_all add: fb_ok_def)
  ultimately have "fb_addr s = 0" using assms visible_iff [OF assms(1)] by (auto simp: look_def split: if_splits)
  with None show ?thesis by (simp add: get_pixel_def seen_def)
next
  case (Some v)
  with get_pixel_look [OF assms(1) this] show ?thesis by (simp add: seen_def)
qed

lemma cursor_save_spec:
  assumes "ui_ok w h u"
  shows "\<exists>m. cursor_save_under x y u = Some (u\<lparr>cursor_under := m, cur_saved := True\<rparr>) \<and>
    (\<forall>j i. j < CUR_H \<longrightarrow> i < CUR_W \<longrightarrow> m (j, i) = seen x y (look (ui_fb u)) j i)"
proof -
  let ?s = "ui_fb u"
  from assms have ok: "fb_ok w h ?s" by (simp add: ui_ok_def)
  have none: "seen x y (look ?s) j i = 0" if "\<not> visible (x + int i) (y + int j) ?s" for i j
    using that visible_iff [OF ok] ok by (simp add: seen_def look_def fb_ok_def)
  have "(\<lambda>i m. if visible (x + int i) (y + int j) ?s then map_option (\<lambda>v. m((j, i) := v)) (get_pixel (x + int i) (y + int j) ?s)
      else Some (m((j, i) := 0))) = (\<lambda>i m. Some (m((j, i) := seen x y (look ?s) j i)))" for j
    by (auto simp: fun_eq_iff none get_pixel_seen [OF ok])
  then have "cursor_save_under x y u = Some (u\<lparr>cursor_under := (\<lambda>(b, a). if b \<in> set [0..<CUR_H] \<and> a \<in> set [0..<CUR_W]
      then seen x y (look ?s) b a else cursor_under u (b, a)), cur_saved := True\<rparr>)"
    unfolding cursor_save_under_def by (simp only: fill_table bind.bind_lunit)
  then show ?thesis by (intro exI conjI) (assumption, simp)
qed

text \<open>Stamping what was seen undoes any change inside the square.\<close>

lemma stamp_seen:
  assumes "\<And>q. m' q = None \<longleftrightarrow> m q = None"
    and "\<And>a b. \<not> (x \<le> a \<and> a < x + int CUR_W \<and> y \<le> b \<and> b < y + int CUR_H) \<Longrightarrow> m' (a, b) = m (a, b)"
    and "\<And>j i. j < CUR_H \<Longrightarrow> i < CUR_W \<Longrightarrow> c (j, i) = seen x y m j i"
  shows "stamp (block_map x y CUR_H (\<lambda>_. CUR_W) c) m' = m"
proof
  fix q :: "int \<times> int"
  obtain a b where q: "q = (a, b)" by fastforce
  show "stamp (block_map x y CUR_H (\<lambda>_. CUR_W) c) m' q = m q"
  proof (cases "x \<le> a \<and> a < x + int CUR_W \<and> y \<le> b \<and> b < y + int CUR_H")
    case True
    then have "nat (b - y) < CUR_H" "nat (a - x) < CUR_W" by auto
    from assms(3) [OF this] True have "c (nat (b - y), nat (a - x)) = (case m (a, b) of None \<Rightarrow> 0 | Some v \<Rightarrow> v)"
      by (simp add: seen_def)
    with True assms(1) [of "(a, b)"] show ?thesis
      by (cases "m (a, b)") (auto simp: q stamp_def block_map_def)
  next
    case False
    with assms(2) [of a b] show ?thesis by (auto simp: q stamp_def block_map_def)
  qed
qed

lemma cursor_draw_shape_renders:
  "renders (fb_ok w h) look (cursor_draw_shape x y col) (stamp (block_map x y CUR_H Suc (\<lambda>_. col)))"
  unfolding cursor_draw_shape_def using visible_block_renders [of w h x y "\<lambda>_. col" Suc CUR_H] by simp

lemma cursor_move_spec:
  assumes "ui_ok w h u"
  shows "\<exists>u'. cursor_move_to x y u = Some u' \<and> ui_ok w h u' \<and> cur_saved u' \<and> bare u' = bare u \<and> cons_y u' = cons_y u \<and>
    cur_x u' = clampi x 0 (sint w - 1) \<and> cur_y u' = clampi y 0 (sint h - 1) \<and>
    look (ui_fb u') = stamp (block_map (cur_x u') (cur_y u') CUR_H Suc (\<lambda>_. 0)) (bare u)"
proof -
  from cursor_restore_spec [OF assms] obtain u1 where u1: "cursor_restore_under u = Some u1" "ui_ok w h u1"
    "\<not> cur_saved u1" "look (ui_fb u1) = bare u" "cons_y u1 = cons_y u" by blast
  have dim: "fb_width (ui_fb u1) = w" "fb_height (ui_fb u1) = h" using u1(2) by (simp_all add: ui_ok_def fb_ok_def)
  define cx where "cx = clampi x 0 (sint w - 1)"
  define cy where "cy = clampi y 0 (sint h - 1)"
  let ?u2 = "u1\<lparr>cur_x := cx, cur_y := cy\<rparr>"
  have "ui_ok w h ?u2" using u1(2) by (simp add: ui_ok_def)
  from cursor_save_spec [OF this, of cx cy] obtain m where
    m: "cursor_save_under cx cy ?u2 = Some (?u2\<lparr>cursor_under := m, cur_saved := True\<rparr>)"
      "\<And>j i. j < CUR_H \<Longrightarrow> i < CUR_W \<Longrightarrow> m (j, i) = seen cx cy (look (ui_fb u1)) j i" by auto
  have "fb_ok w h (ui_fb u1)" using u1(2) by (simp add: ui_ok_def)
  from rendersD [OF cursor_draw_shape_renders this, of cx cy 0] obtain t where
    t: "cursor_draw_shape cx cy 0 (ui_fb u1) = Some t" "fb_ok w h t"
      "look t = stamp (block_map cx cy CUR_H Suc (\<lambda>_. 0)) (look (ui_fb u1))" by blast
  let ?u' = "u1\<lparr>cur_x := cx, cur_y := cy, cursor_under := m, cur_saved := True, ui_fb := t\<rparr>"
  have "cursor_move_to x y u = Some ?u'"
    using u1(1) m(1) t(1) by (simp add: cursor_move_to_def dim on_fb_def cx_def [symmetric] cy_def [symmetric])
  moreover have "bare ?u' = bare u"
  proof -
    have "stamp (block_map cx cy CUR_H (\<lambda>_. CUR_W) m) (look t) = look (ui_fb u1)"
    proof (rule stamp_seen)
      show "look t (a, b) = look (ui_fb u1) (a, b)"
        if "\<not> (cx \<le> a \<and> a < cx + int CUR_W \<and> cy \<le> b \<and> b < cy + int CUR_H)" for a b
        using that by (auto simp: t(3) stamp_def block_map_def CUR_W_def CUR_H_def)
    qed (simp_all add: t(3) m(2))
    then show ?thesis by (simp add: bare_def u1(4))
  qed
  ultimately show ?thesis using t u1 by (simp add: ui_ok_def cx_def [symmetric] cy_def [symmetric])
qed

lemma cursor_moves_spec:
  "ui_ok w h u \<Longrightarrow> \<exists>u'. for_loop (\<lambda>(x, y). cursor_move_to x y) ps u = Some u' \<and> ui_ok w h u' \<and> bare u' = bare u"
proof (induction ps arbitrary: u)
  case Nil
  then show ?case by simp
next
  case (Cons p ps)
  obtain x y where p: "p = (x, y)" by fastforce
  from cursor_move_spec [OF Cons.prems, of x y] obtain u1 where
    u1: "cursor_move_to x y u = Some u1" "ui_ok w h u1" "bare u1 = bare u" by blast
  from Cons.IH [OF u1(2)] u1 show ?case by (auto simp: p)
qed


text \<open>C13: However often the cursor moves, wherever to, taking it away leaves exactly the picture
  there was without it; while it is shown the picture differs from that one by the black
  arrow at the last position, clamped to the screen.\<close>

theorem cursor_leaves_no_trace:
  assumes "ui_ok w h u"
  shows "\<exists>u' u''. for_loop (\<lambda>(x, y). cursor_move_to x y) (ps @ [(x, y)]) u = Some u' \<and>
    cur_x u' = clampi x 0 (sint w - 1) \<and> cur_y u' = clampi y 0 (sint h - 1) \<and>
    look (ui_fb u') = stamp (block_map (cur_x u') (cur_y u') CUR_H Suc (\<lambda>_. 0)) (bare u) \<and>
    cursor_restore_under u' = Some u'' \<and> look (ui_fb u'') = bare u"
proof -
  from cursor_moves_spec [OF assms, of ps] obtain v where
    v: "for_loop (\<lambda>(x, y). cursor_move_to x y) ps u = Some v" "ui_ok w h v" "bare v = bare u" by blast
  from cursor_move_spec [OF v(2), of x y] obtain u' where u': "cursor_move_to x y v = Some u'" "ui_ok w h u'"
    "bare u' = bare v" "cur_x u' = clampi x 0 (sint w - 1)" "cur_y u' = clampi y 0 (sint h - 1)"
    "look (ui_fb u') = stamp (block_map (cur_x u') (cur_y u') CUR_H Suc (\<lambda>_. 0)) (bare v)" by blast
  from cursor_restore_spec [OF u'(2)] obtain u'' where "cursor_restore_under u' = Some u''" "look (ui_fb u'') = bare u'" by blast
  with v u' show ?thesis by (simp add: for_loop_append)
qed

definition fb_demo :: fb where
  "fb_demo = \<lparr>fb_addr = 0xFD000000, fb_width = 4, fb_height = 3, fb_bpp = 32, fb_pitch = 16, fb_mem = replicate 12 7\<rparr>"

definition ui_demo :: ui where
  "ui_demo = \<lparr>ui_fb = fb_demo, cursor_under = (\<lambda>_. 5), cur_saved = True, cur_x = 1, cur_y = 1, cons_y = 6\<rparr>"

lemma fb_demo_ok: "fb_ok 4 3 fb_demo"
  by (simp add: fb_demo_def fb_ok_def stride_def)

lemma ui_demo_ok: "ui_ok 4 3 ui_demo" "cur_saved ui_demo"
  by (simp_all add: ui_demo_def ui_ok_def fb_demo_ok)

lemma cursor_leaves_no_trace_witness:
  "\<exists>u' u''. for_loop (\<lambda>(x, y). cursor_move_to x y) ([(9, -3), (2, 2)] @ [(1, 0)]) ui_demo = Some u' \<and>
    cur_x u' = clampi 1 0 (sint (4 :: u32) - 1) \<and> cur_y u' = clampi 0 0 (sint (3 :: u32) - 1) \<and>
    look (ui_fb u') = stamp (block_map (cur_x u') (cur_y u') CUR_H Suc (\<lambda>_. 0)) (bare ui_demo) \<and>
    cursor_restore_under u' = Some u'' \<and> look (ui_fb u'') = bare ui_demo"
  by (rule cursor_leaves_no_trace [OF ui_demo_ok(1)])

text \<open>Drawing over the cursor without taking it away first: its next move puts the old square back.\<close>

lemma stale_square:
  assumes "ui_ok w h u" "cur_saved u"
  shows "\<exists>u1 u2 u3. on_fb (draw_rect 0 0 (sint w) (sint h) c) u = Some u1 \<and> cursor_move_to x y u1 = Some u2 \<and>
    cursor_restore_under u2 = Some u3 \<and>
    look (ui_fb u3) = stamp (block_map (cur_x u) (cur_y u) CUR_H (\<lambda>_. CUR_W) (cursor_under u)) (paint UNIV c (look (ui_fb u)))"
proof -
  have ok: "fb_ok w h (ui_fb u)" using assms(1) by (simp add: ui_ok_def)
  then have sz: "uint w = sint w" "uint h = sint h" "fb_width (ui_fb u) = w" "fb_height (ui_fb u) = h"
    by (simp_all add: fb_ok_def sint_small)
  from rendersD [OF draw_rect_renders ok, of 0 0 "sint w" "sint h" c] obtain t where
    t: "draw_rect 0 0 (sint w) (sint h) c (ui_fb u) = Some t" "fb_ok w h t"
      "look t = paint ({0..<sint w} \<times> {0..<sint h}) c (look (ui_fb u))" by auto
  have full: "paint ({0..<sint w} \<times> {0..<sint h}) c (look (ui_fb u)) = paint UNIV c (look (ui_fb u))"
    using sz by (auto simp: paint_def look_def on_screen_def fun_eq_iff)
  let ?u1 = "u\<lparr>ui_fb := t\<rparr>"
  have u1: "ui_ok w h ?u1" using t(2) by (simp add: ui_ok_def)
  from cursor_move_spec [OF u1, of x y] obtain u2 where u2: "cursor_move_to x y ?u1 = Some u2" "ui_ok w h u2" "bare u2 = bare ?u1" by blast
  from cursor_restore_spec [OF u2(2)] obtain u3 where u3: "cursor_restore_under u2 = Some u3" "look (ui_fb u3) = bare u2" by blast
  have "on_fb (draw_rect 0 0 (sint w) (sint h) c) u = Some ?u1" using t(1) by (simp add: on_fb_def)
  with u2 u3 assms(2) show ?thesis by (simp add: bare_def t(3) full)
qed

section \<open>The packets of the mouse\<close>

text \<open>The bytes \<open>ds\<close> are read one by one, status bit 0 set.\<close>

fun mouse_feed :: "bytes \<Rightarrow> mouse \<Rightarrow> (int \<times> int \<times> u8) list \<times> mouse" where
  "mouse_feed [] m = ([], m)"
| "mouse_feed (d # ds) m = (let (p, m') = mouse_read_packet 1 d m; (ps, m'') = mouse_feed ds m' in
     (case p of None \<Rightarrow> ps | Some q \<Rightarrow> q # ps, m''))"

fun triples :: "'a list \<Rightarrow> ('a \<times> 'a \<times> 'a) list" where
  "triples (a # b # c # xs) = (a, b, c) # triples xs"
| "triples _ = []"

text \<open>The packets decoded from a stream of bytes are its consecutive groups of three, the
  bytes still pending first: the first is the buttons, the others the signed movement, the
  vertical one negated. Nothing aligns the groups again, whatever the first bytes are.\<close>

theorem mouse_decodes_triples:
  assumes "length (mp_pkt m) = 3" "mp_idx m < 3"
  shows "fst (mouse_feed ds m) = map (\<lambda>(b, x, y). (sint x, - sint y, b)) (triples (take (mp_idx m) (mp_pkt m) @ ds)) \<and>
    mp_idx (snd (mouse_feed ds m)) = (mp_idx m + length ds) mod 3"
  using assms
proof (induction ds arbitrary: m)
  case Nil
  obtain a b c where "mp_pkt m = [a, b, c]" using Nil.prems(1) by (auto simp: numeral_3_eq_3 length_Suc_conv)
  moreover have "mp_idx m = 0 \<or> mp_idx m = 1 \<or> mp_idx m = 2" using Nil.prems(2) by auto
  ultimately show ?case by (auto simp: numeral_2_eq_2)
next
  case (Cons d ds)
  obtain a b c where p: "mp_pkt m = [a, b, c]" using Cons.prems(1) by (auto simp: numeral_3_eq_3 length_Suc_conv)
  have "mp_idx m = 0 \<or> mp_idx m = 1 \<or> mp_idx m = 2" using Cons.prems(2) by auto
  then show ?case
    by (elim disjE) (simp_all add: mouse_read_packet_def p Cons.IH case_prod_beta numeral_2_eq_2 mod_simps)
qed

lemma mouse_decodes_triples_witness:
  "fst (mouse_feed [8, 1, 2, 9, 0xFF, 1, 8] (mouse_boot\<lparr>mp_idx := 1\<rparr>)) =
    map (\<lambda>(b, x, y). (sint x, - sint y, b)) (triples (take (mp_idx (mouse_boot\<lparr>mp_idx := 1\<rparr>)) (mp_pkt (mouse_boot\<lparr>mp_idx := 1\<rparr>)) @ [8, 1, 2, 9, 0xFF, 1, 8])) \<and>
    mp_idx (snd (mouse_feed [8, 1, 2, 9, 0xFF, 1, 8] (mouse_boot\<lparr>mp_idx := 1\<rparr>))) = (mp_idx (mouse_boot\<lparr>mp_idx := 1\<rparr>) + length [8, 1, 2, 9, 0xFF, 1, 8 :: u8]) mod 3"
  by (rule mouse_decodes_triples) (simp_all add: mouse_boot_def)

end
