(* ===== verification/Decimal.thy ===== *)
theory Decimal
  imports Cstring
begin

text \<open>
  Decimal numbers as byte strings: \<open>dec\<close> is the reference for the conversions the kernel
  writes out by hand in several places, \<open>dval\<close> the value of a string of digits.
\<close>

section \<open>Decimal numbers\<close>

text \<open>The decimal digits of a number, the reference for every conversion of the kernel.\<close>

fun dec :: "nat \<Rightarrow> cstr" where
  "dec n = (if n < 10 then [48 + word_of_nat n] else dec (n div 10) @ [48 + word_of_nat (n mod 10)])"

declare dec.simps [simp del]

definition is_digit :: "u8 \<Rightarrow> bool" where
  "is_digit c \<longleftrightarrow> 48 \<le> c \<and> c \<le> 57"

text \<open>Any two values of a digit string, with the least significant digit at the end.\<close>

definition dval :: "cstr \<Rightarrow> nat" where
  "dval s = foldl (\<lambda>v c. v * 10 + (unat c - 48)) 0 s"

lemma digit_unat: "d < 10 \<Longrightarrow> unat (48 + word_of_nat d :: u8) = 48 + d"
  by (simp add: unat_word_ariths unat_of_nat)

lemma digit_is_digit: "d < 10 \<Longrightarrow> is_digit (48 + word_of_nat d)"
  by (simp add: is_digit_def word_le_nat_alt digit_unat)

lemma dec_digits: "\<forall>c \<in> set (dec n). is_digit c"
proof (induction n rule: dec.induct)
  case (1 n)
  then show ?case by (subst dec.simps) (auto simp: digit_is_digit)
qed

lemma dec_not_Nil [simp]: "dec n \<noteq> []"
  by (subst dec.simps) simp

lemma dval_append: "dval (s @ [c]) = dval s * 10 + (unat c - 48)"
  by (simp add: dval_def)

lemma dval_dec: "dval (dec n) = n"
proof (induction n rule: dec.induct)
  case (1 n)
  show ?case
  proof (cases "n < 10")
    case True
    then show ?thesis by (subst dec.simps) (simp add: dval_def digit_unat)
  next
    case False
    then have "dval (dec n) = dval (dec (n div 10)) * 10 + n mod 10"
      by (subst dec.simps) (simp add: dval_append digit_unat)
    with 1 [OF False] show ?thesis by simp
  qed
qed

lemma length_dec: "0 < k \<Longrightarrow> n < 10 ^ k \<Longrightarrow> length (dec n) \<le> k"
proof (induction k arbitrary: n)
  case 0
  then show ?case by simp
next
  case (Suc k)
  show ?case
  proof (cases "n < 10")
    case True
    then show ?thesis by (subst dec.simps) simp
  next
    case False
    then have "0 < k" using Suc.prems by (cases k) auto
    moreover have "n div 10 < 10 ^ k" using Suc.prems by (simp add: less_mult_imp_div_less mult.commute)
    ultimately have "length (dec (n div 10)) \<le> k" by (rule Suc.IH)
    with False show ?thesis by (subst dec.simps) simp
  qed
qed

lemma unat_ucast_u8_u32 [simp]: "unat (ucast (a :: u8) :: u32) = unat a"
  by transfer (simp add: take_bit_nat_def)

end
