(* ===== verification/Calculator.thy ===== *)
theory Calculator
  imports Decimal "HOL-Library.Signed_Division"
begin

text \<open>
  The calculator of \<open>src/kernel.c\<close>: the expression buffer and its evaluation. Values are
  \<open>int\<close>; a result outside the 32-bit range is undefined behaviour in C and \<open>None\<close> here. The
  main lemma gives the value of an expression as the source computes it: after each operator
  one character is skipped.
\<close>

section \<open>Numbers\<close>

definition int_range :: "int \<Rightarrow> bool" where
  "int_range v \<longleftrightarrow> - (2 ^ 31) \<le> v \<and> v < 2 ^ 31"

text \<open>\<open>while (t > 0) { buf[n++] = t % 10 + '0'; t /= 10; }\<close>\<close>

fun rdigits :: "nat \<Rightarrow> cstr" where
  "rdigits t = (if t = 0 then [] else (word_of_nat (t mod 10) + 48) # rdigits (t div 10))"

declare rdigits.simps [simp del]

section \<open>The expression\<close>

text \<open>The string in \<open>expr\<close>, without the final 0; its length is \<open>expr_len\<close>.\<close>

definition calc_add :: "u8 \<Rightarrow> cstr \<Rightarrow> cstr" where
  "calc_add c e = (if length e < 63 then e @ [c] else e)"

definition calc_clear :: "cstr \<Rightarrow> cstr" where
  "calc_clear e = []"

text \<open>The digits at the current position: their value, and the rest of the expression.\<close>

fun calc_num :: "cstr \<Rightarrow> int \<Rightarrow> (int \<times> cstr) option" where
  "calc_num [] v = Some (v, [])"
| "calc_num (c # s) v =
     (if 48 \<le> sint c \<and> sint c \<le> 57 then do {
        assert_that (int_range (v * 10));
        assert_that (int_range (v * 10 + (sint c - 48)));
        calc_num s (v * 10 + (sint c - 48))
      }
      else Some (v, c # s))"

definition calc_apply :: "u8 \<Rightarrow> int \<Rightarrow> int \<Rightarrow> int option" where
  "calc_apply op res v =
     (let r = (if op = 43 then res + v
               else if op = 45 then res - v
               else if op = 42 then res * v
               else if op = 47 then res sdiv (if v \<noteq> 0 then v else 1)
               else res)
      in if int_range r then Some r else None)"

lemma calc_num_length: "calc_num s v = Some (v', s') \<Longrightarrow> length s' \<le> length s"
  by (induction s v rule: calc_num.induct) (auto simp: bind_Some_iff le_SucI split: if_splits)

text \<open>The loop: \<open>s\<close> is what is left. The increment of the \<open>for\<close> skips a character after the operator.\<close>

function calc_loop :: "cstr \<Rightarrow> u8 \<Rightarrow> int \<Rightarrow> int option" where
  "calc_loop s op res =
     (if s = [] then Some res
      else case calc_num s 0 of
        None \<Rightarrow> None
      | Some (v, s1) \<Rightarrow>
          (case calc_apply op res v of
             None \<Rightarrow> None
           | Some res' \<Rightarrow> (case s1 of [] \<Rightarrow> Some res' | c # s2 \<Rightarrow> calc_loop (drop 1 s2) c res')))"
  by pat_completeness auto
termination
  by (relation "measure (\<lambda>(s, op, res). length s)") (auto dest: calc_num_length)

declare calc_loop.simps [simp del]

definition calc_eval :: "cstr \<Rightarrow> cstr option" where
  "calc_eval e = do {
     res \<leftarrow> calc_loop e 43 0;
     assert_that (res \<ge> 0 \<or> int_range (- res));
     let t = (if res < 0 then - res else res);
     let buf = (if res = 0 then [48] else []) @ rdigits (nat t) @ (if res < 0 then [45] else []);
     Some (foldl (\<lambda>e c. calc_add c e) (calc_clear e) (rev buf))
   }"


section \<open>Values\<close>

text \<open>A number as the calculator shows it.\<close>

definition num_str :: "int \<Rightarrow> cstr" where
  "num_str r = (if r < 0 then [45] else []) @ dec (nat \<bar>r\<bar>)"

text \<open>Operators with a skipped character and an operand: their text, and their value.\<close>

definition terms_str :: "(u8 \<times> u8 \<times> nat) list \<Rightarrow> cstr" where
  "terms_str ts = concat (map (\<lambda>(op, x, n). op # x # dec n) ts)"

fun terms_val :: "int \<Rightarrow> (u8 \<times> u8 \<times> nat) list \<Rightarrow> int option" where
  "terms_val r [] = Some r"
| "terms_val r ((op, x, n) # ts) = do { r' \<leftarrow> calc_apply op r (int n); terms_val r' ts }"

lemma rev_rdigits: "0 < n \<Longrightarrow> rev (rdigits n) = dec n"
proof (induction n rule: dec.induct)
  case (1 n)
  show ?case
  proof (cases "n < 10")
    case True
    with \<open>0 < n\<close> show ?thesis
      by (subst rdigits.simps, subst dec.simps) (simp add: rdigits.simps [of 0])
  next
    case False
    with 1 show ?thesis by (subst rdigits.simps, subst dec.simps) simp
  qed
qed

lemma digit_sint: "is_digit c \<Longrightarrow> sint c = int (unat c) \<and> 48 \<le> unat c \<and> unat c \<le> 57"
proof -
  assume "is_digit c"
  then have b: "48 \<le> unat c" "unat c \<le> 57" by (simp_all add: is_digit_def word_le_nat_alt)
  then have "uint c < 2 ^ 7" by (simp add: uint_nat del: of_nat_unat)
  then have "sint c = uint c" unfolding sint_uint by (subst signed_take_bit_int_eq_self) (auto intro: order_trans [of _ 0])
  with b show ?thesis by simp
qed

lemma foldl_dval_ge: "v \<le> foldl (\<lambda>v c. v * 10 + (unat c - 48)) v s"
proof (induction s arbitrary: v)
  case (Cons c s)
  from Cons.IH [of "v * 10 + (unat c - 48)"] show ?case by simp
qed simp

lemma calc_num_digits:
  assumes "\<forall>c \<in> set ds. is_digit c" "foldl (\<lambda>v c. v * 10 + (unat c - 48)) v ds < 2 ^ 31"
  shows "calc_num (ds @ rest) (int v) = calc_num rest (int (foldl (\<lambda>v c. v * 10 + (unat c - 48)) v ds))"
  using assms
proof (induction ds arbitrary: v)
  case (Cons c ds)
  let ?v = "v * 10 + (unat c - 48)"
  have "sint c = int (unat c) \<and> 48 \<le> unat c \<and> unat c \<le> 57" using digit_sint [of c] Cons.prems(1) by auto
  then obtain k where d: "unat c = k" "sint c = int k" "48 \<le> k" "k \<le> 57" by metis
  have "?v < 2 ^ 31" using foldl_dval_ge [of ?v ds] Cons.prems(2) by simp
  then have e: "int v * 10 + (sint c - 48) = int ?v" and r: "int_range (int ?v)" "int_range (int v * 10)" and s: "48 \<le> sint c \<and> sint c \<le> 57"
    using d by (simp_all add: int_range_def)
  have "calc_num ((c # ds) @ rest) (int v) = calc_num (ds @ rest) (int ?v)"
    by (simp only: append_Cons calc_num.simps s e r assert_that_def if_True simp_thms bind.bind_lunit)
  also have "\<dots> = calc_num rest (int (foldl (\<lambda>v c. v * 10 + (unat c - 48)) ?v ds))"
    by (rule Cons.IH) (use Cons.prems in simp_all)
  finally show ?case by (simp only: foldl_Cons)
qed simp

lemma calc_num_dec:
  assumes "n < 2 ^ 31" "rest = [] \<or> \<not> is_digit (hd rest)"
  shows "calc_num (dec n @ rest) 0 = Some (int n, rest)"
proof -
  have v: "foldl (\<lambda>v c. v * 10 + (unat c - 48)) 0 (dec n) = n" using dval_dec [of n] by (simp add: dval_def)
  from calc_num_digits [of "dec n" 0 rest] have "calc_num (dec n @ rest) 0 = calc_num rest (int n)"
    using assms(1) dec_digits by (simp add: v)
  moreover have "\<not> (48 \<le> sint c \<and> sint c \<le> 57)" if "\<not> is_digit c" for c :: u8
  proof
    assume s: "48 \<le> sint c \<and> sint c \<le> 57"
    have "uint c = sint c mod 2 ^ 8" using uint_sint [of c] by (simp add: take_bit_eq_mod)
    with s have "uint c = sint c" by simp
    with s that show False by (simp add: is_digit_def word_le_def)
  qed
  ultimately show ?thesis using assms(2) by (cases rest) auto
qed

lemma calc_loop_terms:
  assumes "\<forall>(op, x, n) \<in> set ts. \<not> is_digit op \<and> n < 2 ^ 31" "n < 2 ^ 31"
  shows "calc_loop (dec n @ terms_str ts) op r = do { r' \<leftarrow> calc_apply op r (int n); terms_val r' ts }"
  using assms
proof (induction ts arbitrary: n op r)
  case Nil
  then show ?case
    using calc_num_dec [of n "[]"]
    by (subst calc_loop.simps) (simp add: terms_str_def split: option.split)
next
  case (Cons t ts)
  obtain op' x m where t: "t = (op', x, m)" by (cases t)
  have "calc_num (dec n @ terms_str (t # ts)) 0 = Some (int n, terms_str (t # ts))"
    using Cons.prems by (intro calc_num_dec) (auto simp: terms_str_def t)
  moreover have "terms_str (t # ts) = op' # x # dec m @ terms_str ts" by (simp add: terms_str_def t)
  moreover have "calc_loop (dec m @ terms_str ts) op' r' = do { r'' \<leftarrow> calc_apply op' r' (int m); terms_val r'' ts }" for r'
    using Cons by (auto simp: t)
  ultimately show ?case
    by (subst calc_loop.simps) (simp add: t split: option.split)
qed

lemma fold_calc_add: "length e + length s \<le> 63 \<Longrightarrow> foldl (\<lambda>e c. calc_add c e) e s = e @ s"
proof (induction s arbitrary: e)
  case (Cons c s)
  then show ?case by (simp add: calc_add_def)
qed simp

lemma calc_eval_value:
  assumes "calc_loop e 43 0 = Some r" "- (2 ^ 31) < r" "r < 2 ^ 31"
  shows "calc_eval e = Some (num_str r)"
proof -
  have "rev ((if r = 0 then [48] else []) @ rdigits (nat (if r < 0 then - r else r)) @ (if r < 0 then [45] else [])) = num_str r"
    using rev_rdigits [of "nat \<bar>r\<bar>"] by (auto simp: num_str_def rdigits.simps [of 0] dec.simps [of 0])
  moreover have "length (num_str r) \<le> 63"
  proof -
    have "length (dec (nat \<bar>r\<bar>)) \<le> 10" using assms(2,3) by (intro length_dec) auto
    moreover have "length (if r < 0 then [45] else ([] :: cstr)) \<le> 1" by simp
    ultimately show ?thesis unfolding num_str_def length_append by linarith
  qed
  moreover have "r \<ge> 0 \<or> int_range (- r)" using assms(2) by (auto simp: int_range_def)
  ultimately show ?thesis
    using assms(1) by (simp add: calc_eval_def Let_def calc_clear_def fold_calc_add assert_that_def del: rev_append)
qed

lemma calc_apply_range: "calc_apply op r v = Some r' \<Longrightarrow> int_range r'"
  by (auto simp: calc_apply_def Let_def split: if_splits)

lemma terms_val_range: "terms_val r ts = Some r' \<Longrightarrow> int_range r \<Longrightarrow> int_range r'"
  by (induction r ts rule: terms_val.induct) (auto simp: bind_Some_iff dest: calc_apply_range)

text \<open>C34: The value of an expression in which one character of any kind stands between each
  operator and its operand: the operators are applied from left to right without precedence,
  a division by zero is one by 1, and the result replaces the expression.\<close>

theorem calc_eval_terms:
  assumes "\<forall>(op, x, n) \<in> set ts. \<not> is_digit op \<and> n < 2 ^ 31" "n < 2 ^ 31"
    and "terms_val (int n) ts = Some r" "r \<noteq> - (2 ^ 31)"
  shows "calc_eval (dec n @ terms_str ts) = Some (num_str r)"
proof -
  have "calc_apply 43 0 (int n) = Some (int n)" using assms(2) by (simp add: calc_apply_def int_range_def)
  then have "calc_loop (dec n @ terms_str ts) 43 0 = Some r"
    using assms(3) by (simp add: calc_loop_terms [OF assms(1,2)])
  moreover have "int_range r" using terms_val_range [OF assms(3)] assms(2) by (simp add: int_range_def)
  ultimately show ?thesis using assms(4) by (intro calc_eval_value) (auto simp: int_range_def)
qed

lemma calc_eval_terms_witness: "calc_eval (dec 12 @ terms_str [(43, 43, 3), (42, 32, 4), (45, 45, 100), (47, 47, 7)]) = Some (num_str (- 5))"
  by (rule calc_eval_terms) (simp_all add: is_digit_def calc_apply_def int_range_def signed_divide_int_def)

text \<open>An expression typed with the keys of the calculator, a number, an operator and a
  one-digit number, evaluates to the first number: the second operand is skipped.\<close>

theorem calc_second_operand_lost:
  assumes "n < 2 ^ 31" "m < 10" "\<not> is_digit op"
  shows "calc_eval (dec n @ op # dec m) = Some (dec n)"
proof -
  have "calc_num (dec n @ op # dec m) 0 = Some (int n, op # dec m)" using assms by (intro calc_num_dec) auto
  moreover have "drop 1 (dec m) = []" using assms(2) by (subst dec.simps) simp
  moreover have "calc_apply 43 0 (int n) = Some (int n)" using assms(1) by (simp add: calc_apply_def int_range_def)
  ultimately have "calc_loop (dec n @ op # dec m) 43 0 = Some (int n)"
    by (subst calc_loop.simps) (simp add: calc_loop.simps [of "[]"])
  from calc_eval_value [OF this] show ?thesis using assms(1) by (simp add: num_str_def)
qed

lemma calc_second_operand_lost_witness: "calc_eval (dec 1 @ 43 # dec 2) = Some (dec 1)"
  by (rule calc_second_operand_lost) (simp_all add: is_digit_def)

end
