(* ===== verification/Syscalls.thy ===== *)
theory Syscalls
  imports Cursor Calculator
begin

text \<open>
  The system calls of \<open>src/syscalls.c\<close>: the console, the interrupt descriptor table and the
  handler, and the frame the stub of \<open>src/irqstubs.S\<close> leaves for it on the stack.
  \<open>user_mem\<close> is the address space the user program shares with the kernel.
\<close>

section \<open>State\<close>

record idt_entry =
  offset_low :: u16
  idt_sel :: u16
  idt_zero :: u8
  idt_flags :: u8
  offset_high :: u16

record sys =
  sys_ui :: ui
  user_exited :: bool
  user_exit_code :: int
  sys_idt :: "idt_entry list"
  sys_idtr :: "(u16 \<times> u32) option"

section \<open>Console\<close>

definition cons_x :: int where "cons_x = 6"

definition console_puts :: "cstr \<Rightarrow> ui \<Rightarrow> ui option" where
  "console_puts s u = do {
     u \<leftarrow> on_fb (draw_string cons_x (cons_y u) s 0) u;
     let y = cons_y u + 10;
     Some (u\<lparr>cons_y := (if y > sint (fb_height (ui_fb u)) - 10 then 6 else y)\<rparr>)
   }"

section \<open>Interrupt descriptor table\<close>

definition set_idt_entry :: "nat \<Rightarrow> u32 \<Rightarrow> u16 \<Rightarrow> u8 \<Rightarrow> sys \<Rightarrow> sys option" where
  "set_idt_entry idx base sel flags s = do {
     assert_that (idx < length (sys_idt s));
     Some (s\<lparr>sys_idt := (sys_idt s)[idx := \<lparr>offset_low = ucast (base AND 0xFFFF), idt_sel = sel,
       idt_zero = 0, idt_flags = flags, offset_high = ucast (drop_bit 16 base AND 0xFFFF)\<rparr>]\<rparr>)
   }"

text \<open>\<open>stub\<close> is the address of \<open>irq80_stub\<close> and \<open>idt\<close> the one of the table; \<open>lidt\<close> loads the register.\<close>

definition init_syscalls :: "u32 \<Rightarrow> u32 \<Rightarrow> sys \<Rightarrow> sys option" where
  "init_syscalls stub idt s = do {
     s \<leftarrow> for_loop (\<lambda>i. set_idt_entry i 0 0 0) [0..<256] s;
     s \<leftarrow> set_idt_entry 0x80 stub 0x08 0x8E s;
     Some (s\<lparr>sys_idtr := Some (256 * 8 - 1, idt)\<rparr>)
   }"

section \<open>The handler\<close>

text \<open>The exit code in decimal; at most 16 digits, and \<open>- INT_MIN\<close> is undefined behaviour.\<close>

definition exit_text :: "int \<Rightarrow> cstr option" where
  "exit_text v =
     (if v = 0 then Some [48]
      else do {
        assert_that (v \<ge> 0 \<or> int_range (- v));
        let tmp = take 16 (rdigits (nat (if v < 0 then - v else v)));
        assert_that (length tmp + (if v < 0 then 1 else 0) \<le> 16);
        Some (rev (tmp @ (if v < 0 then [45] else [])))
      })"

text \<open>\<open>regs\<close> is the list of the dwords readable from the pointer.\<close>

definition syscall_handler_c :: "(u32 \<Rightarrow> u8) \<Rightarrow> u32 list \<Rightarrow> sys \<Rightarrow> sys option" where
  "syscall_handler_c user_mem regs s = do {
     num \<leftarrow> ld8 regs 0;
     arg_ecx \<leftarrow> ld8 regs 1;
     arg_edx \<leftarrow> ld8 regs 2;
     arg_ebx \<leftarrow> ld8 regs 3;
     if num = 1 then
       let len = sint arg_ecx in
       if len < 0 then Some s
       else
         let len = (if len > 511 then 511 else len);
             tmp = map (\<lambda>i. user_mem (arg_ebx + word_of_nat i)) [0..<nat len]
         in map_option (\<lambda>u. s\<lparr>sys_ui := u\<rparr>) (console_puts (takeWhile (\<lambda>c. c \<noteq> 0) tmp) (sys_ui s))
     else if num = 2 then do {
       let code = sint arg_ebx;
       buf \<leftarrow> exit_text code;
       u \<leftarrow> console_puts (lit ''[user exit]'') (sys_ui s);
       u \<leftarrow> console_puts buf u;
       Some (s\<lparr>user_exit_code := code, user_exited := True, sys_ui := u\<rparr>)
     }
     else Some s
   }"

section \<open>The stub\<close>

record regs =
  r_eax :: u32
  r_ecx :: u32
  r_edx :: u32
  r_ebx :: u32
  r_esp :: u32
  r_ebp :: u32
  r_esi :: u32
  r_edi :: u32
  r_ds :: u32
  r_es :: u32

text \<open>
  \<open>pusha\<close> pushes EAX, ECX, EDX, EBX, ESP, EBP, ESI and EDI, and the stack grows downwards; then
  DS and ES are pushed, and the stack pointer is the handler's argument.
\<close>

definition irq80_frame :: "regs \<Rightarrow> u32 list" where
  "irq80_frame r = rev [r_eax r, r_ecx r, r_edx r, r_ebx r, r_esp r, r_ebp r, r_esi r, r_edi r, r_ds r, r_es r]"

definition irq80_stub :: "(u32 \<Rightarrow> u8) \<Rightarrow> regs \<Rightarrow> sys \<Rightarrow> sys option" where
  "irq80_stub user_mem r s = syscall_handler_c user_mem (irq80_frame r) s"


section \<open>What the console shows\<close>

definition ascii :: "cstr \<Rightarrow> bool" where
  "ascii s \<longleftrightarrow> (\<forall>c \<in> set s. 0 \<le> sint c)"

definition cons_ok :: "u32 \<Rightarrow> int \<Rightarrow> bool" where
  "cons_ok h y \<longleftrightarrow> y = 6 \<or> (16 \<le> y \<and> y \<le> sint h - 10)"

definition cons_next :: "u32 \<Rightarrow> int \<Rightarrow> int" where
  "cons_next h y = (if y + 10 > sint h - 10 then 6 else y + 10)"

lemma cons_next_ok: "cons_ok h y \<Longrightarrow> cons_ok h (cons_next h y)"
  by (auto simp: cons_ok_def cons_next_def)

lemma on_fb_renders:
  assumes "renders (fb_ok w h) look f F" "ui_ok w h u"
  shows "\<exists>s. on_fb f u = Some (u\<lparr>ui_fb := s\<rparr>) \<and> fb_ok w h s \<and> look s = F (look (ui_fb u))"
  using assms(2) rendersD [OF assms(1), of "ui_fb u"] by (auto simp: ui_ok_def on_fb_def)

lemma console_puts_spec:
  assumes "ui_ok w h u" "ascii s"
  shows "\<exists>u'. console_puts s u = Some u' \<and> ui_ok w h u' \<and> cons_y u' = cons_next h (cons_y u) \<and>
    look (ui_fb u') = paint (string_points cons_x (cons_y u) s) 0 (look (ui_fb u))"
proof -
  have "renders (fb_ok w h) look (draw_string cons_x (cons_y u) s 0) (paint (string_points cons_x (cons_y u) s) 0)"
    using assms(2) by (intro draw_string_renders) (simp add: ascii_def)
  from on_fb_renders [OF this assms(1)] obtain t where
    "on_fb (draw_string cons_x (cons_y u) s 0) u = Some (u\<lparr>ui_fb := t\<rparr>)" "fb_ok w h t"
    "look t = paint (string_points cons_x (cons_y u) s) 0 (look (ui_fb u))" by blast
  moreover from this have "fb_height t = h" by (simp add: fb_ok_def)
  ultimately show ?thesis by (simp add: console_puts_def cons_next_def ui_ok_def)
qed

lemma exit_text_num_str:
  assumes "- (2 ^ 31) < v" "v < 2 ^ 31"
  shows "exit_text v = Some (num_str v)"
proof (cases "v = 0")
  case True
  then show ?thesis by (simp add: exit_text_def num_str_def dec.simps [of 0])
next
  case False
  let ?n = "nat \<bar>v\<bar>"
  have n: "(if v < 0 then - v else v) = \<bar>v\<bar>" by simp
  have r: "rev (rdigits ?n) = dec ?n" using False by (intro rev_rdigits) simp
  have "length (dec ?n) \<le> 10" using assms by (intro length_dec) auto
  then have l: "length (rdigits ?n) \<le> 10" by (simp flip: r)
  have a: "v \<ge> 0 \<or> int_range (- v)" using assms by (auto simp: int_range_def)
  have "length (take 16 (rdigits ?n)) + (if v < 0 then 1 else 0) \<le> 16" "take 16 (rdigits ?n) = rdigits ?n"
    using l by (auto split: if_split)
  with False a have "exit_text v = Some (rev (rdigits ?n @ (if v < 0 then [45] else [])))"
    unfolding exit_text_def n Let_def by (simp only: if_False assert_that_def if_True bind.bind_lunit)
  then show ?thesis unfolding num_str_def r [symmetric] by simp
qed

lemma num_str_ascii: "ascii (num_str v)"
proof -
  have "0 \<le> sint c" if "is_digit c" for c using digit_sint [OF that] by simp
  then show ?thesis using dec_digits [of "nat \<bar>v\<bar>"] by (auto simp: ascii_def num_str_def)
qed

section \<open>Properties\<close>

text \<open>The system call \<open>write\<close>, if the handler got its registers in the order it expects, shows
  the text on the next line of the console and moves the line on, inside the screen.\<close>

theorem syscall_write_shows:
  assumes "ui_ok w h (sys_ui s)" "cons_ok h (cons_y (sys_ui s))" "ascii txt" "0 \<notin> set txt" "length txt \<le> 511"
    and "\<And>i. i < length txt \<Longrightarrow> user_mem (p + word_of_nat i) = txt ! i"
  shows "\<exists>u. syscall_handler_c user_mem (1 # word_of_nat (length txt) # edx # p # rest) s = Some (s\<lparr>sys_ui := u\<rparr>) \<and>
    ui_ok w h u \<and> cons_ok h (cons_y u) \<and>
    look (ui_fb u) = paint (string_points cons_x (cons_y (sys_ui s)) txt) 0 (look (ui_fb (sys_ui s)))"
proof -
  have "uint (word_of_nat (length txt) :: u32) = int (length txt)" using assms(5) by (simp add: uint_nat unat_of_nat del: of_nat_unat)
  then have len: "sint (word_of_nat (length txt) :: u32) = int (length txt)" using assms(5) by (subst sint_small) simp_all
  have tmp: "map (\<lambda>i. user_mem (p + word_of_nat i)) [0..<length txt] = txt" using assms(6) by (intro nth_equalityI) simp_all
  have z: "takeWhile (\<lambda>c. c \<noteq> 0) txt = txt" using assms(4) by (auto simp: takeWhile_eq_all_conv)
  from console_puts_spec [OF assms(1,3)] obtain u where
    u: "console_puts txt (sys_ui s) = Some u" "ui_ok w h u" "cons_y u = cons_next h (cons_y (sys_ui s))"
      "look (ui_fb u) = paint (string_points cons_x (cons_y (sys_ui s)) txt) 0 (look (ui_fb (sys_ui s)))" by blast
  have "syscall_handler_c user_mem (1 # word_of_nat (length txt) # edx # p # rest) s = Some (s\<lparr>sys_ui := u\<rparr>)"
    using assms(5) u(1) by (simp add: syscall_handler_c_def ld8_def len Let_def tmp z)
  with u cons_next_ok [OF assms(2)] show ?thesis by auto
qed

definition sys_demo :: sys where
  "sys_demo = \<lparr>sys_ui = ui_demo, user_exited = False, user_exit_code = 0,
     sys_idt = replicate 256 \<lparr>offset_low = 1, idt_sel = 1, idt_zero = 1, idt_flags = 1, offset_high = 1\<rparr>, sys_idtr = None\<rparr>"

lemma ui_demo_cons: "cons_y ui_demo = 6"
  by (simp add: ui_demo_def)

lemma syscall_write_shows_witness:
  "\<exists>u. syscall_handler_c (\<lambda>a. if a = 0x1000 then 72 else 105) (1 # word_of_nat (length [72, 105 :: u8]) # 0 # 0x1000 # []) sys_demo =
      Some (sys_demo\<lparr>sys_ui := u\<rparr>) \<and> ui_ok 4 3 u \<and> cons_ok 3 (cons_y u) \<and>
    look (ui_fb u) = paint (string_points cons_x (cons_y (sys_ui sys_demo)) [72, 105]) 0 (look (ui_fb (sys_ui sys_demo)))"
proof (rule syscall_write_shows)
  fix i
  assume "i < length [72, 105 :: u8]"
  then show "(if 0x1000 + word_of_nat i = (0x1000 :: u32) then 72 else 105) = [72, 105 :: u8] ! i" by (auto simp: less_Suc_eq)
qed (simp_all add: sys_demo_def ui_demo_ok(1) cons_ok_def ascii_def ui_demo_cons)

text \<open>The system call \<open>exit\<close>, if the handler got its registers in the order it expects, records
  the signed code and shows it in decimal below a notice.\<close>

theorem syscall_exit_records:
  assumes "ui_ok w h (sys_ui s)" "cons_ok h (cons_y (sys_ui s))" "sint code \<noteq> - (2 ^ 31)"
  shows "\<exists>u. syscall_handler_c user_mem (2 # ecx # edx # code # rest) s =
      Some (s\<lparr>user_exit_code := sint code, user_exited := True, sys_ui := u\<rparr>) \<and> ui_ok w h u \<and> cons_ok h (cons_y u) \<and>
    look (ui_fb u) = paint (string_points cons_x (cons_next h (cons_y (sys_ui s))) (num_str (sint code))) 0
      (paint (string_points cons_x (cons_y (sys_ui s)) (lit ''[user exit]'')) 0 (look (ui_fb (sys_ui s))))"
proof -
  have r: "- (2 ^ 31) < sint code" "sint code < 2 ^ 31" using assms(3) sint_greater_eq [of code] sint_lt [of code] by auto
  have a: "ascii (lit ''[user exit]'')" by (simp add: ascii_def lit_def)
  from console_puts_spec [OF assms(1) a] obtain u where
    u: "console_puts (lit ''[user exit]'') (sys_ui s) = Some u" "ui_ok w h u" "cons_y u = cons_next h (cons_y (sys_ui s))"
      "look (ui_fb u) = paint (string_points cons_x (cons_y (sys_ui s)) (lit ''[user exit]'')) 0 (look (ui_fb (sys_ui s)))" by blast
  from console_puts_spec [OF u(2) num_str_ascii] obtain v where
    v: "console_puts (num_str (sint code)) u = Some v" "ui_ok w h v" "cons_y v = cons_next h (cons_y u)"
      "look (ui_fb v) = paint (string_points cons_x (cons_y u) (num_str (sint code))) 0 (look (ui_fb u))" by blast
  have "syscall_handler_c user_mem (2 # ecx # edx # code # rest) s =
      Some (s\<lparr>user_exit_code := sint code, user_exited := True, sys_ui := v\<rparr>)"
    using u(1) v(1) by (simp add: syscall_handler_c_def ld8_def exit_text_num_str [OF r])
  with u v cons_next_ok [OF cons_next_ok [OF assms(2)]] show ?thesis by auto
qed

lemma syscall_exit_records_witness:
  "\<exists>u. syscall_handler_c (\<lambda>_. 0) (2 # 0 # 0 # (- 42) # []) sys_demo =
      Some (sys_demo\<lparr>user_exit_code := sint (- 42 :: u32), user_exited := True, sys_ui := u\<rparr>) \<and> ui_ok 4 3 u \<and> cons_ok 3 (cons_y u) \<and>
    look (ui_fb u) = paint (string_points cons_x (cons_next 3 (cons_y (sys_ui sys_demo))) (num_str (sint (- 42 :: u32)))) 0
      (paint (string_points cons_x (cons_y (sys_ui sys_demo)) (lit ''[user exit]'')) 0 (look (ui_fb (sys_ui sys_demo))))"
  by (rule syscall_exit_records) (simp_all add: sys_demo_def ui_demo_ok(1) cons_ok_def ui_demo_cons)

lemma init_syscalls_entry:
  assumes "length (sys_idt s) = 256"
  shows "init_syscalls stub idt s = Some (s\<lparr>sys_idt := (replicate 256 \<lparr>offset_low = 0, idt_sel = 0, idt_zero = 0, idt_flags = 0, offset_high = 0\<rparr>)
    [0x80 := \<lparr>offset_low = ucast (stub AND 0xFFFF), idt_sel = 8, idt_zero = 0, idt_flags = 0x8E, offset_high = ucast (drop_bit 16 stub AND 0xFFFF)\<rparr>],
    sys_idtr := Some (2047, idt)\<rparr>)"
proof -
  let ?z = "\<lparr>offset_low = 0, idt_sel = 0, idt_zero = 0, idt_flags = 0, offset_high = 0\<rparr>"
  have z: "for_loop (\<lambda>i. set_idt_entry i 0 0 0) [0..<k] s = Some (s\<lparr>sys_idt := replicate k ?z @ drop k (sys_idt s)\<rparr>)" if "k \<le> 256" for k
    using that
  proof (induction k)
    case (Suc k)
    have "(replicate k ?z @ drop k (sys_idt s))[k := ?z] = replicate (Suc k) ?z @ drop (Suc k) (sys_idt s)"
      using Suc.prems assms
      by (simp add: list_update_append Cons_nth_drop_Suc [symmetric] replicate_app_Cons_same)
    with Suc assms show ?case by (simp add: for_loop_append set_idt_entry_def assert_that_def)
  qed simp
  from z [of 256] assms show ?thesis by (simp add: init_syscalls_def set_idt_entry_def assert_that_def)
qed

lemma init_syscalls_keeps:
  "length (sys_idt s) = 256 \<Longrightarrow> \<exists>s'. init_syscalls stub idt s = Some s' \<and> sys_ui s' = sys_ui s \<and>
    user_exited s' = user_exited s \<and> user_exit_code s' = user_exit_code s"
  by (simp add: init_syscalls_entry)

lemma irq80_stub_other: "r_es r \<notin> {1, 2} \<Longrightarrow> irq80_stub user_mem r s = Some s"
  by (simp add: irq80_stub_def irq80_frame_def syscall_handler_c_def ld8_def)

text \<open>Setting up the system calls leaves a table of 256 entries in which only 0x80 is used: its
  two halves of the offset make up the address of the stub.\<close>

theorem idt_only_syscall:
  assumes "length (sys_idt s) = 256"
  shows "\<exists>s'. init_syscalls stub idt s = Some s' \<and> sys_ui s' = sys_ui s \<and> user_exited s' = user_exited s \<and>
    sys_idtr s' = Some (2047, idt) \<and> length (sys_idt s') = 256 \<and>
    push_bit 16 (ucast (offset_high (sys_idt s' ! 0x80))) OR ucast (offset_low (sys_idt s' ! 0x80)) = stub \<and>
    idt_sel (sys_idt s' ! 0x80) = 8 \<and> idt_flags (sys_idt s' ! 0x80) = 0x8E \<and>
    (\<forall>i < 256. i \<noteq> 0x80 \<longrightarrow> idt_flags (sys_idt s' ! i) = 0)"
proof -
  have m: "(0xFFFF :: u32) = mask 16" by (simp add: mask_eq_exp_minus_1)
  have "push_bit 16 (ucast (ucast (drop_bit 16 stub AND 0xFFFF) :: u16)) OR ucast (ucast (stub AND 0xFFFF) :: u16) = stub"
    unfolding m by (rule bit_word_eqI) (auto simp: bit_simps)
  then show ?thesis unfolding init_syscalls_entry [OF assms] by (intro exI conjI) (rule refl | simp add: nth_list_update)+
qed

lemma idt_only_syscall_witness: "\<exists>s'. init_syscalls 0x00101234 0x5000 sys_demo = Some s' \<and> length (sys_idt s') = 256"
  using idt_only_syscall [of sys_demo "0x00101234" "0x5000"] by (auto simp: sys_demo_def)

text \<open>As the stub saves ES and DS below the general registers, the handler takes ES for the
  number of the call: with the kernel's flat segments no system call has any effect.\<close>

theorem syscalls_never_dispatched:
  assumes "r_es r \<notin> {1, 2}"
  shows "irq80_stub user_mem r s = Some s"
  using assms by (rule irq80_stub_other)

lemma syscalls_never_dispatched_witness:
  "irq80_stub (\<lambda>_. 0) \<lparr>r_eax = 2, r_ecx = 0, r_edx = 0, r_ebx = 42, r_esp = 0, r_ebp = 0, r_esi = 0, r_edi = 0, r_ds = 0x10, r_es = 0x10\<rparr> sys_demo = Some sys_demo"
  by (rule syscalls_never_dispatched) simp

end
