(* ===== verification/Exec_elf.thy ===== *)
theory Exec_elf
  imports Syscalls Kmalloc
begin

text \<open>
  The program loader \<open>src/exec_elf.c\<close>. The file is the list of its bytes; an access outside
  it, or outside the block the loader allocates, is \<open>None\<close>. The machine code that is loaded
  is the parameter \<open>entry\<close> of \<open>elf32_load_and_run\<close>: it gets the block, its address and the
  address of the entry point, may make system calls, and returns a value.
\<close>

section \<open>Headers\<close>

record elf32_hdr =
  e_ident :: bytes
  e_entry :: u32
  e_phoff :: u32
  e_phentsize :: u16
  e_phnum :: u16

record elf32_phdr =
  p_type :: u32
  p_offset :: u32
  p_vaddr :: u32
  p_filesz :: u32
  p_memsz :: u32

definition PT_LOAD :: u32 where "PT_LOAD = 1"

definition read_hdr :: "bytes \<Rightarrow> elf32_hdr option" where
  "read_hdr buf = do {
     ident \<leftarrow> rdn buf 16;
     entry \<leftarrow> ld32 buf 24;
     phoff \<leftarrow> ld32 buf 28;
     phentsize \<leftarrow> ld16 buf 42;
     phnum \<leftarrow> ld16 buf 44;
     Some \<lparr>e_ident = ident, e_entry = entry, e_phoff = phoff, e_phentsize = phentsize, e_phnum = phnum\<rparr>
   }"

definition read_phdr :: "bytes \<Rightarrow> elf32_hdr \<Rightarrow> nat \<Rightarrow> elf32_phdr option" where
  "read_phdr buf eh i = do {
     let a = unat (e_phoff eh) + i * unat (e_phentsize eh);
     ty \<leftarrow> ld32 buf a;
     off \<leftarrow> ld32 buf (a + 4);
     vaddr \<leftarrow> ld32 buf (a + 8);
     filesz \<leftarrow> ld32 buf (a + 16);
     memsz \<leftarrow> ld32 buf (a + 20);
     Some \<lparr>p_type = ty, p_offset = off, p_vaddr = vaddr, p_filesz = filesz, p_memsz = memsz\<rparr>
   }"

section \<open>Loading\<close>

text \<open>The lowest and the highest address of the segments; the sum wraps around.\<close>

definition phdr_range :: "bytes \<Rightarrow> elf32_hdr \<Rightarrow> nat \<Rightarrow> u32 \<times> u32 \<Rightarrow> (u32 \<times> u32) option" where
  "phdr_range buf eh i = (\<lambda>(min_vaddr, max_vaddr). do {
     ph \<leftarrow> read_phdr buf eh i;
     if p_type ph \<noteq> PT_LOAD then Some (min_vaddr, max_vaddr)
     else Some (if p_vaddr ph < min_vaddr then p_vaddr ph else min_vaddr,
       if p_vaddr ph + p_memsz ph > max_vaddr then p_vaddr ph + p_memsz ph else max_vaddr)
   })"

text \<open>The segments \<open>is\<close>; \<open>Inl\<close> is an early return.\<close>

fun load_segments :: "bytes \<Rightarrow> u32 \<Rightarrow> elf32_hdr \<Rightarrow> u32 \<Rightarrow> nat list \<Rightarrow> bytes \<Rightarrow> (int + bytes) option" where
  "load_segments buf elf_size eh min_vaddr [] mem = Some (Inr mem)"
| "load_segments buf elf_size eh min_vaddr (i # is) mem = do {
     ph \<leftarrow> read_phdr buf eh i;
     if p_type ph \<noteq> PT_LOAD then load_segments buf elf_size eh min_vaddr is mem
     else if p_offset ph + p_filesz ph > elf_size then Some (Inl (- 6))
     else do {
       let dest = p_vaddr ph - min_vaddr;
       src \<leftarrow> rdn (drop (unat (p_offset ph)) buf) (int (unat (p_filesz ph)));
       mem \<leftarrow> blit mem (unat dest) src;
       load_segments buf elf_size eh min_vaddr is mem
     }
   }"

text \<open>The block of the program, its address and its entry point, and the heap after the allocation.\<close>

definition elf32_load :: "bytes \<Rightarrow> u32 \<Rightarrow> u32 \<Rightarrow> (int + (bytes \<times> u32 \<times> u32)) option \<times> u32" where
  "elf32_load buf elf_size heap =
     (if elf_size < 52 then (Some (Inl (- 1)), heap)
      else case read_hdr buf of
        None \<Rightarrow> (None, heap)
      | Some eh \<Rightarrow>
          if take 4 (e_ident eh) \<noteq> 0x7F # lit ''ELF'' then (Some (Inl (- 2)), heap)
          else if e_phoff eh = 0 \<or> e_phnum eh = 0 then (Some (Inl (- 3)), heap)
          else case for_loop (phdr_range buf eh) [0..<unat (e_phnum eh)] (0xFFFFFFFF, 0) of
            None \<Rightarrow> (None, heap)
          | Some (min_vaddr, max_vaddr) \<Rightarrow>
              if min_vaddr = 0xFFFFFFFF then (Some (Inl (- 4)), heap)
              else
                let total = max_vaddr - min_vaddr; (base, heap') = kmalloc total heap in
                if base = 0 then (Some (Inl (- 5)), heap')
                else (map_option (map_sum id (\<lambda>mem. (mem, base, base + (e_entry eh - min_vaddr))))
                  (load_segments buf elf_size eh min_vaddr [0..<unat (e_phnum eh)] (replicate (unat total) 0)), heap'))"

definition elf32_load_and_run ::
    "(bytes \<Rightarrow> u32 \<Rightarrow> u32 \<Rightarrow> sys \<Rightarrow> (int \<times> sys) option) \<Rightarrow> u32 \<Rightarrow> u32 \<Rightarrow> bytes \<Rightarrow> u32 \<Rightarrow> u32 \<times> sys \<Rightarrow> (int \<times> u32 \<times> sys) option" where
  "elf32_load_and_run entry stub idt buf elf_size w =
     (case elf32_load buf elf_size (fst w) of
        (None, heap) \<Rightarrow> None
      | (Some (Inl e), heap) \<Rightarrow> Some (e, heap, snd w)
      | (Some (Inr (mem, base, start)), heap) \<Rightarrow> do {
          s \<leftarrow> init_syscalls stub idt (snd w);
          (r, s) \<leftarrow> entry mem base start s;
          Some (if user_exited s then user_exit_code s else r, heap, s)
        })"


section \<open>The memory image\<close>

abbreviation seg_end :: "elf32_phdr \<Rightarrow> nat" where
  "seg_end ph \<equiv> unat (p_vaddr ph) + unat (p_memsz ph)"

definition loads :: "elf32_phdr list \<Rightarrow> elf32_phdr list" where
  "loads phs = filter (\<lambda>ph. p_type ph = PT_LOAD) phs"

definition seg_ok :: "bytes \<Rightarrow> elf32_phdr \<Rightarrow> bool" where
  "seg_ok buf ph \<longleftrightarrow> seg_end ph < 2 ^ 32 \<and> p_filesz ph \<le> p_memsz ph \<and>
     unat (p_offset ph) + unat (p_filesz ph) \<le> length buf"

definition seg_disjoint :: "elf32_phdr \<Rightarrow> elf32_phdr \<Rightarrow> bool" where
  "seg_disjoint a b \<longleftrightarrow> seg_end a \<le> unat (p_vaddr b) \<or> seg_end b \<le> unat (p_vaddr a)"

lemma loads_Cons: "loads (ph # phs) = (if p_type ph = PT_LOAD then [ph] else []) @ loads phs"
  by (simp add: loads_def)

lemma phdr_range_loop:
  assumes "map (read_phdr buf eh) is = map Some phs" "\<forall>ph \<in> set (loads phs). seg_end ph < 2 ^ 32"
  shows "\<exists>mn mx. for_loop (phdr_range buf eh) is (mn0, mx0) = Some (mn, mx) \<and> mn \<le> mn0 \<and> mx0 \<le> mx \<and>
    (\<forall>ph \<in> set (loads phs). mn \<le> p_vaddr ph \<and> seg_end ph \<le> unat mx) \<and>
    (mn = mn0 \<or> mn \<in> p_vaddr ` set (loads phs)) \<and> (mx = mx0 \<or> unat mx \<in> seg_end ` set (loads phs))"
  using assms
proof (induction "is" arbitrary: phs mn0 mx0)
  case Nil
  then show ?case by (simp add: loads_def)
next
  case (Cons i "is")
  then obtain ph phs' where phs: "phs = ph # phs'" "read_phdr buf eh i = Some ph" "map (read_phdr buf eh) is = map Some phs'"
    by (auto simp: Cons_eq_map_conv map_eq_Cons_conv)
  have fit: "\<forall>ph \<in> set (loads phs'). seg_end ph < 2 ^ 32" using Cons.prems(2) by (simp add: phs loads_Cons)
  show ?case
  proof (cases "p_type ph = PT_LOAD")
    case False
    then have "phdr_range buf eh i (mn0, mx0) = Some (mn0, mx0)" by (simp add: phdr_range_def phs)
    with Cons.IH [OF phs(3) fit, of mn0 mx0] False show ?thesis by (simp add: phs loads_Cons)
  next
    case True
    define e where "e = p_vaddr ph + p_memsz ph"
    have "seg_end ph < 2 ^ 32" using Cons.prems(2) True by (simp add: phs loads_Cons)
    then have e: "unat e = seg_end ph" unfolding e_def by (subst unat_add_lem [THEN iffD1]) simp_all
    define mn1 where "mn1 = (if p_vaddr ph < mn0 then p_vaddr ph else mn0)"
    define mx1 where "mx1 = (if e > mx0 then e else mx0)"
    have "phdr_range buf eh i (mn0, mx0) = Some (mn1, mx1)" using True by (simp add: phdr_range_def phs mn1_def mx1_def e_def)
    moreover obtain mn mx where IH: "for_loop (phdr_range buf eh) is (mn1, mx1) = Some (mn, mx)" "mn \<le> mn1" "mx1 \<le> mx"
      "\<forall>ph \<in> set (loads phs'). mn \<le> p_vaddr ph \<and> seg_end ph \<le> unat mx"
      "mn = mn1 \<or> mn \<in> p_vaddr ` set (loads phs')" "mx = mx1 \<or> unat mx \<in> seg_end ` set (loads phs')"
      using Cons.IH [OF phs(3) fit, of mn1 mx1] by blast
    moreover have "mn1 \<le> mn0" "mn1 \<le> p_vaddr ph" "mn1 = mn0 \<or> mn1 = p_vaddr ph"
      "mx0 \<le> mx1" "e \<le> mx1" "mx1 = mx0 \<or> mx1 = e" by (auto simp: mn1_def mx1_def)
    moreover from this have "seg_end ph \<le> unat mx" using e IH(3) by (metis order_trans word_le_nat_alt)
    ultimately show ?thesis using e True by (auto simp: phs loads_Cons)
  qed
qed

lemma nth_splice_out:
  assumes "d + length s \<le> length m" "k < d \<or> d + length s \<le> k"
  shows "(take d m @ s @ drop (d + length s) m) ! k = m ! k"
  using assms(2)
proof
  assume "k < d"
  with assms(1) show ?thesis by (simp add: nth_append)
next
  assume k: "d + length s \<le> k"
  with assms(1) have "\<not> k < d" "\<not> k - d < length s" "d + length s + (k - d - length s) = k" by auto
  with assms(1) show ?thesis by (simp add: nth_append)
qed

lemma load_segments_image:
  assumes "map (read_phdr buf eh) is = map Some phs" "unat sz = length buf"
    and "\<forall>ph \<in> set (loads phs). seg_ok buf ph \<and> mn \<le> p_vaddr ph \<and> seg_end ph - unat mn \<le> length mem"
    and "sorted_wrt seg_disjoint (loads phs)"
  shows "\<exists>mem'. load_segments buf sz eh mn is mem = Some (Inr mem') \<and> length mem' = length mem \<and>
    (\<forall>k < length mem. (\<forall>ph \<in> set (loads phs). unat mn + k < unat (p_vaddr ph) \<or> unat (p_vaddr ph) + unat (p_filesz ph) \<le> unat mn + k) \<longrightarrow>
      mem' ! k = mem ! k) \<and>
    (\<forall>ph \<in> set (loads phs). \<forall>i < unat (p_filesz ph). mem' ! (unat (p_vaddr ph) - unat mn + i) = buf ! (unat (p_offset ph) + i))"
  using assms
proof (induction "is" arbitrary: phs mem)
  case Nil
  then show ?case by (simp add: loads_def)
next
  case (Cons i "is")
  then obtain ph phs' where phs: "phs = ph # phs'" "read_phdr buf eh i = Some ph" "map (read_phdr buf eh) is = map Some phs'"
    by (auto simp: Cons_eq_map_conv map_eq_Cons_conv)
  show ?case
  proof (cases "p_type ph = PT_LOAD")
    case False
    then have "loads phs = loads phs'" by (simp add: phs loads_Cons)
    with Cons.IH [OF phs(3) assms(2), of mem] Cons.prems(3,4) False phs(2) show ?thesis by simp
  next
    case True
    then have ls: "loads phs = ph # loads phs'" by (simp add: phs loads_Cons)
    define d where "d = unat (p_vaddr ph) - unat mn"
    define f where "f = unat (p_filesz ph)"
    have ph: "seg_ok buf ph" "mn \<le> p_vaddr ph" "seg_end ph - unat mn \<le> length mem" using Cons.prems(3) by (simp_all add: ls)
    have f: "f \<le> unat (p_memsz ph)" "unat (p_offset ph) + f \<le> length buf" using ph(1) by (simp_all add: seg_ok_def f_def word_le_nat_alt)
    have dest: "unat (p_vaddr ph - mn) = d" using ph(2) by (simp add: d_def unat_sub word_le_nat_alt)
    have df: "d + f \<le> length mem" using ph(2,3) f(1) by (simp add: d_def word_le_nat_alt)
    have "length buf < 2 ^ 32" using assms(2) unsigned_less [of sz, where 'a = nat] by simp
    then have "unat (p_offset ph + p_filesz ph) = unat (p_offset ph) + f"
      using f(2) unfolding f_def by (subst unat_add_lem [THEN iffD1]) simp_all
    then have in_file: "\<not> p_offset ph + p_filesz ph > sz" using f(2) assms(2) by (simp add: word_less_nat_alt)
    define src where "src = take f (drop (unat (p_offset ph)) buf)"
    have "f \<le> length (drop (unat (p_offset ph)) buf)" using f(2) by simp
    then have src: "rdn (drop (unat (p_offset ph)) buf) (int f) = Some src" "length src = f"
      unfolding rdn_Some_iff src_def by (simp_all only: of_nat_le_iff of_nat_0_le_iff nat_int length_take min_absorb2 simp_thms)
    define m1 where "m1 = take d mem @ src @ drop (d + f) mem"
    have blit: "blit mem d src = Some m1" using df src(2) by (simp add: blit_def m1_def)
    have len1: "length m1 = length mem" using df src(2) by (simp add: m1_def)
    have at1: "m1 ! (d + j) = buf ! (unat (p_offset ph) + j)" if "j < f" for j
      using that df src(2) f(2) by (simp add: m1_def nth_append src_def)
    have off1: "m1 ! k = mem ! k" if "k < length mem" "k < d \<or> d + f \<le> k" for k
      using nth_splice_out [of d src mem k] that(2) df by (simp add: m1_def src(2))
    have "\<forall>ph \<in> set (loads phs'). seg_ok buf ph \<and> mn \<le> p_vaddr ph \<and> seg_end ph - unat mn \<le> length m1"
      using Cons.prems(3) len1 by (simp add: ls)
    from Cons.IH [OF phs(3) assms(2) this] Cons.prems(4) obtain mem' where IH:
      "load_segments buf sz eh mn is m1 = Some (Inr mem')" "length mem' = length mem"
      "\<And>k. k < length mem \<Longrightarrow> (\<forall>ph \<in> set (loads phs'). unat mn + k < unat (p_vaddr ph) \<or> unat (p_vaddr ph) + unat (p_filesz ph) \<le> unat mn + k) \<Longrightarrow>
        mem' ! k = m1 ! k"
      "\<forall>ph \<in> set (loads phs'). \<forall>i < unat (p_filesz ph). mem' ! (unat (p_vaddr ph) - unat mn + i) = buf ! (unat (p_offset ph) + i)"
      using len1 by (auto simp: ls)
    have run: "load_segments buf sz eh mn (i # is) mem = Some (Inr mem')"
      using True in_file src(1) blit IH(1) phs(2) by (simp add: dest flip: f_def)
    have mn: "unat mn + d = unat (p_vaddr ph)" using ph(2) by (simp add: d_def word_le_nat_alt)
    have keep: "mem' ! k = mem ! k"
      if "k < length mem" "\<forall>ph \<in> set (loads phs). unat mn + k < unat (p_vaddr ph) \<or> unat (p_vaddr ph) + unat (p_filesz ph) \<le> unat mn + k" for k
    proof -
      have "k < d \<or> d + f \<le> k" using that(2) mn by (auto simp: ls f_def)
      with IH(3) [OF that(1)] off1 [OF that(1)] that(2) show ?thesis by (simp add: ls)
    qed
    have own: "mem' ! (d + j) = buf ! (unat (p_offset ph) + j)" if j: "j < f" for j
    proof -
      have "unat mn + (d + j) < unat (p_vaddr b) \<or> unat (p_vaddr b) + unat (p_filesz b) \<le> unat mn + (d + j)"
        if b: "b \<in> set (loads phs')" for b
      proof -
        have "seg_disjoint ph b" using Cons.prems(4) b by (simp add: ls)
        moreover have "unat (p_filesz b) \<le> unat (p_memsz b)" using Cons.prems(3) b by (auto simp: ls seg_ok_def word_le_nat_alt)
        ultimately show ?thesis using j f(1) mn by (auto simp: seg_disjoint_def)
      qed
      with IH(3) [of "d + j"] at1 [OF j] j df show ?thesis by simp
    qed
    have all: "\<forall>b \<in> set (loads phs). \<forall>i < unat (p_filesz b). mem' ! (unat (p_vaddr b) - unat mn + i) = buf ! (unat (p_offset b) + i)"
      using own IH(4) unfolding ls d_def f_def by simp
    show ?thesis by (intro exI [of _ mem'] conjI allI impI run IH(2) all keep)
  qed
qed


section \<open>Properties\<close>

text \<open>C12: An ELF file with program headers whose loadable segments lie inside it, fit the address space, do not
  overlap, have no more bytes in the file than in memory and are not all empty is loaded: the block spans exactly the segments, every segment
  has the bytes of the file at its address, every other byte of the block, between the segments
  too, is zero, and the entry point keeps its place.\<close>

theorem elf_load_image:
  assumes "unat sz = length buf" "52 \<le> length buf" "read_hdr buf = Some eh" "take 4 (e_ident eh) = 0x7F # lit ''ELF''"
    and "e_phoff eh \<noteq> 0" "map (read_phdr buf eh) [0..<unat (e_phnum eh)] = map Some phs" "loads phs \<noteq> []"
    and "\<forall>ph \<in> set (loads phs). seg_ok buf ph" "sorted_wrt seg_disjoint (loads phs)"
    and "\<exists>ph \<in> set (loads phs). 0 < p_memsz ph" "heap \<noteq> 0"
  shows "\<exists>mem mn mx. elf32_load buf sz heap = (Some (Inr (mem, heap, heap + (e_entry eh - mn))), heap + round16 (mx - mn)) \<and>
    mn \<in> p_vaddr ` set (loads phs) \<and> unat mx \<in> seg_end ` set (loads phs) \<and>
    (\<forall>ph \<in> set (loads phs). mn \<le> p_vaddr ph \<and> seg_end ph \<le> unat mx) \<and> length mem = unat mx - unat mn \<and>
    (\<forall>ph \<in> set (loads phs). \<forall>i < unat (p_filesz ph). mem ! (unat (p_vaddr ph) - unat mn + i) = buf ! (unat (p_offset ph) + i)) \<and>
    (\<forall>k < length mem. (\<forall>ph \<in> set (loads phs). unat mn + k < unat (p_vaddr ph) \<or>
      unat (p_vaddr ph) + unat (p_filesz ph) \<le> unat mn + k) \<longrightarrow> mem ! k = 0)"
proof -
  let ?n = "[0..<unat (e_phnum eh)]"
  have fit: "\<forall>ph \<in> set (loads phs). seg_end ph < 2 ^ 32" using assms(8) by (simp add: seg_ok_def)
  from phdr_range_loop [OF assms(6) fit, of "0xFFFFFFFF" 0] obtain mn mx where
    r: "for_loop (phdr_range buf eh) ?n (0xFFFFFFFF, 0) = Some (mn, mx)"
      "\<forall>ph \<in> set (loads phs). mn \<le> p_vaddr ph \<and> seg_end ph \<le> unat mx"
      "mn = 0xFFFFFFFF \<or> mn \<in> p_vaddr ` set (loads phs)" "mx = 0 \<or> unat mx \<in> seg_end ` set (loads phs)" by blast
  have sg: "unat (p_vaddr ph) < 0xFFFFFFFF" if "ph \<in> set (loads phs)" "0 < p_memsz ph" for ph
    using fit that by (auto simp: word_less_nat_alt)
  from assms(10) obtain q where q: "q \<in> set (loads phs)" "0 < p_memsz q" by blast
  have "mn \<le> p_vaddr q" using r(2) q(1) by blast
  moreover have "p_vaddr q < 0xFFFFFFFF" using sg [OF q] by (simp add: word_less_nat_alt)
  ultimately have ne: "mn \<noteq> 0xFFFFFFFF" by auto
  with r(3) have mem_mn: "mn \<in> p_vaddr ` set (loads phs)" by blast
  have le: "unat mn \<le> unat mx" using r(2) q(1) by (meson le_add1 order_trans word_le_nat_alt)
  then have total: "unat (mx - mn) = unat mx - unat mn" by (simp add: unat_sub word_le_nat_alt)
  have segs: "\<forall>ph \<in> set (loads phs). seg_ok buf ph \<and> mn \<le> p_vaddr ph \<and> seg_end ph - unat mn \<le> length (replicate (unat (mx - mn)) (0 :: u8))"
    using assms(8) r(2) by (auto simp: total)
  from load_segments_image [OF assms(6,1) segs assms(9)] obtain mem where
    m: "load_segments buf sz eh mn ?n (replicate (unat (mx - mn)) 0) = Some (Inr mem)" "length mem = unat mx - unat mn"
      "\<And>k. k < unat mx - unat mn \<Longrightarrow> (\<forall>ph \<in> set (loads phs). unat mn + k < unat (p_vaddr ph) \<or> unat (p_vaddr ph) + unat (p_filesz ph) \<le> unat mn + k) \<Longrightarrow>
        mem ! k = 0"
      "\<forall>ph \<in> set (loads phs). \<forall>i < unat (p_filesz ph). mem ! (unat (p_vaddr ph) - unat mn + i) = buf ! (unat (p_offset ph) + i)"
    by (auto simp: total)
  have "loads phs = [] \<or> ?n \<noteq> []" using assms(6) by (auto simp: loads_def)
  then have "e_phnum eh \<noteq> 0" using assms(7) by (auto simp: unat_eq_0)
  moreover have "\<not> sz < 52" using assms(1,2) by (simp add: word_less_nat_alt)
  ultimately have run: "elf32_load buf sz heap = (Some (Inr (mem, heap, heap + (e_entry eh - mn))), heap + round16 (mx - mn))"
    using assms(3-5,11) ne r(1) m(1) by (simp add: elf32_load_def kmalloc_def)
  have "unat mx \<noteq> 0" using r(2) q by (auto simp: word_less_nat_alt)
  then have mx: "unat mx \<in> seg_end ` set (loads phs)" using r(4) by auto
  have zero: "\<forall>k < length mem. (\<forall>ph \<in> set (loads phs). unat mn + k < unat (p_vaddr ph) \<or>
      unat (p_vaddr ph) + unat (p_filesz ph) \<le> unat mn + k) \<longrightarrow> mem ! k = 0" using m(2,3) by simp
  show ?thesis by (intro exI conjI, rule run) (fact mem_mn mx r(2) m(2,4) zero)+
qed


text \<open>A file with one segment of three bytes in the file and five in memory.\<close>

definition elf_demo :: "u8 \<Rightarrow> bytes" where
  "elf_demo memsz = 0x7F # lit ''ELF'' @ replicate 20 0 @ [0, 0x10, 0, 0, 52, 0, 0, 0] @ replicate 10 0 @ [32, 0, 1, 0] @ replicate 6 0 @
     [1, 0, 0, 0, 84, 0, 0, 0, 0, 0x10, 0, 0, 0, 0, 0, 0, 3, 0, 0, 0, memsz, 0, 0, 0] @ replicate 8 0 @ [1, 2, 3]"

definition hdr_demo :: elf32_hdr where
  "hdr_demo = \<lparr>e_ident = 0x7F # lit ''ELF'' @ replicate 12 0, e_entry = 0x1000, e_phoff = 52, e_phentsize = 32, e_phnum = 1\<rparr>"

definition phdr_demo :: "u32 \<Rightarrow> elf32_phdr" where
  "phdr_demo memsz = \<lparr>p_type = 1, p_offset = 84, p_vaddr = 0x1000, p_filesz = 3, p_memsz = memsz\<rparr>"

lemma elf_demo_reads:
  "read_hdr (elf_demo 5) = Some hdr_demo" "map (read_phdr (elf_demo 5) hdr_demo) [0..<unat (e_phnum hdr_demo)] = map Some [phdr_demo 5]"
  "read_hdr (elf_demo 2) = Some hdr_demo" "map (read_phdr (elf_demo 2) hdr_demo) [0..<unat (e_phnum hdr_demo)] = map Some [phdr_demo 2]"
  by code_simp+

lemma elf_demo_facts: "length (elf_demo m) = 87" "loads [phdr_demo k] = [phdr_demo k]" "take 4 (e_ident hdr_demo) = 0x7F # lit ''ELF''"
  "e_phoff hdr_demo \<noteq> 0"
  by (simp_all add: elf_demo_def loads_def phdr_demo_def PT_LOAD_def hdr_demo_def lit_def)

lemma elf_load_image_witness:
  "\<exists>mem mn mx. elf32_load (elf_demo 5) 87 0x01000000 = (Some (Inr (mem, 0x01000000, 0x01000000 + (e_entry hdr_demo - mn))), 0x01000000 + round16 (mx - mn)) \<and>
    mn = 0x1000"
proof -
  have seg: "seg_ok (elf_demo 5) (phdr_demo 5)" "0 < p_memsz (phdr_demo 5)" "p_vaddr (phdr_demo 5) = 0x1000"
    by (simp_all add: seg_ok_def elf_demo_facts, simp_all add: phdr_demo_def)
  have "unat (87 :: u32) = length (elf_demo 5)" "52 \<le> length (elf_demo 5)" by (simp_all add: elf_demo_facts)
  from elf_load_image [OF this elf_demo_reads(1) elf_demo_facts(3,4) elf_demo_reads(2), of "0x01000000"]
  obtain mem mn mx where "elf32_load (elf_demo 5) 87 0x01000000 = (Some (Inr (mem, 0x01000000, 0x01000000 + (e_entry hdr_demo - mn))), 0x01000000 + round16 (mx - mn))"
    "mn \<in> p_vaddr ` set (loads [phdr_demo 5])" unfolding elf_demo_facts(2) using seg by auto
  then show ?thesis by (intro exI conjI) (assumption | simp add: elf_demo_facts seg)+
qed

text \<open>A file whose only loadable segment has more bytes in the file than in memory makes the
  loader write behind the block it allocated.\<close>

theorem elf_filesz_overflow:
  assumes "unat sz = length buf" "52 \<le> length buf" "read_hdr buf = Some eh" "take 4 (e_ident eh) = 0x7F # lit ''ELF''"
    and "e_phoff eh \<noteq> 0" "map (read_phdr buf eh) [0..<unat (e_phnum eh)] = map Some phs" "loads phs = [ph]"
    and "seg_end ph < 2 ^ 32" "p_memsz ph < p_filesz ph" "p_vaddr ph \<noteq> 0xFFFFFFFF" "unat (p_offset ph) + unat (p_filesz ph) \<le> length buf" "heap \<noteq> 0"
  shows "fst (elf32_load buf sz heap) = None"
proof -
  let ?n = "[0..<unat (e_phnum eh)]"
  from phdr_range_loop [OF assms(6), of "0xFFFFFFFF" 0] assms(7,8) obtain mn mx where
    r: "for_loop (phdr_range buf eh) ?n (0xFFFFFFFF, 0) = Some (mn, mx)" "mn \<le> p_vaddr ph" "seg_end ph \<le> unat mx"
      "mn = 0xFFFFFFFF \<or> mn = p_vaddr ph" "mx = 0 \<or> unat mx = seg_end ph" by auto
  have "unat (p_vaddr ph) \<le> 0xFFFFFFFF" using unsigned_less [of "p_vaddr ph", where 'a = nat] by simp
  then have "p_vaddr ph < 0xFFFFFFFF" using assms(10) by (simp add: order.strict_iff_order word_le_nat_alt)
  with r(2,4) have mn: "mn = p_vaddr ph" by auto
  from r(3,5) have mx: "unat mx = seg_end ph" by (auto simp: unat_eq_0)
  then have total: "unat (mx - mn) = unat (p_memsz ph)" by (simp add: mn unat_sub word_le_nat_alt)
  have none: "load_segments buf sz eh mn is mem = None"
    if "map (read_phdr buf eh) is = map Some ps" "loads ps = [ph]" "length mem = unat (p_memsz ph)" for "is" ps mem
    using that
  proof (induction "is" arbitrary: ps)
    case Nil
    then show ?case by (simp add: loads_def)
  next
    case (Cons i "is")
    then obtain p ps' where ps: "ps = p # ps'" "read_phdr buf eh i = Some p" "map (read_phdr buf eh) is = map Some ps'"
      by (auto simp: Cons_eq_map_conv map_eq_Cons_conv)
    show ?case
    proof (cases "p_type p = PT_LOAD")
      case False
      with Cons.IH [OF ps(3)] Cons.prems ps show ?thesis by (simp add: loads_Cons)
    next
      case True
      with Cons.prems(2) have p: "p = ph" by (simp add: ps loads_Cons)
      have "length buf < 2 ^ 32" using assms(1) unsigned_less [of sz, where 'a = nat] by simp
      then have "unat (p_offset ph + p_filesz ph) = unat (p_offset ph) + unat (p_filesz ph)"
        using assms(11) by (subst unat_add_lem [THEN iffD1]) simp_all
      then have "\<not> p_offset ph + p_filesz ph > sz" using assms(1,11) by (simp add: word_less_nat_alt)
      moreover have "blit mem 0 src = None" if "length src = unat (p_filesz ph)" for src
        using that Cons.prems(3) assms(9) by (simp add: blit_def word_less_nat_alt)
      moreover have "length src = unat (p_filesz ph)" if "rdn (drop (unat (p_offset ph)) buf) (int (unat (p_filesz ph))) = Some src" for src
        using rdn_length [OF that] by (simp only: of_nat_eq_iff)
      ultimately show ?thesis using True ps(2)
        by (cases "rdn (drop (unat (p_offset ph)) buf) (int (unat (p_filesz ph)))") (simp_all add: p mn del: of_nat_unat)
    qed
  qed
  have "\<not> sz < 52" using assms(1,2) by (simp add: word_less_nat_alt)
  moreover have "e_phnum eh \<noteq> 0" using assms(6,7) by (auto simp: loads_def unat_eq_0)
  moreover have "load_segments buf sz eh mn ?n (replicate (unat (mx - mn)) 0) = None"
    by (rule none [OF assms(6,7)]) (simp add: total)
  ultimately show ?thesis
    using assms(3-5,10,12) r(1) mn by (simp add: elf32_load_def kmalloc_def)
qed

lemma elf_filesz_overflow_witness: "fst (elf32_load (elf_demo 2) 87 0x01000000) = None"
  by (rule elf_filesz_overflow [of _ _ hdr_demo "[phdr_demo 2]" "phdr_demo 2"])
    (simp_all add: elf_demo_reads(3) elf_demo_reads(4) [simplified] elf_demo_facts, simp_all add: phdr_demo_def)

text \<open>Machine code that makes the system calls \<open>calls\<close> and returns \<open>r\<close>.\<close>

definition user_program :: "(u32 \<Rightarrow> u8) \<Rightarrow> regs list \<Rightarrow> int \<Rightarrow> bytes \<Rightarrow> u32 \<Rightarrow> u32 \<Rightarrow> sys \<Rightarrow> (int \<times> sys) option" where
  "user_program user_mem calls r mem base start s = map_option (\<lambda>s. (r, s)) (for_loop (irq80_stub user_mem) calls s)"

text \<open>Running a loaded program that prints and exits through system calls shows nothing and
  ignores its exit code: the result is what its entry point returns, unless an earlier program
  exited, whose code is returned again.\<close>

theorem program_exit_ignored:
  assumes "elf32_load buf sz heap = (Some (Inr (mem, base, start)), heap')" "length (sys_idt s) = 256"
    and "\<forall>c \<in> set calls. r_es c \<notin> {1, 2}"
  shows "\<exists>s'. elf32_load_and_run (user_program user_mem calls r) stub idt buf sz (heap, s) =
      Some (if user_exited s then user_exit_code s else r, heap', s') \<and> sys_ui s' = sys_ui s"
proof -
  obtain s' where s': "init_syscalls stub idt s = Some s'" "sys_ui s' = sys_ui s" "user_exited s' = user_exited s" "user_exit_code s' = user_exit_code s"
    using init_syscalls_keeps [OF assms(2), of stub idt] by blast
  have "for_loop (irq80_stub user_mem) calls t = Some t" for t
    using assms(3) by (induction calls) (auto simp: irq80_stub_other)
  with assms(1) s' show ?thesis by (simp add: elf32_load_and_run_def user_program_def)
qed

lemma program_exit_ignored_witness:
  "\<exists>s'. elf32_load_and_run (user_program (\<lambda>_. 0)
      [\<lparr>r_eax = 2, r_ecx = 0, r_edx = 0, r_ebx = 42, r_esp = 0, r_ebp = 0, r_esi = 0, r_edi = 0, r_ds = 0x10, r_es = 0x10\<rparr>] 0)
      0x00101234 0x5000 (elf_demo 5) 87 (0x01000000, sys_demo) = Some (if user_exited sys_demo then user_exit_code sys_demo else 0, 0x01000010, s') \<and>
    sys_ui s' = sys_ui sys_demo"
proof (rule program_exit_ignored)
  show "elf32_load (elf_demo 5) 87 0x01000000 = (Some (Inr ([1, 2, 3, 0, 0], 0x01000000, 0x01000000)), 0x01000010)" by code_simp
qed (simp_all add: sys_demo_def)

end
