(* ===== verification/Json.thy ===== *)
theory Json
  imports Prelude
begin

text \<open>
  The JSON tokenizer \<open>src/json.h\<close> in the configuration the kernel compiles: neither
  \<open>JSMN_STRICT\<close> nor \<open>JSMN_PARENT_LINKS\<close>. The text is the list of its readable bytes, \<open>None\<close>
  an access outside the text or the token array; \<open>char\<close> is signed. Positions are naturals:
  they stay below the length of the text. A \<open>NULL\<close> token array is \<open>None\<close> in \<open>js_toks\<close>.
\<close>

section \<open>Data\<close>

datatype jsmntype = JSMN_UNDEFINED | JSMN_OBJECT | JSMN_ARRAY | JSMN_STRING | JSMN_PRIMITIVE

definition JSMN_ERROR_NOMEM :: int where "JSMN_ERROR_NOMEM = -1"
definition JSMN_ERROR_INVAL :: int where "JSMN_ERROR_INVAL = -2"
definition JSMN_ERROR_PART :: int where "JSMN_ERROR_PART = -3"

record jsmntok =
  tok_type :: jsmntype
  tok_start :: int
  tok_end :: int
  tok_size :: int

record jsmn_parser =
  js_pos :: nat
  js_next :: nat
  js_super :: int

text \<open>The parser, the token array and the local \<open>count\<close> of \<open>jsmn_parse\<close>.\<close>

record jsmn = jsmn_parser +
  js_toks :: "jsmntok list option"
  js_count :: int

definition jsmn_init :: jsmn_parser where
  "jsmn_init = \<lparr>js_pos = 0, js_next = 0, js_super = -1\<rparr>"

abbreviation QUOTE :: u8 where "QUOTE \<equiv> 34"
abbreviation COMMA :: u8 where "COMMA \<equiv> 44"
abbreviation COLON :: u8 where "COLON \<equiv> 58"
abbreviation LBRACK :: u8 where "LBRACK \<equiv> 91"
abbreviation BSLASH :: u8 where "BSLASH \<equiv> 92"
abbreviation RBRACK :: u8 where "RBRACK \<equiv> 93"
abbreviation LBRACE :: u8 where "LBRACE \<equiv> 123"
abbreviation RBRACE :: u8 where "RBRACE \<equiv> 125"

section \<open>Tokens\<close>

text \<open>\<open>None\<close>: outside the array; \<open>Some None\<close>: no token left; otherwise the new token's index.\<close>

definition jsmn_alloc_token :: "nat \<Rightarrow> jsmn \<Rightarrow> (nat \<times> jsmn) option option" where
  "jsmn_alloc_token num p =
     (if num \<le> js_next p then Some None
      else case js_toks p of None \<Rightarrow> None
      | Some ts \<Rightarrow>
          (if js_next p < length ts then
             Some (Some (js_next p, p\<lparr>js_next := js_next p + 1,
               js_toks := Some (ts[js_next p := (ts ! js_next p)\<lparr>tok_start := -1, tok_end := -1, tok_size := 0\<rparr>])\<rparr>))
           else None))"

definition jsmn_fill_token :: "nat \<Rightarrow> jsmntype \<Rightarrow> int \<Rightarrow> int \<Rightarrow> jsmntok list \<Rightarrow> jsmntok list" where
  "jsmn_fill_token i ty st en ts = ts[i := \<lparr>tok_type = ty, tok_start = st, tok_end = en, tok_size = 0\<rparr>]"

text \<open>Allocate and fill, the common end of both sub-parsers; \<open>start\<close> is restored on failure.\<close>

definition new_token :: "nat \<Rightarrow> jsmntype \<Rightarrow> int \<Rightarrow> int \<Rightarrow> nat \<Rightarrow> jsmn \<Rightarrow> (int \<times> jsmn) option" where
  "new_token num ty st en start p =
     (case jsmn_alloc_token num p of
        None \<Rightarrow> None
      | Some None \<Rightarrow> Some (JSMN_ERROR_NOMEM, p\<lparr>js_pos := start\<rparr>)
      | Some (Some (i, p')) \<Rightarrow> Some (0, p'\<lparr>js_toks := map_option (jsmn_fill_token i ty st en) (js_toks p')\<rparr>))"

section \<open>Primitives and strings\<close>

datatype scan = Found nat | Invalid | Partial

definition prim_ends :: "u8 list" where
  "prim_ends = [COLON, 9, 13, 10, 32, COMMA, RBRACK, RBRACE]"

function prim_scan :: "bytes \<Rightarrow> nat \<Rightarrow> nat \<Rightarrow> scan option" where
  "prim_scan js len pos =
     (if pos < len then
        (case ld8 js pos of
           None \<Rightarrow> None
         | Some c \<Rightarrow>
             (if c = 0 \<or> c \<in> set prim_ends then Some (Found pos)
              else if sint c < 32 \<or> 127 \<le> sint c then Some Invalid
              else prim_scan js len (pos + 1)))
      else Some (Found pos))"
  by pat_completeness auto
termination by (relation "measure (\<lambda>(js, len, pos). len - pos)") auto

definition jsmn_parse_primitive :: "bytes \<Rightarrow> nat \<Rightarrow> nat \<Rightarrow> jsmn \<Rightarrow> (int \<times> jsmn) option" where
  "jsmn_parse_primitive js len num p =
     (let start = js_pos p in
      case prim_scan js len start of
        None \<Rightarrow> None
      | Some (Found q) \<Rightarrow>
          (if js_toks p = None then Some (0, p\<lparr>js_pos := q - 1\<rparr>)
           else map_option (\<lambda>(r, p'). if r < 0 then (r, p') else (r, p'\<lparr>js_pos := q - 1\<rparr>))
             (new_token num JSMN_PRIMITIVE (int start) (int q) start (p\<lparr>js_pos := q\<rparr>)))
      | Some _ \<Rightarrow> Some (JSMN_ERROR_INVAL, p\<lparr>js_pos := start\<rparr>))"

definition is_hex :: "u8 \<Rightarrow> bool" where
  "is_hex c \<longleftrightarrow> (48 \<le> sint c \<and> sint c \<le> 57) \<or> (65 \<le> sint c \<and> sint c \<le> 70) \<or> (97 \<le> sint c \<and> sint c \<le> 102)"

text \<open>The loop over up to \<open>n\<close> hex digits of \<open>\uXXXX\<close>.\<close>

fun hex_scan :: "bytes \<Rightarrow> nat \<Rightarrow> nat \<Rightarrow> nat \<Rightarrow> scan option" where
  "hex_scan js len 0 pos = Some (Found pos)"
| "hex_scan js len (Suc n) pos =
     (if pos < len then
        (case ld8 js pos of
           None \<Rightarrow> None
         | Some c \<Rightarrow>
             (if c = 0 then Some (Found pos)
              else if \<not> is_hex c then Some Invalid
              else hex_scan js len n (pos + 1)))
      else Some (Found pos))"

text \<open>\<open>" / \ b f r n t\<close>.\<close>

definition escapes :: "u8 list" where
  "escapes = [QUOTE, 47, BSLASH, 98, 102, 114, 110, 116]"

lemma hex_scan_mono: "hex_scan js len n pos = Some (Found q) \<Longrightarrow> pos \<le> q"
  by (induction js len n pos rule: hex_scan.induct) (auto split: if_splits option.splits)

function str_scan :: "bytes \<Rightarrow> nat \<Rightarrow> nat \<Rightarrow> scan option" where
  "str_scan js len pos =
     (if pos < len then
        (case ld8 js pos of
           None \<Rightarrow> None
         | Some c \<Rightarrow>
             (if c = 0 then Some Partial
              else if c = QUOTE then Some (Found pos)
              else if c = BSLASH \<and> pos + 1 < len then
                (case ld8 js (pos + 1) of
                   None \<Rightarrow> None
                 | Some e \<Rightarrow>
                     (if e \<in> set escapes then str_scan js len (pos + 2)
                      else if e = 117 then
                        (case hex_scan js len 4 (pos + 2) of
                           None \<Rightarrow> None
                         | Some (Found q) \<Rightarrow> str_scan js len q
                         | Some _ \<Rightarrow> Some Invalid)
                      else Some Invalid))
              else str_scan js len (pos + 1)))
      else Some Partial)"
  by pat_completeness auto
termination
  by (relation "measure (\<lambda>(js, len, pos). len - pos)")
     (auto dest!: hex_scan_mono)

definition jsmn_parse_string :: "bytes \<Rightarrow> nat \<Rightarrow> nat \<Rightarrow> jsmn \<Rightarrow> (int \<times> jsmn) option" where
  "jsmn_parse_string js len num p =
     (let start = js_pos p in
      case str_scan js len (start + 1) of
        None \<Rightarrow> None
      | Some (Found q) \<Rightarrow>
          (if js_toks p = None then Some (0, p\<lparr>js_pos := q\<rparr>)
           else new_token num JSMN_STRING (int start + 1) (int q) start (p\<lparr>js_pos := q\<rparr>))
      | Some Invalid \<Rightarrow> Some (JSMN_ERROR_INVAL, p\<lparr>js_pos := start\<rparr>)
      | Some Partial \<Rightarrow> Some (JSMN_ERROR_PART, p\<lparr>js_pos := start\<rparr>))"

declare prim_scan.simps [simp del] str_scan.simps [simp del]

section \<open>The main loop\<close>

definition tok_open :: "jsmntok \<Rightarrow> bool" where
  "tok_open t \<longleftrightarrow> tok_start t \<noteq> -1 \<and> tok_end t = -1"

text \<open>\<open>for (i = n - 1; i >= 0; i--)\<close>: the last open token below \<open>n\<close>.\<close>

primrec find_open :: "jsmntok list \<Rightarrow> nat \<Rightarrow> nat option option" where
  "find_open ts 0 = Some None"
| "find_open ts (Suc i) =
     (case ld8 ts i of None \<Rightarrow> None
      | Some t \<Rightarrow> if tok_open t then Some (Some i) else find_open ts i)"

text \<open>\<open>if (parser->toksuper != -1 && tokens != NULL) tokens[toksuper].size++\<close>.\<close>

definition bump_super :: "jsmn \<Rightarrow> jsmn option" where
  "bump_super p =
     (case js_toks p of
        None \<Rightarrow> Some p
      | Some ts \<Rightarrow>
          (if js_super p = -1 then Some p
           else if 0 \<le> js_super p \<and> nat (js_super p) < length ts then
             (let i = nat (js_super p)
              in Some (p\<lparr>js_toks := Some (ts[i := (ts ! i)\<lparr>tok_size := tok_size (ts ! i) + 1\<rparr>])\<rparr>))
           else None))"

text \<open>Left: \<open>return\<close>; right: \<open>break\<close> out of the \<open>switch\<close>.\<close>

definition js_open_bracket :: "u8 \<Rightarrow> nat \<Rightarrow> jsmn \<Rightarrow> ((int \<times> jsmn) + jsmn) option" where
  "js_open_bracket c num p =
     (let p1 = p\<lparr>js_count := js_count p + 1\<rparr> in
      if js_toks p1 = None then Some (Inr p1)
      else case jsmn_alloc_token num p1 of
        None \<Rightarrow> None
      | Some None \<Rightarrow> Some (Inl (JSMN_ERROR_NOMEM, p1))
      | Some (Some (i, p2)) \<Rightarrow>
          (case bump_super p2 of
             None \<Rightarrow> None
           | Some p3 \<Rightarrow>
               Some (Inr (p3\<lparr>js_toks := map_option (\<lambda>ts. ts[i := (ts ! i)\<lparr>
                   tok_type := (if c = LBRACE then JSMN_OBJECT else JSMN_ARRAY), tok_start := int (js_pos p3)\<rparr>]) (js_toks p3),
                 js_super := int (js_next p3) - 1\<rparr>))))"

definition js_close_bracket :: "u8 \<Rightarrow> jsmn \<Rightarrow> ((int \<times> jsmn) + jsmn) option" where
  "js_close_bracket c p =
     (case js_toks p of
        None \<Rightarrow> Some (Inr p)
      | Some ts \<Rightarrow>
          (let ty = (if c = RBRACE then JSMN_OBJECT else JSMN_ARRAY) in
           case find_open ts (js_next p) of
             None \<Rightarrow> None
           | Some None \<Rightarrow> Some (Inl (JSMN_ERROR_INVAL, p))
           | Some (Some i) \<Rightarrow>
               (if tok_type (ts ! i) \<noteq> ty then Some (Inl (JSMN_ERROR_INVAL, p))
                else
                  let ts' = ts[i := (ts ! i)\<lparr>tok_end := int (js_pos p) + 1\<rparr>] in
                  case find_open ts' (i + 1) of
                    None \<Rightarrow> None
                  | Some None \<Rightarrow> Some (Inr (p\<lparr>js_toks := Some ts', js_super := -1\<rparr>))
                  | Some (Some j) \<Rightarrow> Some (Inr (p\<lparr>js_toks := Some ts', js_super := int j\<rparr>)))))"

text \<open>\<open>r = sub(...); if (r < 0) return r; count++; size++ of toksuper\<close>.\<close>

definition js_leaf :: "(int \<times> jsmn) option \<Rightarrow> ((int \<times> jsmn) + jsmn) option" where
  "js_leaf sub =
     (case sub of
        None \<Rightarrow> None
      | Some (r, p) \<Rightarrow>
          (if r < 0 then Some (Inl (r, p))
           else map_option Inr (bump_super (p\<lparr>js_count := js_count p + 1\<rparr>))))"

text \<open>The comma reads the type of the enclosing token and, without parent links, does nothing.\<close>

definition js_comma :: "jsmn \<Rightarrow> ((int \<times> jsmn) + jsmn) option" where
  "js_comma p =
     (case js_toks p of
        None \<Rightarrow> Some (Inr p)
      | Some ts \<Rightarrow>
          (if js_super p = -1 then Some (Inr p)
           else if 0 \<le> js_super p \<and> nat (js_super p) < length ts then Some (Inr p)
           else None))"

definition jsmn_step :: "bytes \<Rightarrow> nat \<Rightarrow> nat \<Rightarrow> u8 \<Rightarrow> jsmn \<Rightarrow> ((int \<times> jsmn) + jsmn) option" where
  "jsmn_step js len num c p =
     (if c = LBRACE \<or> c = LBRACK then js_open_bracket c num p
      else if c = RBRACE \<or> c = RBRACK then js_close_bracket c p
      else if c = QUOTE then js_leaf (jsmn_parse_string js len num p)
      else if c = 9 \<or> c = 13 \<or> c = 10 \<or> c = 32 then Some (Inr p)
      else if c = COLON then Some (Inr (p\<lparr>js_super := int (js_next p) - 1\<rparr>))
      else if c = COMMA then js_comma p
      else js_leaf (jsmn_parse_primitive js len num p))"

section \<open>Every step moves forward\<close>

lemma prim_scan_mono: "prim_scan js len pos = Some (Found q) \<Longrightarrow> pos \<le> q"
  by (induction js len pos rule: prim_scan.induct)
     (subst (asm) prim_scan.simps, auto split: if_splits option.splits)

lemma prim_scan_forward:
  assumes "prim_scan js len pos = Some (Found q)" "pos < len" "ld8 js pos = Some c" "c \<noteq> 0" "c \<notin> set prim_ends"
  shows "pos < q"
proof -
  have "prim_scan js len (pos + 1) = Some (Found q)"
    using assms by (subst (asm) prim_scan.simps) (auto split: if_splits)
  then show ?thesis using prim_scan_mono by fastforce
qed

lemma str_scan_bounds: "str_scan js len pos = Some (Found q) \<Longrightarrow> pos \<le> q \<and> q < len"
proof (induction js len pos rule: str_scan.induct)
  case (1 js len pos)
  note s = "1.prems" [unfolded str_scan.simps [of js len pos]]
  from s obtain c where c: "pos < len" "ld8 js pos = Some c" "c \<noteq> 0" by (auto split: if_splits option.splits)
  consider "c = QUOTE" | "c = BSLASH \<and> pos + 1 < len" "c \<noteq> QUOTE" | "c \<noteq> QUOTE" "\<not> (c = BSLASH \<and> pos + 1 < len)"
    by blast
  then show ?case
  proof cases
    case 1
    with s c show ?thesis by simp
  next
    case 2
    with s c obtain e where e: "ld8 js (pos + 1) = Some e" by (auto split: option.splits)
    show ?thesis
    proof (cases "e \<in> set escapes")
      case True
      with s c 2 e have "str_scan js len (pos + 2) = Some (Found q)" by simp
      with "1.IH"(1) [OF c 2(2,1) e True] show ?thesis by simp
    next
      case False
      with s c 2 e obtain r where r: "hex_scan js len 4 (pos + 2) = Some (Found r)" "str_scan js len r = Some (Found q)" "e = 117"
        by (auto split: if_splits option.splits scan.splits)
      with "1.IH"(2) [OF c 2(2,1) e False r(3) r(1) refl r(2)] hex_scan_mono [OF r(1)] show ?thesis by simp
    qed
  next
    case 3
    with s c have "str_scan js len (pos + 1) = Some (Found q)" by (auto split: if_splits)
    with "1.IH"(3) [OF c 3] show ?thesis by simp
  qed
qed

lemma js_pos_alloc [simp]: "jsmn_alloc_token num p = Some (Some (i, p')) \<Longrightarrow> js_pos p' = js_pos p"
  by (auto simp: jsmn_alloc_token_def split: if_splits option.splits)

lemma js_pos_bump: "bump_super p = Some p' \<Longrightarrow> js_pos p' = js_pos p"
  by (auto simp: bump_super_def Let_def split: if_splits option.splits)

lemma js_pos_new_token: "new_token num ty st en start p = Some (r, p') \<Longrightarrow> \<not> r < 0 \<Longrightarrow> js_pos p' = js_pos p"
  by (auto simp: new_token_def JSMN_ERROR_NOMEM_def split: option.splits)

lemma jsmn_parse_string_pos:
  "jsmn_parse_string js len num p = Some (r, p') \<Longrightarrow> \<not> r < 0 \<Longrightarrow> js_pos p \<le> js_pos p'"
  by (auto simp: jsmn_parse_string_def Let_def JSMN_ERROR_INVAL_def JSMN_ERROR_PART_def
      split: option.splits scan.splits if_splits dest!: str_scan_bounds js_pos_new_token)

lemma jsmn_parse_primitive_pos:
  assumes "jsmn_parse_primitive js len num p = Some (r, p')" "\<not> r < 0"
    and "js_pos p < len" "ld8 js (js_pos p) = Some c" "c \<noteq> 0" "c \<notin> set prim_ends"
  shows "js_pos p \<le> js_pos p'"
proof -
  from assms(1,2) obtain q where q: "prim_scan js len (js_pos p) = Some (Found q)" "js_pos p' = q - 1"
    by (auto simp: jsmn_parse_primitive_def Let_def JSMN_ERROR_INVAL_def JSMN_ERROR_NOMEM_def
        split: option.splits scan.splits if_splits prod.splits)
  with prim_scan_forward [OF q(1) assms(3-6)] show ?thesis by simp
qed

lemma js_leaf_pos: "js_leaf (Some (r, p)) = Some (Inr p') \<Longrightarrow> \<not> r < 0 \<and> js_pos p' = js_pos p"
  by (auto simp: js_leaf_def dest!: js_pos_bump split: if_splits)

lemma js_leaf_Some: "js_leaf sub = Some x \<Longrightarrow> \<exists>r p. sub = Some (r, p)"
  by (cases sub) (auto simp: js_leaf_def)

lemma jsmn_step_pos:
  assumes "jsmn_step js len num c p = Some (Inr p')" "js_pos p < len" "ld8 js (js_pos p) = Some c" "c \<noteq> 0"
  shows "js_pos p \<le> js_pos p'"
proof -
  consider "c = LBRACE \<or> c = LBRACK" | "c = RBRACE \<or> c = RBRACK" | "c = QUOTE" | "c = COMMA"
    | "c \<in> {9, 13, 10, 32, COLON}"
    | "c \<notin> set prim_ends" "c \<notin> {LBRACE, LBRACK, QUOTE}" by (auto simp: prim_ends_def)
  then show ?thesis
  proof cases
    case 1
    with assms(1) show ?thesis
      by (auto simp: jsmn_step_def js_open_bracket_def Let_def dest!: js_pos_bump split: if_splits option.splits)
  next
    case 2
    with assms(1) show ?thesis
      by (auto simp: jsmn_step_def js_close_bracket_def Let_def split: if_splits option.splits)
  next
    case 3
    with assms(1) have "js_leaf (jsmn_parse_string js len num p) = Some (Inr p')" by (simp add: jsmn_step_def)
    moreover from js_leaf_Some [OF this] obtain r q where "jsmn_parse_string js len num p = Some (r, q)" by blast
    ultimately show ?thesis using js_leaf_pos [of r q p'] jsmn_parse_string_pos [of js len num p r q] by simp
  next
    case 4
    with assms(1) show ?thesis by (auto simp: jsmn_step_def js_comma_def split: option.splits if_splits)
  next
    case 5
    with assms(1) show ?thesis by (auto simp: jsmn_step_def)
  next
    case 6
    with assms(1) have "js_leaf (jsmn_parse_primitive js len num p) = Some (Inr p')"
      by (auto simp: jsmn_step_def prim_ends_def)
    moreover from js_leaf_Some [OF this] obtain r q where "jsmn_parse_primitive js len num p = Some (r, q)" by blast
    ultimately show ?thesis
      using js_leaf_pos [of r q p'] jsmn_parse_primitive_pos [OF _ _ assms(2-4) 6(1), of num r q] by simp
  qed
qed

function jsmn_loop :: "bytes \<Rightarrow> nat \<Rightarrow> nat \<Rightarrow> jsmn \<Rightarrow> ((int \<times> jsmn) + jsmn) option" where
  "jsmn_loop js len num p =
     (if js_pos p < len then
        (case ld8 js (js_pos p) of
           None \<Rightarrow> None
         | Some c \<Rightarrow>
             (if c = 0 then Some (Inr p)
              else case jsmn_step js len num c p of
                None \<Rightarrow> None
              | Some (Inl r) \<Rightarrow> Some (Inl r)
              | Some (Inr p') \<Rightarrow> jsmn_loop js len num (p'\<lparr>js_pos := js_pos p' + 1\<rparr>)))
      else Some (Inr p))"
  by pat_completeness auto
termination
  by (relation "measure (\<lambda>(js, len, num, p). len - js_pos p)") (auto dest!: jsmn_step_pos)

declare jsmn_loop.simps [simp del]

text \<open>The result is the return value, the parser and the tokens.\<close>

definition jsmn_parse ::
    "jsmn_parser \<Rightarrow> bytes \<Rightarrow> nat \<Rightarrow> jsmntok list option \<Rightarrow> nat \<Rightarrow> (int \<times> jsmn) option" where
  "jsmn_parse parser js len tokens num =
     (case jsmn_loop js len num (jsmn_parser.extend parser \<lparr>js_toks = tokens, js_count = int (js_next parser)\<rparr>) of
        None \<Rightarrow> None
      | Some (Inl r) \<Rightarrow> Some r
      | Some (Inr p) \<Rightarrow>
          (case js_toks p of
             None \<Rightarrow> Some (js_count p, p)
           | Some ts \<Rightarrow>
               (case find_open ts (js_next p) of
                  None \<Rightarrow> None
                | Some None \<Rightarrow> Some (js_count p, p)
                | Some (Some i) \<Rightarrow> Some (JSMN_ERROR_PART, p))))"

end
