(* ===== verification/Json_Correct.thy ===== *)
theory Json_Correct
  imports Json
begin

text \<open>
  Correctness of the tokenizer. \<open>cores\<close> is what a token says about the text: type, start and
  end of the tokens allocated so far. Every operation is described on \<open>cores\<close>; the safety
  theorem and the correctness theorem for documents follow from these descriptions.
\<close>

section \<open>Token cores\<close>

type_synonym core = "jsmntype \<times> int \<times> int"

definition core :: "jsmntok \<Rightarrow> core" where
  "core t = (tok_type t, tok_start t, tok_end t)"

definition cores :: "jsmn \<Rightarrow> core list" where
  "cores p = (case js_toks p of None \<Rightarrow> [] | Some ts \<Rightarrow> map core (take (js_next p) ts))"

definition core_open :: "core \<Rightarrow> bool" where
  "core_open c \<longleftrightarrow> (case c of (_, s, e) \<Rightarrow> s \<noteq> -1 \<and> e = -1)"

definition js_wf :: "nat \<Rightarrow> jsmn \<Rightarrow> bool" where
  "js_wf num p \<longleftrightarrow> (\<exists>ts. js_toks p = Some ts \<and> length ts = num) \<and> js_next p \<le> num \<and>
     - 1 \<le> js_super p \<and> js_super p < int (js_next p) \<and> js_count p = int (js_next p)"

lemma cores_length: "js_wf num p \<Longrightarrow> length (cores p) = js_next p"
  by (auto simp: js_wf_def cores_def)

lemma tok_open_core: "tok_open t = core_open (core t)"
  by (simp add: tok_open_def core_open_def core_def)

lemma js_wfE:
  assumes "js_wf num p"
  obtains ts where "js_toks p = Some ts" "length ts = num" "js_next p \<le> num" "- 1 \<le> js_super p"
    "js_super p < int (js_next p)" "js_count p = int (js_next p)" "cores p = map core (take (js_next p) ts)"
  using assms by (auto simp: js_wf_def cores_def)

text \<open>\<open>find_open\<close> never leaves the allocated tokens and finds the last open one.\<close>

lemma find_open_total: "n \<le> length ts \<Longrightarrow> \<exists>r. find_open ts n = Some r"
  by (induction n) (auto simp: ld8_def)

lemma find_open_None: "n \<le> length ts \<Longrightarrow> find_open ts n = Some None \<longleftrightarrow> (\<forall>i < n. \<not> tok_open (ts ! i))"
  by (induction n) (auto simp: ld8_def less_Suc_eq)

lemma find_open_Some: "n \<le> length ts \<Longrightarrow> find_open ts n = Some (Some i) \<longleftrightarrow>
    i < n \<and> tok_open (ts ! i) \<and> (\<forall>j. i < j \<longrightarrow> j < n \<longrightarrow> \<not> tok_open (ts ! j))"
proof (induction n)
  case 0
  then show ?case by simp
next
  case (Suc n)
  then show ?case by (cases "i = n") (auto simp: ld8_def less_Suc_eq)
qed

lemma core_nth:
  assumes "js_wf num p" "js_toks p = Some ts" "i < js_next p"
  shows "cores p ! i = core (ts ! i)"
  using assms by (auto simp: js_wf_def cores_def)

lemma core_size [simp]: "core (t\<lparr>tok_size := n\<rparr>) = core t"
  by (simp add: core_def)

lemma map_core_bump:
  assumes "i < length ts"
  shows "map core (take n (ts[i := (ts ! i)\<lparr>tok_size := k\<rparr>])) = map core (take n ts)"
proof -
  have "map core (ts[i := (ts ! i)\<lparr>tok_size := k\<rparr>]) = map core ts"
    using assms by (intro nth_equalityI) (auto simp: nth_list_update)
  then show ?thesis by (metis take_map)
qed

text \<open>The operations on \<open>cores\<close>. \<open>p\<close> may have its count ahead by one.\<close>

lemma cores_upd [simp]: "cores (p\<lparr>js_count := k\<rparr>) = cores p" "cores (p\<lparr>js_pos := i\<rparr>) = cores p"
  "cores (p\<lparr>js_super := z\<rparr>) = cores p"
  by (simp_all add: cores_def split: option.split)

lemma js_wf_upd [simp]: "js_wf num (p\<lparr>js_pos := i\<rparr>) = js_wf num p"
  by (simp add: js_wf_def)

lemma bump_super_wf:
  assumes "js_wf num (p\<lparr>js_count := k\<rparr>)"
  shows "\<exists>p'. bump_super p = Some p' \<and> js_wf num (p'\<lparr>js_count := k\<rparr>) \<and> cores p' = cores p \<and>
    js_next p' = js_next p \<and> js_pos p' = js_pos p \<and> js_count p' = js_count p"
proof (cases "js_super p = -1")
  case True
  then have "bump_super p = Some p" by (simp add: bump_super_def split: option.split)
  with assms show ?thesis by simp
next
  case False
  with assms obtain ts where ts: "js_toks p = Some ts" "length ts = num" "js_next p \<le> num"
    "0 \<le> js_super p" "js_super p < int (js_next p)" by (auto simp: js_wf_def)
  let ?i = "nat (js_super p)"
  let ?p = "p\<lparr>js_toks := Some (ts[?i := (ts ! ?i)\<lparr>tok_size := tok_size (ts ! ?i) + 1\<rparr>])\<rparr>"
  have i: "?i < length ts" using ts by linarith
  then have "bump_super p = Some ?p" using False ts by (simp add: bump_super_def Let_def)
  moreover have "js_wf num (?p\<lparr>js_count := k\<rparr>)" using assms ts by (simp add: js_wf_def)
  moreover have "cores ?p = cores p" using i ts by (simp add: cores_def map_core_bump)
  ultimately show ?thesis by simp
qed

lemma bump_super_wf0:
  assumes "js_wf num p"
  shows "\<exists>p'. bump_super p = Some p' \<and> js_wf num p' \<and> cores p' = cores p \<and>
    js_next p' = js_next p \<and> js_pos p' = js_pos p"
proof -
  have "js_wf num (p\<lparr>js_count := js_count p\<rparr>)" using assms by simp
  from bump_super_wf [OF this] obtain p' where p': "bump_super p = Some p'" "js_wf num (p'\<lparr>js_count := js_count p\<rparr>)"
    "cores p' = cores p" "js_next p' = js_next p" "js_pos p' = js_pos p" "js_count p' = js_count p" by blast
  then have "p'\<lparr>js_count := js_count p\<rparr> = p'" by simp
  with p' show ?thesis by metis
qed

lemma alloc_full: "js_wf num p \<Longrightarrow> js_next p = num \<Longrightarrow> jsmn_alloc_token num p = Some None"
  by (simp add: jsmn_alloc_token_def)

lemma new_token_wf:
  assumes "js_wf num p"
  shows "if js_next p = num
    then new_token num ty st en start p = Some (JSMN_ERROR_NOMEM, p\<lparr>js_pos := start\<rparr>)
    else \<exists>p'. new_token num ty st en start p = Some (0, p') \<and> js_wf num (p'\<lparr>js_count := js_count p' + 1\<rparr>) \<and>
      cores p' = cores p @ [(ty, st, en)] \<and> js_next p' = js_next p + 1 \<and> js_pos p' = js_pos p"
proof (cases "js_next p = num")
  case True
  then show ?thesis by (simp add: new_token_def jsmn_alloc_token_def)
next
  case False
  with assms obtain ts where "js_toks p = Some ts" "length ts = num" "js_next p < num" by (auto simp: js_wf_def)
  with assms False show ?thesis
    by (auto simp: new_token_def jsmn_alloc_token_def jsmn_fill_token_def js_wf_def cores_def core_def
        take_Suc_conv_app_nth)
qed

lemma js_leaf_new_token:
  assumes "js_wf num p"
  shows "if js_next p = num
    then js_leaf (new_token num ty st en start p) = Some (Inl (JSMN_ERROR_NOMEM, p\<lparr>js_pos := start\<rparr>))
    else \<exists>p'. js_leaf (new_token num ty st en start p) = Some (Inr p') \<and> js_wf num p' \<and>
      cores p' = cores p @ [(ty, st, en)] \<and> js_next p' = js_next p + 1 \<and> js_pos p' = js_pos p"
proof (cases "js_next p = num")
  case True
  with new_token_wf [OF assms, of ty st en start] show ?thesis
    by (simp add: js_leaf_def JSMN_ERROR_NOMEM_def)
next
  case False
  with new_token_wf [OF assms, of ty st en start] obtain q where q:
    "new_token num ty st en start p = Some (0, q)" "js_wf num (q\<lparr>js_count := js_count q + 1\<rparr>)"
    "cores q = cores p @ [(ty, st, en)]" "js_next q = js_next p + 1" "js_pos q = js_pos p" by auto
  let ?q = "q\<lparr>js_count := js_count q + 1\<rparr>"
  from bump_super_wf0 [OF q(2)] obtain p' where "bump_super ?q = Some p'" "js_wf num p'" "cores p' = cores ?q"
    "js_next p' = js_next ?q" "js_pos p' = js_pos ?q" by blast
  with q False show ?thesis by (simp add: js_leaf_def)
qed

lemma js_open_wf:
  assumes "js_wf num p"
  shows "if js_next p = num then \<exists>q. js_open_bracket c num p = Some (Inl (JSMN_ERROR_NOMEM, q))
    else \<exists>p'. js_open_bracket c num p = Some (Inr p') \<and> js_wf num p' \<and>
      cores p' = cores p @ [(if c = LBRACE then JSMN_OBJECT else JSMN_ARRAY, int (js_pos p), -1)] \<and>
      js_next p' = js_next p + 1 \<and> js_pos p' = js_pos p"
proof (cases "js_next p = num")
  case True
  with assms show ?thesis by (auto simp: js_open_bracket_def jsmn_alloc_token_def Let_def js_wf_def)
next
  case False
  let ?p1 = "p\<lparr>js_count := js_count p + 1\<rparr>"
  from assms obtain ts where ts: "js_toks p = Some ts" "length ts = num" "js_next p < num"
    using False by (auto simp: js_wf_def)
  obtain q where q: "jsmn_alloc_token num ?p1 = Some (Some (js_next p, q))" "js_wf num q"
    "js_toks q = Some (ts[js_next p := (ts ! js_next p)\<lparr>tok_start := -1, tok_end := -1, tok_size := 0\<rparr>])"
    "js_next q = js_next p + 1" "js_pos q = js_pos p"
    using assms ts by (auto simp: jsmn_alloc_token_def js_wf_def)
  from bump_super_wf0 [OF q(2)] obtain r where r: "bump_super q = Some r" "js_wf num r" "cores r = cores q"
    "js_next r = js_next q" "js_pos r = js_pos q" by blast
  obtain us where us: "js_toks r = Some us" "length us = num" using r(2) by (auto simp: js_wf_def)
  have n: "js_next r = Suc (js_next p)" using q(4) r(4) by simp
  have cr: "map core (take (Suc (js_next p)) us) = cores p @ [(tok_type (ts ! js_next p), -1, -1)]"
    using r(3) q(3,4) n us ts by (simp add: cores_def take_Suc_conv_app_nth core_def)
  then have pre: "map core (take (js_next p) us) = cores p" and en: "tok_end (us ! js_next p) = -1"
    using us ts by (auto simp: take_Suc_conv_app_nth core_def)
  let ?u = "us[js_next p := (us ! js_next p)\<lparr>tok_type := (if c = LBRACE then JSMN_OBJECT else JSMN_ARRAY),
      tok_start := int (js_pos r)\<rparr>]"
  let ?r = "r\<lparr>js_toks := Some ?u, js_super := int (js_next r) - 1\<rparr>"
  have "js_open_bracket c num p = Some (Inr ?r)"
    using ts us q(1) r(1) by (simp add: js_open_bracket_def Let_def)
  moreover have "js_wf num ?r" using r(2) us n by (auto simp: js_wf_def)
  moreover have "cores ?r = cores p @ [(if c = LBRACE then JSMN_OBJECT else JSMN_ARRAY, int (js_pos p), -1)]"
    using us ts n r(5) q(5) en pre by (simp add: cores_def take_Suc_conv_app_nth core_def)
  ultimately show ?thesis using False n r(5) q(5) by auto
qed

lemma js_close_found:
  assumes "js_wf num p" "js_toks p = Some ts" "find_open ts (js_next p) = Some (Some i)"
  shows "if fst (cores p ! i) = (if c = RBRACE then JSMN_OBJECT else JSMN_ARRAY)
    then \<exists>p'. js_close_bracket c p = Some (Inr p') \<and> js_wf num p' \<and> i < js_next p \<and>
      cores p' = (cores p)[i := (fst (cores p ! i), fst (snd (cores p ! i)), int (js_pos p) + 1)] \<and>
      js_next p' = js_next p \<and> js_pos p' = js_pos p
    else js_close_bracket c p = Some (Inl (JSMN_ERROR_INVAL, p))"
proof -
  from assms(1,2) have ts: "length ts = num" "js_next p \<le> num" by (auto simp: js_wf_def)
  have i: "i < js_next p" using assms(3) ts by (simp add: find_open_Some)
  have ty: "fst (cores p ! i) = tok_type (ts ! i)" using core_nth [OF assms(1,2) i] by (simp add: core_def)
  show ?thesis
  proof (cases "fst (cores p ! i) = (if c = RBRACE then JSMN_OBJECT else JSMN_ARRAY)")
    case False
    then show ?thesis using assms unfolding ty by (simp add: js_close_bracket_def Let_def)
  next
    case True
    let ?ts = "ts[i := (ts ! i)\<lparr>tok_end := int (js_pos p) + 1\<rparr>]"
    have "i + 1 \<le> length ?ts" using i ts by simp
    from find_open_total [OF this] obtain s where s: "find_open ?ts (i + 1) = Some s" by blast
    have sj: "j < js_next p" if "s = Some j" for j
      using s that i ts find_open_Some [of "i + 1" ?ts j] by simp
    have c: "map core (take (js_next p) ?ts) = (cores p)[i := (fst (cores p ! i), fst (snd (cores p ! i)), int (js_pos p) + 1)]"
      using assms(2) ts i by (simp add: cores_def take_update_swap map_update core_def)
    let ?p = "p\<lparr>js_toks := Some ?ts, js_super := (case s of None \<Rightarrow> -1 | Some j \<Rightarrow> int j)\<rparr>"
    have "js_close_bracket c p = Some (Inr ?p)"
      using assms s True unfolding ty by (cases s) (simp_all add: js_close_bracket_def Let_def)
    moreover have "js_wf num ?p" using assms(1) ts sj by (cases s) (auto simp: js_wf_def)
    ultimately show ?thesis using True c i by (auto simp: cores_def)
  qed
qed

lemma js_close_wf:
  assumes "js_wf num p"
  shows "(\<exists>q. js_close_bracket c p = Some (Inl (JSMN_ERROR_INVAL, q))) \<or>
    (\<exists>i p'. js_close_bracket c p = Some (Inr p') \<and> js_wf num p' \<and> i < js_next p \<and>
      cores p' = (cores p)[i := (fst (cores p ! i), fst (snd (cores p ! i)), int (js_pos p) + 1)] \<and>
      js_next p' = js_next p \<and> js_pos p' = js_pos p)"
proof -
  from assms obtain ts where ts: "js_toks p = Some ts" "length ts = num" "js_next p \<le> num" by (auto simp: js_wf_def)
  obtain r where r: "find_open ts (js_next p) = Some r" using find_open_total ts by blast
  show ?thesis
  proof (cases r)
    case None
    with r ts show ?thesis by (simp add: js_close_bracket_def Let_def)
  next
    case (Some i)
    with r js_close_found [OF assms ts(1), of i c] show ?thesis by (auto split: if_splits)
  qed
qed

section \<open>Safety\<close>

lemma prim_scan_total:
  "len \<le> length js \<Longrightarrow> \<exists>r. prim_scan js len pos = Some r \<and> r \<noteq> Partial \<and> (\<forall>q. r = Found q \<longrightarrow> q \<le> max pos len)"
proof (induction js len pos rule: prim_scan.induct)
  case (1 js len pos)
  show ?case
  proof (cases "pos < len")
    case False
    then show ?thesis by (subst prim_scan.simps) simp
  next
    case True
    with 1(2) have c: "ld8 js pos = Some (js ! pos)" by (simp add: ld8_def)
    show ?thesis
    proof (cases "js ! pos = 0 \<or> js ! pos \<in> set prim_ends \<or> sint (js ! pos) < 32 \<or> 127 \<le> sint (js ! pos)")
      case stop: True
      then show ?thesis using True c by (subst prim_scan.simps) auto
    next
      case False
      with True c have "prim_scan js len pos = prim_scan js len (pos + 1)" by (subst prim_scan.simps) auto
      then show ?thesis using 1(1) [OF True c] False True 1(2) by (auto simp: max_def)
    qed
  qed
qed

lemma hex_scan_total: "len \<le> length js \<Longrightarrow> \<exists>r. hex_scan js len n pos = Some r \<and> r \<noteq> Partial"
  by (induction js len n pos rule: hex_scan.induct) (auto simp: ld8_def)

lemma str_scan_total: "len \<le> length js \<Longrightarrow> \<exists>r. str_scan js len pos = Some r"
proof (induction js len pos rule: str_scan.induct)
  case (1 js len pos)
  show ?case
  proof (cases "pos < len")
    case False
    then show ?thesis by (subst str_scan.simps) simp
  next
    case pos: True
    with 1(4) have c: "ld8 js pos = Some (js ! pos)" by (simp add: ld8_def)
    consider "js ! pos = 0 \<or> js ! pos = QUOTE" | "js ! pos \<noteq> 0" "js ! pos \<noteq> QUOTE" "js ! pos = BSLASH \<and> pos + 1 < len"
      | "js ! pos \<noteq> 0" "js ! pos \<noteq> QUOTE" "\<not> (js ! pos = BSLASH \<and> pos + 1 < len)" by blast
    then show ?thesis
    proof cases
      case 1
      with pos c show ?thesis by (subst str_scan.simps) auto
    next
      case 2
      with 1(4) have e: "ld8 js (pos + 1) = Some (js ! (pos + 1))" by (simp add: ld8_def)
      obtain r where r: "hex_scan js len 4 (pos + 2) = Some r" "r \<noteq> Partial" using hex_scan_total [OF 1(4)] by blast
      note s = str_scan.simps [of js len pos]
      consider "js ! (pos + 1) \<in> set escapes" | "js ! (pos + 1) \<notin> set escapes" "js ! (pos + 1) = 117"
        | "js ! (pos + 1) \<notin> set escapes" "js ! (pos + 1) \<noteq> 117" by blast
      then show ?thesis
      proof cases
        case esc: 1
        then have "str_scan js len pos = str_scan js len (pos + 2)" unfolding s using pos c 2 e by simp
        with 1(1) [OF pos c 2 e esc 1(4)] show ?thesis by simp
      next
        case hex: 2
        show ?thesis
        proof (cases r)
          case (Found q)
          then have "str_scan js len pos = str_scan js len q" unfolding s using pos c 2 e hex r by simp
          with 1(2) [OF pos c 2 e hex r(1) Found 1(4)] show ?thesis by simp
        qed (use s pos c 2 e hex r in simp_all)
      next
        case 3
        then show ?thesis unfolding s using pos c 2 e by simp
      qed
    next
      case 3
      then have "str_scan js len pos = str_scan js len (pos + 1)"
        using pos c by (subst str_scan.simps) auto
      with 1(3) [OF pos c 3 1(4)] show ?thesis by simp
    qed
  qed
qed

text \<open>What a token must satisfy when the parser stands at \<open>pos\<close>.\<close>

definition core_ok :: "nat \<Rightarrow> nat \<Rightarrow> core \<Rightarrow> bool" where
  "core_ok len pos c \<longleftrightarrow> (case c of (ty, s, e) \<Rightarrow>
     ty \<noteq> JSMN_UNDEFINED \<and> 0 \<le> s \<and> s \<le> int pos \<and> (e = -1 \<or> s \<le> e \<and> e \<le> int len))"

definition js_ok :: "nat \<Rightarrow> nat \<Rightarrow> jsmn \<Rightarrow> bool" where
  "js_ok num len p \<longleftrightarrow> js_wf num p \<and> (\<forall>c \<in> set (cores p). core_ok len (js_pos p) c)"

definition js_errors :: "int set" where
  "js_errors = {JSMN_ERROR_NOMEM, JSMN_ERROR_INVAL, JSMN_ERROR_PART}"

definition step_ok :: "nat \<Rightarrow> nat \<Rightarrow> ((int \<times> jsmn) + jsmn) option \<Rightarrow> bool" where
  "step_ok num len r \<longleftrightarrow> (case r of None \<Rightarrow> False | Some (Inl (e, q)) \<Rightarrow> e \<in> js_errors | Some (Inr q) \<Rightarrow> js_ok num len q)"

lemma core_ok_mono: "core_ok len pos c \<Longrightarrow> pos \<le> pos' \<Longrightarrow> core_ok len pos' c"
  by (auto simp: core_ok_def)

lemma js_ok_pos: "js_ok num len p \<Longrightarrow> js_pos p \<le> i \<Longrightarrow> js_ok num len (p\<lparr>js_pos := i\<rparr>)"
  by (auto simp: js_ok_def intro: core_ok_mono)

lemma js_string_safe:
  assumes "js_ok num len p" "len \<le> length js"
  shows "step_ok num len (js_leaf (jsmn_parse_string js len num p))"
proof -
  obtain r where r: "str_scan js len (js_pos p + 1) = Some r" using str_scan_total assms(2) by blast
  have t: "js_toks p \<noteq> None" using assms(1) by (auto simp: js_ok_def js_wf_def)
  show ?thesis
  proof (cases r)
    case (Found q)
    let ?p = "p\<lparr>js_pos := q\<rparr>"
    have q: "js_pos p + 1 \<le> q" "q < len" using str_scan_bounds r Found by blast+
    have e: "jsmn_parse_string js len num p = new_token num JSMN_STRING (int (js_pos p) + 1) (int q) (js_pos p) ?p"
      using r Found t by (auto simp: jsmn_parse_string_def Let_def)
    have "js_ok num len ?p" using js_ok_pos [OF assms(1)] q by simp
    moreover have wf: "js_wf num ?p" using assms(1) by (simp add: js_ok_def)
    moreover have "core_ok len q (JSMN_STRING, int (js_pos p) + 1, int q)" using q by (simp add: core_ok_def)
    ultimately show ?thesis
      using js_leaf_new_token [OF wf, of JSMN_STRING "int (js_pos p) + 1" "int q" "js_pos p"] unfolding e
      by (auto simp: step_ok_def js_errors_def js_ok_def split: if_splits)
  qed (use r t in \<open>simp_all add: jsmn_parse_string_def step_ok_def js_leaf_def js_errors_def
      JSMN_ERROR_INVAL_def JSMN_ERROR_PART_def\<close>)
qed

lemma map_option_leaf:
  "js_leaf (map_option (\<lambda>(r, p'). if r < 0 then (r, p') else (r, p'\<lparr>js_pos := i\<rparr>)) sub) =
    map_option (\<lambda>x. case x of Inl y \<Rightarrow> Inl y | Inr p' \<Rightarrow> Inr (p'\<lparr>js_pos := i\<rparr>)) (js_leaf sub)"
  by (auto simp: js_leaf_def bump_super_def Let_def split: option.split)

lemma js_primitive_safe:
  assumes "js_ok num len p" "len \<le> length js"
    and c: "js_pos p < len" "ld8 js (js_pos p) = Some c" "c \<noteq> 0" "c \<notin> set prim_ends"
  shows "step_ok num len (js_leaf (jsmn_parse_primitive js len num p))"
proof -
  obtain r where r: "prim_scan js len (js_pos p) = Some r" "r \<noteq> Partial" "\<And>q. r = Found q \<Longrightarrow> q \<le> len"
    using prim_scan_total [OF assms(2), of "js_pos p"] c(1) by auto
  have t: "js_toks p \<noteq> None" using assms(1) by (auto simp: js_ok_def js_wf_def)
  show ?thesis
  proof (cases r)
    case (Found q)
    let ?p = "p\<lparr>js_pos := q\<rparr>"
    have q: "js_pos p < q" "q \<le> len" using prim_scan_forward [OF _ c] r Found by auto
    have e: "jsmn_parse_primitive js len num p =
        map_option (\<lambda>(r, p'). if r < 0 then (r, p') else (r, p'\<lparr>js_pos := q - 1\<rparr>))
          (new_token num JSMN_PRIMITIVE (int (js_pos p)) (int q) (js_pos p) ?p)"
      using r(1) Found t by (auto simp: jsmn_parse_primitive_def Let_def)
    have wf: "js_wf num ?p" using assms(1) by (simp add: js_ok_def)
    have "js_ok num len (p\<lparr>js_pos := q - 1\<rparr>)" using js_ok_pos [OF assms(1)] q by simp
    then have ok: "\<forall>c \<in> set (cores p). core_ok len (q - 1) c" by (simp add: js_ok_def)
    have new: "core_ok len (q - 1) (JSMN_PRIMITIVE, int (js_pos p), int q)" using q by (auto simp: core_ok_def)
    show ?thesis
      using js_leaf_new_token [OF wf, of JSMN_PRIMITIVE "int (js_pos p)" "int q" "js_pos p"] ok new
      unfolding e map_option_leaf
      by (auto simp: step_ok_def js_errors_def js_ok_def split: if_splits)
  qed (use r t in \<open>simp_all add: jsmn_parse_primitive_def step_ok_def js_leaf_def js_errors_def JSMN_ERROR_INVAL_def\<close>)
qed

lemma jsmn_step_safe:
  assumes "js_ok num len p" "len \<le> length js" "js_pos p < len" "ld8 js (js_pos p) = Some c" "c \<noteq> 0"
  shows "step_ok num len (jsmn_step js len num c p)"
proof -
  have wf: "js_wf num p" using assms(1) by (simp add: js_ok_def)
  consider "c = LBRACE \<or> c = LBRACK" | "c = RBRACE \<or> c = RBRACK" | "c = QUOTE" | "c = COMMA"
    | "c \<in> {9, 13, 10, 32}" | "c = COLON"
    | "c \<notin> set prim_ends" "c \<notin> {LBRACE, LBRACK, QUOTE}" by (auto simp: prim_ends_def)
  then show ?thesis
  proof cases
    case 1
    then have s: "jsmn_step js len num c p = js_open_bracket c num p" by (auto simp: jsmn_step_def)
    have "core_ok len (js_pos p) (if c = LBRACE then JSMN_OBJECT else JSMN_ARRAY, int (js_pos p), -1)"
      by (simp add: core_ok_def)
    then show ?thesis using js_open_wf [OF wf, of c] assms(1) unfolding s
      by (auto simp: step_ok_def js_errors_def js_ok_def split: if_splits)
  next
    case 2
    then have s: "jsmn_step js len num c p = js_close_bracket c p" by (auto simp: jsmn_step_def)
    show ?thesis using js_close_wf [OF wf, of c]
    proof
      assume "\<exists>q. js_close_bracket c p = Some (Inl (JSMN_ERROR_INVAL, q))"
      then show ?thesis by (auto simp: s step_ok_def js_errors_def)
    next
      assume "\<exists>i p'. js_close_bracket c p = Some (Inr p') \<and> js_wf num p' \<and> i < js_next p \<and>
        cores p' = (cores p)[i := (fst (cores p ! i), fst (snd (cores p ! i)), int (js_pos p) + 1)] \<and>
        js_next p' = js_next p \<and> js_pos p' = js_pos p"
      then obtain i p' where c: "js_close_bracket c p = Some (Inr p')" "js_wf num p'" "i < js_next p" "js_pos p' = js_pos p"
        "cores p' = (cores p)[i := (fst (cores p ! i), fst (snd (cores p ! i)), int (js_pos p) + 1)]" by blast
      have "core_ok len (js_pos p) (cores p ! i)"
        using assms(1) c(3) cores_length [OF wf] by (simp add: js_ok_def)
      then have "core_ok len (js_pos p) (fst (cores p ! i), fst (snd (cores p ! i)), int (js_pos p) + 1)"
        using assms(3) by (auto simp: core_ok_def split: prod.splits)
      then have "js_ok num len p'"
        using c assms(1) by (auto simp: js_ok_def dest!: set_update_subset_insert [THEN subsetD])
      then show ?thesis by (simp add: s c step_ok_def)
    qed
  next
    case 3
    then show ?thesis using js_string_safe [OF assms(1,2)] by (simp add: jsmn_step_def)
  next
    case 4
    then show ?thesis using assms(1) wf
      by (auto simp: jsmn_step_def js_comma_def step_ok_def js_wf_def nat_less_iff split: option.split)
  next
    case 5
    then show ?thesis using assms(1) by (auto simp: jsmn_step_def step_ok_def)
  next
    case 6
    have "js_ok num len (p\<lparr>js_super := int (js_next p) - 1\<rparr>)" using assms(1) by (auto simp: js_ok_def js_wf_def)
    with 6 show ?thesis by (simp add: jsmn_step_def step_ok_def)
  next
    case 7
    then show ?thesis using js_primitive_safe [OF assms 7(1)]
      by (auto simp: jsmn_step_def prim_ends_def)
  qed
qed

lemma jsmn_loop_safe:
  "js_ok num len p \<Longrightarrow> len \<le> length js \<Longrightarrow> step_ok num len (jsmn_loop js len num p)"
proof (induction js len num p rule: jsmn_loop.induct)
  case (1 js len num p)
  show ?case
  proof (cases "js_pos p < len")
    case False
    with 1(2) show ?thesis by (subst jsmn_loop.simps) (simp add: step_ok_def)
  next
    case True
    then have c: "ld8 js (js_pos p) = Some (js ! js_pos p)" using 1(3) by (simp add: ld8_def)
    show ?thesis
    proof (cases "js ! js_pos p = 0")
      case z: True
      with True c 1(2) show ?thesis by (subst jsmn_loop.simps) (simp add: step_ok_def)
    next
      case nz: False
      have s: "step_ok num len (jsmn_step js len num (js ! js_pos p) p)"
        by (rule jsmn_step_safe [OF 1(2,3) True c nz])
      then obtain x where x: "jsmn_step js len num (js ! js_pos p) p = Some x"
        by (cases "jsmn_step js len num (js ! js_pos p) p") (auto simp: step_ok_def)
      show ?thesis
      proof (cases x)
        case (Inl y)
        with s x True c nz show ?thesis by (subst jsmn_loop.simps) simp
      next
        case (Inr p')
        have "js_ok num len p'" using s x Inr by (simp add: step_ok_def)
        then have "js_ok num len (p'\<lparr>js_pos := js_pos p' + 1\<rparr>)" by (rule js_ok_pos) simp
        from 1(1) [OF True c nz x Inr this 1(3)] x Inr True c nz show ?thesis
          by (subst jsmn_loop.simps) simp
      qed
    qed
  qed
qed


section \<open>Documents\<close>

text \<open>
  A document is a string, a primitive (number, \<open>true\<close>, \<open>false\<close>, \<open>null\<close>) or a bracket with
  items; before each item and before the closing bracket stands a filler of white space,
  colons and commas. The keys and values of an object are its items in turn, so every JSON text
  in any layout is such a document.
\<close>

datatype jdoc = DStr bytes | DPrim bytes | DBr bool jitems bytes
  and jitems = INil | ICons bytes jdoc jitems

definition open_ch :: "bool \<Rightarrow> u8" where "open_ch b = (if b then LBRACE else LBRACK)"
definition close_ch :: "bool \<Rightarrow> u8" where "close_ch b = (if b then RBRACE else RBRACK)"

primrec rend :: "jdoc \<Rightarrow> bytes" and irend :: "jitems \<Rightarrow> bytes" where
  "rend (DStr s) = QUOTE # s @ [QUOTE]"
| "rend (DPrim p) = p"
| "rend (DBr b is f) = open_ch b # irend is @ f @ [close_ch b]"
| "irend INil = []"
| "irend (ICons f d is) = f @ rend d @ irend is"

text \<open>The tokens of a document that starts at offset \<open>off\<close>.\<close>

primrec toks :: "jdoc \<Rightarrow> nat \<Rightarrow> core list" and itoks :: "jitems \<Rightarrow> nat \<Rightarrow> core list" where
  "toks (DStr s) off = [(JSMN_STRING, int off + 1, int off + 1 + int (length s))]"
| "toks (DPrim p) off = [(JSMN_PRIMITIVE, int off, int off + int (length p))]"
| "toks (DBr b is f) off =
     (if b then JSMN_OBJECT else JSMN_ARRAY, int off, int off + int (length (rend (DBr b is f)))) # itoks is (off + 1)"
| "itoks INil off = []"
| "itoks (ICons f d is) off = toks d (off + length f) @ itoks is (off + length f + length (rend d))"

text \<open>The grammar of the leaves: escapes in strings, printable characters in primitives.\<close>

fun str_ok :: "bytes \<Rightarrow> bool" where
  "str_ok [] = True"
| "str_ok (c # s) =
     (if c = BSLASH then
        (case s of
           [] \<Rightarrow> False
         | e # r \<Rightarrow>
             (if e \<in> set escapes then str_ok r
              else e = 117 \<and> (case r of h1 # h2 # h3 # h4 # r' \<Rightarrow> is_hex h1 \<and> is_hex h2 \<and> is_hex h3 \<and> is_hex h4 \<and> str_ok r'
                               | _ \<Rightarrow> False)))
      else c \<noteq> 0 \<and> c \<noteq> QUOTE \<and> str_ok s)"

definition fillers :: "u8 set" where
  "fillers = {9, 13, 10, 32, COLON, COMMA}"

definition prim_ok :: "bytes \<Rightarrow> bool" where
  "prim_ok p \<longleftrightarrow> p \<noteq> [] \<and> hd p \<notin> {LBRACE, LBRACK, QUOTE} \<and>
     (\<forall>c \<in> set p. 32 \<le> sint c \<and> sint c < 127 \<and> c \<notin> set prim_ends)"

definition is_prim :: "jdoc \<Rightarrow> bool" where
  "is_prim d \<longleftrightarrow> (case d of DPrim _ \<Rightarrow> True | _ \<Rightarrow> False)"

text \<open>The flag says whether the item before was a primitive, which a filler must end.\<close>

primrec doc_ok :: "jdoc \<Rightarrow> bool" and items_ok :: "jitems \<Rightarrow> bool \<Rightarrow> bool" where
  "doc_ok (DStr s) = str_ok s"
| "doc_ok (DPrim p) = prim_ok p"
| "doc_ok (DBr b is f) = (items_ok is False \<and> set f \<subseteq> fillers)"
| "items_ok INil pr = True"
| "items_ok (ICons f d is) pr = (set f \<subseteq> fillers \<and> (pr \<longrightarrow> f \<noteq> []) \<and> doc_ok d \<and> items_ok is (is_prim d))"

section \<open>Scanning a leaf\<close>

lemma drop_ConsD: "drop i xs = y # ys \<Longrightarrow> i < length xs \<and> ld8 xs i = Some y \<and> drop (i + 1) xs = ys"
proof -
  assume d: "drop i xs = y # ys"
  then have i: "i < length xs" by (cases "i < length xs") auto
  with d Cons_nth_drop_Suc [OF i] show ?thesis by (simp add: ld8_def)
qed

lemma drop_appendD: "drop i xs = ys @ zs \<Longrightarrow> drop (i + length ys) xs = zs"
  by (metis add.commute append_eq_conv_conj drop_drop)

lemma hex_not_0: "is_hex c \<Longrightarrow> c \<noteq> 0"
  by (auto simp: is_hex_def)

lemma hex_scan_ok:
  "drop pos js = hs @ rest \<Longrightarrow> \<forall>h \<in> set hs. is_hex h \<Longrightarrow>
    hex_scan js (length js) (length hs) pos = Some (Found (pos + length hs))"
proof (induction hs arbitrary: pos)
  case Nil
  then show ?case by simp
next
  case (Cons h hs)
  then have d: "pos < length js" "ld8 js pos = Some h" "drop (pos + 1) js = hs @ rest"
    using drop_ConsD [of pos js h "hs @ rest"] by auto
  with Cons.IH [OF d(3)] Cons.prems(2) hex_not_0 [of h] show ?case by simp
qed

lemma str_scan_ok:
  "str_ok s \<Longrightarrow> drop pos js = s @ QUOTE # rest \<Longrightarrow>
    str_scan js (length js) pos = Some (Found (pos + length s))"
proof (induction "length s" arbitrary: s pos rule: less_induct)
  case less
  note s = str_scan.simps [of js "length js" pos]
  show ?case
  proof (cases s)
    case Nil
    with less.prems(2) drop_ConsD [of pos js QUOTE rest] show ?thesis by (simp add: s)
  next
    case (Cons c r)
    with less.prems(2) have d: "pos < length js" "ld8 js pos = Some c" "drop (pos + 1) js = r @ QUOTE # rest"
      using drop_ConsD [of pos js c "r @ QUOTE # rest"] by auto
    show ?thesis
    proof (cases "c = BSLASH")
      case False
      with less.prems(1) Cons have "c \<noteq> 0" "c \<noteq> QUOTE" "str_ok r" by auto
      with less.hyps [OF _ _ d(3)] d Cons False show ?thesis by (simp add: s)
    next
      case True
      with less.prems(1) Cons obtain e r1 where r: "r = e # r1" by (cases r) auto
      then have e: "pos + 1 < length js" "ld8 js (pos + 1) = Some e" "drop (pos + 2) js = r1 @ QUOTE # rest"
        using drop_ConsD [of "pos + 1" js e "r1 @ QUOTE # rest"] d(3) by auto
      show ?thesis
      proof (cases "e \<in> set escapes")
        case esc: True
        with less.prems(1) Cons True r have "str_ok r1" by simp
        with less.hyps [OF _ _ e(3)] Cons r have "str_scan js (length js) (pos + 2) = Some (Found (pos + 2 + length r1))" by simp
        with d e True esc Cons r show ?thesis by (simp add: s)
      next
        case False
        with less.prems(1) Cons True r obtain hs r2 where h: "r1 = hs @ r2" "length hs = 4" "\<forall>h \<in> set hs. is_hex h"
          "str_ok r2" "e = 117"
        proof -
          from less.prems(1) Cons True r False obtain h1 h2 h3 h4 r2 where
            "r1 = [h1, h2, h3, h4] @ r2" "\<forall>h \<in> set [h1, h2, h3, h4]. is_hex h" "str_ok r2" "e = 117"
            by (auto split: list.splits)
          then show ?thesis using that [of "[h1, h2, h3, h4]" r2] by simp
        qed
        then have dr: "drop (pos + 2) js = hs @ (r2 @ QUOTE # rest)" using e(3) by simp
        have "hex_scan js (length js) 4 (pos + 2) = Some (Found (pos + 2 + 4))"
          using hex_scan_ok [OF dr h(3)] h(2) by simp
        moreover have "drop (pos + 2 + 4) js = r2 @ QUOTE # rest" using drop_appendD [OF dr] h(2) by simp
        from less.hyps [OF _ h(4) this] Cons r h(1,2)
        have "str_scan js (length js) (pos + 2 + 4) = Some (Found (pos + 2 + 4 + length r2))" by simp
        ultimately show ?thesis using d e True False h Cons r by (simp add: s)
      qed
    qed
  qed
qed

lemma prim_scan_ok:
  "drop pos js = p @ rest \<Longrightarrow> \<forall>c \<in> set p. 32 \<le> sint c \<and> sint c < 127 \<and> c \<notin> set prim_ends \<Longrightarrow>
    rest = [] \<or> hd rest \<in> set prim_ends \<Longrightarrow> prim_scan js (length js) pos = Some (Found (pos + length p))"
proof (induction p arbitrary: pos)
  case Nil
  show ?case
  proof (cases rest)
    case r: Nil
    with Nil show ?thesis by (subst prim_scan.simps) simp
  next
    case (Cons c r)
    with Nil drop_ConsD [of pos js c r] show ?thesis by (subst prim_scan.simps) simp
  qed
next
  case (Cons c p)
  then have d: "pos < length js" "ld8 js pos = Some c" "drop (pos + 1) js = p @ rest"
    using drop_ConsD [of pos js c "p @ rest"] by auto
  have "c \<noteq> 0" using Cons.prems(2) by auto
  with Cons.IH [OF d(3)] Cons.prems(2,3) d show ?case by (subst prim_scan.simps) (simp add: not_le)
qed


section \<open>The loop on a document\<close>

text \<open>The loop advances over \<open>k\<close> bytes from \<open>p\<close> to \<open>p'\<close> and appends the tokens \<open>cs\<close>.\<close>

definition js_adv :: "bytes \<Rightarrow> nat \<Rightarrow> jsmn \<Rightarrow> nat \<Rightarrow> core list \<Rightarrow> jsmn \<Rightarrow> bool" where
  "js_adv js num p k cs p' \<longleftrightarrow> jsmn_loop js (length js) num p = jsmn_loop js (length js) num p' \<and>
     js_wf num p' \<and> cores p' = cores p @ cs \<and> js_pos p' = js_pos p + k"

lemma js_adv_refl: "js_wf num p \<Longrightarrow> js_adv js num p 0 [] p"
  by (simp add: js_adv_def)

lemma js_adv_trans:
  "js_adv js num p k cs q \<Longrightarrow> js_adv js num q l ds r \<Longrightarrow> js_adv js num p (k + l) (cs @ ds) r"
  by (simp add: js_adv_def)

lemma jsmn_loop_step:
  assumes "js_pos p < len" "ld8 js (js_pos p) = Some c" "c \<noteq> 0" "jsmn_step js len num c p = Some (Inr p')"
  shows "jsmn_loop js len num p = jsmn_loop js len num (p'\<lparr>js_pos := js_pos p' + 1\<rparr>)"
  using assms by (subst jsmn_loop.simps) simp

lemma js_adv_step:
  assumes "drop (js_pos p) js = c # rest" "c \<noteq> 0" "jsmn_step js (length js) num c p = Some (Inr p')"
    and "js_wf num p'" "cores p' = cores p @ cs" "js_pos p' + 1 = js_pos p + k"
  shows "js_adv js num p k cs (p'\<lparr>js_pos := js_pos p' + 1\<rparr>)"
  using jsmn_loop_step [OF _ _ assms(2,3)] drop_ConsD [OF assms(1)] assms(4-6) by (simp add: js_adv_def)

lemma js_adv_filler:
  "drop (js_pos p) js = f @ rest \<Longrightarrow> set f \<subseteq> fillers \<Longrightarrow> js_wf num p \<Longrightarrow> \<exists>p'. js_adv js num p (length f) [] p'"
proof (induction f arbitrary: p)
  case Nil
  then show ?case using js_adv_refl by fastforce
next
  case (Cons c f)
  then have d: "drop (js_pos p) js = c # (f @ rest)" by simp
  have wf: "- 1 \<le> js_super p" "js_super p < int (js_next p)" using Cons.prems(3) by (auto simp: js_wf_def)
  have "c \<in> fillers" using Cons.prems(2) by simp
  then obtain p1 where p1: "jsmn_step js (length js) num c p = Some (Inr p1)" "js_wf num p1" "cores p1 = cores p"
    "js_pos p1 = js_pos p"
  proof -
    assume c: "c \<in> fillers" and th: "\<And>p1. jsmn_step js (length js) num c p = Some (Inr p1) \<Longrightarrow> js_wf num p1 \<Longrightarrow>
      cores p1 = cores p \<Longrightarrow> js_pos p1 = js_pos p \<Longrightarrow> thesis"
    consider "c \<in> {9, 13, 10, 32}" | "c = COLON" | "c = COMMA" using c by (auto simp: fillers_def)
    then show thesis
    proof cases
      case 1
      then show ?thesis using Cons.prems(3) by (intro th [of p]) (auto simp: jsmn_step_def)
    next
      case 2
      then show ?thesis using Cons.prems(3)
        by (intro th [of "p\<lparr>js_super := int (js_next p) - 1\<rparr>"]) (auto simp: jsmn_step_def js_wf_def)
    next
      case 3
      then show ?thesis using Cons.prems(3) wf
        by (intro th [of p]) (auto simp: jsmn_step_def js_comma_def js_wf_def nat_less_iff split: option.split)
    qed
  qed
  have "c \<noteq> 0" using \<open>c \<in> fillers\<close> by (auto simp: fillers_def)
  have a: "js_adv js num p 1 [] (p1\<lparr>js_pos := js_pos p1 + 1\<rparr>)" (is "js_adv _ _ _ _ _ ?q")
    by (rule js_adv_step [OF d \<open>c \<noteq> 0\<close> p1(1,2)]) (simp_all add: p1)
  have "drop (js_pos ?q) js = f @ rest" using drop_ConsD [OF d] p1(4) by simp
  moreover have "js_wf num ?q" "set f \<subseteq> fillers" using p1(2) Cons.prems(2) by simp_all
  ultimately obtain r where "js_adv js num ?q (length f) [] r" using Cons.IH by blast
  from js_adv_trans [OF a this] show ?case by (auto simp: add.commute)
qed

lemma js_adv_string:
  assumes "drop (js_pos p) js = rend (DStr s) @ rest" "str_ok s" "js_wf num p" "js_next p < num"
  shows "\<exists>p'. js_adv js num p (length (rend (DStr s))) (toks (DStr s) (js_pos p)) p'"
proof -
  have d: "drop (js_pos p) js = QUOTE # (s @ QUOTE # rest)" using assms(1) by simp
  have sc: "str_scan js (length js) (js_pos p + 1) = Some (Found (js_pos p + 1 + length s))"
    using str_scan_ok [OF assms(2), of "js_pos p + 1" js rest] drop_ConsD [OF d] by simp
  have t: "js_toks p \<noteq> None" using assms(3) by (auto simp: js_wf_def)
  let ?p = "p\<lparr>js_pos := js_pos p + 1 + length s\<rparr>"
  have e: "jsmn_step js (length js) num QUOTE p =
      js_leaf (new_token num JSMN_STRING (int (js_pos p) + 1) (int (js_pos p + 1 + length s)) (js_pos p) ?p)"
    using sc t by (auto simp: jsmn_step_def jsmn_parse_string_def Let_def)
  have "js_wf num ?p" using assms(3) by simp
  from js_leaf_new_token [OF this, of JSMN_STRING "int (js_pos p) + 1" "int (js_pos p + 1 + length s)" "js_pos p"] assms(4)
  obtain p' where p': "jsmn_step js (length js) num QUOTE p = Some (Inr p')" "js_wf num p'"
    "cores p' = cores p @ toks (DStr s) (js_pos p)" "js_pos p' = js_pos p + 1 + length s"
    unfolding e by auto
  have "js_adv js num p (length (rend (DStr s))) (toks (DStr s) (js_pos p)) (p'\<lparr>js_pos := js_pos p' + 1\<rparr>)"
    by (rule js_adv_step [OF d _ p'(1-3)]) (simp_all add: p'(4))
  then show ?thesis by blast
qed

lemma js_adv_prim:
  assumes "drop (js_pos p) js = x @ rest" "prim_ok x" "rest = [] \<or> hd rest \<in> set prim_ends" "js_wf num p" "js_next p < num"
  shows "\<exists>p'. js_adv js num p (length x) (toks (DPrim x) (js_pos p)) p'"
proof -
  obtain c y where x: "x = c # y" using assms(2) by (cases x) (auto simp: prim_ok_def)
  have c: "c \<noteq> 0" "c \<notin> set prim_ends" "c \<notin> {LBRACE, LBRACK, QUOTE}" using assms(2) x by (auto simp: prim_ok_def)
  have d: "drop (js_pos p) js = c # (y @ rest)" using assms(1) x by simp
  have sc: "prim_scan js (length js) (js_pos p) = Some (Found (js_pos p + length x))"
    using prim_scan_ok [OF assms(1) _ assms(3)] assms(2) by (auto simp: prim_ok_def)
  have t: "js_toks p \<noteq> None" using assms(4) by (auto simp: js_wf_def)
  let ?q = "js_pos p + length x"
  let ?p = "p\<lparr>js_pos := ?q\<rparr>"
  have e: "jsmn_step js (length js) num c p = js_leaf (map_option (\<lambda>(r, p'). if r < 0 then (r, p') else (r, p'\<lparr>js_pos := ?q - 1\<rparr>))
      (new_token num JSMN_PRIMITIVE (int (js_pos p)) (int ?q) (js_pos p) ?p))"
    using sc t c by (auto simp: jsmn_step_def jsmn_parse_primitive_def Let_def prim_ends_def)
  have "js_wf num ?p" using assms(4) by simp
  from js_leaf_new_token [OF this, of JSMN_PRIMITIVE "int (js_pos p)" "int ?q" "js_pos p"] assms(5)
  obtain r where r: "js_leaf (new_token num JSMN_PRIMITIVE (int (js_pos p)) (int ?q) (js_pos p) ?p) = Some (Inr r)" "js_wf num r"
    "cores r = cores p @ toks (DPrim x) (js_pos p)" by auto
  then have p': "jsmn_step js (length js) num c p = Some (Inr (r\<lparr>js_pos := ?q - 1\<rparr>))"
    unfolding e map_option_leaf by simp
  have "js_adv js num p (length x) (toks (DPrim x) (js_pos p)) (r\<lparr>js_pos := ?q - 1, js_pos := js_pos (r\<lparr>js_pos := ?q - 1\<rparr>) + 1\<rparr>)"
    by (rule js_adv_step [OF d c(1) p']) (use r x in simp_all)
  then show ?thesis by blast
qed

text \<open>The closing bracket ends the last open token, here the one behind \<open>cs\<close>.\<close>

lemma js_close_match:
  assumes "js_wf num p" "cores p = cs @ (ty, st, -1) # ds" "0 \<le> st" "\<forall>d \<in> set ds. \<not> core_open d"
    and "ty = (if c = RBRACE then JSMN_OBJECT else JSMN_ARRAY)"
  shows "\<exists>p'. js_close_bracket c p = Some (Inr p') \<and> js_wf num p' \<and>
    cores p' = cs @ (ty, st, int (js_pos p) + 1) # ds \<and> js_pos p' = js_pos p"
proof -
  from assms(1) obtain ts where ts: "js_toks p = Some ts" "length ts = num" "js_next p \<le> num" by (auto simp: js_wf_def)
  let ?i = "length cs"
  have n: "js_next p = Suc (length cs + length ds)" using cores_length [OF assms(1)] assms(2) by simp
  have op: "tok_open (ts ! j) = core_open (cores p ! j)" if "j < js_next p" for j
    using core_nth [OF assms(1) ts(1) that] by (simp add: tok_open_core)
  have "find_open ts (js_next p) = Some (Some ?i)"
  proof (subst find_open_Some)
    show "js_next p \<le> length ts" using ts by simp
    have "\<not> tok_open (ts ! j)" if "?i < j" "j < js_next p" for j
    proof -
      have "cores p ! j = ds ! (j - ?i - 1)" using that assms(2) by (simp add: nth_append nth_Cons')
      moreover have "j - ?i - 1 < length ds" using that n by simp
      ultimately show ?thesis using op [OF that(2)] assms(4) nth_mem by auto
    qed
    moreover have "tok_open (ts ! ?i)" using op [of ?i] n assms(2,3) by (simp add: core_open_def)
    ultimately show "?i < js_next p \<and> tok_open (ts ! ?i) \<and> (\<forall>j. ?i < j \<longrightarrow> j < js_next p \<longrightarrow> \<not> tok_open (ts ! j))"
      using n by simp
  qed
  from js_close_found [OF assms(1) ts(1) this, of c] assms(2,5) show ?thesis by auto
qed


lemma toks_closed: "\<forall>c \<in> set (toks d off). \<not> core_open c" "\<forall>c \<in> set (itoks is off'). \<not> core_open c"
proof (induction d and "is" arbitrary: off and off')
  case (DBr b "is" f)
  then show ?case by (simp add: core_open_def)
next
  case (ICons f d "is")
  then show ?case by (auto simp: ball_Un)
qed (simp_all add: core_open_def)

lemma js_adv_next: "js_adv js num p k cs p' \<Longrightarrow> js_wf num p \<Longrightarrow> js_next p' = js_next p + length cs"
  using cores_length [of num p] cores_length [of num p'] by (simp add: js_adv_def)

lemma js_adv_drop: "js_adv js num p (length xs) cs p' \<Longrightarrow> drop (js_pos p) js = xs @ ys \<Longrightarrow> drop (js_pos p') js = ys"
  by (auto simp: js_adv_def dest: drop_appendD)

lemma js_adv_wf: "js_adv js num p k cs p' \<Longrightarrow> js_wf num p'"
  by (simp add: js_adv_def)

lemma fillers_prim_ends: "c \<in> fillers \<Longrightarrow> c \<in> set prim_ends"
  by (auto simp: fillers_def prim_ends_def)

lemma close_ch_prim_ends: "close_ch b \<in> set prim_ends"
  by (simp add: close_ch_def prim_ends_def)

lemma hd_filler: "set f \<subseteq> fillers \<Longrightarrow> xs = [] \<or> hd xs \<in> set prim_ends \<Longrightarrow> f @ xs = [] \<or> hd (f @ xs) \<in> set prim_ends"
  by (cases f) (auto dest: fillers_prim_ends)

lemma js_adv_doc:
  shows "doc_ok d \<Longrightarrow> drop (js_pos p) js = rend d @ rest \<Longrightarrow> is_prim d \<longrightarrow> rest = [] \<or> hd rest \<in> set prim_ends \<Longrightarrow>
      js_wf num p \<Longrightarrow> js_next p + length (toks d (js_pos p)) \<le> num \<Longrightarrow>
      \<exists>p'. js_adv js num p (length (rend d)) (toks d (js_pos p)) p'"
    and "items_ok is pr \<Longrightarrow> drop (js_pos p) js = irend is @ rest \<Longrightarrow> hd rest \<in> set prim_ends \<Longrightarrow>
      js_wf num p \<Longrightarrow> js_next p + length (itoks is (js_pos p)) \<le> num \<Longrightarrow>
      \<exists>p'. js_adv js num p (length (irend is)) (itoks is (js_pos p)) p'"
proof (induction d and "is" arbitrary: p rest and p rest pr)
  case (DStr s)
  then show ?case using js_adv_string [of p js s rest num] by simp
next
  case (DPrim x)
  then show ?case using js_adv_prim [of p js x rest num] by (simp add: is_prim_def)
next
  case (DBr b "is" f)
  let ?ty = "if b then JSMN_OBJECT else JSMN_ARRAY"
  have d: "drop (js_pos p) js = open_ch b # (irend is @ f @ close_ch b # rest)" using DBr.prems(2) by simp
  have n: "js_next p + 1 + length (itoks is (js_pos p + 1)) \<le> num" using DBr.prems(5) by simp
  have ok: "items_ok is False" "set f \<subseteq> fillers" using DBr.prems(1) by simp_all
  \<comment> \<open>the opening bracket\<close>
  have ob: "jsmn_step js (length js) num (open_ch b) p = js_open_bracket (open_ch b) num p"
    by (simp add: jsmn_step_def open_ch_def)
  have ty: "(if open_ch b = LBRACE then JSMN_OBJECT else JSMN_ARRAY) = ?ty" by (simp add: open_ch_def)
  obtain p1 where p1: "jsmn_step js (length js) num (open_ch b) p = Some (Inr p1)" "js_wf num p1"
    "cores p1 = cores p @ [(?ty, int (js_pos p), -1)]" "js_pos p1 = js_pos p"
    using js_open_wf [OF DBr.prems(4), of "open_ch b"] n unfolding ob ty by (auto split: if_splits)
  have ch: "open_ch b \<noteq> 0" "close_ch b \<noteq> 0" by (simp_all add: open_ch_def close_ch_def)
  let ?p1 = "p1\<lparr>js_pos := js_pos p1 + 1\<rparr>"
  have a1: "js_adv js num p 1 [(?ty, int (js_pos p), -1)] ?p1"
    by (rule js_adv_step [OF d ch(1) p1(1-3)]) (simp add: p1(4))
  \<comment> \<open>the items\<close>
  have d1: "drop (js_pos ?p1) js = irend is @ f @ close_ch b # rest" using drop_ConsD [OF d] p1(4) by simp
  have "hd (f @ close_ch b # rest) \<in> set prim_ends"
    using ok(2) close_ch_prim_ends by (cases f) (auto dest: fillers_prim_ends)
  moreover have "js_next ?p1 + length (itoks is (js_pos ?p1)) \<le> num"
    using js_adv_next [OF a1 DBr.prems(4)] n p1(4) by simp
  ultimately obtain p2 where a2: "js_adv js num ?p1 (length (irend is)) (itoks is (js_pos ?p1)) p2"
    using DBr.IH [OF ok(1) d1 _ js_adv_wf [OF a1]] by blast
  \<comment> \<open>the last filler and the closing bracket\<close>
  have d2: "drop (js_pos p2) js = f @ close_ch b # rest" by (rule js_adv_drop [OF a2 d1])
  obtain p3 where a3: "js_adv js num p2 (length f) [] p3"
    using js_adv_filler [OF d2 ok(2) js_adv_wf [OF a2]] by blast
  have d3: "drop (js_pos p3) js = close_ch b # rest" by (rule js_adv_drop [OF a3 d2])
  have c3: "cores p3 = cores p @ (?ty, int (js_pos p), -1) # itoks is (js_pos p + 1)"
    using a1 a2 a3 p1(4) by (simp add: js_adv_def)
  have pos3: "js_pos p3 = js_pos p + 1 + length (irend is) + length f" using a1 a2 a3 by (simp add: js_adv_def)
  have tc: "?ty = (if close_ch b = RBRACE then JSMN_OBJECT else JSMN_ARRAY)" by (simp add: close_ch_def)
  obtain p4 where p4: "js_close_bracket (close_ch b) p3 = Some (Inr p4)" "js_wf num p4"
    "cores p4 = cores p @ (?ty, int (js_pos p), int (js_pos p3) + 1) # itoks is (js_pos p + 1)" "js_pos p4 = js_pos p3"
    using js_close_match [OF js_adv_wf [OF a3] c3 _ toks_closed(2) tc] by auto
  have "jsmn_step js (length js) num (close_ch b) p3 = Some (Inr p4)"
    using p4(1) by (cases b) (simp_all add: jsmn_step_def close_ch_def)
  from jsmn_loop_step [OF _ _ ch(2) this] drop_ConsD [OF d3]
  have "jsmn_loop js (length js) num p3 = jsmn_loop js (length js) num (p4\<lparr>js_pos := js_pos p4 + 1\<rparr>)" by simp
  then have "js_adv js num p (length (rend (DBr b is f))) (toks (DBr b is f) (js_pos p)) (p4\<lparr>js_pos := js_pos p4 + 1\<rparr>)"
    using a1 a2 a3 p4 pos3 by (simp add: js_adv_def)
  then show ?case by blast
next
  case INil
  then show ?case using js_adv_refl by fastforce
next
  case (ICons f d "is")
  have ok: "set f \<subseteq> fillers" "doc_ok d" "items_ok is (is_prim d)" using ICons.prems(1) by simp_all
  have d0: "drop (js_pos p) js = f @ rend d @ irend is @ rest" using ICons.prems(2) by simp
  obtain p1 where a1: "js_adv js num p (length f) [] p1" using js_adv_filler [OF d0 ok(1) ICons.prems(4)] by blast
  have pos1: "js_pos p1 = js_pos p + length f" using a1 by (simp add: js_adv_def)
  have d1: "drop (js_pos p1) js = rend d @ irend is @ rest" by (rule js_adv_drop [OF a1 d0])
  have "is_prim d \<longrightarrow> irend is @ rest = [] \<or> hd (irend is @ rest) \<in> set prim_ends"
  proof
    assume "is_prim d"
    with ok(3) ICons.prems(3) show "irend is @ rest = [] \<or> hd (irend is @ rest) \<in> set prim_ends"
      by (cases "is") (auto simp: hd_append dest!: fillers_prim_ends hd_in_set)
  qed
  moreover have "js_next p1 + length (toks d (js_pos p1)) \<le> num"
    using js_adv_next [OF a1 ICons.prems(4)] ICons.prems(5) pos1 by simp
  ultimately obtain p2 where a2: "js_adv js num p1 (length (rend d)) (toks d (js_pos p1)) p2"
    using ICons.IH(1) [OF ok(2) d1 _ js_adv_wf [OF a1]] by blast
  have pos2: "js_pos p2 = js_pos p + length f + length (rend d)" using a2 pos1 by (simp add: js_adv_def)
  have "js_next p2 + length (itoks is (js_pos p2)) \<le> num"
    using js_adv_next [OF a2 js_adv_wf [OF a1]] js_adv_next [OF a1 ICons.prems(4)] ICons.prems(5) pos1 pos2 by simp
  then obtain p3 where a3: "js_adv js num p2 (length (irend is)) (itoks is (js_pos p2)) p3"
    using ICons.IH(2) [OF ok(3) js_adv_drop [OF a2 d1] ICons.prems(3) js_adv_wf [OF a2]] by blast
  from js_adv_trans [OF js_adv_trans [OF a1 a2] a3] show ?case
    using pos1 pos2 by (auto simp: add.assoc)
qed


section \<open>Counting without tokens\<close>

text \<open>A run with \<open>NULL\<close> tokens stays at the same position and count as one with an array.\<close>

definition null_sim :: "jsmn \<Rightarrow> jsmn \<Rightarrow> bool" where
  "null_sim p q \<longleftrightarrow> js_toks q = None \<and> js_toks p \<noteq> None \<and> js_pos q = js_pos p \<and> js_count q = js_count p"

lemma alloc_SomeD: "jsmn_alloc_token num p = Some (Some (i, p')) \<Longrightarrow>
    js_count p' = js_count p \<and> js_pos p' = js_pos p \<and> js_toks p' \<noteq> None"
  unfolding jsmn_alloc_token_def
  by (cases "js_toks p"; cases "num \<le> js_next p"; cases "js_next p < length (the (js_toks p))") auto

lemma bump_superD: "bump_super p = Some p' \<Longrightarrow>
    js_count p' = js_count p \<and> js_pos p' = js_pos p \<and> (js_toks p' \<noteq> None) = (js_toks p \<noteq> None)"
  by (auto simp: bump_super_def Let_def split: if_splits option.splits)

lemma bump_super_null: "js_toks q = None \<Longrightarrow> bump_super q = Some q"
  by (simp add: bump_super_def)

lemma new_tokenD: "new_token num ty st en start p = Some (r, p') \<Longrightarrow> \<not> r < 0 \<Longrightarrow>
    js_count p' = js_count p \<and> js_pos p' = js_pos p \<and> js_toks p' \<noteq> None"
  by (auto simp: new_token_def JSMN_ERROR_NOMEM_def split: option.splits dest!: alloc_SomeD)

lemma null_leaf:
  assumes "js_leaf (Some (r, p1)) = Some (Inr p')" "js_toks p1 \<noteq> None" "js_toks q1 = None"
    "js_pos q1 = js_pos p1" "js_count q1 = js_count p1"
  shows "\<exists>q'. js_leaf (Some (0, q1)) = Some (Inr q') \<and> null_sim p' q'"
  using assms
  by (auto simp: js_leaf_def bump_super_null null_sim_def dest!: bump_superD split: if_splits)

lemma null_string:
  assumes "jsmn_parse_string js len num p = Some (r, p1)" "\<not> r < 0" "null_sim p q"
  shows "jsmn_parse_string js len num q = Some (0, q\<lparr>js_pos := js_pos p1\<rparr>) \<and> js_toks p1 \<noteq> None \<and> js_count p1 = js_count p"
  using assms
  by (auto simp: jsmn_parse_string_def Let_def null_sim_def JSMN_ERROR_INVAL_def JSMN_ERROR_PART_def
      split: option.splits scan.splits dest!: new_tokenD)

lemma null_primitive:
  assumes "jsmn_parse_primitive js len num p = Some (r, p1)" "\<not> r < 0" "null_sim p q"
  shows "jsmn_parse_primitive js len num q = Some (0, q\<lparr>js_pos := js_pos p1\<rparr>) \<and> js_toks p1 \<noteq> None \<and> js_count p1 = js_count p"
  using assms
  by (auto simp: jsmn_parse_primitive_def Let_def null_sim_def JSMN_ERROR_INVAL_def
      split: option.splits scan.splits if_splits dest!: new_tokenD)

lemma null_step:
  assumes "jsmn_step js len num c p = Some (Inr p')" "null_sim p q"
  shows "\<exists>q'. jsmn_step js len num c q = Some (Inr q') \<and> null_sim p' q'"
proof -
  consider "c = LBRACE \<or> c = LBRACK" | "c = RBRACE \<or> c = RBRACK" | "c = QUOTE" | "c = COMMA"
    | "c \<in> {9, 13, 10, 32}" | "c = COLON"
    | "c \<notin> set prim_ends" "c \<notin> {LBRACE, LBRACK, QUOTE}" by (auto simp: prim_ends_def)
  then show ?thesis
  proof cases
    case 1
    then have e: "jsmn_step js len num c x = js_open_bracket c num x" for x by (auto simp: jsmn_step_def)
    then show ?thesis using assms
      by (auto simp: e js_open_bracket_def Let_def null_sim_def
          split: if_splits option.splits dest!: alloc_SomeD bump_superD)
  next
    case 2
    then have e: "jsmn_step js len num c x = js_close_bracket c x" for x by (auto simp: jsmn_step_def)
    then show ?thesis using assms
      by (auto simp: e js_close_bracket_def Let_def null_sim_def split: if_splits option.splits)
  next
    case 3
    then have e: "jsmn_step js len num c x = js_leaf (jsmn_parse_string js len num x)" for x by (simp add: jsmn_step_def)
    from assms(1) obtain r p1 where p1: "jsmn_parse_string js len num p = Some (r, p1)" unfolding e using js_leaf_Some by blast
    with assms(1) e js_leaf_pos have r: "\<not> r < 0" by metis
    from null_string [OF p1 r assms(2)] null_leaf [of r p1 p' "q\<lparr>js_pos := js_pos p1\<rparr>"] assms p1 e show ?thesis
      by (auto simp: null_sim_def)
  next
    case 4
    with assms show ?thesis by (auto simp: jsmn_step_def js_comma_def null_sim_def split: option.splits if_splits)
  next
    case 5
    with assms show ?thesis by (auto simp: jsmn_step_def)
  next
    case 6
    with assms show ?thesis by (auto simp: jsmn_step_def null_sim_def)
  next
    case 7
    then have e: "jsmn_step js len num c x = js_leaf (jsmn_parse_primitive js len num x)" for x
      by (auto simp: jsmn_step_def prim_ends_def)
    from assms(1) obtain r p1 where p1: "jsmn_parse_primitive js len num p = Some (r, p1)" unfolding e using js_leaf_Some by blast
    with assms(1) e js_leaf_pos have r: "\<not> r < 0" by metis
    from null_primitive [OF p1 r assms(2)] null_leaf [of r p1 p' "q\<lparr>js_pos := js_pos p1\<rparr>"] assms p1 e show ?thesis
      by (auto simp: null_sim_def)
  qed
qed

lemma null_loop:
  "jsmn_loop js len num p = Some (Inr p') \<Longrightarrow> null_sim p q \<Longrightarrow>
    \<exists>q'. jsmn_loop js len num q = Some (Inr q') \<and> null_sim p' q'"
proof (induction js len num p arbitrary: q rule: jsmn_loop.induct)
  case (1 js len num p)
  have pos: "js_pos q = js_pos p" using 1(3) by (simp add: null_sim_def)
  show ?case
  proof (cases "js_pos p < len \<and> ld8 js (js_pos p) \<noteq> Some 0")
    case False
    with 1(2,3) show ?thesis
      by (subst jsmn_loop.simps, subst (asm) jsmn_loop.simps) (auto simp: pos split: option.splits if_splits)
  next
    case True
    with 1(2) obtain c where c: "js_pos p < len" "ld8 js (js_pos p) = Some c" "c \<noteq> 0"
      by (subst (asm) jsmn_loop.simps) (auto split: option.splits)
    with 1(2) obtain p1 where p1: "jsmn_step js len num c p = Some (Inr p1)"
      "jsmn_loop js len num (p1\<lparr>js_pos := js_pos p1 + 1\<rparr>) = Some (Inr p')"
      by (subst (asm) jsmn_loop.simps) (auto split: option.splits sum.splits)
    from null_step [OF p1(1) 1(3)] obtain q1 where q1: "jsmn_step js len num c q = Some (Inr q1)" "null_sim p1 q1" by blast
    then have "null_sim (p1\<lparr>js_pos := js_pos p1 + 1\<rparr>) (q1\<lparr>js_pos := js_pos q1 + 1\<rparr>)" by (simp add: null_sim_def)
    from 1(1) [OF c p1(1) refl p1(2) this] obtain q' where
      "jsmn_loop js len num (q1\<lparr>js_pos := js_pos q1 + 1\<rparr>) = Some (Inr q')" "null_sim p' q'" by blast
    then show ?thesis using c q1(1) by (subst jsmn_loop.simps) (simp add: pos)
  qed
qed

lemma jsmn_step_Inl:
  assumes "jsmn_step js len num c p = Some (Inl (r, q))"
  shows "r < 0"
proof -
  have leaf: "js_leaf sub = Some (Inl (r, q)) \<Longrightarrow> r < 0" for sub by (auto simp: js_leaf_def split: option.splits if_splits)
  show ?thesis
    using assms unfolding jsmn_step_def
    by (auto simp: js_open_bracket_def js_close_bracket_def js_comma_def Let_def JSMN_ERROR_NOMEM_def
        JSMN_ERROR_INVAL_def split: if_splits option.splits dest: leaf)
qed

lemma jsmn_loop_Inl: "jsmn_loop js len num p = Some (Inl (r, q)) \<Longrightarrow> r < 0"
proof (induction js len num p rule: jsmn_loop.induct)
  case (1 js len num p)
  note s = 1(2) [unfolded jsmn_loop.simps [of js len num p]]
  from s obtain c where c: "js_pos p < len" "ld8 js (js_pos p) = Some c" "c \<noteq> 0"
    by (auto split: if_splits option.splits)
  from s c obtain x where x: "jsmn_step js len num c p = Some x" by (auto split: option.splits)
  show ?case
  proof (cases x)
    case (Inl y)
    with s c x show ?thesis using jsmn_step_Inl [of js len num c p r q] by simp
  next
    case (Inr p')
    with s c x 1(1) [OF c x Inr] show ?thesis by simp
  qed
qed

section \<open>Properties\<close>

text \<open>The parser state \<open>jsmn_parse\<close> starts with.\<close>

lemma jsmn_start:
  "jsmn_parser.extend jsmn_init \<lparr>js_toks = tk, js_count = int (js_next jsmn_init)\<rparr> =
    \<lparr>js_pos = 0, js_next = 0, js_super = -1, js_toks = tk, js_count = 0\<rparr>"
  by (simp add: jsmn_init_def jsmn_parser.defs)

lemma jsmn_start_ok: "length ts = num \<Longrightarrow>
    js_ok num len \<lparr>js_pos = 0, js_next = 0, js_super = -1, js_toks = Some ts, js_count = 0\<rparr>"
  by (simp add: js_ok_def js_wf_def cores_def)

lemma jsmn_parse_total:
  assumes "len \<le> length js" "length ts = num"
  shows "\<exists>r p us. jsmn_parse jsmn_init js len (Some ts) num = Some (r, p) \<and>
    (r \<in> {JSMN_ERROR_NOMEM, JSMN_ERROR_INVAL, JSMN_ERROR_PART} \<or>
     (js_toks p = Some us \<and> length us = num \<and> r = int (js_next p) \<and> js_next p \<le> num \<and>
      (\<forall>i < js_next p. tok_type (us ! i) \<noteq> JSMN_UNDEFINED \<and> 0 \<le> tok_start (us ! i) \<and>
         tok_start (us ! i) \<le> tok_end (us ! i) \<and> tok_end (us ! i) \<le> int len)))"
proof -
  let ?p0 = "\<lparr>js_pos = 0, js_next = 0, js_super = -1, js_toks = Some ts, js_count = 0\<rparr>"
  have s: "step_ok num len (jsmn_loop js len num ?p0)"
    by (rule jsmn_loop_safe [OF jsmn_start_ok assms(1)]) (rule assms(2))
  then obtain x where x: "jsmn_loop js len num ?p0 = Some x" by (cases "jsmn_loop js len num ?p0") (auto simp: step_ok_def)
  show ?thesis
  proof (cases x)
    case (Inl y)
    then show ?thesis using s x by (auto simp: jsmn_parse_def jsmn_start step_ok_def js_errors_def)
  next
    case (Inr p)
    then have ok: "js_ok num len p" using s x by (simp add: step_ok_def)
    then have wf: "js_wf num p" by (simp add: js_ok_def)
    then obtain us where us: "js_toks p = Some us" "length us = num" "js_next p \<le> num" "js_count p = int (js_next p)"
      by (auto simp: js_wf_def)
    obtain r where r: "find_open us (js_next p) = Some r" using find_open_total us by blast
    show ?thesis
    proof (cases r)
      case (Some i)
      then show ?thesis using x Inr us r by (auto simp: jsmn_parse_def jsmn_start)
    next
      case None
      have "tok_type (us ! i) \<noteq> JSMN_UNDEFINED \<and> 0 \<le> tok_start (us ! i) \<and>
         tok_start (us ! i) \<le> tok_end (us ! i) \<and> tok_end (us ! i) \<le> int len" if i: "i < js_next p" for i
      proof -
        have "core (us ! i) \<in> set (cores p)"
          using core_nth [OF wf us(1) i] cores_length [OF wf] i nth_mem [of i "cores p"] by simp
        then have "core_ok len (js_pos p) (core (us ! i))" using ok by (simp add: js_ok_def)
        moreover have "\<not> tok_open (us ! i)" using r None us i by (simp add: find_open_None)
        ultimately show ?thesis by (auto simp: core_ok_def core_def tok_open_def)
      qed
      then show ?thesis using x Inr us r None by (simp add: jsmn_parse_def jsmn_start)
    qed
  qed
qed

text \<open>C18: For any bytes, the tokenizer terminates without reading outside the text or the token
  array. It returns one of its three errors or the number of tokens, each of which then has a
  type and a range inside the text.\<close>
lemma json_parse_safe:
  assumes "len \<le> length js" "length ts = num"
  shows "\<exists>r p us. jsmn_parse jsmn_init js len (Some ts) num = Some (r, p) \<and>
    (r \<in> {JSMN_ERROR_NOMEM, JSMN_ERROR_INVAL, JSMN_ERROR_PART} \<or>
     (js_toks p = Some us \<and> length us = num \<and> r = int (js_next p) \<and> js_next p \<le> num \<and>
      (\<forall>i < js_next p. tok_type (us ! i) \<noteq> JSMN_UNDEFINED \<and> 0 \<le> tok_start (us ! i) \<and>
         tok_start (us ! i) \<le> tok_end (us ! i) \<and> tok_end (us ! i) \<le> int len)))"
  by (rule jsmn_parse_total [OF assms])

definition blank_tok :: jsmntok where
  "blank_tok = \<lparr>tok_type = JSMN_UNDEFINED, tok_start = 0, tok_end = 0, tok_size = 0\<rparr>"

lemma json_parse_safe_witness:
  "\<exists>r p. jsmn_parse jsmn_init [LBRACE, QUOTE, 97] 3 (Some (replicate 4 blank_tok)) 4 = Some (r, p)"
  using json_parse_safe [of 3 "[LBRACE, QUOTE, 97]" "replicate 4 blank_tok" 4] by auto

lemma jsmn_parse_doc:
  assumes "doc_ok d" "set f \<subseteq> fillers" "set g \<subseteq> fillers" "length ts = num" "length (toks d (length f)) \<le> num"
  shows "\<exists>p. jsmn_parse jsmn_init (f @ rend d @ g) (length (f @ rend d @ g)) (Some ts) num =
      Some (int (length (toks d (length f))), p) \<and> cores p = toks d (length f)"
proof -
  let ?js = "f @ rend d @ g"
  let ?p0 = "\<lparr>js_pos = 0, js_next = 0, js_super = -1, js_toks = Some ts, js_count = 0\<rparr>"
  have wf: "js_wf num ?p0" using assms(4) by (simp add: js_wf_def)
  have d0: "drop (js_pos ?p0) ?js = f @ rend d @ g" by simp
  obtain p1 where a1: "js_adv ?js num ?p0 (length f) [] p1" using js_adv_filler [OF d0 assms(2) wf] by blast
  have pos1: "js_pos p1 = length f" using a1 by (simp add: js_adv_def)
  have "is_prim d \<longrightarrow> g = [] \<or> hd g \<in> set prim_ends" using hd_filler [OF assms(3), of "[]"] by simp
  moreover have "js_next p1 + length (toks d (js_pos p1)) \<le> num" using js_adv_next [OF a1 wf] assms(5) pos1 by simp
  ultimately obtain p2 where a2: "js_adv ?js num p1 (length (rend d)) (toks d (js_pos p1)) p2"
    using js_adv_doc(1) [OF assms(1) js_adv_drop [OF a1 d0] _ js_adv_wf [OF a1]] by blast
  have d2: "drop (js_pos p2) ?js = g @ []" using js_adv_drop [OF a2 js_adv_drop [OF a1 d0]] by simp
  obtain p3 where a3: "js_adv ?js num p2 (length g) [] p3" using js_adv_filler [OF d2 assms(3) js_adv_wf [OF a2]] by blast
  have c: "cores p3 = toks d (length f)" using a1 a2 a3 pos1 by (simp add: js_adv_def cores_def)
  have "js_pos p3 = length ?js" using a1 a2 a3 by (simp add: js_adv_def)
  then have l: "jsmn_loop ?js (length ?js) num ?p0 = Some (Inr p3)"
    using a1 a2 a3 jsmn_loop.simps [of ?js "length ?js" num p3] by (simp add: js_adv_def)
  have wf3: "js_wf num p3" by (rule js_adv_wf [OF a3])
  then obtain us where us: "js_toks p3 = Some us" "length us = num" "js_next p3 \<le> num" "js_count p3 = int (js_next p3)"
    by (auto simp: js_wf_def)
  have "\<not> tok_open (us ! i)" if i: "i < js_next p3" for i
    using core_nth [OF wf3 us(1) i] toks_closed(1) [of d "length f"] i cores_length [OF wf3] nth_mem [of i "cores p3"]
    by (simp add: tok_open_core c)
  then have "find_open us (js_next p3) = Some None" using us find_open_None [of "js_next p3" us] by simp
  then have "jsmn_parse jsmn_init ?js (length ?js) (Some ts) num = Some (int (js_next p3), p3)"
    using l us by (simp add: jsmn_parse_def jsmn_start)
  then show ?thesis using c cores_length [OF wf3] by auto
qed

text \<open>C6: A well-formed document, in any layout and with white space around it, is tokenized into
  exactly its tokens in text order, each with the right type and range; the result is their number.\<close>
lemma json_parse_document:
  assumes "doc_ok d" "set f \<subseteq> fillers" "set g \<subseteq> fillers" "length ts = num" "length (toks d (length f)) \<le> num"
  shows "\<exists>p. jsmn_parse jsmn_init (f @ rend d @ g) (length (f @ rend d @ g)) (Some ts) num =
      Some (int (length (toks d (length f))), p) \<and> cores p = toks d (length f)"
  by (rule jsmn_parse_doc [OF assms])

text \<open>\<open>{"a": [1]}\<close>\<close>

lemma json_parse_document_witness:
  "\<exists>p. jsmn_parse jsmn_init ([] @ rend (DBr True (ICons [] (DStr [97]) (ICons [COLON, 32] (DBr False (ICons [] (DPrim [49]) INil) []) INil)) []) @ [])
     (length ([] @ rend (DBr True (ICons [] (DStr [97]) (ICons [COLON, 32] (DBr False (ICons [] (DPrim [49]) INil) []) INil)) []) @ []))
     (Some (replicate 4 blank_tok)) 4 = Some (4, p) \<and>
   cores p = [(JSMN_OBJECT, 0, 10), (JSMN_STRING, 2, 3), (JSMN_ARRAY, 6, 9), (JSMN_PRIMITIVE, 7, 8)]"
  using json_parse_document [of "DBr True (ICons [] (DStr [97]) (ICons [COLON, 32] (DBr False (ICons [] (DPrim [49]) INil) []) INil)) []"
      "[]" "[]" "replicate 4 blank_tok" 4]
  by (simp add: prim_ok_def prim_ends_def fillers_def is_prim_def)

text \<open>C39: Counting with a \<open>NULL\<close> token array agrees with tokenizing: whenever tokenizing into an
  array returns a count, the call without an array returns the same count.\<close>
lemma json_count_equivalent:
  assumes "jsmn_parse jsmn_init js len (Some ts) num = Some (r, p)" "0 \<le> r"
  shows "\<exists>q. jsmn_parse jsmn_init js len None num = Some (r, q)"
proof -
  let ?p0 = "\<lparr>js_pos = 0, js_next = 0, js_super = -1, js_toks = Some ts, js_count = 0\<rparr>"
  let ?q0 = "\<lparr>js_pos = 0, js_next = 0, js_super = -1, js_toks = None, js_count = 0\<rparr>"
  show ?thesis
  proof (cases "jsmn_loop js len num ?p0")
    case None
    with assms show ?thesis by (simp add: jsmn_parse_def jsmn_start)
  next
    case (Some x)
    show ?thesis
    proof (cases x)
      case (Inr p1)
      have "null_sim ?p0 ?q0" by (simp add: null_sim_def)
      with null_loop Some Inr obtain q where q: "jsmn_loop js len num ?q0 = Some (Inr q)" "null_sim p1 q" by blast
      have "r = js_count p1" using assms Some Inr q(2)
        by (auto simp: jsmn_parse_def jsmn_start null_sim_def JSMN_ERROR_PART_def split: option.splits)
      then show ?thesis using q by (simp add: jsmn_parse_def jsmn_start null_sim_def)
    next
      case (Inl y)
      with Some assms jsmn_loop_Inl [of js len num ?p0 "fst y" "snd y"] show ?thesis
        by (simp add: jsmn_parse_def jsmn_start)
    qed
  qed
qed


lemma json_count_equivalent_witness:
  "\<exists>q. jsmn_parse jsmn_init [49] 1 None 1 = Some (1, q)"
proof -
  have "map_option fst (jsmn_parse jsmn_init [49] 1 (Some [blank_tok]) 1) = Some 1" by code_simp
  then obtain p where "jsmn_parse jsmn_init [49] 1 (Some [blank_tok]) 1 = Some (1, p)" by auto
  from json_count_equivalent [OF this] show ?thesis by simp
qed

text \<open>The sizes of an object's members are wrong from the second member on: after a comma the
  key of the first member stays the enclosing token, so \<open>{"a":1,"b":2}\<close> gives the object size 1
  and the key \<open>a\<close> size 2, although the object has two keys and \<open>a\<close> one value.\<close>
lemma json_sizes_after_comma:
  "map_option (\<lambda>(r, p). (r, map tok_size (the (js_toks p))))
     (jsmn_parse jsmn_init (rend (DBr True (ICons [] (DStr [97]) (ICons [COLON] (DPrim [49])
       (ICons [COMMA] (DStr [98]) (ICons [COLON] (DPrim [50]) INil)))) [])) 13 (Some (replicate 5 blank_tok)) 5) =
   Some (5, [1, 2, 0, 1, 0])"
  by code_simp

end
