(* ===== verification/Browser.thy ===== *)
theory Browser
  imports Decimal Json_Correct
begin

text \<open>
  What the browser and the JSON viewer of \<open>src/kernel.c\<close> compute besides drawing: the parser
  of URLs, the host and port of the request, the lines of a page, the key and value lines of
  a JSON text.
\<close>

section \<open>URLs\<close>

text \<open>The port is a \<open>uint16_t\<close>: it wraps around.\<close>

fun url_port :: "cstr \<Rightarrow> u16 \<Rightarrow> u16 \<times> cstr" where
  "url_port [] v = (v, [])"
| "url_port (c # p) v = (if 48 \<le> sint c \<and> sint c \<le> 57 then url_port p (v * 10 + (ucast c - 48)) else (v, c # p))"

text \<open>Host, path and port; the result 0 is \<open>None\<close>.\<close>

definition parse_url :: "cstr \<Rightarrow> nat \<Rightarrow> (cstr \<times> cstr \<times> u16) option" where
  "parse_url url host_buf_size =
     (if strncmp url (lit ''http://'') 7 \<noteq> 0 then None
      else
        let host = takeWhile (\<lambda>c. c \<noteq> 58 \<and> c \<noteq> 47) (drop 7 url);
            p = drop (7 + length host) url
        in if length host \<ge> host_buf_size then None
        else let (port, p') = (case p of c # q \<Rightarrow> (if c = 58 then url_port q 0 else (80, p)) | [] \<Rightarrow> (80, p))
          in Some (host, (case p' of c # _ \<Rightarrow> (if c = 47 then p' else lit ''/'') | [] \<Rightarrow> lit ''/''), port))"

text \<open>The conversion of the port, from the end of a buffer of six bytes; \<open>p\<close> is the index.\<close>

fun itoa_loop :: "nat \<Rightarrow> int \<times> cstr \<Rightarrow> (int \<times> cstr) option" where
  "itoa_loop n (p, buf) =
     (if n > 0 then do {
        assert_that (0 \<le> p \<and> nat p < length buf);
        itoa_loop (n div 10) (p - 1, buf[nat p := word_of_nat (n mod 10) + 48])
      }
      else Some (p, buf))"

declare itoa_loop.simps [simp del]

definition port_string :: "cstr \<Rightarrow> u16 \<Rightarrow> cstr option" where
  "port_string port_s port = do {
     assert_that (length port_s = 6);
     let buf = port_s[5 := 0];
     let (p, buf) = (if port = 0 then (3, buf[4 := 48]) else (4, buf));
     (p, buf) \<leftarrow> itoa_loop (unat port) (p, buf);
     Some (takeWhile (\<lambda>c. c \<noteq> 0) (drop (nat (p + 1)) buf))
   }"

text \<open>\<open>port_s\<close> is what the buffer held before; the result fits \<open>host_port[256]\<close>.\<close>

definition host_port_string :: "cstr \<Rightarrow> cstr \<Rightarrow> u16 \<Rightarrow> cstr option" where
  "host_port_string port_s host port = do {
     ps \<leftarrow> port_string port_s port;
     assert_that (length host + 1 + length ps < 256);
     Some (host @ [58] @ ps)
   }"

section \<open>Lines of a page\<close>

text \<open>At most \<open>max_lines\<close> lines of at most 127 characters, without leading spaces; and what is left.\<close>

fun page_lines :: "nat \<Rightarrow> cstr \<Rightarrow> cstr list \<times> cstr" where
  "page_lines (Suc max_lines) (c # p) =
     (let tmp = take 127 (takeWhile (\<lambda>c. c \<noteq> 10) (c # p));
          p1 = drop (length tmp) (c # p);
          p2 = (case p1 of x # q \<Rightarrow> (if x = 10 then q else p1) | [] \<Rightarrow> []);
          (ls, rest) = page_lines max_lines p2
      in (dropWhile (\<lambda>c. c = 32) tmp # ls, rest))"
| "page_lines max_lines p = ([], p)"

section \<open>Lines of the JSON viewer\<close>

text \<open>The text of a token, cut to 63 characters; as a string it ends at a 0.\<close>

definition token_text :: "cstr \<Rightarrow> jsmntok \<Rightarrow> cstr option" where
  "token_text body t = do {
     let len = (if tok_end t - tok_start t > 63 then 63 else tok_end t - tok_start t);
     assert_that (0 \<le> tok_start t);
     s \<leftarrow> rdn (drop (nat (tok_start t)) body) len;
     Some (takeWhile (\<lambda>c. c \<noteq> 0) s)
   }"

text \<open>The tokens from \<open>t[i-1]\<close> on, and the room left, which is at least one line.\<close>

fun viewer_lines :: "cstr \<Rightarrow> jsmntok list \<Rightarrow> nat \<Rightarrow> cstr list option" where
  "viewer_lines body (a # b # ts) room =
     (if tok_type b = JSMN_STRING \<and> tok_type a = JSMN_STRING then do {
        key \<leftarrow> token_text body a;
        val \<leftarrow> token_text body b;
        line \<leftarrow> snprintf 128 (lit ''%s: %s'') [key, val];
        ls \<leftarrow> (if room \<le> 1 then Some [] else viewer_lines body (b # ts) (room - 1));
        Some (line # ls)
      }
      else viewer_lines body (b # ts) room)"
| "viewer_lines body ts room = Some []"

text \<open>\<open>t\<close> is the token array as it was; \<open>Inl\<close> the error message.\<close>

definition json_view :: "cstr \<Rightarrow> jsmntok list \<Rightarrow> nat \<Rightarrow> (cstr + cstr list) option" where
  "json_view body t max_lines = do {
     (r, p) \<leftarrow> jsmn_parse jsmn_init body (strlen body) (Some t) 128;
     if r < 0 then Some (Inl (lit ''Failed to parse JSON''))
     else do {
       toks \<leftarrow> js_toks p;
       ls \<leftarrow> viewer_lines body (take (nat r) toks) max_lines;
       Some (Inr ls)
     }
   }"


section \<open>URLs and ports\<close>

lemma lit_http: "lit ''http://'' = [104, 116, 116, 112, 58, 47, 47]"
  by (simp add: lit_def)

lemma sint_digit_iff: "48 \<le> sint (c :: u8) \<and> sint c \<le> 57 \<longleftrightarrow> is_digit c"
proof
  assume s: "48 \<le> sint c \<and> sint c \<le> 57"
  have "uint c = sint c mod 2 ^ 8" using uint_sint [of c] by (simp add: take_bit_eq_mod)
  with s have "uint c = sint c" by simp
  with s show "is_digit c" by (simp add: is_digit_def word_le_def)
next
  assume "is_digit c"
  then have b: "48 \<le> uint c" "uint c \<le> 57" by (simp_all add: is_digit_def word_le_def)
  then have "uint c < 2 ^ 7" by simp
  then have "sint c = uint c" unfolding sint_uint by (subst signed_take_bit_int_eq_self) (auto intro: order_trans [of _ 0])
  with b show "48 \<le> sint c \<and> sint c \<le> 57" by simp
qed

lemma url_port_append:
  "\<forall>c \<in> set ds. is_digit c \<Longrightarrow> url_port (ds @ rest) v = url_port rest (foldl (\<lambda>v c. v * 10 + (ucast c - 48)) v ds)"
  by (induction ds arbitrary: v) (auto simp: sint_digit_iff)

lemma digit_ucast16: "d < 10 \<Longrightarrow> (ucast (48 + word_of_nat d :: u8) :: u16) - 48 = word_of_nat d"
proof -
  assume d: "d < 10"
  have "unat (ucast (48 + word_of_nat d :: u8) :: u16) = 48 + d"
    using digit_unat [OF d] by (simp add: unsigned_ucast_eq take_bit_nat_def)
  then have "(ucast (48 + word_of_nat d :: u8) :: u16) = word_of_nat (48 + d)" using d by (simp only: word_unat_eq_iff) (simp add: unat_of_nat del: of_nat_add)
  then show ?thesis by simp
qed

lemma url_port_value: "foldl (\<lambda>v c. v * 10 + (ucast c - 48)) 0 (dec n) = (word_of_nat n :: u16)"
proof (induction n rule: dec.induct)
  case (1 n)
  show ?case
  proof (cases "n < 10")
    case True
    then show ?thesis by (subst dec.simps) (simp add: digit_ucast16)
  next
    case False
    have "word_of_nat (n div 10) * 10 + word_of_nat (n mod 10) = (word_of_nat (n div 10 * 10 + n mod 10) :: u16)"
      by (simp only: of_nat_add of_nat_mult of_nat_numeral)
    with False 1 show ?thesis by (subst dec.simps) (simp add: digit_ucast16)
  qed
qed

lemma url_port_dec:
  assumes "rest = [] \<or> \<not> is_digit (hd rest)"
  shows "url_port (dec n @ rest) 0 = (word_of_nat n, rest)"
proof -
  have "url_port (dec n @ rest) 0 = url_port rest (word_of_nat n)"
    using url_port_append [of "dec n" rest 0] dec_digits by (simp add: url_port_value)
  moreover have "url_port rest v = (v, rest)" for v
    using assms sint_digit_iff [of "hd rest"] by (cases rest) auto
  ultimately show ?thesis by simp
qed

text \<open>The text of a URL from its parts.\<close>

definition url_text :: "cstr \<Rightarrow> nat option \<Rightarrow> cstr \<Rightarrow> cstr" where
  "url_text host port path = lit ''http://'' @ host @ (case port of None \<Rightarrow> [] | Some n \<Rightarrow> 58 # dec n) @ path"

lemma strncmp_http: "strncmp (lit ''http://'' @ s) (lit ''http://'') 7 = 0"
  by (simp add: lit_http numeral_eq_Suc)

lemma takeWhile_stop: "\<forall>c \<in> set xs. P c \<Longrightarrow> ys = [] \<or> \<not> P (hd ys) \<Longrightarrow> takeWhile P (xs @ ys) = xs"
  by (cases ys) (auto simp: takeWhile_append2 takeWhile_eq_all_conv)

lemma itoa_loop_digits:
  "0 < n \<Longrightarrow> length (dec n) \<le> p + 1 \<Longrightarrow> p < length buf \<Longrightarrow>
    \<exists>buf'. itoa_loop n (int p, buf) = Some (int p - int (length (dec n)), buf') \<and>
      drop (p + 1 - length (dec n)) buf' = dec n @ drop (p + 1) buf"
proof (induction n arbitrary: p buf rule: dec.induct)
  case (1 n)
  let ?b = "buf[p := word_of_nat (n mod 10) + 48]"
  have step: "itoa_loop n (int p, buf) = itoa_loop (n div 10) (int p - 1, ?b)"
    using \<open>0 < n\<close> 1(4) by (subst itoa_loop.simps) (simp add: assert_that_def)
  have upd: "drop p ?b = (word_of_nat (n mod 10) + 48) # drop (p + 1) buf"
    using 1(4) by (simp add: drop_update_swap Cons_nth_drop_Suc [symmetric])
  show ?case
  proof (cases "n < 10")
    case True
    then have d: "dec n = [word_of_nat n + 48]" by (subst dec.simps) simp
    from True have "itoa_loop n (int p, buf) = Some (int p - 1, ?b)"
      by (simp add: step itoa_loop.simps [of 0])
    with True upd show ?thesis by (simp add: d)
  next
    case False
    then have d: "dec n = dec (n div 10) @ [word_of_nat (n mod 10) + 48]" by (subst dec.simps) simp
    then obtain p' where p: "p = Suc p'" using 1(3) by (cases p) auto
    have "\<exists>buf'. itoa_loop (n div 10) (int p', ?b) = Some (int p' - int (length (dec (n div 10))), buf') \<and>
      drop (p' + 1 - length (dec (n div 10))) buf' = dec (n div 10) @ drop (p' + 1) ?b"
      by (rule 1(1)) (use False 1(3,4) d p in auto)
    then show ?thesis using upd step by (auto simp: d p)
  qed
qed

lemma port_string_dec:
  assumes "length port_s = 6"
  shows "port_string port_s port = Some (dec (unat port))"
proof -
  have nz: "\<forall>c \<in> set (dec n). c \<noteq> 0" for n using dec_digits [of n] by (auto simp: is_digit_def)
  have five: "drop 5 (port_s[5 := 0]) = [0]" using assms by (auto simp: numeral_eq_Suc length_Suc_conv)
  show ?thesis
  proof (cases "port = 0")
    case True
    have "drop 4 ((port_s[5 := 0])[4 := 48]) = [48, 0]" using assms by (auto simp: numeral_eq_Suc length_Suc_conv)
    with True assms show ?thesis
      by (simp add: port_string_def assert_that_def itoa_loop.simps [of 0] dec.simps [of 0])
  next
    case False
    let ?n = "unat port"
    have "?n < 10 ^ 5" using unsigned_less [of port, where 'a = nat] by simp
    then have l: "length (dec ?n) \<le> 5" by (intro length_dec) auto
    have "0 < ?n" using False by (simp add: unat_gt_0)
    from itoa_loop_digits [OF this, of 4 "port_s[5 := 0]"] l assms obtain buf' where
      b: "itoa_loop ?n (4, port_s[5 := 0]) = Some (4 - int (length (dec ?n)), buf')"
        "drop (5 - length (dec ?n)) buf' = dec ?n @ [0]" by (auto simp: five)
    have "nat (4 - int (length (dec ?n)) + 1) = 5 - length (dec ?n)" by simp
    then have "takeWhile (\<lambda>c. c \<noteq> 0) (drop (nat (4 - int (length (dec ?n)) + 1)) buf') = dec ?n"
      using b(2) nz [of ?n] by (simp add: takeWhile_stop)
    with False assms b(1) show ?thesis by (simp add: port_string_def assert_that_def)
  qed
qed

text \<open>C35: Taking apart a URL put together from a host, an optional port and a path gives the parts
  back, the port 80 if there is none and modulo 65536 otherwise; a host that does not fit the
  buffer is refused.\<close>

theorem parse_url_text:
  assumes "58 \<notin> set host" "47 \<notin> set host" "path = [] \<or> hd path = 47"
  shows "parse_url (url_text host port path) n =
    (if n \<le> length host then None
     else Some (host, if path = [] then lit ''/'' else path, case port of None \<Rightarrow> 80 | Some k \<Rightarrow> word_of_nat k))"
proof -
  let ?r = "(case port of None \<Rightarrow> [] | Some k \<Rightarrow> 58 # dec k) @ path"
  have s: "strncmp (url_text host port path) (lit ''http://'') 7 = 0" unfolding url_text_def by (rule strncmp_http)
  have d: "drop 7 (url_text host port path) = host @ ?r" by (simp add: url_text_def lit_http)
  have h: "takeWhile (\<lambda>c. c \<noteq> 58 \<and> c \<noteq> 47) (host @ ?r) = host"
    using assms by (intro takeWhile_stop) (auto split: option.splits)
  have p: "drop (7 + length host) (url_text host port path) = ?r"
    using d by (metis drop_drop add.commute append_eq_conv_conj)
  have q: "url_port (dec k @ path) 0 = (word_of_nat k, path)" for k
    using assms(3) by (intro url_port_dec) (auto simp: is_digit_def)
  have slash: "(case path of c # _ \<Rightarrow> (if c = 47 then path else lit ''/'') | [] \<Rightarrow> lit ''/'') = (if path = [] then lit ''/'' else path)"
    using assms(3) by (cases path) auto
  have e: "(case ?r of c # q \<Rightarrow> (if c = 58 then url_port q 0 else (80, ?r)) | [] \<Rightarrow> (80, ?r)) =
      ((case port of None \<Rightarrow> 80 | Some k \<Rightarrow> word_of_nat k), path)"
    using assms(3) by (cases port; cases path) (use q in auto)
  show ?thesis unfolding parse_url_def d h p Let_def s e by (simp add: slash)
qed

lemma parse_url_text_witness:
  "parse_url (url_text [97, 46, 98] (Some 65616) [47, 120]) 128 =
    (if 128 \<le> length [97, 46, 98 :: u8] then None
     else Some ([97, 46, 98], if [47, 120] = ([] :: cstr) then lit ''/'' else [47, 120], case Some 65616 of None \<Rightarrow> 80 | Some k \<Rightarrow> word_of_nat k))"
  by (rule parse_url_text) simp_all

text \<open>The host and port sent with a request are the parsed ones, the port in decimal without
  leading zeros, and they fit their buffers, whatever those held before.\<close>

theorem host_port_decimal:
  assumes "parse_url url 128 = Some (host, path, port)" "length port_s = 6"
  shows "host_port_string port_s host port = Some (host @ lit '':'' @ dec (unat port)) \<and> length (dec (unat port)) \<le> 5"
proof -
  have "unat port < 10 ^ 5" using unsigned_less [of port, where 'a = nat] by simp
  then have "length (dec (unat port)) \<le> 5" by (intro length_dec) auto
  moreover have "length host < 128" using assms(1) by (auto simp: parse_url_def Let_def split: if_splits prod.splits)
  ultimately show ?thesis
    by (simp add: host_port_string_def port_string_dec [OF assms(2)] assert_that_def lit_def)
qed

lemma host_port_decimal_witness:
  "host_port_string (replicate 6 9) [97] 8080 = Some ([97] @ lit '':'' @ dec (unat (8080 :: u16))) \<and> length (dec (unat (8080 :: u16))) \<le> 5"
  by (rule host_port_decimal [of "lit ''http://a:8080''" _ "lit ''/''"]) (code_simp, simp)


section \<open>Lines of a page\<close>

text \<open>The lines before trimming, each with the newline it ended at, if any.\<close>

fun raw_lines :: "nat \<Rightarrow> cstr \<Rightarrow> (cstr \<times> bool) list \<times> cstr" where
  "raw_lines (Suc k) (c # p) =
     (let l = take 127 (takeWhile (\<lambda>c. c \<noteq> 10) (c # p)); p1 = drop (length l) (c # p);
          nl = (p1 \<noteq> [] \<and> hd p1 = 10); (ls, rest) = raw_lines k (if nl then tl p1 else p1)
      in ((l, nl) # ls, rest))"
| "raw_lines k p = ([], p)"

lemma page_lines_raw: "page_lines k p = (map (\<lambda>(l, nl). dropWhile (\<lambda>c. c = 32) l) (fst (raw_lines k p)), snd (raw_lines k p))"
proof (induction k p rule: raw_lines.induct)
  case (1 k c p)
  let ?p1 = "drop (length (take 127 (takeWhile (\<lambda>c. c \<noteq> 10) (c # p)))) (c # p)"
  have "(case ?p1 of x # q \<Rightarrow> (if x = 10 then q else ?p1) | [] \<Rightarrow> []) = (if ?p1 \<noteq> [] \<and> hd ?p1 = 10 then tl ?p1 else ?p1)"
    by (simp split: list.split)
  with 1 show ?case unfolding page_lines.simps raw_lines.simps Let_def by (simp add: case_prod_beta)
qed simp_all

definition cut_ok :: "(cstr \<times> bool) list \<Rightarrow> cstr \<Rightarrow> bool" where
  "cut_ok raw rest \<longleftrightarrow> (\<forall>(l, nl) \<in> set raw. length l \<le> 127 \<and> 10 \<notin> set l) \<and>
     (\<forall>(l, nl) \<in> set (if rest = [] then butlast raw else raw). nl \<or> length l = 127)"

lemma raw_lines_text:
  "concat (map (\<lambda>(l, nl). l @ (if nl then [10] else [])) (fst (raw_lines k p))) @ snd (raw_lines k p) = p \<and>
    length (fst (raw_lines k p)) \<le> k \<and> (snd (raw_lines k p) \<noteq> [] \<longrightarrow> length (fst (raw_lines k p)) = k) \<and>
    cut_ok (fst (raw_lines k p)) (snd (raw_lines k p))"
proof (induction k p rule: raw_lines.induct)
  case (1 k c p)
  define l where "l = take 127 (takeWhile (\<lambda>c. c \<noteq> 10) (c # p))"
  define p1 where "p1 = drop (length l) (c # p)"
  define nl where "nl = (p1 \<noteq> [] \<and> hd p1 = 10)"
  define q where "q = (if nl then tl p1 else p1)"
  have eq: "raw_lines (Suc k) (c # p) = ((l, nl) # fst (raw_lines k q), snd (raw_lines k q))"
    unfolding raw_lines.simps Let_def case_prod_beta l_def p1_def nl_def q_def ..
  have IH: "concat (map (\<lambda>(l, nl). l @ (if nl then [10] else [])) (fst (raw_lines k q))) @ snd (raw_lines k q) = q"
    "length (fst (raw_lines k q)) \<le> k" "snd (raw_lines k q) \<noteq> [] \<longrightarrow> length (fst (raw_lines k q)) = k"
    "cut_ok (fst (raw_lines k q)) (snd (raw_lines k q))"
    using 1 [OF l_def p1_def nl_def] unfolding q_def by auto
  have "takeWhile (\<lambda>c. c \<noteq> 10) (c # p) @ dropWhile (\<lambda>c. c \<noteq> 10) (c # p) = c # p" by (rule takeWhile_dropWhile_id)
  then have lp: "l = take (length l) (c # p)" unfolding l_def by (metis append_eq_conv_conj append_take_drop_id append.assoc)
  then have join: "l @ p1 = c # p" unfolding p1_def by (metis append_take_drop_id)
  have split: "(l @ (if nl then [10] else [])) @ q = c # p"
    using join by (cases p1) (auto simp: q_def nl_def)
  have l_ok: "length l \<le> 127" "10 \<notin> set l"
    unfolding l_def using set_takeWhileD [of 10 "\<lambda>c. c \<noteq> 10" "c # p"] by (auto dest: in_set_takeD)
  have full: "nl \<or> length l = 127 \<or> p1 = []"
  proof (rule disjCI)
    assume "\<not> (length l = 127 \<or> p1 = [])"
    then have n: "length l < 127" and ne: "p1 \<noteq> []" using l_ok(1) by auto
    then have "l = takeWhile (\<lambda>c. c \<noteq> 10) (c # p)" unfolding l_def by auto
    then have "p1 = dropWhile (\<lambda>c. c \<noteq> 10) (c # p)" unfolding p1_def by (simp add: dropWhile_eq_drop)
    with ne hd_dropWhile [of "\<lambda>c. c \<noteq> 10" "c # p"] show nl unfolding nl_def by auto
  qed
  have last: "nl \<or> length l = 127 \<or> (fst (raw_lines k q) = [] \<and> snd (raw_lines k q) = [])"
    using full by (auto simp: q_def nl_def)
  have "cut_ok ((l, nl) # fst (raw_lines k q)) (snd (raw_lines k q))"
    using IH(4) l_ok last unfolding cut_ok_def by auto
  then show ?case unfolding eq using IH split by (simp only: fst_conv snd_conv list.map concat.simps) auto
qed (simp_all add: cut_ok_def)

text \<open>The browser shows the page from its start, cut into at most the given number of lines: each
  ends at a newline or after 127 characters, leading spaces are dropped, and nothing else is
  lost; if something is left over, all lines are used.\<close>

theorem page_lines_text:
  assumes "page_lines k p = (ls, rest)"
  shows "\<exists>raw. ls = map (\<lambda>(l, nl). dropWhile (\<lambda>c. c = 32) l) raw \<and>
    concat (map (\<lambda>(l, nl). l @ (if nl then [10] else [])) raw) @ rest = p \<and>
    length raw \<le> k \<and> (rest \<noteq> [] \<longrightarrow> length raw = k) \<and> cut_ok raw rest"
  using assms raw_lines_text [of k p] by (intro exI [of _ "fst (raw_lines k p)"]) (auto simp: page_lines_raw)

lemma page_lines_text_witness:
  "\<exists>raw. [[97], [98]] = map (\<lambda>(l, nl). dropWhile (\<lambda>c. c = 32) l) raw \<and>
    concat (map (\<lambda>(l, nl). l @ (if nl then [10] else [])) raw) @ [99] = [97, 10, 32, 98, 10, 99 :: u8] \<and>
    length raw \<le> 2 \<and> ([99 :: u8] \<noteq> [] \<longrightarrow> length raw = 2) \<and> cut_ok raw [99]"
  by (rule page_lines_text) (code_simp)

section \<open>The JSON viewer\<close>

text \<open>The line for a key and a value, and the pairs of neighbours that are both strings.\<close>

definition shown :: "cstr \<Rightarrow> core \<Rightarrow> cstr" where
  "shown body c = (case c of (ty, s, e) \<Rightarrow> take (min 63 (nat (e - s))) (drop (nat s) body))"

definition view_line :: "cstr \<Rightarrow> core \<times> core \<Rightarrow> cstr" where
  "view_line body ab = take 127 (shown body (fst ab) @ lit '': '' @ shown body (snd ab))"

fun string_pairs :: "core list \<Rightarrow> (core \<times> core) list" where
  "string_pairs (a # b # cs) = (if fst b = JSMN_STRING \<and> fst a = JSMN_STRING then [(a, b)] else []) @ string_pairs (b # cs)"
| "string_pairs cs = []"

lemma token_text_shown:
  assumes "0 \<notin> set body" "0 \<le> tok_start t" "tok_start t \<le> tok_end t" "tok_end t \<le> int (length body)"
  shows "token_text body t = Some (shown body (core t))"
proof -
  define d where "d = tok_end t - tok_start t"
  define n where "n = (if d > 63 then 63 else d)"
  have d: "0 \<le> d" "d \<le> int (length (drop (nat (tok_start t)) body))" using assms(2-) by (simp_all add: d_def)
  have n: "min 63 (nat d) = nat n" "0 \<le> n" "n \<le> int (length (drop (nat (tok_start t)) body))"
    using d unfolding n_def by (auto split: if_split)
  have sh: "shown body (core t) = take (nat n) (drop (nat (tok_start t)) body)"
    unfolding shown_def core_def prod.case n(1) [symmetric] d_def ..
  then have "rdn (drop (nat (tok_start t)) body) n = Some (shown body (core t))"
    unfolding rdn_Some_iff using n by blast
  moreover have "takeWhile (\<lambda>c. c \<noteq> 0) (shown body (core t)) = shown body (core t)"
    unfolding takeWhile_eq_all_conv sh using assms(1) by (auto dest!: in_set_takeD in_set_dropD)
  ultimately show ?thesis using assms(2) unfolding token_text_def d_def [symmetric] n_def [symmetric] Let_def
    by (simp add: assert_that_def)
qed

lemma snprintf_view: "snprintf 128 (lit ''%s: %s'') [a, b] = Some (take 127 (a @ lit '': '' @ b))"
proof -
  have "fmt_expand (lit ''%s: %s'') [a, b] = Some (a @ lit '': '' @ b)" by (simp add: lit_def)
  from snprintf_expand [OF this, of 128] show ?thesis by simp
qed

lemma viewer_lines_pairs:
  assumes "0 \<notin> set body"
    and "\<forall>t \<in> set ts. 0 \<le> tok_start t \<and> tok_start t \<le> tok_end t \<and> tok_end t \<le> int (length body)" "0 < room"
  shows "viewer_lines body ts room = Some (map (view_line body) (take room (string_pairs (map core ts))))"
  using assms(2-)
proof (induction ts arbitrary: room)
  case (Cons a ts)
  note IH = Cons.IH and room = \<open>0 < room\<close> and ok = Cons.prems(1)
  show ?case
  proof (cases ts)
    case Nil
    then show ?thesis by simp
  next
    case ts: (Cons b us)
    have t: "token_text body a = Some (shown body (core a))" "token_text body b = Some (shown body (core b))"
      using ok assms(1) by (simp_all add: token_text_shown ts)
    have fst: "fst (core x) = tok_type x" for x by (simp add: core_def)
    have rec: "viewer_lines body ts r = Some (map (view_line body) (take r (string_pairs (map core ts))))" if "0 < r" for r
      using that ok by (intro IH) auto
    show ?thesis
    proof (cases "tok_type b = JSMN_STRING \<and> tok_type a = JSMN_STRING")
      case True
      obtain r where r: "room = Suc r" using room by (cases room) auto
      have "(if room \<le> 1 then Some [] else viewer_lines body ts (room - 1)) =
          Some (map (view_line body) (take r (string_pairs (map core ts))))"
        using rec [of r] by (auto simp: r)
      then show ?thesis unfolding ts viewer_lines.simps list.map string_pairs.simps fst
        using True t by (simp add: snprintf_view r view_line_def)
    next
      case False
      then have c: "\<not> (tok_type b = JSMN_STRING \<and> tok_type a = JSMN_STRING)" .
      show ?thesis using rec [OF room] unfolding ts viewer_lines.simps list.map string_pairs.simps fst if_not_P [OF c]
        by simp
    qed
  qed
qed simp

lemma viewer_tokens_ok:
  assumes "length t = 128" "jsmn_parse jsmn_init body (length body) (Some t) 128 = Some (r, p)" "0 \<le> r"
  shows "\<exists>us. js_toks p = Some us \<and> cores p = map core (take (nat r) us) \<and>
    (\<forall>x \<in> set (take (nat r) us). 0 \<le> tok_start x \<and> tok_start x \<le> tok_end x \<and> tok_end x \<le> int (length body))"
proof -
  from jsmn_parse_total [OF le_refl assms(1), of body] assms(2,3) obtain us where
    us: "js_toks p = Some us" "length us = 128" "r = int (js_next p)" "js_next p \<le> 128"
      "\<forall>i < js_next p. 0 \<le> tok_start (us ! i) \<and> tok_start (us ! i) \<le> tok_end (us ! i) \<and> tok_end (us ! i) \<le> int (length body)"
    by (auto simp: JSMN_ERROR_NOMEM_def JSMN_ERROR_INVAL_def JSMN_ERROR_PART_def)
  then show ?thesis by (auto simp: cores_def in_set_conv_nth)
qed

text \<open>Whatever the server sends, the viewer never reads outside the text or its token array: it
  reports that the text cannot be parsed or shows at most the given number of lines, all of
  which fit their buffer.\<close>

theorem json_view_safe:
  assumes "0 \<notin> set body" "length t = 128" "0 < k"
  shows "json_view body t k = Some (Inl (lit ''Failed to parse JSON'')) \<or>
    (\<exists>ls. json_view body t k = Some (Inr ls) \<and> length ls \<le> k \<and> (\<forall>l \<in> set ls. length l < 128))"
proof -
  from jsmn_parse_total [OF le_refl assms(2), of body] obtain r p where
    rp: "jsmn_parse jsmn_init body (length body) (Some t) 128 = Some (r, p)" by auto
  show ?thesis
  proof (cases "r < 0")
    case True
    with rp show ?thesis by (simp add: json_view_def)
  next
    case False
    then have "0 \<le> r" by simp
    from viewer_tokens_ok [OF assms(2) rp this] obtain us where us: "js_toks p = Some us" "cores p = map core (take (nat r) us)"
      "\<forall>x \<in> set (take (nat r) us). 0 \<le> tok_start x \<and> tok_start x \<le> tok_end x \<and> tok_end x \<le> int (length body)" by blast
    from viewer_lines_pairs [OF assms(1) us(3) assms(3)] rp False us(1)
    show ?thesis by (auto simp: json_view_def view_line_def)
  qed
qed

lemma json_view_safe_witness:
  "json_view [LBRACE, QUOTE, 200] (replicate 128 blank_tok) 33 = Some (Inl (lit ''Failed to parse JSON'')) \<or>
    (\<exists>ls. json_view [LBRACE, QUOTE, 200] (replicate 128 blank_tok) 33 = Some (Inr ls) \<and> length ls \<le> 33 \<and> (\<forall>l \<in> set ls. length l < 128))"
  by (rule json_view_safe) simp_all

text \<open>For a well-formed document the viewer shows one line for each two neighbouring string
  tokens, in order: so for an object of strings not only each key with its value, but also
  each value with the next key.\<close>

theorem json_view_document:
  assumes "doc_ok d" "set f \<subseteq> fillers" "set g \<subseteq> fillers" "0 \<notin> set (f @ rend d @ g)" "length t = 128"
    and "length (toks d (length f)) \<le> 128" "0 < k"
  shows "json_view (f @ rend d @ g) t k =
    Some (Inr (map (view_line (f @ rend d @ g)) (take k (string_pairs (toks d (length f))))))"
proof -
  let ?b = "f @ rend d @ g"
  from jsmn_parse_doc [OF assms(1-3,5,6)] obtain p where
    p: "jsmn_parse jsmn_init ?b (length ?b) (Some t) 128 = Some (int (length (toks d (length f))), p)" "cores p = toks d (length f)"
    by blast
  from viewer_tokens_ok [OF assms(5) p(1)] obtain us where us: "js_toks p = Some us"
    "cores p = map core (take (length (toks d (length f))) us)"
    "\<forall>x \<in> set (take (length (toks d (length f))) us). 0 \<le> tok_start x \<and> tok_start x \<le> tok_end x \<and> tok_end x \<le> int (length ?b)"
    by auto
  have "viewer_lines ?b (take (length (toks d (length f))) us) k =
      Some (map (view_line ?b) (take k (string_pairs (toks d (length f)))))"
    using viewer_lines_pairs [OF assms(4) us(3) assms(7)] us(2) p(2) by simp
  then show ?thesis using p(1) us(1) by (simp add: json_view_def)
qed

text \<open>\<open>{"a":"b","c":"d"}\<close> shows \<open>a: b\<close>, \<open>b: c\<close> and \<open>c: d\<close>.\<close>

definition view_demo :: jdoc where
  "view_demo = DBr True (ICons [] (DStr [97]) (ICons [58] (DStr [98]) (ICons [44] (DStr [99]) (ICons [58] (DStr [100]) INil)))) []"

lemma json_view_document_witness:
  "json_view ([] @ rend view_demo @ []) (replicate 128 blank_tok) 33 = Some (Inr [lit ''a: b'', lit ''b: c'', lit ''c: d''])"
proof -
  have "json_view ([] @ rend view_demo @ []) (replicate 128 blank_tok) 33 =
    Some (Inr (map (view_line ([] @ rend view_demo @ [])) (take 33 (string_pairs (toks view_demo (length ([] :: bytes)))))))"
    by (rule json_view_document) (simp_all add: view_demo_def fillers_def is_prim_def open_ch_def close_ch_def)
  moreover have "map (view_line ([] @ rend view_demo @ [])) (take 33 (string_pairs (toks view_demo (length ([] :: bytes))))) =
      [lit ''a: b'', lit ''b: c'', lit ''c: d'']"
    by code_simp
  ultimately show ?thesis by simp
qed

end
