(* ===== verification/Http.thy ===== *)
theory Http
  imports Tcp_Run Cstring
begin

text \<open>
  The HTTP client \<open>src/http.c\<close> over the TCP client: connect, wait, request, read, follow
  redirects, extract the body. \<open>rtl8139_poll\<close>, through which segments arrive, is the
  parameter \<open>poll\<close>; it may change the connection, the network and an environment \<open>'e\<close> of
  its own. The wait for the connection is bounded by 300000 polls; the read loop has no
  bound and is a \<open>partial_function\<close>: \<open>None\<close> means that it never returns (or that
  \<open>poll\<close> fails).
\<close>

section \<open>State\<close>

record 'e http_world =
  http_last_ret :: int
  http_last_raw_len :: int
  http_last_tcp_state :: int
  hw_tcp :: tcp
  hw_net :: net
  hw_env :: 'e

type_synonym 'e poll = "tcp \<times> net \<times> 'e \<Rightarrow> (tcp \<times> net \<times> 'e) option"

definition do_poll :: "'e poll \<Rightarrow> 'e http_world \<Rightarrow> 'e http_world option" where
  "do_poll poll w = do {
     (t, n, e) \<leftarrow> poll (hw_tcp w, hw_net w, hw_env w);
     Some (w\<lparr>hw_tcp := t, hw_net := n, hw_env := e\<rparr>)
   }"

abbreviation hw_state :: "'e http_world \<Rightarrow> tcp_state" where
  "hw_state w \<equiv> ts_state (g_sock (hw_tcp w))"

section \<open>Parsing\<close>

text \<open>The number is an \<open>unsigned\<close>: it wraps around before it is compared with 255.\<close>

fun parse_num :: "cstr \<Rightarrow> u32 \<Rightarrow> u32 \<times> cstr" where
  "parse_num [] v = (v, [])"
| "parse_num (c # s) v =
     (if 48 \<le> c \<and> c \<le> 57 then parse_num s (v * 10 + (ucast c - 48)) else (v, c # s))"

text \<open>The loop over the parts, of which \<open>k\<close> are still missing; the result are the parts found.\<close>

fun parse_parts :: "nat \<Rightarrow> cstr \<Rightarrow> u32 list option" where
  "parse_parts 0 s = Some []"
| "parse_parts (Suc k) [] = Some []"
| "parse_parts (Suc k) (c # s) =
     (if c < 48 \<or> 57 < c then None
      else let (val, cur) = parse_num (c # s) 0 in
        if 255 < val then None
        else case cur of
          x # cur' \<Rightarrow> (if x = 46 then map_option ((#) val) (parse_parts k cur') else Some [val])
        | [] \<Rightarrow> Some [val])"

definition parse_ipv4_literal :: "cstr \<Rightarrow> u32 option" where
  "parse_ipv4_literal s =
     (case parse_parts 4 s of
        Some [a, b, c, d] \<Rightarrow> Some (push_bit 24 a OR push_bit 16 b OR push_bit 8 c OR d)
      | _ \<Rightarrow> None)"

text \<open>The digits of the status are read as by \<open>atoi\<close>; overflow is undefined behaviour.\<close>

definition parse_http_status :: "cstr \<Rightarrow> int option" where
  "parse_http_status raw =
     (if strncmp raw (lit ''HTTP/'') 5 \<noteq> 0 then Some 0
      else case dropWhile (\<lambda>c. c \<noteq> 32) (drop 5 raw) of
        [] \<Rightarrow> Some 0
      | _ # p \<Rightarrow> atoi_loop p 0)"

definition CRLF :: cstr where "CRLF = [13, 10]"

definition http_request_fmt :: cstr where
  "http_request_fmt = lit ''GET %s HTTP/1.1'' @ CRLF @ lit ''Host: %s'' @ CRLF @
     lit ''User-Agent: MyOS/0.1'' @ CRLF @ lit ''Connection: close'' @ CRLF @ CRLF"

section \<open>Responses\<close>

datatype http_next = Return int "cstr option" | Follow u32 cstr cstr

text \<open>The value of the \<open>Location\<close> header, cut to the 1024-byte buffer.\<close>

definition http_location :: "cstr \<Rightarrow> cstr option" where
  "http_location raw = do {
     i \<leftarrow> (case strstr raw (lit ''Location:'') of Some i \<Rightarrow> Some i | None \<Rightarrow> strstr raw (lit ''location:''));
     j \<leftarrow> strchr (drop i raw) 58;
     let loc = dropWhile (\<lambda>c. c = 32 \<or> c = 9) (drop (i + j + 1) raw);
     Some (take 1023 (takeWhile (\<lambda>c. c \<noteq> 13 \<and> c \<noteq> 10) loc))
   }"

definition http_redirect :: "cstr \<Rightarrow> u32 \<Rightarrow> cstr \<Rightarrow> http_next" where
  "http_redirect locbuf ip hostbuf =
     (if strncmp locbuf (lit ''https://'') 8 = 0 then Return (-11) None
      else if strncmp locbuf (lit ''http://'') 7 = 0 then
        let newhost = take 127 (takeWhile (\<lambda>c. c \<noteq> 47 \<and> c \<noteq> 58) (drop 7 locbuf));
            p = drop (7 + length newhost) locbuf;
            newpath = (if p = [] then [47] else p)
        in case parse_ipv4_literal newhost of
             Some newip \<Rightarrow> Follow newip (strncpy newhost 127) (strncpy newpath 1023)
           | None \<Rightarrow>
               (if strcmp newhost hostbuf = 0 then Follow ip hostbuf (strncpy newpath 1023)
                else Return (-13) None)
      else case locbuf of
        c # _ \<Rightarrow> (if c = 47 then Follow ip hostbuf (strncpy locbuf 1023) else Return (-14) None)
      | [] \<Rightarrow> Return (-14) None)"

definition http_body :: "cstr \<Rightarrow> cstr" where
  "http_body raw = (case strstr raw (CRLF @ CRLF) of Some i \<Rightarrow> drop (i + 4) raw | None \<Rightarrow> raw)"

definition http_response :: "cstr \<Rightarrow> u32 \<Rightarrow> cstr \<Rightarrow> int \<Rightarrow> http_next option" where
  "http_response raw ip hostbuf out_cap = do {
     status \<leftarrow> parse_http_status raw;
     if 300 \<le> status \<and> status < 400 then
       (case http_location raw of
          None \<Rightarrow> Some (Return (-12) None)
        | Some locbuf \<Rightarrow> Some (http_redirect locbuf ip hostbuf))
     else
       let body = http_body raw;
           len = int (strlen body);
           body_len = (if len > out_cap - 1 then out_cap - 1 else len)
       in Some (Return body_len (Some (take (nat body_len) body)))
   }"

section \<open>The conversation\<close>

primrec wait_established :: "'e poll \<Rightarrow> nat \<Rightarrow> 'e http_world \<Rightarrow> 'e http_world option" where
  "wait_established poll 0 w = Some w"
| "wait_established poll (Suc k) w =
     (if hw_state w \<noteq> TCP_ESTABLISHED then do {
        w' \<leftarrow> do_poll poll w;
        wait_established poll k (w'\<lparr>http_last_tcp_state := int (tcp_state_code (hw_state w'))\<rparr>)
      }
      else Some w)"

definition http_closing :: "tcp_state \<Rightarrow> bool" where
  "http_closing s \<longleftrightarrow> s = TCP_FIN_WAIT1 \<or> s = TCP_FIN_WAIT2 \<or> s = TCP_TIME_WAIT"

partial_function (option) read_loop :: "'e poll \<Rightarrow> bytes \<Rightarrow> 'e http_world \<Rightarrow> (bytes \<times> 'e http_world) option" where
  "read_loop poll raw w =
     (if length raw < 32767 then
        (case do_poll poll w of
           None \<Rightarrow> None
         | Some w1 \<Rightarrow>
           (case tcp_recv G_SOCK (32767 - int (length raw)) (hw_tcp w1) of
              None \<Rightarrow> None
            | Some r \<Rightarrow>
                (if fst r \<noteq> [] then read_loop poll (raw @ fst r) (w1\<lparr>hw_tcp := snd r\<rparr>)
                 else if http_closing (ts_state (g_sock (snd r))) then Some (raw, w1\<lparr>hw_tcp := snd r\<rparr>)
                 else read_loop poll raw (w1\<lparr>hw_tcp := snd r\<rparr>))))
      else Some (raw, w))"

definition hw_close :: "'e http_world \<Rightarrow> 'e http_world option" where
  "hw_close w = do {
     (_, t, n) \<leftarrow> tcp_close G_SOCK (hw_tcp w) (hw_net w);
     Some (w\<lparr>hw_tcp := t, hw_net := n\<rparr>)
   }"

text \<open>One turn of the redirect loop.\<close>

definition http_attempt ::
    "'e poll \<Rightarrow> u32 \<Rightarrow> u16 \<Rightarrow> cstr \<Rightarrow> cstr \<Rightarrow> int \<Rightarrow> 'e http_world \<Rightarrow> (http_next \<times> 'e http_world) option" where
  "http_attempt poll ip port hostbuf pathbuf out_cap w = do {
     (c, t, n) \<leftarrow> tcp_connect G_SOCK ip port 0 (tcp_init (hw_tcp w)) (hw_net w);
     let w1 = w\<lparr>hw_tcp := t, hw_net := n, http_last_tcp_state := 0\<rparr>;
     if c \<noteq> 0 then Some (Return (-2) None, w1)
     else do {
       w2 \<leftarrow> wait_established poll 300000 w1;
       if hw_state w2 \<noteq> TCP_ESTABLISHED then do { w3 \<leftarrow> hw_close w2; Some (Return (-3) None, w3) }
       else do {
         req \<leftarrow> snprintf 512 http_request_fmt [pathbuf, hostbuf];
         if length req = 0 then do { w3 \<leftarrow> hw_close w2; Some (Return (-4) None, w3) }
         else do {
           (_, t3, n3) \<leftarrow> tcp_send G_SOCK req (int (length req)) (hw_tcp w2) (hw_net w2);
           (raw, w4) \<leftarrow> read_loop poll [] (w2\<lparr>hw_tcp := t3, hw_net := n3\<rparr>);
           w5 \<leftarrow> hw_close w4;
           let w6 = w5\<lparr>http_last_raw_len := int (length raw)\<rparr>;
           if raw = [] then Some (Return 0 None, w6)
           else do {
             r \<leftarrow> http_response (takeWhile (\<lambda>c. c \<noteq> 0) raw) ip hostbuf out_cap;
             Some (r, w6)
           }
         }
       }
     }
   }"

primrec http_redirects ::
    "nat \<Rightarrow> 'e poll \<Rightarrow> u32 \<Rightarrow> u16 \<Rightarrow> cstr \<Rightarrow> cstr \<Rightarrow> int \<Rightarrow> 'e http_world \<Rightarrow>
     (int \<times> cstr option \<times> 'e http_world) option" where
  "http_redirects 0 poll ip port hostbuf pathbuf out_cap w = Some (-15, None, w\<lparr>http_last_ret := -15\<rparr>)"
| "http_redirects (Suc k) poll ip port hostbuf pathbuf out_cap w = do {
     (r, w') \<leftarrow> http_attempt poll ip port hostbuf pathbuf out_cap w;
     case r of
       Return c body \<Rightarrow> Some (c, body, w'\<lparr>http_last_ret := c\<rparr>)
     | Follow ip' host' path' \<Rightarrow> http_redirects k poll ip' port host' path' out_cap w'
   }"

text \<open>The result: return value and what is written to \<open>out\<close>, if anything.\<close>

definition http_get_by_ip_port ::
    "'e poll \<Rightarrow> u32 \<Rightarrow> u16 \<Rightarrow> cstr \<Rightarrow> cstr \<Rightarrow> int \<Rightarrow> 'e http_world \<Rightarrow>
     (int \<times> cstr option \<times> 'e http_world) option" where
  "http_get_by_ip_port poll ip port host_header path out_cap w =
     (if out_cap \<le> 0 then Some (-1, None, w\<lparr>http_last_ret := -1\<rparr>)
      else http_redirects 6 poll ip port (strncpy host_header 127) (strncpy path 1023) out_cap
        (w\<lparr>http_last_ret := -999, http_last_raw_len := 0\<rparr>))"

definition http_get_by_ip ::
    "'e poll \<Rightarrow> u32 \<Rightarrow> cstr \<Rightarrow> cstr \<Rightarrow> int \<Rightarrow> 'e http_world \<Rightarrow>
     (int \<times> cstr option \<times> 'e http_world) option" where
  "http_get_by_ip poll ip = http_get_by_ip_port poll ip 80"

end
