(* ===== verification/Http_Run.thy ===== *)
theory Http_Run
  imports Http Decimal
begin

text \<open>
  Runs of the HTTP client: address literals, responses, the results of a call, the read loop
  against a peer that answers with a script of segments, and a whole request from the
  handshake to the body.
\<close>

section \<open>Addresses\<close>

lemma parse_num_digits:
  "\<forall>c \<in> set s. is_digit c \<Longrightarrow> r = [] \<or> \<not> is_digit (hd r) \<Longrightarrow>
    parse_num (s @ r) v = (word_of_nat (foldl (\<lambda>v c. v * 10 + (unat c - 48)) (unat v) s), r)"
proof (induction s arbitrary: v)
  case Nil
  then show ?case by (cases r) (auto simp: is_digit_def)
next
  case (Cons c s)
  have c: "48 \<le> c" "c \<le> 57" using Cons.prems(1) by (simp_all add: is_digit_def)
  let ?v = "v * 10 + (ucast c - 48) :: u32"
  have "word_of_nat (foldl (\<lambda>v c. v * 10 + (unat c - 48)) k s) = (word_of_nat (foldl (\<lambda>v c. v * 10 + (unat c - 48)) k' s) :: u32)"
    if "(word_of_nat k :: u32) = word_of_nat k'" for k k'
    using that by (induction s arbitrary: k k') simp_all
  moreover have "(word_of_nat (unat ?v) :: u32) = word_of_nat (unat v * 10 + (unat c - 48))"
  proof -
    have "48 \<le> unat c" using c(1) by (simp add: word_le_nat_alt)
    moreover have "(word_of_nat (unat c) :: u32) = ucast c" by simp
    ultimately show ?thesis by (simp add: of_nat_diff)
  qed
  ultimately show ?case using Cons c by simp
qed

lemma parse_num_dec:
  assumes "n < 2 ^ 32" "r = [] \<or> \<not> is_digit (hd r)"
  shows "parse_num (dec n @ r) 0 = (word_of_nat n, r)"
  using parse_num_digits [OF dec_digits assms(2), of n 0] dval_dec [of n] by (simp add: dval_def)

definition dotted :: "u8 \<Rightarrow> u8 \<Rightarrow> u8 \<Rightarrow> u8 \<Rightarrow> cstr" where
  "dotted a b c d = dec (unat a) @ 46 # dec (unat b) @ 46 # dec (unat c) @ 46 # dec (unat d)"

lemma parse_parts_dec:
  assumes "r = [] \<or> (\<exists>r'. r = 46 # r')"
  shows "parse_parts (Suc k) (dec (unat (a :: u8)) @ r) =
    (case r of [] \<Rightarrow> Some [ucast a] | _ # r' \<Rightarrow> map_option ((#) (ucast a)) (parse_parts k r'))"
proof -
  obtain x xs where x: "dec (unat a) = x # xs" by (cases "dec (unat a)") auto
  then have dx: "\<not> (x < 48 \<or> 57 < x)" using dec_digits [of "unat a"] by (auto simp: is_digit_def)
  have "unat a < 2 ^ 32" using unat_u8_less [of a] by simp
  moreover have "r = [] \<or> \<not> is_digit (hd r)" using assms by (auto simp: is_digit_def)
  ultimately have p: "parse_num (x # (xs @ r)) 0 = (ucast a, r)"
    using parse_num_dec [of "unat a" r] x by simp
  have "\<not> 255 < (ucast a :: u32)"
    using unat_u8_less [of a] by (simp add: word_less_nat_alt)
  then show ?thesis using assms dx p x by auto
qed


text \<open>The address with four bytes packed in host order.\<close>

definition pack_ip :: "u8 \<Rightarrow> u8 \<Rightarrow> u8 \<Rightarrow> u8 \<Rightarrow> u32" where
  "pack_ip a b c d = push_bit 24 (ucast a) OR push_bit 16 (ucast b) OR push_bit 8 (ucast c) OR ucast d"

lemma parse_dotted: "parse_ipv4_literal (dotted a b c d) = Some (pack_ip a b c d)"
proof -
  have "parse_parts 4 (dotted a b c d) = Some [ucast a, ucast b, ucast c, ucast d]"
    using parse_parts_dec [of "46 # dec (unat b) @ 46 # dec (unat c) @ 46 # dec (unat d)" 3 a]
      parse_parts_dec [of "46 # dec (unat c) @ 46 # dec (unat d)" 2 b]
      parse_parts_dec [of "46 # dec (unat d)" 1 c] parse_parts_dec [of "[]" 0 d]
    by (simp add: dotted_def numeral_eq_Suc)
  then show ?thesis by (simp add: parse_ipv4_literal_def pack_ip_def)
qed

section \<open>Responses\<close>

lemma strstr_at:
  assumes "n \<noteq> []" "\<forall>i < length a. take (length n) (drop i (a @ n @ b)) \<noteq> n"
  shows "strstr (a @ n @ b) n = Some (length a)"
  using assms strstr_loop_Some [OF assms(1), of "a @ n @ b" "length a"] by (simp add: strstr_def)

lemma http_body_split:
  assumes "\<forall>i < length a. take 4 (drop i (a @ CRLF @ CRLF @ b)) \<noteq> CRLF @ CRLF"
  shows "http_body (a @ CRLF @ CRLF @ b) = b"
proof -
  have l: "length (CRLF @ CRLF) = 4" "CRLF @ CRLF \<noteq> []" by (simp_all add: CRLF_def)
  have "strstr (a @ (CRLF @ CRLF) @ b) (CRLF @ CRLF) = Some (length a)"
    by (rule strstr_at [OF l(2)]) (use assms in \<open>simp only: l append_assoc\<close>)
  then show ?thesis by (simp add: http_body_def CRLF_def)
qed

text \<open>What a call may return, and that what it writes fits the buffer.\<close>

definition http_result_ok :: "int \<Rightarrow> int \<Rightarrow> cstr option \<Rightarrow> bool" where
  "http_result_ok cap c out \<longleftrightarrow>
     (case out of None \<Rightarrow> c \<in> {0, -1, -2, -3, -4, -11, -12, -13, -14, -15}
      | Some b \<Rightarrow> c = int (length b) \<and> c + 1 \<le> cap)"

lemma http_redirect_result: "http_redirect l ip h = Return c b \<Longrightarrow> http_result_ok cap c b"
  by (auto simp: http_redirect_def http_result_ok_def Let_def split: if_splits option.splits list.splits)

lemma http_response_result:
  assumes "http_response raw ip h cap = Some (Return c b)" "0 < cap"
  shows "http_result_ok cap c b"
proof -
  from assms(1) obtain st where st: "parse_http_status raw = Some st" by (auto simp: http_response_def bind_Some_iff)
  show ?thesis
  proof (cases "300 \<le> st \<and> st < 400")
    case True
    with assms st show ?thesis
      by (auto simp: http_response_def http_result_ok_def dest: http_redirect_result split: option.splits)
  next
    case False
    with assms st show ?thesis by (auto simp: http_response_def http_result_ok_def Let_def)
  qed
qed

text \<open>Every path through \<open>http_attempt\<close> ends in a result of this kind.\<close>

definition attempt_ok :: "int \<Rightarrow> (http_next \<times> 'e http_world) option \<Rightarrow> bool" where
  "attempt_ok cap m \<longleftrightarrow> (\<forall>c b w. m = Some (Return c b, w) \<longrightarrow> http_result_ok cap c b)"

lemma attempt_ok_bind: "(\<And>x. m = Some x \<Longrightarrow> attempt_ok cap (f x)) \<Longrightarrow> attempt_ok cap (m \<bind> f)"
  by (cases m) (auto simp: attempt_ok_def)

lemma attempt_ok_if: "attempt_ok cap x \<Longrightarrow> attempt_ok cap y \<Longrightarrow> attempt_ok cap (if b then x else y)"
  by simp

lemma attempt_ok_case: "(\<And>a b. x = (a, b) \<Longrightarrow> attempt_ok cap (f a b)) \<Longrightarrow> attempt_ok cap (case x of (a, b) \<Rightarrow> f a b)"
  by (cases x) simp

lemma attempt_ok_code: "c \<in> {0, -2, -3, -4} \<Longrightarrow> attempt_ok cap (Some (Return c None, w))"
  by (auto simp: attempt_ok_def http_result_ok_def)

lemma http_attempt_result:
  assumes "http_attempt poll ip prt h p cap w = Some (Return c b, w')" "0 < cap"
  shows "http_result_ok cap c b"
proof -
  have r: "attempt_ok cap (http_response raw ip h cap \<bind> (\<lambda>r. Some (r, v)))" for raw and v :: "'a http_world"
    using http_response_result [OF _ assms(2)] by (auto simp: attempt_ok_def bind_Some_iff)
  have "attempt_ok cap (http_attempt poll ip prt h p cap w)"
    unfolding http_attempt_def Let_def
    by (rule attempt_ok_bind attempt_ok_if attempt_ok_case r attempt_ok_code | simp only: insert_iff simp_thms)+
  with assms(1) show ?thesis by (auto simp: attempt_ok_def)
qed

lemma http_redirects_result:
  "http_redirects k poll ip prt h p cap w = Some (c, b, w') \<Longrightarrow> 0 < cap \<Longrightarrow>
    http_result_ok cap c b \<and> http_last_ret w' = c"
proof (induction k arbitrary: ip h p w)
  case 0
  then show ?case by (auto simp: http_result_ok_def)
next
  case (Suc k)
  then obtain r w1 where r: "http_attempt poll ip prt h p cap w = Some (r, w1)" by (auto simp: bind_Some_iff)
  with Suc show ?case by (cases r) (auto dest: http_attempt_result)
qed


section \<open>A peer with a script\<close>

text \<open>
  The environment of a run: the peer and what it still sends, for each poll the segments (flags
  and payload) that it brings, any number of them; then the peer is silent. A SYN or FIN
  takes one sequence number.
\<close>

fun play :: "tcp_socket \<Rightarrow> (u8 \<times> bytes) list \<Rightarrow> tcp \<Rightarrow> net \<Rightarrow> (tcp \<times> net \<times> tcp_socket) option" where
  "play a [] t n = Some (t, n, a)"
| "play a ((f, d) # rs) t n = do {
     (t', n') \<leftarrow> tcp_on_rx (tcp_segment a f d) (20 + int (length d)) (ts_local_ip a) 0 t n;
     play (a\<lparr>ts_snd_nxt := ts_snd_nxt a + of_nat (length d) + (if f AND 0x03 \<noteq> 0 then 1 else 0)\<rparr>) rs t' n'
   }"

fun peer_poll :: "(tcp_socket \<times> (u8 \<times> bytes) list list) poll" where
  "peer_poll (t, n, a, []) = Some (t, n, a, [])"
| "peer_poll (t, n, a, b # bs) = do { (t', n', a') \<leftarrow> play a b t n; Some (t', n', a', bs) }"

lemma play_append: "play a (b @ c) t n = play a b t n \<bind> (\<lambda>(t', n', a'). play a' c t' n')"
proof (induction b arbitrary: a t n)
  case (Cons x b)
  then show ?case by (cases x) (auto split: Option.bind_splits)
qed simp

definition payload :: "(u8 \<times> bytes) list \<Rightarrow> bytes" where
  "payload b = concat (map snd b)"

lemma payload_simps [simp]: "payload [] = []" "payload ((f, d) # b) = d @ payload b" "payload (b @ c) = payload b @ payload c"
  by (simp_all add: payload_def)

text \<open>Segments with data and no SYN, FIN or RST.\<close>

definition plain :: "(u8 \<times> bytes) list \<Rightarrow> bool" where
  "plain b \<longleftrightarrow> (\<forall>(f, d) \<in> set b. f AND 0x07 = 0)"

lemma flag_parts:
  fixes f :: u8
  assumes "f AND 0x07 = 0"
  shows "f AND 0x04 = 0" "f AND 0x01 = 0" "f AND 0x03 = 0"
proof -
  have m: "f AND k = (f AND 0x07) AND k" if "(0x07 :: u8) AND k = k" for k
    using that by (metis and.assoc)
  show "f AND 0x04 = 0" "f AND 0x01 = 0" "f AND 0x03 = 0"
    using m [of "0x04"] m [of "0x01"] m [of "0x03"] assms by simp_all
qed

text \<open>The state between two segments: connected, the peer's next byte is the one expected.\<close>

definition in_step :: "tcp_socket \<Rightarrow> tcp \<Rightarrow> net \<Rightarrow> bool" where
  "in_step a t n \<longleftrightarrow> tcp_ok t \<and> net_ok n \<and> connected a (g_sock t) \<and> ts_state (g_sock t) = TCP_ESTABLISHED \<and>
     ts_snd_nxt a = ts_rcv_nxt (g_sock t) \<and> ts_rx_cap (g_sock t) = 8192"

lemma in_use_established: "tcp_ok t \<Longrightarrow> ts_state (g_sock t) = TCP_ESTABLISHED \<Longrightarrow> ts_in_use (g_sock t) \<noteq> 0"
  using tcp_ok_sock [of t G_SOCK] by (auto simp: sock_ok_def)

lemma rx_established:
  assumes "in_step a t n" "f AND 0x04 = 0"
  shows "tcp_on_rx (tcp_segment a f d) (20 + int (length d)) (ts_local_ip a) dst t n =
    rx_established_data d (int (length d)) (ts_snd_nxt a) t n \<bind> (\<lambda>(t', n'). rx_established_fin f t' n')"
  using tcp_on_rx_segment [of a t f d "[]" dst n] assms in_use_established [of t]
  by (simp add: in_step_def tcp_rx_state_def)

lemma data_taken:
  assumes "in_step a t n" "ts_rx_len (g_sock t) + int (length d) \<le> 8192"
  shows "\<exists>t' n'. rx_established_data d (int (length d)) (ts_snd_nxt a) t n = Some (t', n') \<and>
    in_step (a\<lparr>ts_snd_nxt := ts_snd_nxt a + of_nat (length d)\<rparr>) t' n' \<and>
    recvd G_SOCK t' = recvd G_SOCK t @ d \<and> ts_rx_len (g_sock t') = ts_rx_len (g_sock t) + int (length d)"
proof (cases "d = []")
  case True
  with assms(1) show ?thesis by (simp add: rx_established_data_def in_step_def connected_def)
next
  case False
  let ?g = "g_sock t"
  let ?g' = "?g\<lparr>ts_rx_len := ts_rx_len ?g + int (length d), ts_rcv_nxt := ts_rcv_nxt ?g + of_nat (length d)\<rparr>"
  have s: "connected a ?g" "ts_state ?g = TCP_ESTABLISHED" "tcp_ok t" "net_ok n" "ts_snd_nxt a = ts_rcv_nxt ?g" "ts_rx_cap ?g = 8192"
    using assms(1) by (simp_all add: in_step_def)
  have k: "int (length d) = min (int (length d)) (ts_rx_cap ?g - ts_rx_len ?g)" using assms(2) s(6) by simp
  obtain t1 n1 where t1: "tcp_on_rx (tcp_segment a 0x18 d @ []) (20 + int (length d)) (ts_local_ip a) 0 t n = Some (t1, n1)"
    "tcp_ok t1" "net_ok n1" "g_sock t1 = ?g'" "recvd G_SOCK t1 = recvd G_SOCK t @ take (nat (int (length d))) d"
    using tcp_on_rx_data [OF s(1-4) False s(5) k refl] by blast
  moreover have "rx_established_data d (int (length d)) (ts_snd_nxt a) t n = Some (t1, n1)"
    using t1(1) rx_established [OF assms(1), of "0x18" d 0] by (auto simp: rx_established_fin_def bind_Some_iff)
  ultimately show ?thesis using s by (simp add: in_step_def connected_def)
qed

lemma fin_taken:
  assumes "tcp_ok t" "net_ok n" "ts_state (g_sock t) = TCP_ESTABLISHED" "f AND 0x01 \<noteq> 0"
  shows "\<exists>t' n'. rx_established_fin f t n = Some (t', n') \<and> tcp_ok t' \<and> net_ok n' \<and>
    ts_state (g_sock t') = TCP_FIN_WAIT1 \<and> recvd G_SOCK t' = recvd G_SOCK t"
proof -
  let ?s = "(g_sock t)\<lparr>ts_rcv_nxt := ts_rcv_nxt (g_sock t) + 1\<rparr>"
  let ?s' = "?s\<lparr>ts_snd_nxt := ts_snd_nxt ?s + 1, ts_state := TCP_FIN_WAIT1\<rparr>"
  obtain n1 where n1: "tcp_send_segment ?s 0x10 [] n = Some n1" "net_ok n1"
    by (rule tcp_send_segment_obtain [OF assms(2)]) auto
  obtain n2 where n2: "tcp_send_segment ?s 0x11 [] n1 = Some n2" "net_ok n2"
    by (rule tcp_send_segment_obtain [OF n1(2)]) auto
  have "sock_ok ?s'" using tcp_ok_sock [OF assms(1), of G_SOCK] assms(3) in_use_established [OF assms(1,3)]
    by (auto simp: sock_ok_def split: rx_ptr.splits)
  then have "tcp_ok (put_sock G_SOCK ?s' t)" using assms(1) by blast
  with n1 n2 assms(4) show ?thesis
    by (intro exI [of _ "put_sock G_SOCK ?s' t"] exI [of _ n2]) (simp add: rx_established_fin_def Let_def recvd_def)
qed

text \<open>All segments of a poll are buffered if they fit together.\<close>

lemma play_plain:
  assumes "in_step a t n" "plain b" "ts_rx_len (g_sock t) + int (length (payload b)) \<le> 8192"
  shows "\<exists>t' n' a'. play a b t n = Some (t', n', a') \<and> in_step a' t' n' \<and> recvd G_SOCK t' = recvd G_SOCK t @ payload b \<and>
    ts_rx_len (g_sock t') = ts_rx_len (g_sock t) + int (length (payload b))"
  using assms
proof (induction b arbitrary: a t n)
  case Nil
  then show ?case by simp
next
  case (Cons x b)
  obtain f d where x: "x = (f, d)" by (cases x)
  let ?a = "a\<lparr>ts_snd_nxt := ts_snd_nxt a + of_nat (length d)\<rparr>"
  have f: "f AND 0x04 = 0" "f AND 0x01 = 0" "f AND 0x03 = 0" "plain b"
    using Cons.prems(2) flag_parts [of f] by (simp_all add: plain_def x)
  have "ts_rx_len (g_sock t) + int (length d) \<le> 8192" using Cons.prems(3) by (simp add: x)
  from data_taken [OF Cons.prems(1) this] obtain t1 n1 where
    1: "rx_established_data d (int (length d)) (ts_snd_nxt a) t n = Some (t1, n1)" "in_step ?a t1 n1"
      "recvd G_SOCK t1 = recvd G_SOCK t @ d" "ts_rx_len (g_sock t1) = ts_rx_len (g_sock t) + int (length d)" by blast
  have "tcp_on_rx (tcp_segment a f d) (20 + int (length d)) (ts_local_ip a) 0 t n = Some (t1, n1)"
    using rx_established [OF Cons.prems(1) f(1), of d 0] 1(1) f(2) by (simp add: rx_established_fin_def)
  moreover obtain t2 n2 a2 where "play ?a b t1 n1 = Some (t2, n2, a2)" "in_step a2 t2 n2"
    "recvd G_SOCK t2 = recvd G_SOCK t1 @ payload b" "ts_rx_len (g_sock t2) = ts_rx_len (g_sock t1) + int (length (payload b))"
    using Cons.IH [OF 1(2) f(4)] Cons.prems(3) 1(4) by (auto simp: x)
  ultimately show ?case using f(3) 1(3,4) by (simp add: x)
qed

lemma play_last:
  assumes "in_step a t n" "plain b" "ts_rx_len (g_sock t) + int (length (payload b) + length d) \<le> 8192"
    and "f AND 0x04 = 0" "f AND 0x01 \<noteq> 0"
  shows "\<exists>t' n' a'. play a (b @ [(f, d)]) t n = Some (t', n', a') \<and> tcp_ok t' \<and> net_ok n' \<and>
    ts_state (g_sock t') = TCP_FIN_WAIT1 \<and> recvd G_SOCK t' = recvd G_SOCK t @ payload b @ d"
proof -
  have "ts_rx_len (g_sock t) + int (length (payload b)) \<le> 8192" using assms(3) by simp
  from play_plain [OF assms(1,2) this] obtain t1 n1 a1 where
    1: "play a b t n = Some (t1, n1, a1)" "in_step a1 t1 n1" "recvd G_SOCK t1 = recvd G_SOCK t @ payload b"
      "ts_rx_len (g_sock t1) = ts_rx_len (g_sock t) + int (length (payload b))" by blast
  have "ts_rx_len (g_sock t1) + int (length d) \<le> 8192" using assms(3) 1(4) by simp
  from data_taken [OF 1(2) this] obtain t2 n2 where
    2: "rx_established_data d (int (length d)) (ts_snd_nxt a1) t1 n1 = Some (t2, n2)"
      "in_step (a1\<lparr>ts_snd_nxt := ts_snd_nxt a1 + of_nat (length d)\<rparr>) t2 n2" "recvd G_SOCK t2 = recvd G_SOCK t1 @ d" by blast
  have "tcp_ok t2" "net_ok n2" "ts_state (g_sock t2) = TCP_ESTABLISHED" using 2(2) by (simp_all add: in_step_def)
  from fin_taken [OF this assms(5)] obtain t3 n3 where
    3: "rx_established_fin f t2 n2 = Some (t3, n3)" "tcp_ok t3" "net_ok n3" "ts_state (g_sock t3) = TCP_FIN_WAIT1"
      "recvd G_SOCK t3 = recvd G_SOCK t2" by blast
  have "tcp_on_rx (tcp_segment a1 f d) (20 + int (length d)) (ts_local_ip a1) 0 t1 n1 = Some (t3, n3)"
    using rx_established [OF 1(2) assms(4), of d 0] 2(1) 3(1) by simp
  with 1 2(3) 3 show ?thesis by (simp add: play_append)
qed

lemma recvd_len:
  assumes "tcp_ok t" "recvd r t = xs"
  shows "ts_rx_len (socks t r) = int (length xs)"
  using assms tcp_ok_sock [OF assms(1), of r] sock_ok_len [of "socks t r"] by (auto simp: recvd_def tcp_ok_def)

text \<open>The state of a run between two polls: connected, everything received has been read.\<close>

definition reading :: "tcp_socket \<Rightarrow> 'e http_world \<Rightarrow> bool" where
  "reading a w \<longleftrightarrow> in_step a (hw_tcp w) (hw_net w) \<and> recvd G_SOCK (hw_tcp w) = []"

lemma reading_len: "reading a w \<Longrightarrow> ts_rx_len (g_sock (hw_tcp w)) = 0"
  using recvd_len [of "hw_tcp w" G_SOCK "[]"] by (simp add: reading_def in_step_def)

text \<open>One turn of the read loop takes what there is room for.\<close>

lemma read_turn:
  assumes "do_poll poll w = Some w1" "tcp_ok (hw_tcp w1)" "length raw < 32767" "recvd G_SOCK (hw_tcp w1) = d"
  shows "\<exists>t. tcp_recv G_SOCK (32767 - int (length raw)) (hw_tcp w1) = Some (take (32767 - length raw) d, t) \<and> tcp_ok t \<and>
    recvd G_SOCK t = drop (32767 - length raw) d \<and> (\<exists>l. g_sock t = (g_sock (hw_tcp w1))\<lparr>ts_rx_len := l\<rparr>) \<and>
    read_loop poll raw w = (if d \<noteq> [] then read_loop poll (take 32767 (raw @ d)) (w1\<lparr>hw_tcp := t\<rparr>)
      else if http_closing (hw_state w1) then Some (raw, w1\<lparr>hw_tcp := t\<rparr>) else read_loop poll raw (w1\<lparr>hw_tcp := t\<rparr>))"
proof -
  have m: "0 \<le> 32767 - int (length raw)" "nat (32767 - int (length raw)) = 32767 - length raw" using assms(3) by simp_all
  from tcp_recv_spec [OF assms(2) m(1), of G_SOCK] obtain t where t:
    "tcp_recv G_SOCK (32767 - int (length raw)) (hw_tcp w1) = Some (take (32767 - length raw) d, t)" "tcp_ok t"
    "recvd G_SOCK t = drop (32767 - length raw) d" "\<exists>l. g_sock t = (g_sock (hw_tcp w1))\<lparr>ts_rx_len := l\<rparr>"
    unfolding m(2) assms(4) by blast
  have "take (32767 - length raw) d \<noteq> [] \<longleftrightarrow> d \<noteq> []" "raw @ take (32767 - length raw) d = take 32767 (raw @ d)"
    using assms(3) by auto
  moreover have "ts_state (g_sock t) = hw_state w1" using t(4) by auto
  ultimately have "read_loop poll raw w = (if d \<noteq> [] then read_loop poll (take 32767 (raw @ d)) (w1\<lparr>hw_tcp := t\<rparr>)
      else if http_closing (hw_state w1) then Some (raw, w1\<lparr>hw_tcp := t\<rparr>) else read_loop poll raw (w1\<lparr>hw_tcp := t\<rparr>))"
    using assms(1,3) t(1) by (subst read_loop.simps) simp
  with t show ?thesis by blast
qed

lemma take_append_short: "n \<le> length xs + length ys \<Longrightarrow> take n (xs @ ys @ zs) = take n (xs @ ys)"
  by simp

lemma read_loop_full: "\<not> length raw < 32767 \<Longrightarrow> read_loop poll raw w = Some (raw, w)"
  by (subst read_loop.simps) simp

lemma read_batch:
  assumes "reading a w" "hw_env w = (a, b # bs)" "plain b" "length (payload b) \<le> 8192" "length raw < 32767"
  shows "\<exists>w' a'. read_loop peer_poll raw w = read_loop peer_poll (take 32767 (raw @ payload b)) w' \<and>
    tcp_ok (hw_tcp w') \<and> net_ok (hw_net w') \<and>
    (length (raw @ payload b) < 32767 \<longrightarrow> reading a' w' \<and> hw_env w' = (a', bs))"
proof -
  have s: "in_step a (hw_tcp w) (hw_net w)" "recvd G_SOCK (hw_tcp w) = []" using assms(1) by (simp_all add: reading_def)
  have "ts_rx_len (g_sock (hw_tcp w)) + int (length (payload b)) \<le> 8192" using reading_len [OF assms(1)] assms(4) by simp
  from play_plain [OF s(1) assms(3) this] s(2) obtain t1 n1 a1 where
    1: "play a b (hw_tcp w) (hw_net w) = Some (t1, n1, a1)" "in_step a1 t1 n1" "recvd G_SOCK t1 = payload b" by auto
  let ?w1 = "w\<lparr>hw_tcp := t1, hw_net := n1, hw_env := (a1, bs)\<rparr>"
  have ok: "tcp_ok t1" "net_ok n1" "ts_state (g_sock t1) = TCP_ESTABLISHED" using 1(2) by (simp_all add: in_step_def)
  have p: "do_poll peer_poll w = Some ?w1" using 1(1) by (simp add: do_poll_def assms(2))
  have d: "tcp_ok (hw_tcp ?w1)" "recvd G_SOCK (hw_tcp ?w1) = payload b" using ok(1) 1(3) by simp_all
  from read_turn [OF p d(1) assms(5) d(2)] obtain t where t: "tcp_ok t" "recvd G_SOCK t = drop (32767 - length raw) (payload b)"
    "\<exists>l. g_sock t = (g_sock t1)\<lparr>ts_rx_len := l\<rparr>"
    "read_loop peer_poll raw w = (if payload b \<noteq> [] then read_loop peer_poll (take 32767 (raw @ payload b)) (?w1\<lparr>hw_tcp := t\<rparr>)
      else if http_closing (hw_state ?w1) then Some (raw, ?w1\<lparr>hw_tcp := t\<rparr>) else read_loop peer_poll raw (?w1\<lparr>hw_tcp := t\<rparr>))"
    by auto
  have "read_loop peer_poll raw w = read_loop peer_poll (take 32767 (raw @ payload b)) (?w1\<lparr>hw_tcp := t\<rparr>)"
    using t(4) ok(3) assms(5) by (simp add: http_closing_def)
  moreover have "reading a1 (?w1\<lparr>hw_tcp := t\<rparr>)" if "length (raw @ payload b) < 32767"
    using that t(1-3) 1(2) by (auto simp: reading_def in_step_def connected_def)
  ultimately show ?thesis using t(1) ok(2) by (intro exI [of _ "?w1\<lparr>hw_tcp := t\<rparr>"] exI [of _ a1]) simp
qed

lemma read_last:
  assumes "reading a w" "hw_env w = (a, [b @ [(f, d)]])" "plain b" "length (payload b) + length d \<le> 8192" "length raw < 32767"
    and "f AND 0x04 = 0" "f AND 0x01 \<noteq> 0"
  shows "\<exists>w'. read_loop peer_poll raw w = Some (take 32767 (raw @ payload b @ d), w') \<and> tcp_ok (hw_tcp w') \<and> net_ok (hw_net w')"
proof -
  let ?d = "payload b @ d"
  have s: "in_step a (hw_tcp w) (hw_net w)" "recvd G_SOCK (hw_tcp w) = []" using assms(1) by (simp_all add: reading_def)
  have "ts_rx_len (g_sock (hw_tcp w)) + int (length (payload b) + length d) \<le> 8192" using reading_len [OF assms(1)] assms(4) by simp
  from play_last [OF s(1) assms(3) this assms(6,7)] s(2) obtain t1 n1 a1 where
    1: "play a (b @ [(f, d)]) (hw_tcp w) (hw_net w) = Some (t1, n1, a1)" "tcp_ok t1" "net_ok n1"
      "ts_state (g_sock t1) = TCP_FIN_WAIT1" "recvd G_SOCK t1 = ?d" by auto
  let ?w1 = "w\<lparr>hw_tcp := t1, hw_net := n1, hw_env := (a1, [])\<rparr>"
  have p: "do_poll peer_poll w = Some ?w1" using 1(1) by (simp add: do_poll_def assms(2))
  have d: "tcp_ok (hw_tcp ?w1)" "recvd G_SOCK (hw_tcp ?w1) = ?d" using 1(2,5) by simp_all
  from read_turn [OF p d(1) assms(5) d(2)] obtain t where t: "tcp_ok t" "recvd G_SOCK t = drop (32767 - length raw) ?d"
    "\<exists>l. g_sock t = (g_sock t1)\<lparr>ts_rx_len := l\<rparr>"
    "read_loop peer_poll raw w = (if ?d \<noteq> [] then read_loop peer_poll (take 32767 (raw @ ?d)) (?w1\<lparr>hw_tcp := t\<rparr>)
      else if http_closing (hw_state ?w1) then Some (raw, ?w1\<lparr>hw_tcp := t\<rparr>) else read_loop peer_poll raw (?w1\<lparr>hw_tcp := t\<rparr>))"
    by auto
  let ?w2 = "?w1\<lparr>hw_tcp := t\<rparr>"
  have st: "ts_state (g_sock t) = TCP_FIN_WAIT1" using t(3) 1(4) by auto
  consider "?d = []" | "?d \<noteq> []" "length (raw @ ?d) < 32767" | "?d \<noteq> []" "\<not> length (raw @ ?d) < 32767" by blast
  then show ?thesis
  proof cases
    case 1
    then show ?thesis using t(1,4) \<open>net_ok n1\<close> assms(5) \<open>ts_state (g_sock t1) = TCP_FIN_WAIT1\<close>
      by (intro exI [of _ ?w2]) (simp add: http_closing_def)
  next
    case 2
    then have e: "recvd G_SOCK (hw_tcp ?w2) = []" using t(2) by simp
    have q: "do_poll peer_poll ?w2 = Some ?w2" by (simp add: do_poll_def)
    from read_turn [OF q _ 2(2) e] t(1) obtain t' where "tcp_ok t'"
      "read_loop peer_poll (raw @ ?d) ?w2 = Some (raw @ ?d, ?w2\<lparr>hw_tcp := t'\<rparr>)" using st by (auto simp: http_closing_def)
    moreover have "read_loop peer_poll raw w = read_loop peer_poll (raw @ ?d) ?w2" using t(4) 2 by simp
    ultimately show ?thesis using 2(2) \<open>net_ok n1\<close> by (intro exI [of _ "?w2\<lparr>hw_tcp := t'\<rparr>"]) simp
  next
    case 3
    then have "\<not> length (take 32767 (raw @ ?d)) < 32767" by simp
    from read_loop_full [OF this, of peer_poll ?w2] t(1,4) 3(1) \<open>net_ok n1\<close> show ?thesis
      by (intro exI [of _ ?w2]) simp
  qed
qed

text \<open>The script of a whole response: polls with data, then one whose last segment has the FIN.\<close>

lemma read_loop_script:
  assumes "reading a w" "hw_env w = (a, bs @ [b @ [(f, d)]])"
    and "\<forall>c \<in> set bs. plain c \<and> length (payload c) \<le> 8192" "plain b" "length (payload b) + length d \<le> 8192" "length raw < 32767"
    and "f AND 0x04 = 0" "f AND 0x01 \<noteq> 0"
  shows "\<exists>w'. read_loop peer_poll raw w = Some (take 32767 (raw @ concat (map payload bs) @ payload b @ d), w') \<and>
    tcp_ok (hw_tcp w') \<and> net_ok (hw_net w')"
  using assms(1-3,6)
proof (induction bs arbitrary: a w raw)
  case Nil
  then show ?case using read_last [OF _ _ assms(4,5) _ assms(7,8), of a w raw] by simp
next
  case (Cons c bs)
  have c: "plain c" "length (payload c) \<le> 8192" "\<forall>c \<in> set bs. plain c \<and> length (payload c) \<le> 8192" using Cons.prems(3) by simp_all
  have env: "hw_env w = (a, c # bs @ [b @ [(f, d)]])" using Cons.prems(2) by simp
  from read_batch [OF Cons.prems(1) env c(1,2) Cons.prems(4)] obtain w1 a1 where
    1: "read_loop peer_poll raw w = read_loop peer_poll (take 32767 (raw @ payload c)) w1" "tcp_ok (hw_tcp w1)" "net_ok (hw_net w1)"
      "length (raw @ payload c) < 32767 \<longrightarrow> reading a1 w1 \<and> hw_env w1 = (a1, bs @ [b @ [(f, d)]])" by blast
  show ?case
  proof (cases "length (raw @ payload c) < 32767")
    case True
    with 1(4) have "reading a1 w1" "hw_env w1 = (a1, bs @ [b @ [(f, d)]])" by simp_all
    from Cons.IH [OF this c(3) True] 1(1) True show ?thesis by simp
  next
    case False
    then have "\<not> length (take 32767 (raw @ payload c)) < 32767" by simp
    from read_loop_full [OF this, of peer_poll w1] 1(1-3) False show ?thesis
      by (intro exI [of _ w1]) (simp add: take_append_short)
  qed
qed

text \<open>A reset ends the connection but not the read loop: it polls for ever.\<close>

lemma read_loop_never:
  assumes inv: "\<And>w. I w \<Longrightarrow> \<exists>w'. do_poll poll w = Some w' \<and> I w'"
    and dead: "\<And>w. I w \<Longrightarrow> ts_rx_len (g_sock (hw_tcp w)) \<le> 0 \<and> \<not> http_closing (hw_state w)"
    and "I w" "length raw < 32767"
  shows "read_loop poll raw w = None"
proof (rule ccontr)
  assume "read_loop poll raw w \<noteq> None"
  then obtain r where r: "read_loop poll raw w = Some r" by blast
  have "I w \<longrightarrow> \<not> length raw < 32767"
  proof (rule read_loop.raw_induct [OF _ r, where P = "\<lambda>poll' raw w r. poll' = poll \<longrightarrow> I w \<longrightarrow> \<not> length raw < 32767", THEN mp, OF _ refl])
    fix f :: "'a poll \<Rightarrow> bytes \<Rightarrow> 'a http_world \<Rightarrow> (bytes \<times> 'a http_world) option" and poll' raw w r
    assume IH: "\<And>poll' raw w r. f poll' raw w = Some r \<Longrightarrow> poll' = poll \<longrightarrow> I w \<longrightarrow> \<not> length raw < 32767"
      and step: "(if length raw < 32767 then
        (case do_poll poll' w of
           None \<Rightarrow> None
         | Some w1 \<Rightarrow>
           (case tcp_recv G_SOCK (32767 - int (length raw)) (hw_tcp w1) of
              None \<Rightarrow> None
            | Some r \<Rightarrow>
                (if fst r \<noteq> [] then f poll' (raw @ fst r) (w1\<lparr>hw_tcp := snd r\<rparr>)
                 else if http_closing (ts_state (g_sock (snd r))) then Some (raw, w1\<lparr>hw_tcp := snd r\<rparr>)
                 else f poll' raw (w1\<lparr>hw_tcp := snd r\<rparr>))))
      else Some (raw, w)) = Some r"
    show "poll' = poll \<longrightarrow> I w \<longrightarrow> \<not> length raw < 32767"
    proof (intro impI notI)
      assume p: "poll' = poll" and I: "I w" and len: "length raw < 32767"
      obtain w1 where w1: "do_poll poll w = Some w1" "I w1" using inv [OF I] by blast
      then have rv: "tcp_recv G_SOCK m (hw_tcp w1) = Some ([], hw_tcp w1)" for m
        using dead [OF w1(2)] by (simp add: tcp_recv_def)
      have "f poll raw w1 = Some r"
        using step p len w1(1) rv dead [OF w1(2)] by simp
      from IH [OF this] w1(2) len show False by simp
    qed
  qed
  with assms(3,4) show False by blast
qed


section \<open>A whole request\<close>

lemma http_request_expand:
  "fmt_expand http_request_fmt [p, h] = Some (lit ''GET '' @ p @ lit '' HTTP/1.1'' @ CRLF @ lit ''Host: '' @ h @ CRLF @
     lit ''User-Agent: MyOS/0.1'' @ CRLF @ lit ''Connection: close'' @ CRLF @ CRLF)"
  by (simp add: http_request_fmt_def lit_def CRLF_def)

lemma http_request_text:
  "\<exists>req. snprintf 512 http_request_fmt [p, h] = Some req \<and> req \<noteq> [] \<and> length req \<le> 511"
  using snprintf_loop_expand [OF http_request_expand, of "[]" 511 p h] by (simp add: snprintf_def lit_def)

text \<open>From a closed socket to an established connection, ready to read.\<close>

lemma http_connect:
  assumes "tcp_ok t" "net_ok n" "ts_local_ip a = ip" "ts_local_port a = prt" "ts_remote_port a = eph_p t"
  shows "\<exists>t1 n1 t2 n2. tcp_connect G_SOCK ip prt 0 (tcp_init t) n = Some (0, t1, n1) \<and>
    ts_state (g_sock t1) \<noteq> TCP_ESTABLISHED \<and>
    tcp_on_rx (tcp_segment a 0x12 []) 20 ip 0 t1 n1 = Some (t2, n2) \<and> tcp_ok t2 \<and> net_ok n2 \<and>
    connected a (g_sock t2) \<and> ts_state (g_sock t2) = TCP_ESTABLISHED \<and>
    ts_rcv_nxt (g_sock t2) = ts_snd_nxt a + 1 \<and> ts_rx_buf (g_sock t2) = RX_RB \<and> recvd G_SOCK t2 = []"
proof -
  let ?t = "tcp_init t"
  have t: "tcp_ok ?t" "ts_in_use (g_sock ?t) = 0" "eph_p ?t = eph_p t"
    using tcp_init_ok [OF assms(1)] by (simp_all add: tcp_init_def zero_socket_def)
  obtain t1 n1 where 1: "tcp_connect G_SOCK ip prt 0 ?t n = Some (0, t1, n1)" "net_ok n1"
    and g: "g_sock t1 = zero_socket\<lparr>ts_in_use := 1, ts_state := TCP_SYN_SENT, ts_remote_ip := ip,
      ts_remote_port := prt, ts_local_ip := net_get_ip n,
      ts_local_port := eph_p t, ts_snd_iss := iss_x ?t + 0x1000,
      ts_snd_nxt := iss_x ?t + 0x1000 + 1, ts_rx_buf := RX_RB, ts_rx_cap := 8192\<rparr>"
    using tcp_connect_spec [OF assms(2) t(2), of G_SOCK ip prt 0] t(3) by auto
  have ok: "tcp_ok t1" using tcp_connect_ok [OF t(1) assms(2), of G_SOCK ip prt 0] 1(1) by auto
  have con: "connected a (g_sock t1)" "ts_state (g_sock t1) = TCP_SYN_SENT"
    using assms(3-5) g by (simp_all add: connected_def)
  let ?g = "(g_sock t1)\<lparr>ts_rcv_nxt := ts_snd_nxt a + 1, ts_state := TCP_ESTABLISHED\<rparr>"
  obtain n2 where 2: "tcp_on_rx (tcp_segment a 0x12 []) 20 (ts_local_ip a) 0 t1 n1 = Some (put_sock G_SOCK ?g t1, n2)" "net_ok n2"
    using tcp_rx_syn_ack [OF con ok 1(2) refl, of 0] by auto
  have "sock_ok ?g" using tcp_ok_sock [OF ok, of G_SOCK] con by (auto simp: sock_ok_def split: rx_ptr.splits)
  then have "tcp_ok (put_sock G_SOCK ?g t1)" using ok by blast
  then show ?thesis using 1 2 con assms(3) g
    by (intro exI [of _ t1] exI [of _ n1] exI [of _ "put_sock G_SOCK ?g t1"] exI [of _ n2])
       (auto simp: connected_def recvd_def zero_socket_def)
qed

lemma wait_established_done: "hw_state w = TCP_ESTABLISHED \<Longrightarrow> wait_established poll k w = Some w"
  by (cases k) simp_all

lemma wait_established_Suc:
  assumes "hw_state w \<noteq> TCP_ESTABLISHED" "do_poll poll w = Some w'" "hw_state w' = TCP_ESTABLISHED"
  shows "wait_established poll (Suc k) w = Some (w'\<lparr>http_last_tcp_state := int (tcp_state_code TCP_ESTABLISHED)\<rparr>)"
  using assms wait_established_done [of "w'\<lparr>http_last_tcp_state := int (tcp_state_code TCP_ESTABLISHED)\<rparr>"] by simp

text \<open>Polls that bring nothing do not end the wait before its count does.\<close>

lemma wait_established_after:
  assumes "hw_state w \<noteq> TCP_ESTABLISHED" "hw_env w = (a, replicate q [] @ b # bs)" "q < k"
    and "play a b (hw_tcp w) (hw_net w) = Some (t, n, a')" "ts_state (g_sock t) = TCP_ESTABLISHED"
  shows "\<exists>c. wait_established peer_poll k w = Some (w\<lparr>hw_tcp := t, hw_net := n, hw_env := (a', bs), http_last_tcp_state := c\<rparr>)"
  using assms(1-4)
proof (induction q arbitrary: k w)
  case 0
  then obtain k' where k: "k = Suc k'" by (cases k) auto
  have "do_poll peer_poll w = Some (w\<lparr>hw_tcp := t, hw_net := n, hw_env := (a', bs)\<rparr>)" using 0 by (simp add: do_poll_def)
  from wait_established_Suc [OF 0(1) this, of k'] assms(5) k show ?case by auto
next
  case (Suc q)
  then obtain k' where k: "k = Suc k'" "q < k'" by (cases k) auto
  let ?w = "w\<lparr>hw_env := (a, replicate q [] @ b # bs), http_last_tcp_state := int (tcp_state_code (hw_state w))\<rparr>"
  have "do_poll peer_poll w = Some (w\<lparr>hw_env := (a, replicate q [] @ b # bs)\<rparr>)" using Suc.prems(2) by (simp add: do_poll_def)
  then have "wait_established peer_poll k w = wait_established peer_poll k' ?w" using Suc.prems(1) k by simp
  with Suc.IH [of ?w k'] Suc.prems k(2) show ?case by simp
qed

lemma hw_close_ok: "tcp_ok (hw_tcp w) \<Longrightarrow> net_ok (hw_net w) \<Longrightarrow> \<exists>w'. hw_close w = Some w'"
  using tcp_close_ok [of "hw_tcp w" "hw_net w" G_SOCK] by (auto simp: hw_close_def)

lemma http_send_request:
  assumes "reading a w" "req \<noteq> []" "length req \<le> 511"
  shows "\<exists>c t n. tcp_send G_SOCK req (int (length req)) (hw_tcp w) (hw_net w) = Some (c, t, n) \<and>
    reading a (w\<lparr>hw_tcp := t, hw_net := n\<rparr>)"
proof -
  let ?s = "g_sock (hw_tcp w)"
  have r: "tcp_ok (hw_tcp w)" "net_ok (hw_net w)" "ts_state ?s = TCP_ESTABLISHED" using assms(1) by (simp_all add: reading_def in_step_def)
  obtain n where n: "tcp_send_segment ?s 0x18 req (hw_net w) = Some n" "net_ok n"
    by (rule tcp_send_segment_obtain [OF r(2), of req]) (use assms(3) in auto)
  let ?t = "put_sock G_SOCK (?s\<lparr>ts_snd_nxt := ts_snd_nxt ?s + word_of_int (int (length req))\<rparr>) (hw_tcp w)"
  have "sock_ok (?s\<lparr>ts_snd_nxt := y\<rparr>)" for y using tcp_ok_sock [OF r(1), of G_SOCK] by (simp add: sock_ok_def split: rx_ptr.splits)
  then have "tcp_ok ?t" using r(1) by blast
  moreover have "tcp_send G_SOCK req (int (length req)) (hw_tcp w) (hw_net w) = Some (int (length req), ?t, n)"
    using r(3) n(1) assms(2) by (simp add: tcp_send_def rdn_int_length Let_def)
  ultimately show ?thesis using assms(1) n(2)
    by (intro exI [of _ "int (length req)"] exI [of _ ?t] exI [of _ n]) (simp add: reading_def in_step_def connected_def recvd_def)
qed


text \<open>
  A server that keeps quiet for \<open>q\<close> polls, accepts, sends \<open>bs\<close> and closes with the last segment of \<open>b\<close>.
\<close>

definition server_script :: "nat \<Rightarrow> (u8 \<times> bytes) list list \<Rightarrow> (u8 \<times> bytes) list \<Rightarrow> u8 \<times> bytes \<Rightarrow> (u8 \<times> bytes) list list" where
  "server_script q bs b e = replicate q [] @ [(0x12, [])] # bs @ [b @ [e]]"

definition script_ok :: "(u8 \<times> bytes) list list \<Rightarrow> (u8 \<times> bytes) list \<Rightarrow> u8 \<times> bytes \<Rightarrow> bool" where
  "script_ok bs b e \<longleftrightarrow> (\<forall>c \<in> set bs. plain c \<and> length (payload c) \<le> 8192) \<and> plain b \<and>
     length (payload (b @ [e])) \<le> 8192 \<and> fst e AND 0x04 = 0 \<and> fst e AND 0x01 \<noteq> 0"

definition response :: "(u8 \<times> bytes) list list \<Rightarrow> (u8 \<times> bytes) list \<Rightarrow> u8 \<times> bytes \<Rightarrow> bytes" where
  "response bs b e = concat (map payload bs) @ payload (b @ [e])"

lemma http_attempt_complete:
  fixes w :: "(tcp_socket \<times> (u8 \<times> bytes) list list) http_world"
  assumes "tcp_ok (hw_tcp w)" "net_ok (hw_net w)"
    and "ts_local_ip a = ip" "ts_local_port a = prt" "ts_remote_port a = eph_p (hw_tcp w)"
    and "hw_env w = (a, server_script q bs b e)" "q < 300000" "script_ok bs b e" "response bs b e \<noteq> []"
    and "http_response (takeWhile (\<lambda>c. c \<noteq> 0) (take 32767 (response bs b e))) ip h cap = Some r"
  shows "\<exists>w'. http_attempt peer_poll ip prt h p cap w = Some (r, w')"
proof -
  obtain f d where e: "e = (f, d)" by (cases e)
  obtain t1 n1 t2 n2 where c: "tcp_connect G_SOCK ip prt 0 (tcp_init (hw_tcp w)) (hw_net w) = Some (0, t1, n1)"
    "ts_state (g_sock t1) \<noteq> TCP_ESTABLISHED" "tcp_on_rx (tcp_segment a 0x12 []) 20 ip 0 t1 n1 = Some (t2, n2)"
    "tcp_ok t2" "net_ok n2" "connected a (g_sock t2)" "ts_state (g_sock t2) = TCP_ESTABLISHED"
    "ts_rcv_nxt (g_sock t2) = ts_snd_nxt a + 1" "ts_rx_buf (g_sock t2) = RX_RB" "recvd G_SOCK t2 = []"
    using http_connect [OF assms(1-5)] by blast
  let ?w1 = "w\<lparr>hw_tcp := t1, hw_net := n1, http_last_tcp_state := 0\<rparr>"
  let ?a = "a\<lparr>ts_snd_nxt := ts_snd_nxt a + 1\<rparr>"
  let ?env = "(?a, bs @ [b @ [(f, d)]])"
  have pl: "play a [(0x12, [])] (hw_tcp ?w1) (hw_net ?w1) = Some (t2, n2, ?a)" using c(3) assms(3) by simp
  have env1: "hw_env ?w1 = (a, replicate q [] @ [(0x12, [])] # bs @ [b @ [(f, d)]])" using assms(6) by (simp add: server_script_def e)
  from wait_established_after [OF _ env1 assms(7) pl c(7)] c(2) obtain lc where
    wt: "wait_established peer_poll 300000 ?w1 = Some (?w1\<lparr>hw_tcp := t2, hw_net := n2, hw_env := ?env, http_last_tcp_state := lc\<rparr>)" by auto
  let ?w3 = "?w1\<lparr>hw_tcp := t2, hw_net := n2, hw_env := ?env, http_last_tcp_state := lc\<rparr>"
  have "ts_rx_cap (g_sock t2) = 8192" using tcp_ok_sock [OF c(4), of G_SOCK] c(9) by (simp add: sock_ok_def)
  then have rd: "reading ?a ?w3" using c by (simp add: reading_def in_step_def connected_def)
  obtain req where req: "snprintf 512 http_request_fmt [p, h] = Some req" "req \<noteq> []" "length req \<le> 511"
    using http_request_text by blast
  obtain k t3 n3 where sd: "tcp_send G_SOCK req (int (length req)) (hw_tcp ?w3) (hw_net ?w3) = Some (k, t3, n3)"
    "reading ?a (?w3\<lparr>hw_tcp := t3, hw_net := n3\<rparr>)" using http_send_request [OF rd req(2,3)] by blast
  let ?w4 = "?w3\<lparr>hw_tcp := t3, hw_net := n3\<rparr>"
  have env: "hw_env ?w4 = ?env" by simp
  have so: "\<forall>c \<in> set bs. plain c \<and> length (payload c) \<le> 8192" "plain b" "length (payload b) + length d \<le> 8192"
    "f AND 0x04 = 0" "f AND 0x01 \<noteq> 0" using assms(8) by (simp_all add: script_ok_def e)
  have res: "concat (map payload bs) @ payload b @ d = response bs b e" by (simp add: response_def e)
  have "length ([] :: bytes) < 32767" by simp
  from read_loop_script [OF sd(2) env so(1-3) this so(4,5)] obtain w5 where
    w5: "read_loop peer_poll [] ?w4 = Some (take 32767 (response bs b e), w5)" "tcp_ok (hw_tcp w5)" "net_ok (hw_net w5)"
    unfolding res append_Nil by blast
  obtain w6 where w6: "hw_close w5 = Some w6" using hw_close_ok [OF w5(2,3)] by blast
  have ne: "take 32767 (response bs b e) \<noteq> []" using assms(9) by simp
  show ?thesis
    unfolding http_attempt_def Let_def
    using c(1) wt c(7) req(1,2) sd(1) w5(1) w6 ne assms(10) by auto
qed

section \<open>Properties\<close>

text \<open>Every address in dotted decimal notation is parsed to its four bytes.\<close>
lemma parse_ipv4_dotted:
  "parse_ipv4_literal (dotted a b c d) = Some (push_bit 24 (ucast a) OR push_bit 16 (ucast b) OR push_bit 8 (ucast c) OR ucast d)"
  using parse_dotted by (simp add: pack_ip_def)

text \<open>The parser of addresses is too generous: a part above 32 bits wraps around before it is
  compared with 255, and whatever follows the fourth part is ignored.\<close>
lemma parse_ipv4_accepts_garbage:
  "parse_ipv4_literal (lit ''4294967306.0.2.2'') = Some 0x0A000202 \<and>
   parse_ipv4_literal (lit ''10.0.2.2evil.example'') = Some 0x0A000202"
  by code_simp

text \<open>C40: Whatever the server sends, a call that returns gives one of the documented error codes and
  leaves the output buffer alone, or returns the number of bytes it wrote, which together with
  the terminator fit the buffer; the debug variable holds the same value.\<close>
lemma http_result_fits:
  assumes "http_get_by_ip_port poll ip prt h p cap w = Some (c, out, w')"
  shows "http_last_ret w' = c \<and>
    (case out of None \<Rightarrow> c \<in> {0, -1, -2, -3, -4, -11, -12, -13, -14, -15}
     | Some b \<Rightarrow> c = int (length b) \<and> c + 1 \<le> cap)"
proof (cases "cap \<le> 0")
  case True
  with assms show ?thesis by (auto simp: http_get_by_ip_port_def)
next
  case False
  then have "http_redirects 6 poll ip prt (strncpy h 127) (strncpy p 1023) cap
      (w\<lparr>http_last_ret := -999, http_last_raw_len := 0\<rparr>) = Some (c, out, w')"
    using assms by (simp add: http_get_by_ip_port_def)
  from http_redirects_result [OF this] False show ?thesis by (simp add: http_result_ok_def)
qed

text \<open>C17: A server that accepts the connection within 300000 polls, sends its response in order, any number of
  segments per poll but at most the 8192 bytes the socket buffers, and closes, is served completely
  if its status line is well formed and not a redirection: the call returns, and what it writes is the body behind the
  first blank line of the response, as far as its first 32767 bytes without a zero byte go, cut to
  the output buffer.\<close>
lemma http_get_complete:
  fixes w :: "(tcp_socket \<times> (u8 \<times> bytes) list list) http_world"
  assumes "tcp_ok (hw_tcp w)" "net_ok (hw_net w)"
    and "ts_local_ip a = ip" "ts_local_port a = prt" "ts_remote_port a = eph_p (hw_tcp w)"
    and "hw_env w = (a, server_script q bs b e)" "q < 300000" "script_ok bs b e"
    and "raw = takeWhile (\<lambda>c. c \<noteq> 0) (take 32767 (response bs b e))" "raw = hdr @ CRLF @ CRLF @ body"
    and "\<forall>i < length hdr. take 4 (drop i raw) \<noteq> CRLF @ CRLF"
    and "parse_http_status raw = Some st" "st < 300 \<or> 400 \<le> st" "0 < cap"
  shows "\<exists>w'. http_get_by_ip_port peer_poll ip prt h p cap w =
    Some (min (int (length body)) (cap - 1), Some (take (nat (cap - 1)) body), w')"
proof -
  let ?w = "w\<lparr>http_last_ret := -999, http_last_raw_len := 0\<rparr>"
  let ?r = "Return (min (int (length body)) (cap - 1)) (Some (take (nat (cap - 1)) body))"
  have "http_body raw = body" unfolding assms(10) by (rule http_body_split) (use assms(10,11) in simp)
  then have r: "http_response (takeWhile (\<lambda>c. c \<noteq> 0) (take 32767 (response bs b e))) ip (strncpy h 127) cap = Some ?r"
    unfolding assms(9) [symmetric] using assms(12-14) unfolding http_response_def by (auto simp: Let_def min_def)
  have "raw \<noteq> []" unfolding assms(10) by (simp add: CRLF_def)
  then have ne: "response bs b e \<noteq> []" using assms(9) by auto
  from http_attempt_complete [of ?w a ip prt q bs b e, OF _ _ assms(3,4) _ _ assms(7,8) ne r] assms(1,2,5,6)
  obtain w' where "http_attempt peer_poll ip prt (strncpy h 127) (strncpy p 1023) cap ?w = Some (?r, w')" by fastforce
  then have "http_redirects (Suc 5) peer_poll ip prt (strncpy h 127) (strncpy p 1023) cap ?w =
      Some (min (int (length body)) (cap - 1), Some (take (nat (cap - 1)) body), w'\<lparr>http_last_ret := min (int (length body)) (cap - 1)\<rparr>)"
    by (subst http_redirects.simps(2)) simp
  then show ?thesis using assms(14) by (simp add: http_get_by_ip_port_def)
qed

text \<open>A reset in the middle of a response is never noticed: once the socket is closed with nothing
  left to read, and polls bring nothing new, the read loop does not return.\<close>
lemma http_reset_spins:
  assumes "hw_state w = TCP_CLOSED" "ts_rx_len (g_sock (hw_tcp w)) \<le> 0" "length raw < 32767"
    and "hw_env w = (a, [])"
  shows "read_loop peer_poll raw w = None"
proof (rule read_loop_never [where I = "\<lambda>w. hw_state w = TCP_CLOSED \<and> ts_rx_len (g_sock (hw_tcp w)) \<le> 0 \<and> hw_env w = (a, [])"])
  show "\<exists>w'. do_poll peer_poll w = Some w' \<and> hw_state w' = TCP_CLOSED \<and> ts_rx_len (g_sock (hw_tcp w')) \<le> 0 \<and> hw_env w' = (a, [])"
    if "hw_state w = TCP_CLOSED \<and> ts_rx_len (g_sock (hw_tcp w)) \<le> 0 \<and> hw_env w = (a, [])" for w
    using that by (simp add: do_poll_def)
qed (use assms in \<open>auto simp: http_closing_def\<close>)

section \<open>Examples\<close>

definition http_demo :: "(u8 \<times> bytes) list list \<Rightarrow> (tcp_socket \<times> (u8 \<times> bytes) list list) http_world" where
  "http_demo script = \<lparr>http_last_ret = 0, http_last_raw_len = 0, http_last_tcp_state = 0, hw_tcp = tcp_boot,
     hw_net = net_boot, hw_env = (est_peer, script)\<rparr>"

lemma http_demo_simps:
  "tcp_ok (hw_tcp (http_demo s))" "net_ok (hw_net (http_demo s))" "hw_env (http_demo s) = (est_peer, s)"
  "ts_local_ip est_peer = 7" "ts_local_port est_peer = 80" "ts_remote_port est_peer = eph_p (hw_tcp (http_demo s))"
  by (simp_all add: http_demo_def tcp_ok_boot) (simp_all add: est_peer_def tcp_boot_def zero_socket_def)

text \<open>A server that acknowledges the request, sends two segments at once and the last bytes with its FIN.\<close>

lemma http_get_complete_witness:
  "\<exists>w'. http_get_by_ip_port peer_poll 7 80 (lit ''h'') (lit ''/'') 8
     (http_demo (server_script 2 [[(0x10, [])], [(0x18, lit ''HTTP/1.1 200''), (0x18, CRLF @ CRLF @ lit ''he'')]] [] (0x19, lit ''llo''))) =
   Some (5, Some (lit ''hello''), w')"
proof -
  let ?bs = "[[(0x10, [])], [(0x18, lit ''HTTP/1.1 200''), (0x18, CRLF @ CRLF @ lit ''he'')]] :: (u8 \<times> bytes) list list"
  let ?e = "(0x19, lit ''llo'') :: u8 \<times> bytes"
  let ?raw = "lit ''HTTP/1.1 200'' @ CRLF @ CRLF @ lit ''hello''"
  let ?w = "http_demo (server_script 2 ?bs [] ?e)"
  have raw: "?raw = takeWhile (\<lambda>c. c \<noteq> 0) (take 32767 (response ?bs [] ?e))"
    by (simp add: response_def lit_def CRLF_def)
  have st: "parse_http_status ?raw = Some 200" by code_simp
  have hd: "\<forall>i < length (lit ''HTTP/1.1 200''). take 4 (drop i ?raw) \<noteq> CRLF @ CRLF" by code_simp
  have "\<exists>w'. http_get_by_ip_port peer_poll 7 80 (lit ''h'') (lit ''/'') 8 ?w =
      Some (min (int (length (lit ''hello''))) (8 - 1), Some (take (nat (8 - 1)) (lit ''hello'')), w')"
  proof (rule http_get_complete [OF _ _ _ _ _ _ _ _ raw refl hd st])
    show "script_ok ?bs [] ?e" by (simp add: script_ok_def plain_def lit_def CRLF_def)
    show "hw_env ?w = (est_peer, server_script 2 ?bs [] ?e)" by (simp add: http_demo_simps)
  qed (simp_all add: http_demo_simps)
  then show ?thesis by (simp add: lit_def)
qed

lemma http_result_fits_witness:
  "http_last_ret ((http_demo [])\<lparr>http_last_ret := -1\<rparr>) = -1 \<and>
   http_get_by_ip_port peer_poll 7 80 [] [] 0 (http_demo []) = Some (-1, None, (http_demo [])\<lparr>http_last_ret := -1\<rparr>)"
proof -
  have e: "http_get_by_ip_port peer_poll 7 80 [] [] 0 (http_demo []) = Some (-1, None, (http_demo [])\<lparr>http_last_ret := -1\<rparr>)"
    by (simp add: http_get_by_ip_port_def)
  from http_result_fits [OF this] e show ?thesis by blast
qed

lemma http_reset_spins_witness: "read_loop peer_poll [] (http_demo []) = None"
  by (rule http_reset_spins [of _ _ est_peer]) (simp_all add: http_demo_def tcp_boot_def zero_socket_def)

end
