(* ===== verification/Tls.thy ===== *)
theory Tls
  imports Http_Run Kmalloc
begin

text \<open>
  The HTTPS client \<open>src/tls_mbedtls.c\<close>: the transport it gives to mbedTLS, the entropy it
  seeds the random generator with, and the request. mbedTLS is not part of the sources: it is
  the record \<open>mbedtls\<close> of the functions the client calls, over a context \<open>'m\<close>. The loops
  have no bound, so they are \<open>partial_function\<close>s and \<open>None\<close> means that they never end. The locale
  \<open>idle_poll\<close> is what the handshake meets of the machine under it; \<open>Kernel\<close> interprets it.
\<close>

section \<open>State and library\<close>

type_synonym bio_send = "bytes \<Rightarrow> tcp \<times> net \<Rightarrow> (int \<times> tcp \<times> net) option"
type_synonym bio_recv = "int \<Rightarrow> tcp \<times> net \<Rightarrow> (int \<times> bytes \<times> tcp \<times> net) option"

record 'm mbedtls =
  ERR_SSL_WANT_READ :: int
  ERR_SSL_WANT_WRITE :: int
  ctr_drbg_seed :: "(nat \<Rightarrow> u32 \<Rightarrow> bytes \<times> u32) \<Rightarrow> cstr \<Rightarrow> u32 \<Rightarrow> 'm \<Rightarrow> int \<times> u32 \<times> 'm"
  ssl_config_defaults :: "'m \<Rightarrow> int \<times> 'm"
  ssl_setup :: "'m \<Rightarrow> int \<times> 'm"
  ssl_handshake :: "bio_send \<Rightarrow> bio_recv \<Rightarrow> 'm \<Rightarrow> tcp \<times> net \<Rightarrow> (int \<times> 'm \<times> tcp \<times> net) option"
  ssl_write :: "bio_send \<Rightarrow> bio_recv \<Rightarrow> bytes \<Rightarrow> 'm \<Rightarrow> tcp \<times> net \<Rightarrow> (int \<times> 'm \<times> tcp \<times> net) option"
  ssl_read :: "bio_send \<Rightarrow> bio_recv \<Rightarrow> int \<Rightarrow> 'm \<Rightarrow> tcp \<times> net \<Rightarrow> (int \<times> bytes \<times> 'm \<times> tcp \<times> net) option"
  ssl_close_notify :: "bio_send \<Rightarrow> bio_recv \<Rightarrow> 'm \<Rightarrow> tcp \<times> net \<Rightarrow> ('m \<times> tcp \<times> net) option"

record ('m, 'e) tls_world =
  tw_lib :: 'm
  tw_tcp :: tcp
  tw_net :: net
  tw_env :: 'e
  tw_lfsr :: u32
  tw_heap :: u32

section \<open>Entropy and transport\<close>

definition lfsr_next :: "u32 \<Rightarrow> u32" where
  "lfsr_next x0 = (let x1 = x0 XOR push_bit 13 x0; x2 = x1 XOR drop_bit 17 x1 in x2 XOR push_bit 5 x2)"

primrec my_entropy :: "nat \<Rightarrow> u32 \<Rightarrow> bytes \<times> u32" where
  "my_entropy 0 lfsr = ([], lfsr)"
| "my_entropy (Suc k) lfsr =
     (let x = lfsr_next lfsr; (buf, lfsr') = my_entropy k x in (ucast (x AND 0xFF) # buf, lfsr'))"

definition net_send :: "'m mbedtls \<Rightarrow> sock_ref \<Rightarrow> bio_send" where
  "net_send lib s buf = (\<lambda>(t, n). do {
     (ret, t, n) \<leftarrow> tcp_send s buf (int (length buf)) t n;
     Some (if ret < 0 then ERR_SSL_WANT_WRITE lib else ret, t, n)
   })"

text \<open>\<open>tcp_recv\<close> returns the number of bytes, never a negative number.\<close>

definition net_recv :: "'m mbedtls \<Rightarrow> sock_ref \<Rightarrow> bio_recv" where
  "net_recv lib s len = (\<lambda>(t, n). do {
     (out, t) \<leftarrow> tcp_recv s len t;
     Some (if out = [] then ERR_SSL_WANT_READ lib else int (length out), out, t, n)
   })"

section \<open>The request\<close>

definition tls_poll :: "'e poll \<Rightarrow> ('m, 'e) tls_world \<Rightarrow> ('m, 'e) tls_world option" where
  "tls_poll poll w = do {
     (t, n, e) \<leftarrow> poll (tw_tcp w, tw_net w, tw_env w);
     Some (w\<lparr>tw_tcp := t, tw_net := n, tw_env := e\<rparr>)
   }"

text \<open>The handshake loop; the result is whether it succeeded.\<close>

partial_function (option) handshake_loop ::
    "'m mbedtls \<Rightarrow> 'e poll \<Rightarrow> sock_ref \<Rightarrow> ('m, 'e) tls_world \<Rightarrow> (bool \<times> ('m, 'e) tls_world) option" where
  "handshake_loop lib poll s w =
     (case ssl_handshake lib (net_send lib s) (net_recv lib s) (tw_lib w) (tw_tcp w, tw_net w) of
        None \<Rightarrow> None
      | Some (ret, m, t, n) \<Rightarrow>
          (if ret = 0 then Some (True, w\<lparr>tw_lib := m, tw_tcp := t, tw_net := n\<rparr>)
           else if ret = ERR_SSL_WANT_READ lib \<or> ret = ERR_SSL_WANT_WRITE lib then
             (case tls_poll poll (w\<lparr>tw_lib := m, tw_tcp := t, tw_net := n\<rparr>) of
                None \<Rightarrow> None
              | Some w' \<Rightarrow> handshake_loop lib poll s w')
           else Some (False, w\<lparr>tw_lib := m, tw_tcp := t, tw_net := n\<rparr>)))"

text \<open>The read loop; \<open>out\<close> is what has been written to the buffer.\<close>

partial_function (option) tls_read_loop ::
    "'m mbedtls \<Rightarrow> 'e poll \<Rightarrow> sock_ref \<Rightarrow> int \<Rightarrow> bytes \<Rightarrow> ('m, 'e) tls_world \<Rightarrow> (bytes \<times> ('m, 'e) tls_world) option" where
  "tls_read_loop lib poll s out_cap out w =
     (if int (length out) < out_cap - 1 then
        (case ssl_read lib (net_send lib s) (net_recv lib s) (out_cap - 1 - int (length out)) (tw_lib w) (tw_tcp w, tw_net w) of
           None \<Rightarrow> None
         | Some (r, d, m, t, n) \<Rightarrow>
             (if r > 0 then tls_read_loop lib poll s out_cap (out @ take (nat r) d) (w\<lparr>tw_lib := m, tw_tcp := t, tw_net := n\<rparr>)
              else if r = ERR_SSL_WANT_READ lib \<or> r = ERR_SSL_WANT_WRITE lib then
                (case tls_poll poll (w\<lparr>tw_lib := m, tw_tcp := t, tw_net := n\<rparr>) of
                   None \<Rightarrow> None
                 | Some w' \<Rightarrow> tls_read_loop lib poll s out_cap out w')
              else Some (out, w\<lparr>tw_lib := m, tw_tcp := t, tw_net := n\<rparr>)))
      else Some (out, w))"

definition tls_request_fmt :: cstr where
  "tls_request_fmt = lit ''GET %s HTTP/1.1'' @ CRLF @ lit ''Host: %s'' @ CRLF @ lit ''Connection: close'' @ CRLF @ CRLF"

definition tls_close :: "sock_ref \<Rightarrow> ('m, 'e) tls_world \<Rightarrow> ('m, 'e) tls_world option" where
  "tls_close s w = do {
     (_, t, n) \<leftarrow> tcp_close s (tw_tcp w) (tw_net w);
     Some (w\<lparr>tw_tcp := t, tw_net := n\<rparr>)
   }"

text \<open>From the handshake on.\<close>

definition tls_session ::
    "'m mbedtls \<Rightarrow> 'e poll \<Rightarrow> sock_ref \<Rightarrow> cstr \<Rightarrow> cstr \<Rightarrow> int \<Rightarrow> ('m, 'e) tls_world \<Rightarrow>
     (int \<times> cstr option \<times> ('m, 'e) tls_world) option" where
  "tls_session lib poll s host_header path out_cap w = do {
     (ok, w) \<leftarrow> handshake_loop lib poll s w;
     if \<not> ok then Some (- 1, None, w)
     else do {
       req \<leftarrow> snprintf 512 tls_request_fmt [path, host_header];
       (r, m, t, n) \<leftarrow> ssl_write lib (net_send lib s) (net_recv lib s) req (tw_lib w) (tw_tcp w, tw_net w);
       let w = w\<lparr>tw_lib := m, tw_tcp := t, tw_net := n\<rparr>;
       if r \<le> 0 then do { w \<leftarrow> tls_close s w; Some (- 1, None, w) }
       else do {
         (out, w) \<leftarrow> tls_read_loop lib poll s out_cap [] w;
         (m, t, n) \<leftarrow> ssl_close_notify lib (net_send lib s) (net_recv lib s) (tw_lib w) (tw_tcp w, tw_net w);
         w \<leftarrow> tls_close s (w\<lparr>tw_lib := m, tw_tcp := t, tw_net := n\<rparr>);
         Some (int (length out), Some out, w)
       }
     }
   }"

text \<open>The socket takes 48 bytes. The result: return value and what is written to \<open>out\<close>, if anything.\<close>

definition tls_http_get_by_ip ::
    "'m mbedtls \<Rightarrow> 'e poll \<Rightarrow> u32 \<Rightarrow> cstr \<Rightarrow> cstr \<Rightarrow> int \<Rightarrow> ('m, 'e) tls_world \<Rightarrow>
     (int \<times> cstr option \<times> ('m, 'e) tls_world) option" where
  "tls_http_get_by_ip lib poll ip host_header path out_cap w =
     (if ip = 0 then Some (- 1, None, w)
      else let (p, heap) = malloc 48 (tw_heap w); w = w\<lparr>tw_heap := heap\<rparr> in
        if p = 0 then Some (- 1, None, w)
        else let s = HEAP_SOCK (unat p) in do {
          (c, t, n) \<leftarrow> tcp_connect s ip 443 0 (put_sock s zero_socket (tw_tcp w)) (tw_net w);
          let w = w\<lparr>tw_tcp := t, tw_net := n\<rparr>;
          if c \<noteq> 0 then Some (- 1, None, w)
          else do {
            let (seeded, lfsr, m) = ctr_drbg_seed lib my_entropy (lit ''mbed_tls_kern'') (tw_lfsr w) (tw_lib w);
            let w = w\<lparr>tw_lfsr := lfsr, tw_lib := m\<rparr>;
            if seeded \<noteq> 0 then Some (- 1, None, w)
            else do {
              let (conf, m) = ssl_config_defaults lib (tw_lib w);
              let w = w\<lparr>tw_lib := m\<rparr>;
              if conf \<noteq> 0 then Some (- 1, None, w)
              else do {
                let (ready, m) = ssl_setup lib (tw_lib w);
                let w = w\<lparr>tw_lib := m\<rparr>;
                if ready \<noteq> 0 then Some (- 1, None, w)
                else tls_session lib poll s host_header path out_cap w
              }
            }
          }
        })"


section \<open>The handshake over a socket that never sends\<close>

text \<open>
  What the client relies on: as long as its transport cannot send, a context that has not
  sent anything asks for another call and stays as it is. \<open>fresh\<close> marks such contexts.
\<close>

definition waits_to_send :: "'m mbedtls \<Rightarrow> ('m \<Rightarrow> bool) \<Rightarrow> bool" where
  "waits_to_send lib fresh \<longleftrightarrow> ERR_SSL_WANT_WRITE lib \<noteq> 0 \<and> (\<forall>m. fresh (snd (ssl_setup lib m))) \<and>
     (\<forall>send recv m w. fresh m \<longrightarrow> (\<forall>d. send d w = Some (ERR_SSL_WANT_WRITE lib, w)) \<longrightarrow>
       (\<exists>m'. ssl_handshake lib send recv m w = Some (ERR_SSL_WANT_WRITE lib, m', w) \<and> fresh m'))"

lemma net_send_idle: "heap_socks_idle t \<Longrightarrow> net_send lib (HEAP_SOCK k) d (t, n) = Some (ERR_SSL_WANT_WRITE lib, t, n)"
  by (simp add: net_send_def heap_sock_send_fails)

text \<open>One turn of the handshake loop that asks for another one, and \<open>k\<close> of them.\<close>

definition handshake_turn :: "'m mbedtls \<Rightarrow> 'e poll \<Rightarrow> sock_ref \<Rightarrow> ('m, 'e) tls_world \<Rightarrow> ('m, 'e) tls_world option" where
  "handshake_turn lib poll s w = do {
     (ret, m, t, n) \<leftarrow> ssl_handshake lib (net_send lib s) (net_recv lib s) (tw_lib w) (tw_tcp w, tw_net w);
     if ret \<noteq> 0 \<and> (ret = ERR_SSL_WANT_READ lib \<or> ret = ERR_SSL_WANT_WRITE lib)
     then tls_poll poll (w\<lparr>tw_lib := m, tw_tcp := t, tw_net := n\<rparr>) else None
   }"

primrec handshake_turns :: "'m mbedtls \<Rightarrow> 'e poll \<Rightarrow> sock_ref \<Rightarrow> nat \<Rightarrow> ('m, 'e) tls_world \<Rightarrow> ('m, 'e) tls_world option" where
  "handshake_turns lib poll s 0 w = Some w"
| "handshake_turns lib poll s (Suc k) w = (handshake_turn lib poll s w \<bind> handshake_turns lib poll s k)"

text \<open>The states between two turns.\<close>

definition waiting :: "('m \<Rightarrow> bool) \<Rightarrow> (tcp \<times> net \<times> 'e \<Rightarrow> bool) \<Rightarrow> ('m, 'e) tls_world \<Rightarrow> bool" where
  "waiting fresh I w \<longleftrightarrow> fresh (tw_lib w) \<and> I (tw_tcp w, tw_net w, tw_env w)"

text \<open>
  What the handshake needs of the network under it: every poll returns and keeps an invariant
  in which the sockets that are not \<open>g_sock\<close> stay idle.
\<close>

locale idle_poll =
  fixes poll :: "'e poll" and I :: "tcp \<times> net \<times> 'e \<Rightarrow> bool"
  assumes poll_keeps: "I w \<Longrightarrow> \<exists>w'. poll w = Some w' \<and> I w'"
    and idle: "I (t, n, e) \<Longrightarrow> heap_socks_idle t"
begin

lemma handshake_turn_waiting:
  assumes "waits_to_send lib fresh" "waiting fresh I w"
  shows "\<exists>w'. handshake_turn lib poll (HEAP_SOCK k) w = Some w' \<and> waiting fresh I w'"
proof -
  have "heap_socks_idle (tw_tcp w)" using assms(2) idle by (auto simp: waiting_def)
  then have "\<forall>d. net_send lib (HEAP_SOCK k) d (tw_tcp w, tw_net w) = Some (ERR_SSL_WANT_WRITE lib, tw_tcp w, tw_net w)"
    using net_send_idle by blast
  then obtain m where m: "ssl_handshake lib (net_send lib (HEAP_SOCK k)) (net_recv lib (HEAP_SOCK k)) (tw_lib w) (tw_tcp w, tw_net w) =
      Some (ERR_SSL_WANT_WRITE lib, m, tw_tcp w, tw_net w)" "fresh m" "ERR_SSL_WANT_WRITE lib \<noteq> 0"
    using assms unfolding waits_to_send_def waiting_def by blast
  obtain t n e where "poll (tw_tcp w, tw_net w, tw_env w) = Some (t, n, e)" "I (t, n, e)"
    using poll_keeps [of "(tw_tcp w, tw_net w, tw_env w)"] assms(2) by (auto simp: waiting_def)
  with m show ?thesis by (simp add: handshake_turn_def tls_poll_def waiting_def)
qed

lemma handshake_turns_waiting:
  assumes "waits_to_send lib fresh"
  shows "waiting fresh I w \<Longrightarrow> \<exists>w'. handshake_turns lib poll (HEAP_SOCK k) i w = Some w' \<and> waiting fresh I w'"
proof (induction i arbitrary: w)
  case (Suc i)
  from handshake_turn_waiting [OF assms Suc.prems] obtain w1 where
    "handshake_turn lib poll (HEAP_SOCK k) w = Some w1" "waiting fresh I w1" by blast
  with Suc.IH [of w1] show ?case by simp
qed simp

end

text \<open>The loop does its turns, so it ends only where a turn does.\<close>

lemma handshake_loop_turn:
  "handshake_turn lib poll s w = Some w' \<Longrightarrow> handshake_loop lib poll s w = handshake_loop lib poll s w'"
  by (subst handshake_loop.simps) (auto simp: handshake_turn_def bind_Some_iff split: if_splits)

text \<open>A loop whose turns always ask for another one never ends.\<close>

lemma handshake_loop_never:
  assumes turn: "\<And>w. P w \<Longrightarrow> \<exists>w'. handshake_turn lib poll s w = Some w' \<and> P w'" and start: "P w"
  shows "handshake_loop lib poll s w = None"
proof (rule ccontr)
  let ?Q = "\<lambda>(lib' :: 'a mbedtls) (poll' :: 'b poll) s' w (r :: bool \<times> ('a, 'b) tls_world).
    lib' = lib \<longrightarrow> poll' = poll \<longrightarrow> s' = s \<longrightarrow> \<not> P w"
  assume "handshake_loop lib poll s w \<noteq> None"
  then obtain r where r: "handshake_loop lib poll s w = Some r" by blast
  have "?Q lib poll s w r"
  proof (rule handshake_loop.raw_induct [OF _ r, where P = ?Q], intro impI notI)
    fix f :: "'a mbedtls \<Rightarrow> 'b poll \<Rightarrow> sock_ref \<Rightarrow> ('a, 'b) tls_world \<Rightarrow> (bool \<times> ('a, 'b) tls_world) option"
      and lib' poll' s' w r
    assume IH: "\<And>lib' poll' s' w r. f lib' poll' s' w = Some r \<Longrightarrow> ?Q lib' poll' s' w r"
      and step: "(case ssl_handshake lib' (net_send lib' s') (net_recv lib' s') (tw_lib w) (tw_tcp w, tw_net w) of
          None \<Rightarrow> None
        | Some (ret, m, t, n) \<Rightarrow>
            (if ret = 0 then Some (True, w\<lparr>tw_lib := m, tw_tcp := t, tw_net := n\<rparr>)
             else if ret = ERR_SSL_WANT_READ lib' \<or> ret = ERR_SSL_WANT_WRITE lib' then
               (case tls_poll poll' (w\<lparr>tw_lib := m, tw_tcp := t, tw_net := n\<rparr>) of None \<Rightarrow> None | Some w' \<Rightarrow> f lib' poll' s' w')
             else Some (False, w\<lparr>tw_lib := m, tw_tcp := t, tw_net := n\<rparr>))) = Some r"
      and eq: "lib' = lib" "poll' = poll" "s' = s" and I: "P w"
    from turn [OF I] obtain w' where w': "handshake_turn lib poll s w = Some w'" "P w'" by blast
    then have "f lib poll s w' = Some r"
      using step unfolding eq by (auto simp: handshake_turn_def bind_Some_iff split: if_splits)
    from IH [OF this] w'(2) show False by simp
  qed
  with start show False by blast
qed

text \<open>
  A request reaches its handshake on the socket it allocated, with the socket connecting in
  \<open>g_sock\<close> and the other sockets as idle as they were.
\<close>

lemma tls_request_starts:
  assumes "waits_to_send lib fresh" "heap_socks_idle (tw_tcp w)" "tcp_ok (tw_tcp w)" "net_ok (tw_net w)" "ts_in_use (g_sock (tw_tcp w)) = 0"
    and "ip \<noteq> 0" "tw_heap w \<noteq> 0" "\<And>l m. fst (ctr_drbg_seed lib my_entropy (lit ''mbed_tls_kern'') l m) = 0"
    and "\<And>m. fst (ssl_config_defaults lib m) = 0" "\<And>m. fst (ssl_setup lib m) = 0"
  shows "\<exists>w'. tls_http_get_by_ip lib poll ip host path cap w = tls_session lib poll (HEAP_SOCK (unat (tw_heap w))) host path cap w' \<and>
    fresh (tw_lib w') \<and> heap_socks_idle (tw_tcp w') \<and> tcp_ok (tw_tcp w') \<and> net_ok (tw_net w') \<and> tw_env w' = tw_env w"
proof -
  let ?s = "HEAP_SOCK (unat (tw_heap w))"
  let ?t0 = "put_sock ?s zero_socket (tw_tcp w)"
  have use0: "ts_in_use (g_sock ?t0) = 0" using assms(5) by (simp add: put_sock_def)
  from tcp_connect_spec [OF assms(4) this, of ?s ip 443 0] obtain t n where
    c: "tcp_connect ?s ip 443 0 ?t0 (tw_net w) = Some (0, t, n)" "net_ok n" by blast
  have idle0: "heap_socks_idle ?t0" using assms(2) by (simp add: heap_socks_idle_def put_sock_def zero_socket_def le_syn_sent)
  have "tcp_step (?t0, tw_net w) (t, n)" by (rule tcp_step.connect [OF c(1)])
  from tcp_step_heap_idle [OF this] idle0 have idle: "heap_socks_idle t" by simp
  have "tcp_ok ?t0" using assms(3) by (simp add: put_sock_def zero_socket_def tcp_ok_def sock_ok_def)
  from tcp_connect_ok [OF this assms(4), of ?s ip 443 0] c(1) have ok: "tcp_ok t" by auto
  obtain l m where seed: "ctr_drbg_seed lib my_entropy (lit ''mbed_tls_kern'') (tw_lfsr w) (tw_lib w) = (0, l, m)"
    using assms(8) [of "tw_lfsr w" "tw_lib w"] by (cases "ctr_drbg_seed lib my_entropy (lit ''mbed_tls_kern'') (tw_lfsr w) (tw_lib w)") auto
  obtain m1 where conf: "ssl_config_defaults lib m = (0, m1)" using assms(9) [of m] by (cases "ssl_config_defaults lib m") auto
  obtain m2 where rdy: "ssl_setup lib m1 = (0, m2)" using assms(10) [of m1] by (cases "ssl_setup lib m1") auto
  have fresh: "fresh m2" using assms(1) rdy unfolding waits_to_send_def by (metis snd_conv)
  let ?w = "w\<lparr>tw_heap := tw_heap w + round16 48, tw_tcp := t, tw_net := n, tw_lfsr := l, tw_lib := m2\<rparr>"
  have "tls_http_get_by_ip lib poll ip host path cap w = tls_session lib poll ?s host path cap ?w"
    using assms(6,7) c(1) by (simp add: tls_http_get_by_ip_def malloc_def kmalloc_def seed conf rdy)
  then show ?thesis
    by (rule exI [of _ ?w, OF conjI]) (simp add: fresh idle ok c(2))
qed

lemma tls_session_never: "handshake_loop lib poll s w = None \<Longrightarrow> tls_session lib poll s host path cap w = None"
  by (simp add: tls_session_def)

text \<open>A library that sends one byte in its handshake.\<close>

definition lib_demo :: "unit mbedtls" where
  "lib_demo = \<lparr>ERR_SSL_WANT_READ = - 26880, ERR_SSL_WANT_WRITE = - 26752,
     ctr_drbg_seed = (\<lambda>ent p l m. (0, snd (ent 48 l), m)), ssl_config_defaults = (\<lambda>m. (0, m)), ssl_setup = (\<lambda>m. (0, m)),
     ssl_handshake = (\<lambda>send recv m w. do { (r, w') \<leftarrow> send [22] w; Some (if r < 0 then r else 0, m, w') }),
     ssl_write = (\<lambda>send recv d m w. do { (r, w') \<leftarrow> send d w; Some (r, m, w') }),
     ssl_read = (\<lambda>send recv k m w. do { (r, d, w') \<leftarrow> recv k w; Some (r, d, m, w') }),
     ssl_close_notify = (\<lambda>send recv m w. Some (m, w))\<rparr>"

lemma lib_demo_ok:
  "waits_to_send lib_demo (\<lambda>_. True)" "fst (ctr_drbg_seed lib_demo ent p l m) = 0"
  "fst (ssl_config_defaults lib_demo m) = 0" "fst (ssl_setup lib_demo m) = 0"
  by (simp_all add: waits_to_send_def lib_demo_def)

end
