(* ===== verification/Desktop.thy ===== *)
theory Desktop
  imports E1000e Exec_elf Browser Tls
begin

text \<open>
  The user interface of \<open>src/kernel.c\<close>: the welcome screen, the desktop with its start menu and
  the calculator window. Every window is drawn by its set-up; one turn of its loop lets the card
  run and polls it, reads the mouse port, whose status and data are arguments, and handles a
  click. Positions that the source computes from the size of the screen are unsigned sums read
  back as \<open>int\<close>.
\<close>

section \<open>State\<close>

text \<open>\<open>w_card k\<close> is what the card does to its rings, buffers and registers before poll \<open>k\<close>.\<close>

record world =
  w_nic :: e1000
  w_card :: "nat \<Rightarrow> e1000 \<Rightarrow> e1000"
  w_polls :: nat
  w_stack :: stack
  w_heap :: u32
  w_sys :: sys
  w_mouse :: mouse
  w_expr :: cstr
  w_http :: "int \<times> int \<times> int"
  w_lfsr :: u32

abbreviation w_ui :: "world \<Rightarrow> ui" where "w_ui w \<equiv> sys_ui (w_sys w)"
abbreviation scr_w :: "world \<Rightarrow> u32" where "scr_w w \<equiv> fb_width (ui_fb (w_ui w))"
abbreviation scr_h :: "world \<Rightarrow> u32" where "scr_h w \<equiv> fb_height (ui_fb (w_ui w))"

definition on_ui :: "(ui \<Rightarrow> ui option) \<Rightarrow> world \<Rightarrow> world option" where
  "on_ui f w = map_option (\<lambda>u. w\<lparr>w_sys := (w_sys w)\<lparr>sys_ui := u\<rparr>\<rparr>) (f (w_ui w))"

definition draw :: "(fb \<Rightarrow> fb option) \<Rightarrow> world \<Rightarrow> world option" where
  "draw f = on_ui (on_fb f)"

section \<open>Input\<close>

text \<open>A datagram draws the titles in it.\<close>

definition draw_datagram :: "bytes \<Rightarrow> fb \<Rightarrow> fb option" where
  "draw_datagram buf = for_loop (\<lambda>(y, title). draw_string 50 (int y) title 0) (udp_titles buf)"

text \<open>
  \<open>if (rtl8139_is_ready()) rtl8139_poll();\<close>, with what the datagrams draw. The frames the stack
  has handed down since the last poll are in the driver by then, and the card has run.
\<close>

definition card_writes :: "(e1000 \<Rightarrow> e1000) \<Rightarrow> e1000 \<Rightarrow> e1000" where
  "card_writes f d = d\<lparr>regs := regs (f d), rx_ring := rx_ring (f d), rx_bufs := rx_bufs (f d), tx_ring := tx_ring (f d)\<rparr>"

definition card_runs :: "world \<Rightarrow> world option" where
  "card_runs w = do {
     (d, s) \<leftarrow> transmit_log e1000_nic_tx (w_nic w, w_stack w);
     Some (w\<lparr>w_nic := card_writes (w_card w (w_polls w)) d, w_stack := s, w_polls := Suc (w_polls w)\<rparr>)
   }"

definition poll_nic :: "world \<Rightarrow> world option" where
  "poll_nic w = do {
     w \<leftarrow> card_runs w;
     if driver_ready (w_nic w) then do {
       (d, s) \<leftarrow> e1000_poll (w_nic w, (w_stack w)\<lparr>st_udp := []\<rparr>);
       draw (for_loop (\<lambda>(ip, port, buf). draw_datagram buf) (st_udp s)) (w\<lparr>w_nic := d, w_stack := s\<rparr>)
     }
     else Some w
   }"

text \<open>A packet of the mouse moves the cursor; the result is whether the left button is down.\<close>

definition mouse_input :: "u8 \<Rightarrow> u8 \<Rightarrow> world \<Rightarrow> (bool \<times> world) option" where
  "mouse_input status d w =
     (let (p, m) = mouse_read_packet status d (w_mouse w); w' = w\<lparr>w_mouse := m\<rparr> in
      case p of
        None \<Rightarrow> Some (False, w')
      | Some (dx, dy, btn) \<Rightarrow> do {
          w'' \<leftarrow> on_ui (\<lambda>u. cursor_move_to (cur_x u + dx) (cur_y u + dy) u) w';
          Some (btn AND 1 \<noteq> 0, w'')
        })"

text \<open>\<open>cur_x > x && cur_x < x + w && cur_y > y && cur_y < y + h\<close>\<close>

definition hit :: "int \<Rightarrow> int \<Rightarrow> int \<Rightarrow> int \<Rightarrow> world \<Rightarrow> bool" where
  "hit x y w h st \<longleftrightarrow> x < cur_x (w_ui st) \<and> cur_x (w_ui st) < x + w \<and> y < cur_y (w_ui st) \<and> cur_y (w_ui st) < y + h"

text \<open>\<open>(framebuffer_width - w) / 2\<close> as an \<open>int\<close>\<close>

definition centred :: "u32 \<Rightarrow> u32 \<Rightarrow> int" where
  "centred extent part = sint ((extent - part) div 2)"

section \<open>Welcome screen\<close>

definition welcome_next :: "world \<Rightarrow> int \<times> int" where
  "welcome_next w = (centred (scr_w w) 400 + 400 - 120, centred (scr_h w) 200 + 200 - 70)"

definition welcome_setup :: "world \<Rightarrow> world option" where
  "welcome_setup w =
     (let bx = centred (scr_w w) 400; by = centred (scr_h w) 200; (nx, ny) = welcome_next w in do {
        w \<leftarrow> draw (draw_all
          [draw_rect 0 0 (sint (scr_w w)) (sint (scr_h w)) 0xFFFFFF,
           draw_rounded bx by 400 200 20 0xCCCCCC,
           draw_string (bx + 80) (by + 90) (lit ''Welcome To MyOS!'') 0xFF0000,
           draw_rounded nx ny 100 50 15 0x8888FF,
           draw_string (nx + 25) (ny + 15) (lit ''Next'') 0xFFFFFF]) w;
        on_ui (cursor_move_to (sint (scr_w w div 2)) (sint (scr_h w div 2))) w
      })"

text \<open>The result: whether the loop ends.\<close>

definition welcome_step :: "u8 \<Rightarrow> u8 \<Rightarrow> world \<Rightarrow> (bool \<times> world) option" where
  "welcome_step status d w = do {
     w \<leftarrow> poll_nic w;
     (click, w) \<leftarrow> mouse_input status d w;
     let (nx, ny) = welcome_next w;
     if click \<and> hit nx ny 100 50 w then do { w \<leftarrow> on_ui cursor_restore_under w; Some (True, w) }
     else Some (False, w)
   }"

section \<open>Desktop\<close>

definition draw_start_menu :: "int \<Rightarrow> int \<Rightarrow> int \<Rightarrow> int \<Rightarrow> fb \<Rightarrow> fb option" where
  "draw_start_menu sm_x sm_y sm_w sm_h = draw_all
     [draw_rect sm_x sm_y sm_w sm_h 0xDDDDDD,
      draw_string (sm_x + 16) (sm_y + 20) (lit ''Calculator'') 0,
      draw_string (sm_x + 16) (sm_y + 50) (lit ''Browser'') 0,
      draw_string (sm_x + 16) (sm_y + 80) (lit ''Notes (dummy)'') 0x666666,
      draw_string (sm_x + 16) (sm_y + 50) (lit ''Browser (Posts)'') 0,
      draw_string (sm_x + 16) (sm_y + 80) (lit ''JSON Viewer (Users)'') 0,
      draw_string (sm_x + 16) (sm_y + 110) (lit ''Paint (dummy)'') 0x666666,
      draw_string (sm_x + 16) (sm_y + 140) (lit ''Run embedded hello'') 0]"

definition clear_start_menu :: "int \<Rightarrow> int \<Rightarrow> int \<Rightarrow> int \<Rightarrow> int \<Rightarrow> int \<Rightarrow> int \<Rightarrow> int \<Rightarrow> int \<Rightarrow> fb \<Rightarrow> fb option" where
  "clear_start_menu sm_x sm_y sm_w sm_h bar_h sb_x sb_y sb_w sb_h s = draw_all
     [draw_rect sm_x sm_y sm_w sm_h 0x87CEEB,
      draw_rect 0 (sint (fb_height s - word_of_int bar_h)) (sint (fb_width s)) bar_h 0x333333,
      draw_rect sb_x sb_y sb_w sb_h 0x8888FF,
      draw_string (sb_x + 6) (sb_y + 8) (lit ''S'') 0xFFFFFF] s"

definition sb_top :: "world \<Rightarrow> int" where "sb_top w = sint (scr_h w) - 40 + 6"
definition sm_top :: "world \<Rightarrow> int" where "sm_top w = sint (scr_h w) - 40 - 180"

definition open_menu :: "world \<Rightarrow> world option" where
  "open_menu w = draw (draw_start_menu 0 (sm_top w) 220 180) w"

definition close_menu :: "world \<Rightarrow> world option" where
  "close_menu w = draw (clear_start_menu 0 (sm_top w) 220 180 40 8 (sb_top w) 28 28) w"

definition desktop_setup :: "world \<Rightarrow> world option" where
  "desktop_setup w = do {
     w \<leftarrow> draw (draw_rect 0 0 (sint (scr_w w)) (sint (scr_h w)) 0x87CEEB) w;
     w \<leftarrow> draw (if driver_ready (w_nic w) then draw_string 20 20 (lit ''NIC: 10.0.2.15 OK'') 0x00AA00
                 else draw_string 20 20 (lit ''NIC: NOT READY'') 0xFF0000) w;
     w \<leftarrow> draw (draw_all
       [draw_rect 0 (sint (scr_h w - 40)) (sint (scr_w w)) 40 0x333333,
        draw_rect 8 (sb_top w) 28 28 0x8888FF,
        draw_string (8 + 6) (sb_top w + 8) (lit ''S'') 0xFFFFFF]) w;
     on_ui (\<lambda>u. cursor_move_to (cur_x u) (cur_y u) u) w
   }"

text \<open>The exit code of the program as text: digits from the right, then exchanged in place.\<close>

definition swap_digits :: "nat \<Rightarrow> nat \<Rightarrow> nat \<Rightarrow> cstr \<Rightarrow> cstr option" where
  "swap_digits n st i numbuf = do {
     x \<leftarrow> ld8 numbuf (n + i);
     y \<leftarrow> ld8 numbuf (n + st - 1 - i);
     Some (numbuf[n + i := y, n + st - 1 - i := x])
   }"

definition exit_code_text :: "int \<Rightarrow> cstr option" where
  "exit_code_text rc =
     (if rc = 0 then Some [48]
      else do {
        assert_that (rc \<ge> 0 \<or> int_range (- rc));
        let sign = (if rc < 0 then [45] else []);
        let digits = rdigits (nat (if rc < 0 then - rc else rc));
        for_loop (swap_digits (length sign) (length digits)) [0..<length digits div 2] (sign @ digits)
      })"

text \<open>
  The program embedded in the kernel, if any: its bytes, the machine code behind its entry
  point, and the addresses of the interrupt stub and of the descriptor table.
\<close>

record embedded =
  em_bytes :: bytes
  em_entry :: "bytes \<Rightarrow> u32 \<Rightarrow> u32 \<Rightarrow> sys \<Rightarrow> (int \<times> sys) option"
  em_stub :: u32
  em_idt :: u32

definition run_embedded :: "embedded \<Rightarrow> world \<Rightarrow> world option" where
  "run_embedded em w =
     (if length (em_bytes em) > 0 then do {
        w \<leftarrow> on_ui (console_puts (lit ''Running embedded program...'' @ [10])) w;
        (rc, heap, s) \<leftarrow> elf32_load_and_run (em_entry em) (em_stub em) (em_idt em) (em_bytes em)
          (word_of_nat (length (em_bytes em))) (w_heap w, w_sys w);
        numbuf \<leftarrow> exit_code_text rc;
        w \<leftarrow> on_ui (console_puts (lit ''User program exited with code: '')) (w\<lparr>w_heap := heap, w_sys := s\<rparr>);
        w \<leftarrow> on_ui (console_puts numbuf) w;
        on_ui (console_puts [10]) w
      }
      else on_ui (console_puts (lit ''No embedded program present. Run make userprog and embed-userprog first.'' @ [10])) w)"

datatype desk = Loop bool | App nat

definition desktop_step :: "embedded \<Rightarrow> u8 \<Rightarrow> u8 \<Rightarrow> bool \<Rightarrow> world \<Rightarrow> (desk \<times> world) option" where
  "desktop_step em status d start_open w = do {
     w \<leftarrow> poll_nic w;
     (click, w) \<leftarrow> mouse_input status d w;
     let sm_y = sm_top w;
     if \<not> click then Some (Loop start_open, w)
     else if hit 8 (sb_top w) 28 28 w then do {
       w \<leftarrow> (if \<not> start_open then open_menu w else close_menu w);
       Some (Loop (\<not> start_open), w)
     }
     else if \<not> start_open then Some (Loop start_open, w)
     else if hit 16 (sm_y + 16) 164 20 w then do { w \<leftarrow> close_menu w; Some (App 1, w) }
     else if hit 16 (sm_y + 46) 164 20 w then do { w \<leftarrow> close_menu w; Some (App 2, w) }
     else if hit 16 (sm_y + 76) 164 20 w then do { w \<leftarrow> close_menu w; Some (App 3, w) }
     else do {
       w \<leftarrow> (if hit 16 (sm_y + 136) 164 20 w then do { w \<leftarrow> close_menu w; run_embedded em w } else Some w);
       if \<not> hit 0 sm_y 220 180 w then do { w \<leftarrow> close_menu w; Some (Loop False, w) }
       else Some (Loop start_open, w)
     }
   }"

section \<open>Calculator\<close>

definition BW :: int where "BW = 60"
definition BH :: int where "BH = 40"

definition draw_key :: "int \<Rightarrow> int \<Rightarrow> u8 \<Rightarrow> fb \<Rightarrow> fb option" where
  "draw_key x y c = draw_all [draw_rect x y BW BH 0xAAAAAA, draw_string (x + 25) (y + 13) [c] 0]"

definition calc_keys :: cstr where
  "calc_keys = lit ''789/456*123-0.=+C''"

text \<open>Window, close button, and the place of the key in row \<open>r\<close> and column \<open>c\<close>.\<close>

definition calc_window :: "world \<Rightarrow> int \<times> int" where
  "calc_window w = (centred (scr_w w) 300, centred (scr_h w) 350)"

definition key_place :: "world \<Rightarrow> nat \<Rightarrow> nat \<Rightarrow> int \<times> int" where
  "key_place w r c = (let (wx, wy) = calc_window w in (wx + 10 + int c * (BW + 5), wy + 80 + int r * (BH + 5)))"

definition calc_cells :: "(nat \<times> nat) list" where
  "calc_cells = [(r, c). r \<leftarrow> [0..<4], c \<leftarrow> [0..<4]]"

definition calculator_setup :: "world \<Rightarrow> world option" where
  "calculator_setup w = (let (wx, wy) = calc_window w in do {
     w \<leftarrow> draw (draw_all
       [draw_rect 0 0 (sint (scr_w w)) (sint (scr_h w)) 0x87CEEB,
        draw_rounded wx wy 300 350 15 0xBBBBBB,
        draw_rect (wx + 10) (wy + 10) (300 - 20) 60 0xFFFFFF,
        draw_rect (wx + 300 - 30) (wy + 10) 20 20 0xFF0000,
        draw_string (wx + 300 - 30 + 5) (wy + 10 + 2) (lit ''X'') 0xFFFFFF]) w;
     w \<leftarrow> for_loop (\<lambda>(r, c) w. do {
            k \<leftarrow> ld8 calc_keys (4 * r + c);
            let (bx, by) = key_place w r c;
            draw (draw_key bx by k) w }) calc_cells w;
     on_ui (\<lambda>u. cursor_move_to (cur_x u) (cur_y u) u) w
   })"

text \<open>What a click does to the expression: the keys are tried in turn.\<close>

definition press_key :: "u8 \<Rightarrow> cstr \<Rightarrow> cstr option" where
  "press_key k e = (if k = 67 then Some (calc_clear e) else if k = 61 then calc_eval e else Some (calc_add k e))"

definition click_keys :: "world \<Rightarrow> world option" where
  "click_keys w = for_loop (\<lambda>(r, c) w. do {
     k \<leftarrow> ld8 calc_keys (4 * r + c);
     let (bx, by) = key_place w r c;
     if hit bx by BW BH w then map_option (\<lambda>e. w\<lparr>w_expr := e\<rparr>) (press_key k (w_expr w)) else Some w }) calc_cells w"

definition calculator_step :: "u8 \<Rightarrow> u8 \<Rightarrow> world \<Rightarrow> (bool \<times> world) option" where
  "calculator_step status d w = do {
     w \<leftarrow> poll_nic w;
     let (wx, wy) = calc_window w;
     w \<leftarrow> draw (draw_all
       [draw_rect (wx + 12) (wy + 12) (300 - 24) 56 0xFFFFFF,
        draw_string (wx + 20) (wy + 32) (w_expr w) 0]) w;
     (click, w) \<leftarrow> mouse_input status d w;
     if \<not> click then Some (False, w)
     else if hit (wx + 300 - 30) (wy + 10) 20 20 w then do { w \<leftarrow> on_ui cursor_restore_under w; Some (True, w) }
     else do { w \<leftarrow> click_keys w; Some (False, w) }
   }"


section \<open>Drawing never fails\<close>

text \<open>Routines that draw text in ASCII and shapes of any size anywhere succeed on a sound framebuffer.\<close>

definition draws :: "u32 \<Rightarrow> u32 \<Rightarrow> (fb \<Rightarrow> fb option) \<Rightarrow> bool" where
  "draws w h f \<longleftrightarrow> (\<forall>s. fb_ok w h s \<longrightarrow> (\<exists>t. f s = Some t \<and> fb_ok w h t))"

named_theorems drawing

lemma drawsD: "draws w h f \<Longrightarrow> fb_ok w h s \<Longrightarrow> \<exists>t. f s = Some t \<and> fb_ok w h t"
  by (simp add: draws_def)

lemma draws_renders: "renders (fb_ok w h) look f F \<Longrightarrow> draws w h f"
  by (auto simp: renders_def draws_def)

lemma draws_Some [drawing]: "draws w h Some"
  by (simp add: draws_def)

lemma draws_bind: "draws w h f \<Longrightarrow> draws w h g \<Longrightarrow> draws w h (\<lambda>s. f s \<bind> g)"
  unfolding draws_def by (metis bind.bind_lunit)

lemma draws_loop: "(\<And>i. draws w h (f i)) \<Longrightarrow> draws w h (for_loop f is)"
proof (induction "is")
  case Nil
  then show ?case by (simp add: draws_def)
next
  case (Cons i "is")
  have "draws w h (\<lambda>s. f i s \<bind> for_loop f is)" by (rule draws_bind) (use Cons in auto)
  then show ?case by (simp add: draws_def)
qed

lemma draws_all [drawing]: "draws w h f \<Longrightarrow> draws w h (draw_all fs) \<Longrightarrow> draws w h (draw_all (f # fs))"
  unfolding draw_all_simps by (rule draws_bind)

lemma draws_nil [drawing]: "draws w h (draw_all [])"
  by (simp add: draws_def)

lemma draws_put [drawing]: "draws w h (put_pixel x y c)"
  by (rule draws_renders) (rule put_pixel_renders)

lemma draws_rect [drawing]: "draws w h (draw_rect x y rw rh c)"
  by (rule draws_renders) (rule draw_rect_renders)

lemma draws_if: "draws w h f \<Longrightarrow> draws w h g \<Longrightarrow> draws w h (\<lambda>s. if b then f s else g s)"
  by (simp add: draws_def)

lemma draws_string [drawing]: "ascii s \<Longrightarrow> draws w h (draw_string x y s c)"
  by (rule draws_renders, rule draw_string_renders) (simp add: ascii_def)

lemma draws_rounded [drawing]: "draws w h (draw_rounded x y rw rh r c)"
  unfolding draw_rounded_def by (intro drawing draws_loop draws_if)

lemma ascii_lit [drawing]: "(\<forall>c \<in> set s. of_char c < (128 :: nat)) \<Longrightarrow> ascii (lit s)"
proof -
  assume s: "\<forall>c \<in> set s. of_char c < (128 :: nat)"
  have "0 \<le> sint (word_of_nat n :: u8)" if "n < 128" for n
  proof -
    have "uint (word_of_nat n :: u8) = int n" using that by (simp add: uint_nat unat_of_nat del: of_nat_unat)
    then have "sint (word_of_nat n :: u8) = int n" using that
      unfolding sint_uint by (subst signed_take_bit_int_eq_self) (auto intro: order_trans [of _ 0])
    then show ?thesis by simp
  qed
  with s show ?thesis by (auto simp: ascii_def lit_def)
qed

lemma draws_menu [drawing]: "draws w h (draw_start_menu x y rw rh)"
  unfolding draw_start_menu_def by (intro drawing) simp_all

lemma draws_clear_menu [drawing]: "draws w h (clear_start_menu a b c d e f g i j)"
proof -
  have "draws w h (draw_all [draw_rect a b c d 0x87CEEB, draw_rect 0 (sint (h - word_of_int e)) (sint w) e 0x333333,
     draw_rect f g i j 0x8888FF, draw_string (f + 6) (g + 8) (lit ''S'') 0xFFFFFF])"
    by (intro drawing) simp_all
  then show ?thesis by (auto simp: draws_def clear_start_menu_def fb_ok_def)
qed

section \<open>Windows\<close>

abbreviation world_ok :: "u32 \<Rightarrow> u32 \<Rightarrow> world \<Rightarrow> bool" where
  "world_ok w h st \<equiv> ui_ok w h (w_ui st)"

lemma draw_ok:
  assumes "draws w h f" "world_ok w h st"
  shows "\<exists>s. draw f st = Some (st\<lparr>w_sys := (w_sys st)\<lparr>sys_ui := (w_ui st)\<lparr>ui_fb := s\<rparr>\<rparr>\<rparr>) \<and> fb_ok w h s"
  using assms drawsD [OF assms(1), of "ui_fb (w_ui st)"] by (auto simp: draw_def on_ui_def on_fb_def ui_ok_def)

lemma draw_total:
  assumes "draws w h f" "world_ok w h st"
  shows "\<exists>st'. draw f st = Some st' \<and> world_ok w h st' \<and> cur_x (w_ui st') = cur_x (w_ui st) \<and> cur_y (w_ui st') = cur_y (w_ui st) \<and>
    cur_saved (w_ui st') = cur_saved (w_ui st) \<and> w_expr st' = w_expr st"
  using draw_ok [OF assms] by (auto simp: ui_ok_def)

lemma cursor_to_total:
  assumes "world_ok w h st"
  shows "\<exists>st'. on_ui (\<lambda>u. cursor_move_to (f u) (g u) u) st = Some st' \<and> world_ok w h st' \<and> cur_saved (w_ui st') \<and> w_expr st' = w_expr st \<and>
    cur_x (w_ui st') = clampi (f (w_ui st)) 0 (sint w - 1) \<and> cur_y (w_ui st') = clampi (g (w_ui st)) 0 (sint h - 1)"
  using cursor_move_spec [OF assms, of "f (w_ui st)" "g (w_ui st)"] by (auto simp: on_ui_def)

lemma cursor_away_total:
  assumes "world_ok w h st"
  shows "\<exists>st'. on_ui cursor_restore_under st = Some st' \<and> world_ok w h st' \<and> \<not> cur_saved (w_ui st') \<and> w_expr st' = w_expr st"
  using cursor_restore_spec [OF assms] by (auto simp: on_ui_def)

text \<open>A whole packet in the mouse moves the cursor; the last byte is \<open>d\<close>.\<close>

definition packet_done :: "world \<Rightarrow> u8 \<Rightarrow> u8 \<Rightarrow> u8 \<Rightarrow> u8 \<Rightarrow> bool" where
  "packet_done st b x status d \<longleftrightarrow> status AND 1 \<noteq> 0 \<and> mp_idx (w_mouse st) = 2 \<and> (\<exists>z. mp_pkt (w_mouse st) = [b, x, z])"

lemma mouse_input_total:
  assumes "world_ok w h st"
  shows "\<exists>click st'. mouse_input status d st = Some (click, st') \<and> world_ok w h st' \<and> w_expr st' = w_expr st"
proof (cases "mouse_read_packet status d (w_mouse st)")
  case (Pair p m)
  show ?thesis
  proof (cases p)
    case None
    with Pair have "mouse_input status d st = Some (False, st\<lparr>w_mouse := m\<rparr>)" by (simp add: mouse_input_def)
    with assms show ?thesis by auto
  next
    case (Some q)
    obtain dx dy btn where q: "q = (dx, dy, btn)" by (cases q)
    have "world_ok w h (st\<lparr>w_mouse := m\<rparr>)" using assms by simp
    from cursor_to_total [OF this, of "\<lambda>u. cur_x u + dx" "\<lambda>u. cur_y u + dy"] Pair Some q
    show ?thesis by (auto simp: mouse_input_def)
  qed
qed

lemma mouse_input_packet:
  assumes "world_ok w h st" "packet_done st b x status d"
  shows "\<exists>st'. mouse_input status d st = Some (b AND 1 \<noteq> 0, st') \<and> world_ok w h st' \<and> cur_saved (w_ui st') \<and> w_expr st' = w_expr st \<and>
    cur_x (w_ui st') = clampi (cur_x (w_ui st) + sint x) 0 (sint w - 1) \<and>
    cur_y (w_ui st') = clampi (cur_y (w_ui st) - sint d) 0 (sint h - 1)"
proof -
  from assms(2) obtain z where m: "status AND 1 \<noteq> 0" "mp_idx (w_mouse st) = 2" "mp_pkt (w_mouse st) = [b, x, z]"
    by (auto simp: packet_done_def)
  let ?m = "(w_mouse st)\<lparr>mp_pkt := [b, x, d], mp_idx := 0\<rparr>"
  have r: "mouse_read_packet status d (w_mouse st) = (Some (sint x, - sint d, b), ?m)"
    using m by (simp add: mouse_read_packet_def numeral_2_eq_2)
  have "world_ok w h (st\<lparr>w_mouse := ?m\<rparr>)" using assms(1) by simp
  from cursor_to_total [OF this, of "\<lambda>u. cur_x u + sint x" "\<lambda>u. cur_y u - sint d"] r
  show ?thesis by (auto simp: mouse_input_def)
qed


lemma menu_total:
  assumes "world_ok w h st"
  shows "\<exists>st'. open_menu st = Some st' \<and> world_ok w h st' \<and> cur_x (w_ui st') = cur_x (w_ui st) \<and> cur_y (w_ui st') = cur_y (w_ui st) \<and>
      cur_saved (w_ui st') = cur_saved (w_ui st) \<and> w_expr st' = w_expr st"
    and "\<exists>st'. close_menu st = Some st' \<and> world_ok w h st' \<and> cur_x (w_ui st') = cur_x (w_ui st) \<and> cur_y (w_ui st') = cur_y (w_ui st) \<and>
      cur_saved (w_ui st') = cur_saved (w_ui st) \<and> w_expr st' = w_expr st"
  unfolding open_menu_def close_menu_def by (rule draw_total [OF _ assms], rule drawing)+

lemma console_total:
  assumes "world_ok w h st" "ascii s"
  shows "\<exists>st'. on_ui (console_puts s) st = Some st' \<and> world_ok w h st' \<and> cur_x (w_ui st') = cur_x (w_ui st) \<and> cur_y (w_ui st') = cur_y (w_ui st) \<and>
      cur_saved (w_ui st') = cur_saved (w_ui st) \<and> w_expr st' = w_expr st"
proof -
  from console_puts_spec [OF assms] obtain u where u: "console_puts s (w_ui st) = Some u" "ui_ok w h u" by blast
  then have "cur_x u = cur_x (w_ui st) \<and> cur_y u = cur_y (w_ui st) \<and> cur_saved u = cur_saved (w_ui st)"
    by (auto simp: console_puts_def on_fb_def Let_def bind_Some_iff)
  with u show ?thesis by (simp add: on_ui_def)
qed

section \<open>The start menu\<close>

text \<open>What a click at a point does on a screen of height \<open>H\<close>.\<close>

definition inside :: "int \<Rightarrow> int \<Rightarrow> int \<Rightarrow> int \<Rightarrow> int \<Rightarrow> int \<Rightarrow> bool" where
  "inside px py x0 x1 y0 y1 \<longleftrightarrow> x0 < px \<and> px < x1 \<and> y0 < py \<and> py < y1"

definition desk_spec :: "int \<Rightarrow> bool \<Rightarrow> int \<Rightarrow> int \<Rightarrow> desk" where
  "desk_spec H opened px py =
     (if inside px py 8 36 (H - 34) (H - 6) then Loop (\<not> opened)
      else if \<not> opened then Loop False
      else if inside px py 16 180 (H - 204) (H - 184) then App 1
      else if inside px py 16 180 (H - 174) (H - 154) then App 2
      else if inside px py 16 180 (H - 144) (H - 124) then App 3
      else Loop (inside px py 0 220 (H - 220) (H - 40)))"

lemma desktop_step_click:
  assumes "poll_nic st = Some st0" "world_ok w h st0" "packet_done st0 b x status d" "b AND 1 \<noteq> 0" "em_bytes em = []"
  shows "\<exists>st'. desktop_step em status d opened st =
      Some (desk_spec (sint h) opened (clampi (cur_x (w_ui st0) + sint x) 0 (sint w - 1)) (clampi (cur_y (w_ui st0) - sint d) 0 (sint h - 1)), st') \<and>
    world_ok w h st' \<and> cur_saved (w_ui st')"
proof -
  let ?x = "clampi (cur_x (w_ui st0) + sint x) 0 (sint w - 1)" and ?y = "clampi (cur_y (w_ui st0) - sint d) 0 (sint h - 1)"
  from mouse_input_packet [OF assms(2,3)] assms(4) obtain st1 where
    m: "mouse_input status d st0 = Some (True, st1)" "world_ok w h st1" "cur_saved (w_ui st1)"
      "cur_x (w_ui st1) = ?x" "cur_y (w_ui st1) = ?y" by auto
  have H: "scr_h st1 = h" using m(2) by (simp add: ui_ok_def fb_ok_def)
  have hit: "hit x0 y0 rw rh st1 \<longleftrightarrow> inside ?x ?y x0 (x0 + rw) y0 (y0 + rh)" for x0 y0 rw rh
    using m(4,5) by (simp add: hit_def inside_def)
  obtain so where so: "open_menu st1 = Some so" "world_ok w h so" "cur_saved (w_ui so)"
    using menu_total(1) [OF m(2)] m(3) by auto
  obtain sc where sc: "close_menu st1 = Some sc" "world_ok w h sc" "cur_x (w_ui sc) = ?x" "cur_y (w_ui sc) = ?y" "cur_saved (w_ui sc)"
    using menu_total(2) [OF m(2)] m(3-5) by auto
  have "ascii (lit ''No embedded program present. Run make userprog and embed-userprog first.'' @ [10])"
    by (simp add: ascii_def lit_def)
  from console_total [OF sc(2) this] sc(3-5) assms(5) obtain sr where
    sr: "run_embedded em sc = Some sr" "world_ok w h sr" "cur_x (w_ui sr) = ?x" "cur_y (w_ui sr) = ?y" "cur_saved (w_ui sr)"
    by (auto simp: run_embedded_def)
  have hit_sr: "hit x0 y0 rw rh sr \<longleftrightarrow> inside ?x ?y x0 (x0 + rw) y0 (y0 + rh)" for x0 y0 rw rh
    using sr(3,4) by (simp add: hit_def inside_def)
  let ?H = "sint h"
  have step: "desktop_step em status d opened st =
     (if inside ?x ?y 8 36 (?H - 34) (?H - 6) then
        (do { w \<leftarrow> (if \<not> opened then open_menu st1 else close_menu st1); Some (Loop (\<not> opened), w) })
      else if \<not> opened then Some (Loop opened, st1)
      else if inside ?x ?y 16 180 (?H - 204) (?H - 184) then Some (App 1, sc)
      else if inside ?x ?y 16 180 (?H - 174) (?H - 154) then Some (App 2, sc)
      else if inside ?x ?y 16 180 (?H - 144) (?H - 124) then Some (App 3, sc)
      else if inside ?x ?y 16 180 (?H - 84) (?H - 64) then
        (if \<not> inside ?x ?y 0 220 (?H - 220) (?H - 40) then map_option (Pair (Loop False)) (close_menu sr) else Some (Loop opened, sr))
      else (if \<not> inside ?x ?y 0 220 (?H - 220) (?H - 40) then Some (Loop False, sc) else Some (Loop opened, st1)))"
    unfolding desktop_step_def
    by (simp add: assms(1) m(1) sm_top_def sb_top_def H hit hit_sr sc(1) sr(1) map_option_case split: option.split)
  have "inside ?x ?y 16 180 (?H - 84) (?H - 64) \<Longrightarrow> inside ?x ?y 0 220 (?H - 220) (?H - 40)"
    by (auto simp: inside_def)
  with step so sc(1,2,5) sr(1,2,5) m(2,3) show ?thesis unfolding desk_spec_def by auto
qed

section \<open>The keys of the calculator\<close>

lemma calc_cells_mem: "(r, c) \<in> set calc_cells \<longleftrightarrow> r < 4 \<and> c < 4"
  by (auto simp: calc_cells_def image_iff)

lemma calc_cells_distinct: "distinct calc_cells"
  by code_simp

lemma key_places_apart:
  assumes "hit (fst (key_place st r c)) (snd (key_place st r c)) BW BH st" "hit (fst (key_place st r' c')) (snd (key_place st r' c')) BW BH st"
  shows "r = r' \<and> c = c'"
proof -
  obtain wx wy where w: "calc_window st = (wx, wy)" by fastforce
  have "int c = int c'" "int r = int r'" using assms by (simp_all add: hit_def key_place_def w BW_def BH_def)
  then show ?thesis by simp
qed

abbreviation try_key :: "nat \<times> nat \<Rightarrow> world \<Rightarrow> world option" where
  "try_key \<equiv> \<lambda>(r, c) w. do {
     k \<leftarrow> ld8 calc_keys (4 * r + c);
     let (bx, by) = key_place w r c;
     if hit bx by BW BH w then map_option (\<lambda>e. w\<lparr>w_expr := e\<rparr>) (press_key k (w_expr w)) else Some w }"

lemma length_calc_keys: "length calc_keys = 17"
  by (simp add: calc_keys_def lit_def)

lemma no_key_hit:
  assumes "\<forall>(r, c) \<in> set cs. 4 * r + c < 17 \<and> \<not> hit (fst (key_place st r c)) (snd (key_place st r c)) BW BH st"
  shows "for_loop try_key cs st = Some st"
  using assms by (induction cs) (auto simp: ld8_def length_calc_keys case_prod_beta)

lemma click_keys_one:
  assumes "r < 4" "c < 4" "hit (fst (key_place st r c)) (snd (key_place st r c)) BW BH st"
  shows "click_keys st = map_option (\<lambda>e. st\<lparr>w_expr := e\<rparr>) (press_key (calc_keys ! (4 * r + c)) (w_expr st))"
proof -
  have "(r, c) \<in> set calc_cells" using assms by (simp add: calc_cells_mem)
  then obtain pre post where cs: "calc_cells = pre @ (r, c) # post" by (meson split_list)
  have "distinct (pre @ (r, c) # post)" using calc_cells_distinct cs by metis
  then have other: "q \<noteq> (r, c)" if "q \<in> set pre \<union> set post" for q using that by auto
  have small: "4 * r' + c' < 17" if "(r', c') \<in> set pre \<union> set post" for r' c'
  proof -
    have "(r', c') \<in> set calc_cells" unfolding cs using that by auto
    then show ?thesis by (simp add: calc_cells_mem)
  qed
  have apart: "\<not> hit (fst (key_place st r' c')) (snd (key_place st r' c')) BW BH st" if "(r', c') \<in> set pre \<union> set post" for r' c'
    using key_places_apart [OF assms(3)] other [OF that] by auto
  have pre: "for_loop try_key pre st = Some st" by (rule no_key_hit) (use small apart in auto)
  have post: "for_loop try_key post (st\<lparr>w_expr := e\<rparr>) = Some (st\<lparr>w_expr := e\<rparr>)" for e
    by (rule no_key_hit) (use small apart in \<open>auto simp: hit_def key_place_def calc_window_def\<close>)
  have here: "try_key (r, c) st = map_option (\<lambda>e. st\<lparr>w_expr := e\<rparr>) (press_key (calc_keys ! (4 * r + c)) (w_expr st))"
    using assms by (simp add: ld8_def length_calc_keys case_prod_beta)
  show ?thesis
    unfolding click_keys_def cs for_loop_append pre bind.bind_lunit for_loop.simps here
    by (cases "press_key (calc_keys ! (4 * r + c)) (w_expr st)") (simp_all only: option.map bind.bind_lunit bind.bind_lzero post)
qed

section \<open>The exit code\<close>

lemma swap_digits_at:
  assumes "length xs = m" "k < m"
  shows "swap_digits (length pre) m k (pre @ xs) = Some (pre @ xs[k := xs ! (m - 1 - k), m - 1 - k := xs ! k])"
proof -
  define a where "a = m - 1 - k"
  have e: "length pre + m - 1 - k = length pre + a" and a: "a < m" using assms(2) by (simp_all add: a_def)
  have "ld8 (pre @ xs) (length pre + i) = Some (xs ! i)" if "i < m" for i
    using that assms(1) by (simp add: ld8_def)
  then show ?thesis unfolding swap_digits_def e a_def [symmetric] using assms a by (simp add: list_update_append)
qed

text \<open>The list after \<open>k\<close> exchanges.\<close>

definition mirrored :: "cstr \<Rightarrow> nat \<Rightarrow> nat \<Rightarrow> u8" where
  "mirrored ds k j = (if j < k \<or> length ds - k \<le> j then ds ! (length ds - 1 - j) else ds ! j)"

lemma mirrored_Suc:
  assumes "a + k + 1 = length ds" "k < a" "j < length ds"
  shows "mirrored ds (Suc k) j = (if j = a then ds ! k else if j = k then ds ! a else mirrored ds k j)"
proof -
  have c: "(j < Suc k \<or> length ds - Suc k \<le> j) = (j < k \<or> length ds - k \<le> j \<or> j = k \<or> j = a)"
    using assms by linarith
  have "length ds - 1 - a = k" "length ds - 1 - k = a" using assms(1) by linarith+
  then show ?thesis unfolding mirrored_def c by simp
qed

lemma mirrored_step:
  assumes "a + k + 1 = length ds" "k < a"
  shows "(map (mirrored ds k) [0..<length ds])[k := ds ! a, a := ds ! k] = map (mirrored ds (Suc k)) [0..<length ds]"
    (is "?xs[k := _, a := _] = ?ys")
proof (rule nth_equalityI)
  show "length (?xs[k := ds ! a, a := ds ! k]) = length ?ys" by simp
next
  fix j
  assume "j < length (?xs[k := ds ! a, a := ds ! k])"
  then have j: "j < length ds" by (simp only: length_list_update length_map length_upt diff_zero)
  have "a < length (?xs[k := ds ! a])" "k < length ?xs" using assms by (simp_all only: length_list_update length_map length_upt diff_zero)
  then have "?xs[k := ds ! a, a := ds ! k] ! j = (if a = j then ds ! k else if k = j then ds ! a else ?xs ! j)"
    by (simp only: nth_list_update)
  also have "\<dots> = mirrored ds (Suc k) j"
    unfolding mirrored_Suc [OF assms j] using j by (simp only: nth_map_upt add_0 diff_zero eq_commute [of a j] eq_commute [of k j])
  finally show "?xs[k := ds ! a, a := ds ! k] ! j = ?ys ! j"
    using j by (simp only: nth_map_upt add_0 diff_zero)
qed

lemma swap_digits_rev:
  "k \<le> length ds div 2 \<Longrightarrow> for_loop (swap_digits (length pre) (length ds)) [0..<k] (pre @ ds) =
    Some (pre @ map (mirrored ds k) [0..<length ds])"
proof (induction k)
  case 0
  have "map (mirrored ds 0) [0..<length ds] = ds" by (rule nth_equalityI) (simp_all add: mirrored_def)
  then show ?case by simp
next
  case (Suc k)
  define a where "a = length ds - 1 - k"
  let ?m = "map (mirrored ds k) [0..<length ds]"
  have "2 * k + 2 \<le> length ds" using Suc.prems by linarith
  with a_def have k: "k < length ds" "a < length ds" "k < a" "a + k + 1 = length ds" by linarith+
  have "\<not> length ds - k \<le> k" "\<not> length ds - k \<le> a" using k by linarith+
  then have "?m ! k = ds ! k" "?m ! a = ds ! a" using k(1-3) by (simp_all add: mirrored_def)
  then have "swap_digits (length pre) (length ds) k (pre @ ?m) = Some (pre @ ?m[k := ds ! a, a := ds ! k])"
    using swap_digits_at [of ?m "length ds" k pre] k(1) by (simp only: a_def [symmetric] length_map length_upt diff_zero)
  then have "swap_digits (length pre) (length ds) k (pre @ ?m) = Some (pre @ map (mirrored ds (Suc k)) [0..<length ds])"
    using mirrored_step [OF k(4,3)] by simp
  with Suc show ?case by (simp add: for_loop_append)
qed

lemma swap_digits_all:
  "for_loop (swap_digits (length pre) (length ds)) [0..<length ds div 2] (pre @ ds) = Some (pre @ rev ds)"
proof -
  let ?L = "length ds"
  have mid: "?L - Suc i = i" if "\<not> i < ?L div 2" "\<not> ?L - ?L div 2 \<le> i" for i using that by linarith
  have "map (mirrored ds (?L div 2)) [0..<?L] = rev ds"
    by (rule nth_equalityI) (auto simp: rev_nth mid mirrored_def)
  with swap_digits_rev [OF order_refl, of pre ds] show ?thesis by simp
qed

section \<open>Properties\<close>

text \<open>The exit code of a program is shown in decimal with its sign: writing the digits from the
  right and exchanging them in place puts them in order.\<close>

theorem exit_code_decimal:
  assumes "- (2 ^ 31) < rc" "rc < 2 ^ 31"
  shows "exit_code_text rc = Some (num_str rc)"
proof (cases "rc = 0")
  case True
  then show ?thesis by (simp add: exit_code_text_def num_str_def dec.simps [of 0])
next
  case False
  let ?n = "nat \<bar>rc\<bar>"
  have n: "(if rc < 0 then - rc else rc) = \<bar>rc\<bar>" by simp
  have r: "rev (rdigits ?n) = dec ?n" using False by (intro rev_rdigits) simp
  have "rc \<ge> 0 \<or> int_range (- rc)" using assms by (auto simp: int_range_def)
  with False show ?thesis
    unfolding exit_code_text_def n Let_def swap_digits_all num_str_def r [symmetric]
    by (simp only: if_False assert_that_def if_True bind.bind_lunit)
qed

lemma exit_code_decimal_witness: "exit_code_text (- 1203) = Some (num_str (- 1203))"
  by (rule exit_code_decimal) simp_all

text \<open>C15: A click on the desktop does what the menu shows: the start button opens and closes the
  menu, an entry of the open menu starts its window, a click beside the menu closes it, and with
  the menu closed nothing starts. The screen stays sound, wherever the mouse moves.\<close>

theorem desktop_click:
  assumes "poll_nic st = Some st0" "world_ok w h st0" "packet_done st0 b x status d" "b AND 1 \<noteq> 0" "em_bytes em = []"
  shows "\<exists>st'. desktop_step em status d opened st =
      Some (desk_spec (sint h) opened (clampi (cur_x (w_ui st0) + sint x) 0 (sint w - 1)) (clampi (cur_y (w_ui st0) - sint d) 0 (sint h - 1)), st') \<and>
    world_ok w h st'"
  using desktop_step_click [OF assms, of opened] by blast

definition world_demo :: world where
  "world_demo = \<lparr>w_nic = e1000_demo\<lparr>driver_ready := False\<rparr>, w_card = (\<lambda>_ d. d), w_polls = 0, w_stack = stack_boot, w_heap = heap_start, w_sys = sys_demo,
     w_mouse = \<lparr>mp_pkt = [9, 1, 0], mp_idx = 2\<rparr>, w_expr = [], w_http = (0, 0, 0), w_lfsr = 0x12345678\<rparr>"

definition em_demo :: embedded where
  "em_demo = \<lparr>em_bytes = [], em_entry = (\<lambda>mem base start s. None), em_stub = 0, em_idt = 0\<rparr>"

abbreviation polled :: "world \<Rightarrow> world" where "polled st \<equiv> st\<lparr>w_polls := 1\<rparr>"

lemma poll_idle:
  assumes "\<not> driver_ready (w_nic st)" "nic_log (st_net (w_stack st)) = []" "w_card st = (\<lambda>_ d. d)" "w_polls st = 0"
  shows "poll_nic st = Some (polled st)"
  using assms by (simp add: poll_nic_def card_runs_def transmit_log_def card_writes_def)

lemma world_demo_facts:
  "poll_nic world_demo = Some (polled world_demo)" "world_ok 4 3 (polled world_demo)" "packet_done (polled world_demo) 9 1 1 d"
  "em_bytes em_demo = []" "w_ui world_demo = ui_demo" "w_expr world_demo = []"
  by (rule poll_idle)
    (simp_all add: world_demo_def stack_boot_def net_boot_def sys_demo_def ui_demo_ok(1) packet_done_def em_demo_def)

lemma desktop_click_witness:
  "\<exists>st'. desktop_step em_demo 1 2 True world_demo =
      Some (desk_spec (sint (3 :: u32)) True (clampi (cur_x (w_ui (polled world_demo)) + sint (1 :: u8)) 0 (sint (4 :: u32) - 1))
        (clampi (cur_y (w_ui (polled world_demo)) - sint (2 :: u8)) 0 (sint (3 :: u32) - 1)), st') \<and> world_ok 4 3 st'"
  by (rule desktop_click [OF world_demo_facts(1,2,3) _ world_demo_facts(4)]) simp

text \<open>When an application starts from the menu the cursor is still drawn: the next window
  draws over it, and the first move of the cursor stamps the old square into the new window.\<close>

theorem app_start_leaves_cursor:
  assumes "poll_nic st = Some st0" "world_ok w h st0" "packet_done st0 b x status d" "b AND 1 \<noteq> 0" "em_bytes em = []"
    and "desktop_step em status d opened st = Some (App k, st1)"
  shows "\<exists>st2 st3 st4. draw (draw_rect 0 0 (sint w) (sint h) c) st1 = Some st2 \<and>
    on_ui (cursor_move_to px py) st2 = Some st3 \<and> on_ui cursor_restore_under st3 = Some st4 \<and>
    look (ui_fb (w_ui st4)) = stamp (block_map (cur_x (w_ui st1)) (cur_y (w_ui st1)) CUR_H (\<lambda>_. CUR_W) (cursor_under (w_ui st1)))
      (paint UNIV c (look (ui_fb (w_ui st1))))"
proof -
  have "world_ok w h st1" "cur_saved (w_ui st1)"
    using desktop_step_click [OF assms(1-5), of opened] assms(6) by auto
  from stale_square [OF this, of c px py] show ?thesis by (auto simp: draw_def on_ui_def)
qed


text \<open>The first entry of the menu on a screen of 300 lines.\<close>

definition fb_tall :: fb where
  "fb_tall = \<lparr>fb_addr = 0xFD000000, fb_width = 100, fb_height = 300, fb_bpp = 32, fb_pitch = 400, fb_mem = replicate 30000 7\<rparr>"

definition world_tall :: world where
  "world_tall = world_demo\<lparr>w_sys := sys_demo\<lparr>sys_ui := ui_demo\<lparr>ui_fb := fb_tall, cur_x := 39, cur_y := 109\<rparr>\<rparr>\<rparr>"

lemma world_tall_facts:
  "poll_nic world_tall = Some (polled world_tall)" "world_ok 100 300 (polled world_tall)" "packet_done (polled world_tall) 9 1 1 d"
  by (rule poll_idle)
    (simp_all add: world_tall_def world_demo_def stack_boot_def net_boot_def packet_done_def ui_ok_def fb_tall_def fb_ok_def stride_def)

lemma app_start_leaves_cursor_witness:
  "\<exists>st1 st2 st3 st4. desktop_step em_demo 1 0 True world_tall = Some (App 1, st1) \<and>
    draw (draw_rect 0 0 (sint (100 :: u32)) (sint (300 :: u32)) 0x87CEEB) st1 = Some st2 \<and>
    on_ui (cursor_move_to 0 0) st2 = Some st3 \<and> on_ui cursor_restore_under st3 = Some st4 \<and>
    look (ui_fb (w_ui st4)) = stamp (block_map (cur_x (w_ui st1)) (cur_y (w_ui st1)) CUR_H (\<lambda>_. CUR_W) (cursor_under (w_ui st1)))
      (paint UNIV 0x87CEEB (look (ui_fb (w_ui st1))))"
proof -
  have b: "(9 :: u8) AND 1 \<noteq> 0" by simp
  have "desk_spec (sint (300 :: u32)) True (clampi (cur_x (w_ui (polled world_tall)) + sint (1 :: u8)) 0 (sint (100 :: u32) - 1))
      (clampi (cur_y (w_ui (polled world_tall)) - sint (0 :: u8)) 0 (sint (300 :: u32) - 1)) = App 1"
    by (simp add: world_tall_def desk_spec_def inside_def clampi_def)
  with desktop_step_click [OF world_tall_facts b world_demo_facts(4), of 0 True]
  obtain st1 where s: "desktop_step em_demo 1 0 True world_tall = Some (App 1, st1)" by auto
  from app_start_leaves_cursor [OF world_tall_facts b world_demo_facts(4) s, of "0x87CEEB" 0 0] s show ?thesis by blast
qed

text \<open>C33: A click on a key of the calculator presses exactly that key, whatever the size of the
  screen; no key clears the expression, as the sixteen keys drawn leave out the seventeenth.\<close>

theorem calculator_click:
  assumes "poll_nic st = Some st0" "world_ok w h st0" "ascii (w_expr st0)" "packet_done st0 b x status d" "b AND 1 \<noteq> 0"
    and "r < 4" "c < 4" "px = clampi (cur_x (w_ui st0) + sint x) 0 (sint w - 1)" "py = clampi (cur_y (w_ui st0) - sint d) 0 (sint h - 1)"
    and "inside px py (fst (key_place st0 r c)) (fst (key_place st0 r c) + BW) (snd (key_place st0 r c)) (snd (key_place st0 r c) + BH)"
  shows "\<exists>st1. calculator_step status d st =
      map_option (\<lambda>e. (False, st1\<lparr>w_expr := e\<rparr>)) (press_key (calc_keys ! (4 * r + c)) (w_expr st0)) \<and>
    world_ok w h st1 \<and> calc_keys ! (4 * r + c) \<noteq> 67"
proof -
  obtain wx wy where win: "calc_window st0 = (wx, wy)" by fastforce
  have "draws w h (draw_all [draw_rect (wx + 12) (wy + 12) (300 - 24) 56 0xFFFFFF, draw_string (wx + 20) (wy + 32) (w_expr st0) 0])"
    by (intro drawing assms(3))
  from draw_total [OF this assms(2)] obtain sd where
    sd: "draw (draw_all [draw_rect (wx + 12) (wy + 12) (300 - 24) 56 0xFFFFFF, draw_string (wx + 20) (wy + 32) (w_expr st0) 0]) st0 = Some sd"
      "world_ok w h sd" "cur_x (w_ui sd) = cur_x (w_ui st0)" "cur_y (w_ui sd) = cur_y (w_ui st0)" "w_expr sd = w_expr st0" by blast
  have "w_mouse sd = w_mouse st0" using sd(1) by (auto simp: draw_def on_ui_def)
  then have "packet_done sd b x status d" using assms(4) by (simp add: packet_done_def)
  from mouse_input_packet [OF sd(2) this] assms(5) sd(3-5) obtain sm where
    m: "mouse_input status d sd = Some (True, sm)" "world_ok w h sm" "w_expr sm = w_expr st0" "cur_x (w_ui sm) = px" "cur_y (w_ui sm) = py"
    by (auto simp: assms(8,9))
  have dims: "scr_w sm = scr_w st0" "scr_h sm = scr_h st0" using m(2) assms(2) by (simp_all add: ui_ok_def fb_ok_def)
  then have key: "key_place sm r c = key_place st0 r c" by (simp add: key_place_def calc_window_def)
  have "hit (fst (key_place sm r c)) (snd (key_place sm r c)) BW BH sm"
    using assms(10) m(4,5) by (simp add: hit_def inside_def key)
  from click_keys_one [OF assms(6,7) this] have click: "click_keys sm = map_option (\<lambda>e. sm\<lparr>w_expr := e\<rparr>) (press_key (calc_keys ! (4 * r + c)) (w_expr st0))"
    by (simp add: m(3))
  have "snd (key_place st0 r c) = wy + 80 + int r * 45" by (simp add: key_place_def win BH_def)
  then have "\<not> hit (wx + 300 - 30) (wy + 10) 20 20 sm"
    using assms(10) m(5) by (simp add: hit_def inside_def)
  then have "calculator_step status d st = click_keys sm \<bind> (\<lambda>w. Some (False, w))"
    using assms(1) win sd(1) m(1) by (simp add: calculator_step_def)
  then have "calculator_step status d st = map_option (\<lambda>e. (False, sm\<lparr>w_expr := e\<rparr>)) (press_key (calc_keys ! (4 * r + c)) (w_expr st0))"
    unfolding click by (cases "press_key (calc_keys ! (4 * r + c)) (w_expr st0)") simp_all
  moreover have "\<forall>k < 16. calc_keys ! k \<noteq> 67" by code_simp
  then have "calc_keys ! (4 * r + c) \<noteq> 67" using assms(6,7) by simp
  ultimately show ?thesis using m(2) by blast
qed

text \<open>The key 7 on a screen of 640 by 480 points.\<close>

definition fb_wide :: fb where
  "fb_wide = \<lparr>fb_addr = 0xFD000000, fb_width = 640, fb_height = 480, fb_bpp = 32, fb_pitch = 2560, fb_mem = replicate 307200 7\<rparr>"

definition world_wide :: world where
  "world_wide = world_demo\<lparr>w_sys := sys_demo\<lparr>sys_ui := ui_demo\<lparr>ui_fb := fb_wide, cur_x := 199, cur_y := 160\<rparr>\<rparr>\<rparr>"

lemma calculator_click_witness:
  "\<exists>st1. calculator_step 1 0 world_wide = map_option (\<lambda>e. (False, st1\<lparr>w_expr := e\<rparr>)) (press_key (calc_keys ! (4 * 0 + 0)) (w_expr (polled world_wide))) \<and>
    world_ok 640 480 st1 \<and> calc_keys ! (4 * 0 + 0) \<noteq> 67"
proof (rule calculator_click)
  show "poll_nic world_wide = Some (polled world_wide)" "world_ok 640 480 (polled world_wide)" "ascii (w_expr (polled world_wide))"
    "packet_done (polled world_wide) 9 1 1 0"
    by (rule poll_idle)
      (simp_all add: world_wide_def world_demo_def stack_boot_def net_boot_def packet_done_def ui_ok_def fb_wide_def fb_ok_def stride_def ascii_def)
  show "inside 200 160 (fst (key_place (polled world_wide) 0 0)) (fst (key_place (polled world_wide) 0 0) + BW) (snd (key_place (polled world_wide) 0 0)) (snd (key_place (polled world_wide) 0 0) + BH)"
    by (simp add: inside_def key_place_def calc_window_def centred_def world_wide_def fb_wide_def BW_def BH_def)
  show "200 = clampi (cur_x (w_ui (polled world_wide)) + sint (1 :: u8)) 0 (sint (640 :: u32) - 1)" "160 = clampi (cur_y (w_ui (polled world_wide)) - sint (0 :: u8)) 0 (sint (480 :: u32) - 1)"
    by (simp_all add: world_wide_def clampi_def)
qed simp_all

end
