(* ===== verification/Windows.thy ===== *)
theory Windows
  imports Desktop
begin

text \<open>
  The browser and the JSON viewer of \<open>src/kernel.c\<close>: fetching a page through the resolver, the
  HTTP client and the HTTPS client, showing it, and the loop over all windows. The resolver
  and the clients poll the whole machine: the parts of the state they do not know are their
  environment. mbedTLS is the parameter \<open>lib\<close>, with its context.
\<close>

section \<open>Polling from the clients\<close>

definition put_net :: "dns \<times> tcp \<times> net \<Rightarrow> world \<Rightarrow> world" where
  "put_net sn w = (case sn of (s, t, n) \<Rightarrow> w\<lparr>w_stack := (w_stack w)\<lparr>st_dns := s, st_tcp := t, st_net := n\<rparr>\<rparr>)"

text \<open>The resolver knows its tables and the network, the clients their connection and the network.\<close>

definition dns_poll :: "dns \<times> net \<times> world \<Rightarrow> (dns \<times> net \<times> world) option" where
  "dns_poll = (\<lambda>(s, n, w). do {
     w \<leftarrow> poll_nic (put_net (s, st_tcp (w_stack w), n) w);
     Some (st_dns (w_stack w), st_net (w_stack w), w) })"

definition client_poll :: "world poll" where
  "client_poll = (\<lambda>(t, n, w). do {
     w \<leftarrow> poll_nic (put_net (st_dns (w_stack w), t, n) w);
     Some (st_tcp (w_stack w), st_net (w_stack w), w) })"

definition resolve :: "cstr \<Rightarrow> world \<Rightarrow> (u32 option \<times> world) option" where
  "resolve host w = do {
     (ip, s, n, w) \<leftarrow> dns_resolve dns_poll host (st_dns (w_stack w), st_net (w_stack w), w);
     Some (ip, put_net (s, st_tcp (w_stack w), n) w)
   }"

definition http_get :: "u32 \<Rightarrow> u16 \<Rightarrow> cstr \<Rightarrow> cstr \<Rightarrow> int \<Rightarrow> world \<Rightarrow> (int \<times> cstr option \<times> world) option" where
  "http_get ip port host_port path cap w = do {
     let (ret, raw_len, state) = w_http w;
     (c, body, hw) \<leftarrow> http_get_by_ip_port client_poll ip port host_port path cap
       \<lparr>http_last_ret = ret, http_last_raw_len = raw_len, http_last_tcp_state = state,
        hw_tcp = st_tcp (w_stack w), hw_net = st_net (w_stack w), hw_env = w\<rparr>;
     Some (c, body, put_net (st_dns (w_stack (hw_env hw)), hw_tcp hw, hw_net hw)
       ((hw_env hw)\<lparr>w_http := (http_last_ret hw, http_last_raw_len hw, http_last_tcp_state hw)\<rparr>))
   }"

definition https_get :: "'m mbedtls \<Rightarrow> 'm \<Rightarrow> u32 \<Rightarrow> cstr \<Rightarrow> cstr \<Rightarrow> int \<Rightarrow> world \<Rightarrow> (int \<times> cstr option \<times> world) option" where
  "https_get lib m ip host path cap w = do {
     (c, out, tw) \<leftarrow> tls_http_get_by_ip lib client_poll ip host path cap
       \<lparr>tw_lib = m, tw_tcp = st_tcp (w_stack w), tw_net = st_net (w_stack w), tw_env = w, tw_lfsr = w_lfsr w, tw_heap = w_heap w\<rparr>;
     Some (c, out, put_net (st_dns (w_stack (tw_env tw)), tw_tcp tw, tw_net tw)
       ((tw_env tw)\<lparr>w_lfsr := tw_lfsr tw, w_heap := tw_heap tw\<rparr>))
   }"

section \<open>Fetching\<close>

text \<open>
  The result: the address (0 if none), the number of bytes and, if it is positive, the body.
  \<open>port_s\<close> is what the buffer for the port held before.
\<close>

definition fetch_http :: "cstr \<Rightarrow> cstr \<Rightarrow> world \<Rightarrow> (u32 \<times> cstr \<times> cstr \<times> int \<times> cstr \<times> world) option" where
  "fetch_http port_s url w =
     (case parse_url url 128 of
        None \<Rightarrow> Some (0, [], [], 0, [], w)
      | Some (host, path, port) \<Rightarrow> do {
          (r, w) \<leftarrow> resolve host w;
          case r of
            None \<Rightarrow> Some (0, host, path, 0, [], w)
          | Some ip \<Rightarrow> do {
              host_port \<leftarrow> host_port_string port_s host port;
              (got, body, w) \<leftarrow> http_get ip port host_port path 8192 w;
              Some (ip, host, path, got, (case body of None \<Rightarrow> [] | Some b \<Rightarrow> b), w)
            }
        })"

definition fetch_page :: "'m mbedtls \<Rightarrow> 'm \<Rightarrow> cstr \<Rightarrow> cstr \<Rightarrow> world \<Rightarrow> (int \<times> cstr \<times> world) option" where
  "fetch_page lib m port_s url w = do {
     (ip, host, path, got, body, w) \<leftarrow> fetch_http port_s url w;
     if got \<le> 0 \<and> ip \<noteq> 0 then do {
       (tgot, out, w) \<leftarrow> https_get lib m ip host path 8192 w;
       if tgot > 0 then Some (tgot, (case out of None \<Rightarrow> [] | Some b \<Rightarrow> takeWhile (\<lambda>c. c \<noteq> 0) b), w)
       else Some (got, body, w)
     }
     else Some (got, body, w)
   }"

section \<open>Windows\<close>

text \<open>Frame, title, close button: what both windows have in common.\<close>

definition win_x :: "world \<Rightarrow> int" where "win_x w = centred (scr_w w) 600"
definition win_y :: "world \<Rightarrow> int" where "win_y w = centred (scr_h w) 400"

definition draw_window :: "cstr \<Rightarrow> world \<Rightarrow> world option" where
  "draw_window title w = (let wx = win_x w; wy = win_y w in
     draw (draw_all
       [draw_rect 0 0 (sint (scr_w w)) (sint (scr_h w)) 0x87CEEB,
        draw_rounded wx wy 600 400 12 0xCCCCCC,
        draw_rect wx wy 600 30 0x1E90FF,
        draw_string (wx + 10) (wy + 8) title 0xFFFFFF,
        draw_rect (wx + 600 - 26) (wy + 5) 20 20 0xFF0000,
        draw_string (wx + 600 - 26 + 5) (wy + 5 + 2) (lit ''X'') 0xFFFFFF]) w)"

definition cursor_here :: "world \<Rightarrow> world option" where
  "cursor_here = on_ui (\<lambda>u. cursor_move_to (cur_x u) (cur_y u) u)"

definition draw_lines :: "int \<Rightarrow> int \<Rightarrow> cstr list \<Rightarrow> fb \<Rightarrow> fb option" where
  "draw_lines x y ls = for_loop (\<lambda>(i, l). draw_string x (y + int i * 10) l 0) (List.enumerate 0 ls)"

definition fetch_failed :: "cstr option" where
  "fetch_failed = snprintf 128 (lit ''Fetch failed! dns_ok=%d, resolved_ip=%u, got=%d'') []"

definition browser_url :: cstr where "browser_url = lit ''http://jsonplaceholder.typicode.com/posts/2''"
definition viewer_url :: cstr where "viewer_url = lit ''http://jsonplaceholder.typicode.com/users/1''"

definition browser_show :: "int \<Rightarrow> int \<Rightarrow> int \<Rightarrow> int \<Rightarrow> cstr \<Rightarrow> fb \<Rightarrow> fb option" where
  "browser_show ct_x ct_y ct_h got body s =
     (if got > 0 then
        let (ls, rest) = page_lines (nat ((ct_h - 16) div 10)) body in do {
          s \<leftarrow> draw_lines (ct_x + 6) (ct_y + 8) ls s;
          if rest \<noteq> [] then draw_string (ct_x + 6) (ct_y + ct_h - 18) (lit ''...(truncated)'') 0x555555 s else Some s
        }
      else do { dbg \<leftarrow> fetch_failed; draw_string (ct_x + 6) (ct_y + 8) dbg 0xFF0000 s })"

definition browser_ui :: "'m mbedtls \<Rightarrow> 'm \<Rightarrow> cstr \<Rightarrow> world \<Rightarrow> world option" where
  "browser_ui lib m port_s w = (let ab_x = win_x w + 10; ab_y = win_y w + 30 + 8; ct_x = win_x w + 10; ct_y = ab_y + 24 + 8;
       ct_w = 600 - 20; ct_h = 400 - (30 + 8 + 24 + 8 + 12) in do {
     w \<leftarrow> draw_window (lit ''TBHCR Browser'') w;
     w \<leftarrow> draw (draw_all
       [draw_rect ab_x ab_y (600 - 20) 24 0xDDDDDD,
        draw_string (ab_x + 6) (ab_y + 5) browser_url 0,
        draw_rect ct_x ct_y ct_w ct_h 0xFFFFFF,
        draw_string (ct_x + 6) (ct_y + 8) (lit ''Fetching...'') 0]) w;
     w \<leftarrow> cursor_here w;
     (got, body, w) \<leftarrow> fetch_page lib m port_s browser_url w;
     w \<leftarrow> draw (draw_all
       [draw_rect ct_x ct_y ct_w ct_h 0xFFFFFF,
        browser_show ct_x ct_y ct_h got body]) w;
     cursor_here w
   })"

definition viewer_show :: "int \<Rightarrow> int \<Rightarrow> int \<Rightarrow> jsmntok list \<Rightarrow> int \<Rightarrow> cstr \<Rightarrow> fb \<Rightarrow> fb option" where
  "viewer_show ct_x ct_y ct_h t got body s =
     (if got > 0 then do {
        v \<leftarrow> json_view body t (nat ((ct_h - 16) div 10));
        case v of
          Inl msg \<Rightarrow> draw_string (ct_x + 6) (ct_y + 8) msg 0xFF0000 s
        | Inr ls \<Rightarrow> draw_lines (ct_x + 6) (ct_y + 8) ls s
      }
      else do { dbg \<leftarrow> fetch_failed; draw_string (ct_x + 6) (ct_y + 8) dbg 0xFF0000 s })"

text \<open>\<open>t\<close> is what the token array held before.\<close>

definition json_viewer_ui :: "jsmntok list \<Rightarrow> cstr \<Rightarrow> world \<Rightarrow> world option" where
  "json_viewer_ui t port_s w = (let ct_x = win_x w + 10; ct_y = win_y w + 30 + 8; ct_w = 600 - 20; ct_h = 400 - (30 + 8 + 12) in do {
     w \<leftarrow> draw_window (lit ''JSON Viewer'') w;
     w \<leftarrow> draw (draw_all
       [draw_rect ct_x ct_y ct_w ct_h 0xFFFFFF,
        draw_string (ct_x + 6) (ct_y + 8) (lit ''Fetching...'') 0]) w;
     w \<leftarrow> cursor_here w;
     (ip, host, path, got, body, w) \<leftarrow> fetch_http port_s viewer_url w;
     w \<leftarrow> draw (draw_all
       [draw_rect ct_x ct_y ct_w ct_h 0xFFFFFF,
        viewer_show ct_x ct_y ct_h t got body]) w;
     cursor_here w
   })"

text \<open>One turn of the loop of either window; the result is whether it closes.\<close>

definition window_step :: "u8 \<Rightarrow> u8 \<Rightarrow> world \<Rightarrow> (bool \<times> world) option" where
  "window_step status d w = do {
     w \<leftarrow> poll_nic w;
     (click, w) \<leftarrow> mouse_input status d w;
     if click \<and> hit (win_x w + 600 - 26) (win_y w + 5) 20 20 w then do { w \<leftarrow> on_ui cursor_restore_under w; Some (True, w) }
     else Some (False, w)
   }"

section \<open>The loop over the windows\<close>

datatype screen_state = Welcome | Desk bool | Calc | Viewing

text \<open>What a window hands to the next: it is set up before its loop runs.\<close>

definition enter_desktop :: "world \<Rightarrow> (screen_state \<times> world) option" where
  "enter_desktop w = do { w \<leftarrow> poll_nic w; w \<leftarrow> desktop_setup w; Some (Desk False, w) }"

definition enter_app :: "'m mbedtls \<Rightarrow> 'm \<Rightarrow> jsmntok list \<Rightarrow> cstr \<Rightarrow> nat \<Rightarrow> world \<Rightarrow> (screen_state \<times> world) option" where
  "enter_app lib m t port_s app w =
     (if app = 1 then do { w \<leftarrow> calculator_setup w; Some (Calc, w) }
      else if app = 2 then do { w \<leftarrow> browser_ui lib m port_s w; Some (Viewing, w) }
      else if app = 3 then do { w \<leftarrow> json_viewer_ui t port_s w; Some (Viewing, w) }
      else enter_desktop w)"

definition kernel_step ::
    "'m mbedtls \<Rightarrow> 'm \<Rightarrow> jsmntok list \<Rightarrow> cstr \<Rightarrow> embedded \<Rightarrow> u8 \<Rightarrow> u8 \<Rightarrow> screen_state \<times> world \<Rightarrow> (screen_state \<times> world) option" where
  "kernel_step lib m t port_s em status d sw =
     (case fst sw of
        Welcome \<Rightarrow> do {
          (fin, w) \<leftarrow> welcome_step status d (snd sw);
          if fin then enter_desktop w else Some (Welcome, w) }
      | Desk start_open \<Rightarrow> do {
          (r, w) \<leftarrow> desktop_step em status d start_open (snd sw);
          case r of Loop start_open' \<Rightarrow> Some (Desk start_open', w) | App k \<Rightarrow> enter_app lib m t port_s k w }
      | Calc \<Rightarrow> do {
          (fin, w) \<leftarrow> calculator_step status d (snd sw);
          if fin then enter_desktop w else Some (Calc, w) }
      | Viewing \<Rightarrow> do {
          (fin, w) \<leftarrow> window_step status d (snd sw);
          if fin then enter_desktop w else Some (Viewing, w) })"

end
