(* ===== verification/Xhci.thy ===== *)
theory Xhci
  imports Kmalloc Pci Endian
begin

text \<open>
  The USB host controller driver \<open>src/usb/xhci.c\<close>: command ring, event ring, slots and
  control transfers. The controller is a parameter \<open>hc\<close>: what its registers read, what a write
  does to it, and what it stores in the event ring and in the buffer of the current transfer
  while the driver waits. \<open>uintptr_t\<close> is 32 bits wide and physical addresses equal virtual
  ones. The lines the driver prints on COM1 are left out, \<open>Ports\<close> shows that printing them
  ends and touches only that port; register reads made for them are kept.
\<close>

section \<open>Controller and state\<close>

datatype loc = Mem u32 | Io u16

record 'h hc =
  hc_read :: "loc \<Rightarrow> 'h \<Rightarrow> u32 \<times> 'h"
  hc_read8 :: "u32 \<Rightarrow> 'h \<Rightarrow> u8 \<times> 'h"
  hc_write :: "loc \<Rightarrow> u32 \<Rightarrow> 'h \<Rightarrow> 'h"
  hc_run :: "'h \<Rightarrow> (nat \<times> u32) list \<times> (nat \<times> u8) list \<times> 'h"

record trb =
  trb_a :: u32
  trb_b :: u32
  trb_c :: u32
  trb_d :: u32

definition zero_trb :: trb where
  "zero_trb = \<lparr>trb_a = 0, trb_b = 0, trb_c = 0, trb_d = 0\<rparr>"

text \<open>A pointer that may be \<open>NULL\<close> is an option with the dwords of its page.\<close>

record 'h xhci =
  x_hw :: 'h
  x_pci :: pci_hw
  x_heap :: u32
  x_mem :: "u32 \<Rightarrow> u8"
  x_setup :: bytes
  x_dma :: bytes
  xhci_hw_enable :: bool
  cmd_ring :: "trb list option"
  cmd_ring_phys :: u32
  cmd_ring_pending :: "u8 list"
  cmd_ring_head :: int
  cmd_ring_cycle :: u32
  cmd_ring_token :: "u32 list"
  cmd_token_counter :: u32
  last_cmd_start :: int
  last_cmd_trb_count :: int
  last_cmd_token :: u32
  g_dcbaa :: "u32 list option"
  g_dcbaa_phys :: u32
  g_dev_ctx :: "u32 list option"
  g_dev_ctx_phys :: u32
  g_slot_enabled :: bool
  ep0_ring :: "u32 list option"
  ep0_ring_phys :: u32
  ep0_rst :: "u32 list option"
  ep0_rst_phys :: u32
  er_buffer :: "u32 list option"
  er_buffer_phys :: u32
  erst :: "u32 list option"
  erst_phys :: u32
  erst_size :: u32
  er_dequeue_idx :: u32
  er_expected_cycle :: u32
  xh_found :: u8
  xh_bus :: u8
  xh_slot :: u8
  xh_func :: u8
  phys_base :: u32
  cap_base :: u32
  op_base :: u32
  caplen :: u8
  num_ports :: u8
  cap_is_io :: bool

text \<open>The state at boot: what the static variables are initialized with.\<close>

definition xhci_boot :: "pci_hw \<Rightarrow> (u32 \<Rightarrow> u8) \<Rightarrow> u32 \<Rightarrow> 'h \<Rightarrow> 'h xhci" where
  "xhci_boot pci mem heap h =
     \<lparr>x_hw = h, x_pci = pci, x_heap = heap, x_mem = mem, x_setup = [], x_dma = [], xhci_hw_enable = True,
      cmd_ring = None, cmd_ring_phys = 0, cmd_ring_pending = replicate 256 0, cmd_ring_head = 0, cmd_ring_cycle = 1,
      cmd_ring_token = replicate 256 0, cmd_token_counter = 0, last_cmd_start = -1, last_cmd_trb_count = 0,
      last_cmd_token = 0, g_dcbaa = None, g_dcbaa_phys = 0, g_dev_ctx = None, g_dev_ctx_phys = 0,
      g_slot_enabled = False, ep0_ring = None, ep0_ring_phys = 0, ep0_rst = None, ep0_rst_phys = 0,
      er_buffer = None, er_buffer_phys = 0, erst = None, erst_phys = 0, erst_size = 0, er_dequeue_idx = 0,
      er_expected_cycle = 1, xh_found = 0, xh_bus = 0, xh_slot = 0, xh_func = 0, phys_base = 0, cap_base = 0,
      op_base = 0, caplen = 0, num_ports = 0, cap_is_io = False\<rparr>"

definition lo32 :: "u64 \<Rightarrow> u32" where "lo32 v = ucast (v AND 0xFFFFFFFF)"
definition hi32 :: "u64 \<Rightarrow> u32" where "hi32 v = ucast (drop_bit 32 v AND 0xFFFFFFFF)"

section \<open>Registers\<close>

definition cap_loc :: "u32 \<Rightarrow> 'h xhci \<Rightarrow> loc" where
  "cap_loc off x = (if cap_is_io x then Io (ucast (phys_base x + off)) else Mem (cap_base x + off))"

definition op_loc :: "u32 \<Rightarrow> 'h xhci \<Rightarrow> loc" where
  "op_loc off x = (if cap_is_io x then Io (ucast (phys_base x + ucast (caplen x) + off)) else Mem (op_base x + off))"

definition xhci_cap_read32 :: "'h hc \<Rightarrow> u32 \<Rightarrow> 'h xhci \<Rightarrow> u32 \<times> 'h xhci" where
  "xhci_cap_read32 hc off x = (let (v, h) = hc_read hc (cap_loc off x) (x_hw x) in (v, x\<lparr>x_hw := h\<rparr>))"

definition xhci_op_read32 :: "'h hc \<Rightarrow> u32 \<Rightarrow> 'h xhci \<Rightarrow> u32 \<times> 'h xhci" where
  "xhci_op_read32 hc off x = (let (v, h) = hc_read hc (op_loc off x) (x_hw x) in (v, x\<lparr>x_hw := h\<rparr>))"

definition xhci_op_write32 :: "'h hc \<Rightarrow> u32 \<Rightarrow> u32 \<Rightarrow> 'h xhci \<Rightarrow> 'h xhci" where
  "xhci_op_write32 hc off v x = x\<lparr>x_hw := hc_write hc (op_loc off x) v (x_hw x)\<rparr>"

definition xhci_op_write64 :: "'h hc \<Rightarrow> u32 \<Rightarrow> u64 \<Rightarrow> 'h xhci \<Rightarrow> 'h xhci" where
  "xhci_op_write64 hc off_lo v x = xhci_op_write32 hc (off_lo + 4) (hi32 v) (xhci_op_write32 hc off_lo (lo32 v) x)"

text \<open>A read whose value is only printed.\<close>

definition peek :: "'h hc \<Rightarrow> u32 \<Rightarrow> 'h xhci \<Rightarrow> 'h xhci" where
  "peek hc off x = snd (xhci_op_read32 hc off x)"

text \<open>An empty loop: the controller runs.\<close>

definition dma_stores :: "(nat \<times> 'a) list \<Rightarrow> 'a list \<Rightarrow> 'a list" where
  "dma_stores ws xs = fold (\<lambda>(i, v) ys. ys[i := v]) ws xs"

definition x_delay :: "'h hc \<Rightarrow> 'h xhci \<Rightarrow> 'h xhci" where
  "x_delay hc x = (let (ws, ds, h) = hc_run hc (x_hw x) in
     x\<lparr>x_hw := h, er_buffer := map_option (dma_stores ws) (er_buffer x), x_dma := dma_stores ds (x_dma x)\<rparr>)"

definition xhci_ring_doorbell :: "'h hc \<Rightarrow> u32 \<Rightarrow> u32 \<Rightarrow> 'h xhci \<Rightarrow> 'h xhci" where
  "xhci_ring_doorbell hc db_index v x = xhci_op_write32 hc (0x1000 + db_index * 4) v x"

section \<open>Command ring\<close>

definition XHCI_TRB_TYPE_SETUP_STAGE :: u32 where "XHCI_TRB_TYPE_SETUP_STAGE = 2"
definition XHCI_TRB_TYPE_DATA_STAGE :: u32 where "XHCI_TRB_TYPE_DATA_STAGE = 1"
definition XHCI_TRB_TYPE_STATUS_STAGE :: u32 where "XHCI_TRB_TYPE_STATUS_STAGE = 3"
definition XHCI_TRB_TYPE_ENABLE_SLOT_CMD :: u32 where "XHCI_TRB_TYPE_ENABLE_SLOT_CMD = 9"

definition xhci_cmd_mark_pending :: "int \<Rightarrow> 'h xhci \<Rightarrow> 'h xhci" where
  "xhci_cmd_mark_pending idx x =
     (if idx < 0 \<or> 256 \<le> idx then x else x\<lparr>cmd_ring_pending := (cmd_ring_pending x)[nat idx := 1]\<rparr>)"

definition xhci_init_command_ring :: "'h xhci \<Rightarrow> int \<times> 'h xhci" where
  "xhci_init_command_ring x =
     (if cmd_ring x \<noteq> None then (0, x)
      else let (p, h) = kmalloc (256 * 16) (x_heap x); x = x\<lparr>x_heap := h\<rparr> in
        if p = 0 then (-1, x)
        else (0, x\<lparr>cmd_ring := Some (replicate 256 zero_trb), cmd_ring_phys := p,
          cmd_ring_pending := replicate 256 0, cmd_ring_token := replicate 256 0,
          cmd_ring_head := 0, cmd_ring_cycle := 1\<rparr>))"

text \<open>An index outside the ring is undefined behaviour.\<close>

definition put_trb :: "int \<Rightarrow> trb \<Rightarrow> 'h xhci \<Rightarrow> 'h xhci option" where
  "put_trb i t x = (case cmd_ring x of None \<Rightarrow> None
     | Some r \<Rightarrow> if 0 \<le> i \<and> i < int (length r) then Some (x\<lparr>cmd_ring := Some (r[nat i := t])\<rparr>) else None)"

definition setup_trb :: "u32 \<Rightarrow> u32 \<Rightarrow> trb" where
  "setup_trb phys len = \<lparr>trb_a = lo32 (ucast phys), trb_b = hi32 (ucast phys), trb_c = len,
     trb_d = push_bit 10 XHCI_TRB_TYPE_SETUP_STAGE\<rparr>"

definition data_trb :: "u32 \<Rightarrow> u32 \<Rightarrow> bool \<Rightarrow> trb" where
  "data_trb phys len dir_in = \<lparr>trb_a = lo32 (ucast phys), trb_b = hi32 (ucast phys), trb_c = len,
     trb_d = push_bit 10 XHCI_TRB_TYPE_DATA_STAGE OR (if dir_in then push_bit 1 1 else 0)\<rparr>"

definition status_trb :: trb where
  "status_trb = \<lparr>trb_a = 0, trb_b = 0, trb_c = 0, trb_d = push_bit 10 XHCI_TRB_TYPE_STATUS_STAGE\<rparr>"

text \<open>The builders of single entries do nothing without a ring.\<close>

definition if_ring :: "('h xhci \<Rightarrow> 'h xhci option) \<Rightarrow> 'h xhci \<Rightarrow> 'h xhci option" where
  "if_ring f x = (if cmd_ring x = None then Some x else f x)"

definition xhci_build_setup_trb :: "int \<Rightarrow> u32 \<Rightarrow> u32 \<Rightarrow> 'h xhci \<Rightarrow> 'h xhci option" where
  "xhci_build_setup_trb idx buf_phys len = if_ring (put_trb idx (setup_trb buf_phys len))"

definition xhci_build_data_trb :: "int \<Rightarrow> u32 \<Rightarrow> u32 \<Rightarrow> bool \<Rightarrow> 'h xhci \<Rightarrow> 'h xhci option" where
  "xhci_build_data_trb idx buf_phys len dir_in = if_ring (put_trb idx (data_trb buf_phys len dir_in))"

definition xhci_build_status_trb :: "int \<Rightarrow> 'h xhci \<Rightarrow> 'h xhci option" where
  "xhci_build_status_trb idx = if_ring (put_trb idx status_trb)"

definition xhci_build_command_trb :: "int \<Rightarrow> u32 \<Rightarrow> u32 \<Rightarrow> u32 \<Rightarrow> 'h xhci \<Rightarrow> 'h xhci option" where
  "xhci_build_command_trb idx ty param_lo param_hi =
     if_ring (put_trb idx \<lparr>trb_a = param_lo, trb_b = param_hi, trb_c = 0, trb_d = push_bit 10 ty\<rparr>)"

text \<open>
  Staging a control transfer at the head of the ring. \<open>data\<close> says whether there is a buffer; the
  result is the number of entries, and -1 without a ring.
\<close>

definition ring_next :: "int \<Rightarrow> int" where
  "ring_next idx = (if idx + 1 \<ge> 256 then 0 else idx + 1)"

definition xhci_prepare_control_transfer ::
    "u32 \<Rightarrow> bool \<Rightarrow> u32 \<Rightarrow> int \<Rightarrow> bool \<Rightarrow> 'h xhci \<Rightarrow> (int \<times> 'h xhci) option" where
  "xhci_prepare_control_transfer setup_phys data data_phys data_len dir_in x =
     (let (r, x) = (if cmd_ring x = None then xhci_init_command_ring x else (0, x)) in
      if r < 0 then Some (-1, x)
      else let start = cmd_ring_head x in do {
        x \<leftarrow> put_trb start (setup_trb setup_phys 8) x;
        let idx = ring_next start;
        (trbs, x) \<leftarrow>
          (if data \<and> data_len > 0 then do {
             x \<leftarrow> put_trb idx (data_trb data_phys (word_of_int data_len) dir_in) x;
             x \<leftarrow> put_trb (ring_next idx) status_trb x;
             Some (3, x)
           }
           else do { x \<leftarrow> put_trb idx status_trb x; Some (2, x) });
        Some (trbs, x\<lparr>last_cmd_start := start, last_cmd_trb_count := trbs\<rparr>)
      })"

text \<open>Handing the staged entries over: token, cycle bit, pending mark.\<close>

definition finish_trb :: "u32 \<Rightarrow> int \<Rightarrow> 'h xhci \<Rightarrow> 'h xhci option" where
  "finish_trb token i x =
     (let dst = (if last_cmd_start x + i \<ge> 256 then last_cmd_start x + i - 256 else last_cmd_start x + i) in
      case cmd_ring x of None \<Rightarrow> None
      | Some r \<Rightarrow>
        if \<not> (0 \<le> dst \<and> dst < int (length r) \<and> dst < int (length (cmd_ring_token x))) then None
        else let t = r ! nat dst;
                 d = (if cmd_ring_cycle x AND 1 \<noteq> 0 then trb_d t OR 1 else trb_d t AND NOT 1)
          in Some (xhci_cmd_mark_pending dst
            (x\<lparr>cmd_ring := Some (r[nat dst := t\<lparr>trb_a := token, trb_d := d\<rparr>]),
              cmd_ring_token := (cmd_ring_token x)[nat dst := token]\<rparr>)))"

definition finish_trbs :: "'h xhci \<Rightarrow> 'h xhci option" where
  "finish_trbs x =
     (let token = cmd_token_counter x + 1; n = last_cmd_trb_count x in do {
        x \<leftarrow> for_loop (\<lambda>i. finish_trb token (int i)) [0..<nat n] (x\<lparr>cmd_token_counter := token\<rparr>);
        let head = cmd_ring_head x + n;
        let x = (if head \<ge> 256 then x\<lparr>cmd_ring_head := head - 256, cmd_ring_cycle := cmd_ring_cycle x XOR 1\<rparr>
                 else x\<lparr>cmd_ring_head := head\<rparr>);
        Some (x\<lparr>last_cmd_token := token\<rparr>)
      })"

section \<open>Event ring\<close>

definition xhci_init_event_ring :: "'h xhci \<Rightarrow> int \<times> 'h xhci" where
  "xhci_init_event_ring x =
     (if er_buffer x \<noteq> None then (0, x)
      else let (p, h) = kmalloc 4096 (x_heap x); x = x\<lparr>x_heap := h\<rparr> in
        if p = 0 then (-1, x)
        else let x = x\<lparr>er_buffer := Some (replicate 1024 0), er_buffer_phys := p\<rparr>;
                 (s, h) = kmalloc 4096 (x_heap x); x = x\<lparr>x_heap := h\<rparr> in
          if s = 0 then (-1, x)
          else (0, x\<lparr>erst := Some ((replicate 1024 0)[0 := lo32 (ucast p), 1 := hi32 (ucast p), 2 := 4096 div 16]),
            erst_phys := s, erst_size := 1, er_dequeue_idx := 0, er_expected_cycle := 1\<rparr>))"

definition erdp :: "'h xhci \<Rightarrow> u64" where
  "erdp x = ucast (er_buffer_phys x) + ucast (er_dequeue_idx x) * 16"

definition erdp_low :: "'h xhci \<Rightarrow> u32" where
  "erdp_low x = lo32 (erdp x) OR (er_expected_cycle x AND 1)"

text \<open>One candidate base of the sweep: write, let the controller run, read back.\<close>

definition try_base :: "'h hc \<Rightarrow> u32 \<Rightarrow> 'h xhci \<Rightarrow> bool \<times> 'h xhci" where
  "try_base hc B x =
     (let wr = xhci_op_write32 hc; rd = xhci_op_read32 hc;
          x = wr (B + 0x00) (lo32 (ucast (erst_phys x))) x;
          x = wr (B + 0x04) (hi32 (ucast (erst_phys x))) x;
          x = wr (B + 0x08) (erst_size x) x;
          x = x_delay hc x;
          x = wr (B + 0x10) (lo32 (erdp x) AND NOT 1) x;
          x = wr (B + 0x14) (hi32 (erdp x)) x;
          x = x_delay hc x;
          (erst_lo_rb, x) = rd (B + 0x00) x;
          x = peek hc (B + 0x08) (peek hc (B + 0x04) x);
          (erdp_lo_rb, x) = rd (B + 0x10) x;
          x = peek hc 0x04 (peek hc (B + 0x14) x)
      in (erst_lo_rb = lo32 (ucast (erst_phys x)) \<or> erdp_lo_rb = lo32 (erdp x) \<or> erdp_lo_rb \<noteq> 0, x))"

definition enable_base :: "'h hc \<Rightarrow> u32 \<Rightarrow> 'h xhci \<Rightarrow> 'h xhci" where
  "enable_base hc B x =
     (let wr = xhci_op_write32 hc;
          x = x_delay hc (wr (B + 0x04) 0x100 x);
          x = wr (B + 0x00) 1 x;
          x = peek hc (B + 0x04) (peek hc (B + 0x00) x);
          x = wr (B + 0x10) (erdp_low x) x
      in peek hc 0x04 (peek hc (B + 0x14) (peek hc (B + 0x10) x)))"

definition fallback_base :: "'h hc \<Rightarrow> 'h xhci \<Rightarrow> 'h xhci" where
  "fallback_base hc x =
     (let wr = xhci_op_write32 hc;
          x = wr 0x20 (lo32 (ucast (erst_phys x))) x;
          x = wr 0x24 (hi32 (ucast (erst_phys x))) x;
          x = x_delay hc (wr 0x28 (erst_size x) x);
          x = wr 0x30 (lo32 (erdp x) AND NOT 1) x;
          x = x_delay hc (wr 0x34 (hi32 (erdp x)) x);
          x = peek hc 0x04 (peek hc 0x34 (peek hc 0x30 x))
      in wr 0x30 (erdp_low x) x)"

text \<open>The sweep takes the first base that seems to reflect the writes.\<close>

fun er_sweep :: "'h hc \<Rightarrow> u32 list \<Rightarrow> 'h xhci \<Rightarrow> 'h xhci" where
  "er_sweep hc [] x = fallback_base hc x"
| "er_sweep hc (B # Bs) x = (let (ok, x) = try_base hc B x in if ok then enable_base hc B x else er_sweep hc Bs x)"

definition sweep_bases :: "u32 list" where
  "sweep_bases = map (\<lambda>k. 0x20 + 8 * word_of_nat k) [0..<122]"

definition probe_erdp :: "'h hc \<Rightarrow> u32 \<Rightarrow> 'h xhci \<Rightarrow> 'h xhci" where
  "probe_erdp hc off x =
     (let wr = xhci_op_write32 hc;
          x = wr off (lo32 (erdp x) AND NOT 1) x;
          x = x_delay hc (wr (off + 4) (hi32 (erdp x)) x);
          x = peek hc (off + 4) (peek hc off x);
          x = x_delay hc (wr off (erdp_low x) x)
      in peek hc (off + 4) (peek hc off x))"

definition xhci_program_event_ring :: "'h hc \<Rightarrow> 'h xhci \<Rightarrow> int \<times> 'h xhci" where
  "xhci_program_event_ring hc x =
     (if er_buffer x = None \<or> erst x = None then (-1, x)
      else let x = fold (\<lambda>k. peek hc (4 * word_of_nat k)) [0..<256] x;
               x = er_sweep hc sweep_bases x
        in (0, probe_erdp hc 0x38 (probe_erdp hc 0x30 x)))"

text \<open>The event at the dequeue position, if there is one: type word, status word, address.\<close>

definition er_load :: "'h xhci \<Rightarrow> (u32 \<times> u32 \<times> u32 \<times> u32) option option" where
  "er_load x = do {
     buf \<leftarrow> er_buffer x;
     dw3 \<leftarrow> ld8 buf (unat (er_dequeue_idx x * 4 + 3));
     if dw3 \<noteq> 0 \<and> dw3 AND 1 = er_expected_cycle x AND 1 then do {
       dw2 \<leftarrow> ld8 buf (unat (er_dequeue_idx x * 4 + 2));
       dw1 \<leftarrow> ld8 buf (unat (er_dequeue_idx x * 4 + 1));
       dw0 \<leftarrow> ld8 buf (unat (er_dequeue_idx x * 4));
       Some (Some (dw0, dw1, dw2, dw3))
     }
     else Some None
   }"

definition er_consume :: "'h hc \<Rightarrow> 'h xhci \<Rightarrow> 'h xhci option" where
  "er_consume hc x = do {
     buf \<leftarrow> er_buffer x;
     let i = unat (er_dequeue_idx x * 4);
     buf \<leftarrow> blit buf i [0, 0, 0, 0];
     let x = x\<lparr>er_buffer := Some buf, er_dequeue_idx := er_dequeue_idx x + 1\<rparr>;
     let x = (if er_dequeue_idx x \<ge> 256 then x\<lparr>er_dequeue_idx := 0, er_expected_cycle := er_expected_cycle x XOR 1\<rparr> else x);
     Some (xhci_op_write32 hc 0x34 (hi32 (erdp x)) (xhci_op_write32 hc 0x30 (erdp_low x) x))
   }"

text \<open>
  Waiting for any event: \<open>n\<close> is the number of turns of the loop. The buffers are those of the
  caller; for an IN transfer the bytes the controller stored are copied.
\<close>

definition copy_in :: "bool \<Rightarrow> bytes option \<Rightarrow> int \<Rightarrow> bool \<Rightarrow> u32 \<Rightarrow> 'h xhci \<Rightarrow> bytes option option" where
  "copy_in data user_buf data_len dir_in dw2 x =
     (case user_buf of
        None \<Rightarrow> Some None
      | Some u \<Rightarrow>
        if data \<and> data_len > 0 \<and> dir_in then
          let a = dw2 AND 0xFFFF;
              a = (if a = 0 then word_of_int data_len else a);
              a = (if a > word_of_int data_len then word_of_int data_len else a)
          in do { src \<leftarrow> rdn (x_dma x) (int (unat a)); u \<leftarrow> blit u 0 src; Some (Some u) }
        else Some (Some u))"

fun poll_loop :: "'h hc \<Rightarrow> nat \<Rightarrow> bool \<Rightarrow> bytes option \<Rightarrow> int \<Rightarrow> bool \<Rightarrow> 'h xhci \<Rightarrow> (int \<times> bytes option \<times> 'h xhci) option" where
  "poll_loop hc 0 data user_buf data_len dir_in x = Some (-1, user_buf, x)"
| "poll_loop hc (Suc n) data user_buf data_len dir_in x = do {
     ev \<leftarrow> er_load x;
     case ev of
       Some (dw0, dw1, dw2, dw3) \<Rightarrow> do {
         u \<leftarrow> copy_in data user_buf data_len dir_in dw2 x;
         x \<leftarrow> er_consume hc x;
         Some (0, u, x) }
     | None \<Rightarrow> poll_loop hc n data user_buf data_len dir_in (x_delay hc x)
   }"

definition xhci_poll_event_ring ::
    "'h hc \<Rightarrow> int \<Rightarrow> bool \<Rightarrow> bytes option \<Rightarrow> int \<Rightarrow> bool \<Rightarrow> 'h xhci \<Rightarrow> (int \<times> bytes option \<times> 'h xhci) option" where
  "xhci_poll_event_ring hc timeout_ms data user_buf data_len dir_in x =
     (if er_buffer x = None then Some (-1, user_buf, x)
      else poll_loop hc (nat (timeout_ms * 1000 div 10)) data user_buf data_len dir_in x)"

text \<open>Which command an event completes: by the address of its entry, else by its token.\<close>

definition match_index :: "u32 \<Rightarrow> u32 \<Rightarrow> 'h xhci \<Rightarrow> nat option" where
  "match_index dw0 dw1 x =
     (let cmd_ptr = push_bit 32 (ucast dw1 :: u64) OR ucast dw0; start = ucast (cmd_ring_phys x) in
      if cmd_ptr \<noteq> 0 \<and> cmd_ring_phys x \<noteq> 0 \<and> start \<le> cmd_ptr \<and> cmd_ptr < start + 256 * 16
      then Some (unat ((cmd_ptr - start) div 16)) else None)"

definition match_token :: "u32 \<Rightarrow> 'h xhci \<Rightarrow> nat option" where
  "match_token dw0 x = (if dw0 = 0 then None else find (\<lambda>ti. cmd_ring_token x ! ti = dw0) [0..<256])"

definition complete_command :: "u32 \<Rightarrow> u32 \<Rightarrow> 'h xhci \<Rightarrow> 'h xhci" where
  "complete_command dw0 dw1 x =
     (case match_index dw0 dw1 x of
        Some i \<Rightarrow> if i < 256 then x\<lparr>cmd_ring_pending := (cmd_ring_pending x)[i := 0]\<rparr> else x
      | None \<Rightarrow> (case match_token dw0 x of
          Some i \<Rightarrow> x\<lparr>cmd_ring_pending := (cmd_ring_pending x)[i := 0], cmd_ring_token := (cmd_ring_token x)[i := 0]\<rparr>
        | None \<Rightarrow> x))"

text \<open>Waiting for the completion of a command; other events are skipped. The code is the second component.\<close>

fun wait_loop :: "'h hc \<Rightarrow> nat \<Rightarrow> 'h xhci \<Rightarrow> (int \<times> u32 option \<times> 'h xhci) option" where
  "wait_loop hc 0 x = Some (-1, None, x)"
| "wait_loop hc (Suc n) x = do {
     ev \<leftarrow> er_load x;
     case ev of
       Some (dw0, dw1, dw2, dw3) \<Rightarrow>
         let trb_type = drop_bit 10 dw3 AND 0x3F in
         if trb_type = 0x21 \<or> trb_type = 0x20 then do {
           x \<leftarrow> er_consume hc (complete_command dw0 dw1 x);
           Some (0, Some (drop_bit 24 dw2 AND 0xFF), x) }
         else do { x \<leftarrow> er_consume hc x; wait_loop hc n (x_delay hc x) }
     | None \<Rightarrow> wait_loop hc n (x_delay hc x)
   }"

definition xhci_wait_for_command_completion :: "'h hc \<Rightarrow> int \<Rightarrow> 'h xhci \<Rightarrow> (int \<times> u32 option \<times> 'h xhci) option" where
  "xhci_wait_for_command_completion hc timeout_ms x =
     (if er_buffer x = None then Some (-1, None, x) else wait_loop hc (nat (timeout_ms * 1000 div 10)) x)"

section \<open>Slots\<close>

text \<open>The attempts to see the completion of the Enable Slot command; \<open>None\<close> if all time out.\<close>

fun slot_attempts :: "'h hc \<Rightarrow> nat \<Rightarrow> 'h xhci \<Rightarrow> (int option \<times> 'h xhci) option" where
  "slot_attempts hc 0 x = Some (None, x)"
| "slot_attempts hc (Suc a) x = do {
     (r, code, x) \<leftarrow> xhci_wait_for_command_completion hc 2000 x;
     if r = 0 then Some (Some (if code = Some 0 then 0 else -1), x)
     else slot_attempts hc a (x_delay hc x)
   }"

definition start_controller :: "'h hc \<Rightarrow> 'h xhci \<Rightarrow> 'h xhci" where
  "start_controller hc x = (let (usbcmd, x) = xhci_op_read32 hc 0 x in xhci_op_write32 hc 0 (usbcmd OR 1) x)"

text \<open>The other sequence tried after that: the pointer first, the flag later.\<close>

definition enable_slot_retry :: "'h hc \<Rightarrow> 'h xhci \<Rightarrow> (int \<times> 'h xhci) option" where
  "enable_slot_retry hc x =
     (let crcr = cmd_ring_phys x;
          x = xhci_op_write32 hc 0x18 (lo32 (ucast crcr)) x;
          x = x_delay hc (xhci_op_write32 hc 0x1C (hi32 (ucast crcr)) x);
          (crcr_lo_now, x) = xhci_op_read32 hc 0x18 x;
          x = xhci_op_write32 hc 0x18 (crcr_lo_now OR 1) x;
          x = xhci_ring_doorbell hc 0 0 x
      in do {
        (r2, code, x) \<leftarrow> xhci_wait_for_command_completion hc 2000 x;
        Some (if r2 = 0 then 0 else -1, x)
      })"

text \<open>Running the command once its entry is written.\<close>

definition run_enable_slot :: "'h hc \<Rightarrow> 'h xhci \<Rightarrow> (int \<times> 'h xhci) option" where
  "run_enable_slot hc x =
     (let x = start_controller hc x;
          x = snd (xhci_init_event_ring x);
          x = snd (xhci_program_event_ring hc x);
          crcr = cmd_ring_phys x in
      if crcr = 0 then Some (-1, x)
      else let x = xhci_op_write64 hc 0x18 (ucast crcr OR 1) x;
               x = peek hc 0x04 (peek hc 0x1C (peek hc 0x18 x));
               x = xhci_ring_doorbell hc 0 0 (x_delay hc x)
        in do {
          (res, x) \<leftarrow> slot_attempts hc 3 x;
          case res of Some r \<Rightarrow> Some (r, x) | None \<Rightarrow> enable_slot_retry hc x
        })"

definition xhci_send_enable_slot :: "'h hc \<Rightarrow> 'h xhci \<Rightarrow> (int \<times> 'h xhci) option" where
  "xhci_send_enable_slot hc x =
     (if \<not> xhci_hw_enable x then Some (0, x)
      else let (r, x) = (if cmd_ring x = None then xhci_init_command_ring x else (0, x)) in
        if r < 0 then Some (-1, x)
        else do {
          x \<leftarrow> xhci_build_command_trb 0 XHCI_TRB_TYPE_ENABLE_SLOT_CMD 0 0 x;
          ring \<leftarrow> cmd_ring x;
          t \<leftarrow> ld8 ring 0;
          x \<leftarrow> put_trb 0 (t\<lparr>trb_d := trb_d t OR 1\<rparr>) x;
          run_enable_slot hc x
        })"

definition ep0_alloc :: "'h xhci \<Rightarrow> 'h xhci" where
  "ep0_alloc x =
     (if ep0_ring x \<noteq> None then x
      else let (p, h) = kmalloc 4096 (x_heap x); x = x\<lparr>x_heap := h\<rparr> in
        if p = 0 then x else x\<lparr>ep0_ring := Some ((replicate 1024 0)[3 := 1]), ep0_ring_phys := p\<rparr>)"

definition ep0_rst_alloc :: "'h xhci \<Rightarrow> 'h xhci" where
  "ep0_rst_alloc x =
     (if ep0_rst x \<noteq> None then x
      else let (p, h) = kmalloc 4096 (x_heap x); x = x\<lparr>x_heap := h\<rparr> in
        if p = 0 then x
        else x\<lparr>ep0_rst := Some ((replicate 1024 0)[0 := lo32 (ucast (ep0_ring_phys x)), 1 := hi32 (ucast (ep0_ring_phys x))]),
          ep0_rst_phys := p\<rparr>)"

text \<open>A store of 64 bits at a byte offset of the page.\<close>

definition put64 :: "nat \<Rightarrow> u32 \<Rightarrow> u32 list \<Rightarrow> u32 list" where
  "put64 off v pg = pg[off div 4 := lo32 (ucast v), off div 4 + 1 := hi32 (ucast v)]"

definition dev_ctx_fill :: "'h xhci \<Rightarrow> u32 list \<Rightarrow> u32 list" where
  "dev_ctx_fill x pg =
     (let ec = 0x20;
          pg = (if ep0_rst_phys x = 0 then pg
                else (put64 (ec + 0x28) (ep0_rst_phys x) (put64 (ec + 0x20) (ep0_rst_phys x) pg))[(ec + 0x30) div 4 := 1]);
          pg = put64 (ec + 0x18) (ep0_ring_phys x) (put64 (ec + 0x10) (ep0_ring_phys x) (put64 (ec + 0x08) (ep0_ring_phys x) pg))
      in pg[(ec + 0x04) div 4 := (pg ! ((ec + 0x04) div 4) AND 0xFFFF0000) OR 64])"

definition xhci_init_device_context :: "'h xhci \<Rightarrow> int \<times> 'h xhci" where
  "xhci_init_device_context x =
     (if g_dev_ctx x = None then (-1, x)
      else let x = ep0_alloc (ep0_alloc (x\<lparr>g_dev_ctx := Some ((replicate 1024 0)[0 := 1])\<rparr>)) in
        if ep0_ring_phys x = 0 then (0, x)
        else let x = ep0_rst_alloc x in (0, x\<lparr>g_dev_ctx := map_option (dev_ctx_fill x) (g_dev_ctx x)\<rparr>))"

section \<open>Submission\<close>

text \<open>Without hardware access the staged entries are only marked.\<close>

definition mark_staged :: "'h xhci \<Rightarrow> 'h xhci" where
  "mark_staged x =
     (if last_cmd_start x \<ge> 0 then
        fold (\<lambda>i x. let dst = last_cmd_start x + int i in xhci_cmd_mark_pending (if dst \<ge> 256 then dst - 256 else dst) x)
          [0..<nat (last_cmd_trb_count x)] x
      else x)"

text \<open>The context array, the device context (a new page each time) and its entry 1.\<close>

definition alloc_contexts :: "'h xhci \<Rightarrow> int \<times> 'h xhci" where
  "alloc_contexts x =
     (let (r, x) = (if g_dcbaa x \<noteq> None then (0 :: int, x)
            else let (p, h) = kmalloc 4096 (x_heap x); x = x\<lparr>x_heap := h\<rparr> in
              if p = 0 then (-1, x) else (0, x\<lparr>g_dcbaa := Some (replicate 1024 0), g_dcbaa_phys := p\<rparr>)) in
      if r < 0 then (-1, x)
      else let (p, h) = kmalloc 4096 (x_heap x); x = x\<lparr>x_heap := h\<rparr> in
        if p = 0 then (-1, x\<lparr>g_dev_ctx := None\<rparr>)
        else (0, x\<lparr>g_dev_ctx := Some (replicate 1024 0), g_dev_ctx_phys := p,
          g_dcbaa := map_option (\<lambda>d. d[1 := p]) (g_dcbaa x)\<rparr>))"

definition try_enable_slot :: "'h hc \<Rightarrow> 'h xhci \<Rightarrow> 'h xhci option" where
  "try_enable_slot hc x =
     (if g_slot_enabled x then Some x
      else do {
        (r, x) \<leftarrow> xhci_send_enable_slot hc x;
        if r = 0 then let (r, x) = xhci_init_device_context x in
          Some (if r = 0 then x\<lparr>g_slot_enabled := True\<rparr> else x)
        else Some x
      })"

text \<open>Publishing the command ring at the first staged entry and waiting for an event.\<close>

definition publish_and_wait ::
    "'h hc \<Rightarrow> bytes option \<Rightarrow> bool \<Rightarrow> int \<Rightarrow> bool \<Rightarrow> 'h xhci \<Rightarrow> (bytes option \<times> 'h xhci) option" where
  "publish_and_wait hc user_buf data data_len dir_in x =
     (let crcr = ucast (cmd_ring_phys x) + word_of_int (last_cmd_start x) * 16 :: u64;
          x = xhci_op_write32 hc 0x1C (hi32 crcr) (xhci_op_write32 hc 0x18 (lo32 crcr) x);
          x = peek hc 0x04 (peek hc 0x1C (peek hc 0x18 x));
          x = xhci_ring_doorbell hc 0 0 (x_delay hc x);
          x = peek hc 0x04 (peek hc 0x1C (peek hc 0x18 x))
      in do {
        (r, u, x) \<leftarrow> xhci_poll_event_ring hc 500 data user_buf data_len dir_in x;
        Some (u, x)
      })"

definition xhci_submit_command_ring ::
    "'h hc \<Rightarrow> bytes option \<Rightarrow> bool \<Rightarrow> int \<Rightarrow> bool \<Rightarrow> 'h xhci \<Rightarrow> (int \<times> bytes option \<times> 'h xhci) option" where
  "xhci_submit_command_ring hc user_buf data data_len dir_in x =
     (if \<not> xhci_hw_enable x then Some (0, user_buf, mark_staged x)
      else let (r, x) = alloc_contexts x in
        if r < 0 then Some (-1, user_buf, x)
        else do {
          x \<leftarrow> try_enable_slot hc x;
          let x = xhci_op_write32 hc 0x30 (lo32 (ucast (g_dcbaa_phys x))) x;
          let x = xhci_op_write32 hc 0x34 (hi32 (ucast (g_dcbaa_phys x))) x;
          if cmd_ring x = None then Some (-1, user_buf, x)
          else if last_cmd_start x < 0 \<or> last_cmd_trb_count x \<le> 0 then Some (-1, user_buf, x)
          else do {
            x \<leftarrow> finish_trbs x;
            let x = start_controller hc x;
            let x = snd (xhci_init_event_ring x);
            let (r, x) = xhci_program_event_ring hc x;
            if r < 0 then Some (0, user_buf, x)
            else do {
              (u, x) \<leftarrow> publish_and_wait hc user_buf data data_len dir_in x;
              Some (0, u, x)
            }
          }
        })"

section \<open>Control transfers\<close>

text \<open>The packed \<open>struct usb_setup\<close>.\<close>

definition usb_setup :: "u8 \<Rightarrow> u8 \<Rightarrow> u16 \<Rightarrow> u16 \<Rightarrow> u16 \<Rightarrow> bytes" where
  "usb_setup bmRequestType bRequest wValue wIndex wLength =
     [bmRequestType, bRequest] @ st16 wValue @ st16 wIndex @ st16 wLength"

definition xhci_control_transfer ::
    "'h hc \<Rightarrow> u8 \<Rightarrow> u8 \<Rightarrow> u16 \<Rightarrow> u16 \<Rightarrow> bytes option \<Rightarrow> int \<Rightarrow> bool \<Rightarrow> bytes option \<Rightarrow> 'h xhci \<Rightarrow>
      (int \<times> bytes option \<times> 'h xhci) option" where
  "xhci_control_transfer hc bm req wValue wIndex data data_len dir_in resp_buf x =
     (let (s, h) = kmalloc 8 (x_heap x); x = x\<lparr>x_heap := h\<rparr> in
      if s = 0 then Some (-1, resp_buf, x)
      else let x = x\<lparr>x_setup := usb_setup bm req wValue wIndex (word_of_int data_len)\<rparr>;
               (v, h) = (if data_len > 0 then kmalloc (word_of_int data_len) (x_heap x) else (0, x_heap x));
               x = x\<lparr>x_heap := h\<rparr> in
        if data_len > 0 \<and> v = 0 then Some (-1, resp_buf, x)
        else do {
          let fresh = block (x_mem x) v (nat data_len);
          buf \<leftarrow> (case data of
             Some d \<Rightarrow> if data_len > 0 \<and> \<not> dir_in then do { src \<leftarrow> rdn d data_len; blit fresh 0 src } else Some fresh
           | None \<Rightarrow> Some fresh);
          (trbs, x) \<leftarrow> xhci_prepare_control_transfer s (v \<noteq> 0) v data_len dir_in (x\<lparr>x_dma := buf\<rparr>);
          if trbs < 0 then Some (-1, resp_buf, x)
          else xhci_submit_command_ring hc resp_buf (v \<noteq> 0) data_len dir_in x
        })"

definition xhci_set_address :: "'h hc \<Rightarrow> u8 \<Rightarrow> 'h xhci \<Rightarrow> (int \<times> bytes option \<times> 'h xhci) option" where
  "xhci_set_address hc addr = xhci_control_transfer hc 0x00 5 (ucast addr) 0 None 0 False None"

definition xhci_get_device_descriptor :: "'h hc \<Rightarrow> bytes option \<Rightarrow> int \<Rightarrow> 'h xhci \<Rightarrow> (int \<times> bytes option \<times> 'h xhci) option" where
  "xhci_get_device_descriptor hc buf len = xhci_control_transfer hc 0x80 6 (push_bit 8 1 OR 0) 0 None len True buf"

definition xhci_get_config_descriptor :: "'h hc \<Rightarrow> bytes option \<Rightarrow> int \<Rightarrow> 'h xhci \<Rightarrow> (int \<times> bytes option \<times> 'h xhci) option" where
  "xhci_get_config_descriptor hc buf len x =
     (if len \<le> 0 \<or> buf = None then Some (-1, buf, x)
      else xhci_control_transfer hc 0x80 6 (push_bit 8 2 OR 0) 0 None len True buf x)"

section \<open>Enumeration\<close>

text \<open>The walk over the descriptors: whether one is an interface that may be a network.\<close>

definition net_class :: "u8 \<Rightarrow> bool" where
  "net_class c \<longleftrightarrow> c = 0x02 \<or> c = 0x0A \<or> c = 0xFF"

function config_scan :: "bytes \<Rightarrow> nat \<Rightarrow> bool \<Rightarrow> bool option" where
  "config_scan full off found_net =
     (if off + 2 \<le> length full then do {
        blen \<leftarrow> ld8 full off;
        dtype \<leftarrow> ld8 full (off + 1);
        if blen < 2 then Some found_net
        else do {
          found \<leftarrow> (if dtype = 0x04 \<and> 9 \<le> blen then do {
              if_class \<leftarrow> ld8 full (off + 5);
              if_sub \<leftarrow> ld8 full (off + 6);
              if_proto \<leftarrow> ld8 full (off + 7);
              Some (found_net \<or> net_class if_class)
            }
            else Some found_net);
          if off + unat blen \<ge> length full then Some found else config_scan full (off + unat blen) found
        }
      }
      else Some found_net)"
  by pat_completeness auto

termination
  by (relation "measure (\<lambda>(full, off, _). length full - off)") (auto simp: word_less_nat_alt)

declare config_scan.simps [simp del]

definition or_zeros :: "nat \<Rightarrow> bytes option \<Rightarrow> bytes" where
  "or_zeros n u = (case u of Some b \<Rightarrow> b | None \<Rightarrow> replicate n 0)"

text \<open>The result is that of the first transfer, what follows is for information.\<close>

definition xhci_read_config :: "'h hc \<Rightarrow> 'h xhci \<Rightarrow> (bool option \<times> 'h xhci) option" where
  "xhci_read_config hc x = do {
     (h, u, x) \<leftarrow> xhci_get_config_descriptor hc (Some (replicate 9 0)) 9 x;
     if h = 0 then do {
       b2 \<leftarrow> ld8 (or_zeros 9 u) 2;
       b3 \<leftarrow> ld8 (or_zeros 9 u) 3;
       let totlen = int (unat b2) + 256 * int (unat b3);
       if totlen > 0 \<and> totlen \<le> 4096 then do {
         let (p, hp) = kmalloc (word_of_int totlen) (x_heap x);
         let x = x\<lparr>x_heap := hp\<rparr>;
         if p = 0 then Some (None, x)
         else do {
           (h2, full, x) \<leftarrow> xhci_get_config_descriptor hc (Some (replicate (nat totlen) 0)) totlen x;
           if h2 = 0 then do { net \<leftarrow> config_scan (or_zeros (nat totlen) full) 0 False; Some (Some net, x) }
           else Some (None, x)
         }
       }
       else Some (None, x)
     }
     else Some (None, x)
   }"

definition xhci_enumerate_once :: "'h hc \<Rightarrow> 'h xhci \<Rightarrow> (int \<times> 'h xhci) option" where
  "xhci_enumerate_once hc x = do {
     (r, x) \<leftarrow> (if g_slot_enabled x then Some (0 :: int, x)
       else do {
         (r, x) \<leftarrow> xhci_send_enable_slot hc x;
         if r \<noteq> 0 then Some (-1, x)
         else let (r, x) = xhci_init_device_context x in
           if r \<noteq> 0 then Some (-1, x) else Some (0, x\<lparr>g_slot_enabled := True\<rparr>)
       });
     if r < 0 then Some (-1, x)
     else do {
       (r, desc, x) \<leftarrow> xhci_get_device_descriptor hc (Some (replicate 18 0)) 18 x;
       if r = 0 then do { (net, x) \<leftarrow> xhci_read_config hc x; Some (r, x) } else Some (r, x)
     }
   }"

section \<open>Probing\<close>

definition xhci_match :: "pci_hw \<Rightarrow> u8 \<Rightarrow> u8 \<Rightarrow> u8 \<Rightarrow> bool" where
  "xhci_match hw bus slot func \<longleftrightarrow>
     pci_config_read8 hw bus slot func 0x0B = 0x0C \<and> pci_config_read8 hw bus slot func 0x0A = 0x03"

text \<open>The scan never ends when no function matches: then the value is \<open>None\<close>.\<close>

definition xhci_probe :: "'h hc \<Rightarrow> 'h xhci \<Rightarrow> (int \<times> 'h xhci) option" where
  "xhci_probe hc x = do {
     (bus, slot, func) \<leftarrow> scan_buses (xhci_match (x_pci x)) (x_pci x) 0;
     let x = x\<lparr>xh_found := 1, xh_bus := bus, xh_slot := slot, xh_func := func\<rparr>;
     let cmd = pci_config_read32 (x_pci x) bus slot func 0x04 OR 0x0006;
     let x = x\<lparr>x_pci := pci_config_write32 bus slot func 0x04 cmd (x_pci x)\<rparr>;
     let bar0 = pci_config_read32 (x_pci x) bus slot func 0x10;
     let is_io = (bar0 AND 1 \<noteq> 0);
     let base = (if is_io then bar0 AND NOT 3 else bar0 AND NOT 0xF);
     let x = x\<lparr>phys_base := base, cap_is_io := is_io, cap_base := base\<rparr>;
     let (len, h) = hc_read8 hc (cap_base x) (x_hw x);
     let x = x\<lparr>x_hw := h, caplen := len, op_base := cap_base x + ucast len\<rparr>;
     let (hcsparams1, x) = xhci_cap_read32 hc 0x04 x;
     let x = x\<lparr>num_ports := ucast (drop_bit 24 hcsparams1 AND 0xFF)\<rparr>;
     Some (0, peek hc 0 x)
   }"

definition xhci_num_ports :: "'h xhci \<Rightarrow> int" where
  "xhci_num_ports x = int (unat (num_ports x))"

definition xhci_read_portsc :: "'h hc \<Rightarrow> int \<Rightarrow> 'h xhci \<Rightarrow> u32 \<times> 'h xhci" where
  "xhci_read_portsc hc p x =
     (if p \<le> 0 \<or> op_base x = 0 then (0, x) else xhci_op_read32 hc (0x400 + word_of_int (p - 1) * 4) x)"

text \<open>What is read is printed.\<close>

definition xhci_dump_ports :: "'h hc \<Rightarrow> 'h xhci \<Rightarrow> 'h xhci" where
  "xhci_dump_ports hc x =
     fold (\<lambda>i x. snd (xhci_read_portsc hc i x)) [1..xhci_num_ports x] x"

end
