(* ===== verification/Xhci_Correct.thy ===== *)
theory Xhci_Correct
  imports Xhci
begin

text \<open>
  Soundness of the model of \<open>src/usb/xhci.c\<close>: no operation leaves its arrays. The invariant is
  \<open>xhci_ok\<close>; \<open>same\<close>, \<open>settled\<close> and \<open>slot_frame\<close> say what an operation does not change, and
  \<open>submitted\<close> what a control transfer leaves in the command ring.
\<close>

section \<open>What the controller cannot change\<close>

text \<open>
  Register accesses and waiting change the controller, the contents of the event ring and those of
  the buffer, nothing else.
\<close>

definition same :: "'h xhci \<Rightarrow> 'h xhci \<Rightarrow> bool" where
  "same x y \<longleftrightarrow> (\<exists>h b d. y = x\<lparr>x_hw := h, er_buffer := b, x_dma := d\<rparr> \<and>
     map_option length b = map_option length (er_buffer x) \<and> length d = length (x_dma x))"

named_theorems same_intros \<open>operations that only talk to the controller\<close>

lemma same_refl [same_intros]: "same x x"
  unfolding same_def by (rule exI [of _ "x_hw x"], rule exI [of _ "er_buffer x"], rule exI [of _ "x_dma x"]) simp

lemma sameI: "map_option length b = map_option length (er_buffer x) \<Longrightarrow> length d = length (x_dma x) \<Longrightarrow>
    same x (x\<lparr>x_hw := h, er_buffer := b, x_dma := d\<rparr>)"
  unfolding same_def by blast

lemma same_trans: "same x y \<Longrightarrow> same y z \<Longrightarrow> same x z"
  unfolding same_def by (elim exE conjE) (simp, metis)

lemma same_write: "same x (xhci_op_write32 hc off v x)"
  unfolding same_def xhci_op_write32_def
  by (rule exI, rule exI [of _ "er_buffer x"], rule exI [of _ "x_dma x"]) simp

lemma same_read: "same x (snd (xhci_op_read32 hc off x))"
  unfolding same_def xhci_op_read32_def
  by (rule exI [of _ "snd (hc_read hc (op_loc off x) (x_hw x))"], rule exI [of _ "er_buffer x"], rule exI [of _ "x_dma x"])
    (simp add: split_def Let_def)

lemma length_dma_stores [simp]: "length (dma_stores ws xs) = length xs"
  unfolding dma_stores_def by (induction ws arbitrary: xs) auto

lemma same_delay: "same x (x_delay hc x)"
proof -
  obtain ws ds h where r: "hc_run hc (x_hw x) = (ws, ds, h)" by (cases "hc_run hc (x_hw x)")
  show ?thesis unfolding same_def x_delay_def r
    by (rule exI [of _ h], rule exI [of _ "map_option (dma_stores ws) (er_buffer x)"], rule exI [of _ "dma_stores ds (x_dma x)"])
      (auto simp: option.map_comp comp_def)
qed

lemma same_write' [same_intros]: "same x y \<Longrightarrow> same x (xhci_op_write32 hc off v y)"
  by (rule same_trans [OF _ same_write])

lemma same_peek' [same_intros]: "same x y \<Longrightarrow> same x (peek hc off y)"
  unfolding peek_def by (rule same_trans [OF _ same_read])

lemma same_delay' [same_intros]: "same x y \<Longrightarrow> same x (x_delay hc y)"
  by (rule same_trans [OF _ same_delay])

lemma same_read' [same_intros]: "same x y \<Longrightarrow> same x (snd (xhci_op_read32 hc off y))"
  by (rule same_trans [OF _ same_read])

lemma same_write64 [same_intros]: "same x y \<Longrightarrow> same x (xhci_op_write64 hc off v y)"
  unfolding xhci_op_write64_def by (intro same_intros)

lemma same_doorbell [same_intros]: "same x y \<Longrightarrow> same x (xhci_ring_doorbell hc i v y)"
  unfolding xhci_ring_doorbell_def by (intro same_intros)

lemma same_start [same_intros]: "same x y \<Longrightarrow> same x (start_controller hc y)"
  unfolding start_controller_def split_def Let_def by (intro same_intros)

lemma same_fold: "(\<And>i y. same x y \<Longrightarrow> same x (f i y)) \<Longrightarrow> same x y \<Longrightarrow> same x (fold f is y)"
  by (induction "is" arbitrary: y) auto

lemma same_try [same_intros]: "same x y \<Longrightarrow> same x (snd (try_base hc B y))"
  unfolding try_base_def split_def Let_def snd_conv by (intro same_intros)

lemma same_enable [same_intros]: "same x y \<Longrightarrow> same x (enable_base hc B y)"
  unfolding enable_base_def Let_def by (intro same_intros)

lemma same_fallback [same_intros]: "same x y \<Longrightarrow> same x (fallback_base hc y)"
  unfolding fallback_base_def Let_def by (intro same_intros)

lemma same_probe [same_intros]: "same x y \<Longrightarrow> same x (probe_erdp hc off y)"
  unfolding probe_erdp_def Let_def by (intro same_intros)

lemma same_sweep [same_intros]: "same x y \<Longrightarrow> same x (er_sweep hc Bs y)"
proof (induction Bs arbitrary: y)
  case Nil
  then show ?case by (auto intro: same_intros)
next
  case (Cons B Bs)
  have "same x (snd (try_base hc B y))" using Cons.prems by (rule same_try)
  with Cons.IH show ?case by (auto simp: split_def Let_def intro: same_intros)
qed

lemma same_program [same_intros]: "same x y \<Longrightarrow> same x (snd (xhci_program_event_ring hc y))"
proof -
  assume "same x y"
  then have "same x (fold (\<lambda>k. peek hc (4 * word_of_nat k)) [0..<256] y)" by (intro same_fold same_peek')
  then show ?thesis using \<open>same x y\<close> by (auto simp: xhci_program_event_ring_def Let_def intro!: same_intros)
qed

lemma same_fields:
  assumes "same x y"
  shows "cmd_ring y = cmd_ring x" "cmd_ring_phys y = cmd_ring_phys x" "cmd_ring_pending y = cmd_ring_pending x"
    "cmd_ring_head y = cmd_ring_head x" "cmd_ring_cycle y = cmd_ring_cycle x" "cmd_ring_token y = cmd_ring_token x"
    "cmd_token_counter y = cmd_token_counter x" "last_cmd_start y = last_cmd_start x"
    "last_cmd_trb_count y = last_cmd_trb_count x" "last_cmd_token y = last_cmd_token x"
    "g_dcbaa y = g_dcbaa x" "g_dcbaa_phys y = g_dcbaa_phys x" "g_dev_ctx y = g_dev_ctx x"
    "g_dev_ctx_phys y = g_dev_ctx_phys x" "g_slot_enabled y = g_slot_enabled x"
    "ep0_ring y = ep0_ring x" "ep0_rst y = ep0_rst x" "erst y = erst x" "erst_phys y = erst_phys x"
    "er_buffer_phys y = er_buffer_phys x" "er_dequeue_idx y = er_dequeue_idx x" "er_expected_cycle y = er_expected_cycle x"
    "map_option length (er_buffer y) = map_option length (er_buffer x)" "length (x_dma y) = length (x_dma x)"
    "xhci_hw_enable y = xhci_hw_enable x" "x_heap y = x_heap x" "erst_size y = erst_size x"
    "ep0_ring_phys y = ep0_ring_phys x" "ep0_rst_phys y = ep0_rst_phys x" "x_pci y = x_pci x" "x_mem y = x_mem x"
  using assms by (auto simp: same_def)

section \<open>Invariant\<close>

definition page_ok :: "'a list option \<Rightarrow> nat \<Rightarrow> bool" where
  "page_ok p n \<longleftrightarrow> (case p of None \<Rightarrow> True | Some xs \<Rightarrow> length xs = n)"

definition cmd_ok :: "'h xhci \<Rightarrow> bool" where
  "cmd_ok x \<longleftrightarrow> page_ok (cmd_ring x) 256 \<and> length (cmd_ring_pending x) = 256 \<and> length (cmd_ring_token x) = 256 \<and>
     0 \<le> cmd_ring_head x \<and> cmd_ring_head x < 256 \<and> cmd_ring_cycle x \<in> {0, 1} \<and>
     last_cmd_start x < 256 \<and> last_cmd_trb_count x \<le> 3 \<and> (0 \<le> last_cmd_start x \<longrightarrow> cmd_ring x \<noteq> None)"

definition er_ok :: "'h xhci \<Rightarrow> bool" where
  "er_ok x \<longleftrightarrow> page_ok (er_buffer x) 1024 \<and> er_dequeue_idx x < 256 \<and> er_expected_cycle x \<in> {0, 1}"

definition ctx_ok :: "'h xhci \<Rightarrow> bool" where
  "ctx_ok x \<longleftrightarrow> page_ok (g_dcbaa x) 1024 \<and> page_ok (g_dev_ctx x) 1024 \<and> page_ok (erst x) 1024 \<and>
     page_ok (ep0_ring x) 1024 \<and> page_ok (ep0_rst x) 1024"

definition xhci_ok :: "'h xhci \<Rightarrow> bool" where
  "xhci_ok x \<longleftrightarrow> cmd_ok x \<and> er_ok x \<and> ctx_ok x"

lemma page_ok_simps [simp]: "page_ok None n" "page_ok (Some xs) n \<longleftrightarrow> length xs = n"
  by (simp_all add: page_ok_def)

lemma page_ok_length: "map_option length q = map_option length p \<Longrightarrow> page_ok q n = page_ok p n"
  by (cases p; cases q) auto

lemma same_ok: "same x y \<Longrightarrow> cmd_ok y = cmd_ok x" "same x y \<Longrightarrow> er_ok y = er_ok x" "same x y \<Longrightarrow> ctx_ok y = ctx_ok x"
  "same x y \<Longrightarrow> xhci_ok y = xhci_ok x"
  by (simp_all add: xhci_ok_def cmd_ok_def er_ok_def ctx_ok_def same_fields page_ok_length [of "er_buffer y" "er_buffer x"])

lemma xhci_boot_ok: "xhci_ok (xhci_boot pci mem heap h)"
  by (simp add: xhci_boot_def xhci_ok_def cmd_ok_def er_ok_def ctx_ok_def)

text \<open>What the parts of the driver that do not own the event ring keep of it, and conversely.\<close>

lemma init_command_ring_ok:
  assumes "xhci_ok x"
  shows "xhci_ok (snd (xhci_init_command_ring x))"
    "fst (xhci_init_command_ring x) = 0 \<Longrightarrow> cmd_ring (snd (xhci_init_command_ring x)) \<noteq> None"
    "fst (xhci_init_command_ring x) \<in> {0, -1}"
  using assms by (cases "cmd_ring x"; auto simp: xhci_init_command_ring_def xhci_ok_def cmd_ok_def er_ok_def ctx_ok_def kmalloc_def Let_def split: if_splits)+

lemma init_event_ring_ok:
  assumes "xhci_ok x"
  shows "xhci_ok (snd (xhci_init_event_ring x))"
  using assms by (auto simp: xhci_init_event_ring_def xhci_ok_def cmd_ok_def er_ok_def ctx_ok_def kmalloc_def Let_def)

lemma put_trb_ok:
  assumes "xhci_ok x" "cmd_ring x \<noteq> None" "0 \<le> i" "i < 256"
  obtains r where "cmd_ring x = Some r" "length r = 256" "put_trb i t x = Some (x\<lparr>cmd_ring := Some (r[nat i := t])\<rparr>)"
    "xhci_ok (x\<lparr>cmd_ring := Some (r[nat i := t])\<rparr>)"
proof -
  obtain r where r: "cmd_ring x = Some r" using assms(2) by blast
  moreover have "length r = 256" using assms(1) r by (simp add: xhci_ok_def cmd_ok_def)
  ultimately show ?thesis using assms that by (simp add: put_trb_def xhci_ok_def cmd_ok_def er_ok_def ctx_ok_def)
qed

section \<open>Consuming events\<close>

lemma dequeue_index:
  assumes "i < (256 :: u32)" "k < 4"
  shows "unat (i * 4 + word_of_nat k) = unat i * 4 + k"
proof -
  have "unat i < 256" using assms(1) by (simp add: word_less_nat_alt)
  with assms(2) show ?thesis by (simp add: unat_word_ariths unat_of_nat)
qed

lemma er_load_Some:
  assumes "er_ok x" "er_buffer x = Some b"
  shows "er_load x = Some (let i = unat (er_dequeue_idx x) * 4 in
    if b ! (i + 3) \<noteq> 0 \<and> b ! (i + 3) AND 1 = er_expected_cycle x AND 1
    then Some (b ! i, b ! (i + 1), b ! (i + 2), b ! (i + 3)) else None)"
proof -
  have i: "er_dequeue_idx x < 256" "length b = 1024" using assms by (auto simp: er_ok_def)
  have n: "unat (er_dequeue_idx x) < 256" using i(1) by (simp add: word_less_nat_alt)
  show ?thesis
    using dequeue_index [OF i(1), of 0] dequeue_index [OF i(1), of 1] dequeue_index [OF i(1), of 2]
      dequeue_index [OF i(1), of 3] n i(2) assms(2)
    by (simp add: er_load_def ld8_def Let_def)
qed

text \<open>The state after the event at the dequeue position is taken, but for what the controller does.\<close>

definition er_next :: "u32 list \<Rightarrow> 'h xhci \<Rightarrow> 'h xhci" where
  "er_next b x = (let i = unat (er_dequeue_idx x); wrap = (i = 255) in
     x\<lparr>er_buffer := Some (take (i * 4) b @ [0, 0, 0, 0] @ drop (i * 4 + 4) b),
       er_dequeue_idx := (if wrap then 0 else er_dequeue_idx x + 1),
       er_expected_cycle := (if wrap then er_expected_cycle x XOR 1 else er_expected_cycle x)\<rparr>)"

lemma er_consume_Some:
  assumes "er_ok x" "er_buffer x = Some b"
  obtains y where "er_consume hc x = Some y" "same (er_next b x) y"
proof -
  have i: "er_dequeue_idx x < 256" "length b = 1024" using assms by (auto simp: er_ok_def)
  have n: "unat (er_dequeue_idx x) < 256" using i(1) by (simp add: word_less_nat_alt)
  have w: "(256 \<le> er_dequeue_idx x + 1) = (unat (er_dequeue_idx x) = 255)"
    using n by (auto simp: word_le_nat_alt unat_word_ariths)
  have m: "unat (er_dequeue_idx x * 4) = unat (er_dequeue_idx x) * 4" using dequeue_index [OF i(1), of 0] by simp
  have b: "blit b (unat (er_dequeue_idx x * 4)) [0, 0, 0, 0] =
      Some (take (unat (er_dequeue_idx x) * 4) b @ [0, 0, 0, 0] @ drop (unat (er_dequeue_idx x) * 4 + 4) b)"
    using n i(2) by (simp add: blit_def m eval_nat_numeral)
  have e: "er_consume hc x = Some (xhci_op_write32 hc 0x34 (hi32 (erdp (er_next b x)))
      (xhci_op_write32 hc 0x30 (erdp_low (er_next b x)) (er_next b x)))"
    using w by (simp add: er_consume_def assms(2) b Let_def er_next_def)
  show ?thesis by (rule that [OF e]) (intro same_intros)
qed

lemma er_next_facts:
  assumes "er_ok x" "er_buffer x = Some b"
  shows "er_ok (er_next b x)" "er_buffer (er_next b x) \<noteq> None" "cmd_ok (er_next b x) = cmd_ok x"
    "ctx_ok (er_next b x) = ctx_ok x" "x_dma (er_next b x) = x_dma x"
proof -
  have i: "er_dequeue_idx x < 256" "length b = 1024" using assms by (auto simp: er_ok_def)
  have n: "unat (er_dequeue_idx x) < 256" using i(1) by (simp add: word_less_nat_alt)
  have l: "unat (er_dequeue_idx x) \<noteq> 255 \<Longrightarrow> er_dequeue_idx x + 1 < 256"
    using n by (auto simp: word_less_nat_alt unat_word_ariths)
  show "er_ok (er_next b x)" using assms i n l
    by (auto simp: er_next_def er_ok_def Let_def)
qed (simp_all add: er_next_def Let_def cmd_ok_def ctx_ok_def)

lemma er_consume_ok:
  assumes "er_ok x" "er_buffer x = Some b"
  obtains y where "er_consume hc x = Some y" "er_ok y" "er_buffer y \<noteq> None"
    "cmd_ok y = cmd_ok x" "ctx_ok y = ctx_ok x" "length (x_dma y) = length (x_dma x)"
proof -
  obtain y where y: "er_consume hc x = Some y" "same (er_next b x) y" using er_consume_Some [OF assms] .
  have "er_buffer y \<noteq> None" using same_fields(23) [OF y(2)] er_next_facts(2) [OF assms] by auto
  with y(1) er_next_facts [OF assms] same_ok [OF y(2)] same_fields(24) [OF y(2)] show ?thesis
    by (intro that [OF y(1)]) simp_all
qed


section \<open>Waiting\<close>

text \<open>What an in-progress transfer needs: the buffers are as long as the caller said.\<close>

definition copy_ok :: "bool \<Rightarrow> bytes option \<Rightarrow> int \<Rightarrow> 'h xhci \<Rightarrow> bool" where
  "copy_ok data user_buf n x \<longleftrightarrow> n < 2 ^ 31 \<and> (data \<and> 0 < n \<longrightarrow> nat n \<le> length (x_dma x)) \<and>
     (\<forall>u. user_buf = Some u \<longrightarrow> nat n \<le> length u)"

lemma word_of_int_nat_small: "0 \<le> n \<Longrightarrow> n < 2 ^ 31 \<Longrightarrow> unat (word_of_int n :: u32) = nat n"
  by (simp add: unat_eq_nat_uint uint_word_of_int)

lemma rdn_nat: "k \<le> length xs \<Longrightarrow> rdn xs (int k) = Some (take k xs)"
  by (simp add: rdn_def)

lemma copy_in_ok:
  assumes "copy_ok data user_buf n x"
  shows "\<exists>u. copy_in data user_buf n dir_in dw2 x = Some u \<and> map_option length u = map_option length user_buf"
proof (cases user_buf)
  case None
  then show ?thesis by (simp add: copy_in_def)
next
  case (Some u)
  show ?thesis
  proof (cases "data \<and> n > 0 \<and> dir_in")
    case False
    with Some show ?thesis by (auto simp: copy_in_def)
  next
    case True
    define a where "a = (let a = dw2 AND 0xFFFF; a = (if a = 0 then word_of_int n else a) in
      if a > word_of_int n then word_of_int n else a)"
    have un: "unat (word_of_int n :: u32) = nat n" using True assms
      by (simp add: copy_ok_def word_of_int_nat_small)
    have "a \<le> word_of_int n" by (auto simp: a_def Let_def)
    then have le: "unat a \<le> nat n" using un by (simp add: word_le_nat_alt)
    then have b: "unat a \<le> length u" "unat a \<le> length (x_dma x)" using assms True Some by (auto simp: copy_ok_def)
    then have "copy_in data user_buf n dir_in dw2 x = Some (Some (take (unat a) (x_dma x) @ drop (unat a) u))"
      using True Some by (simp add: copy_in_def Let_def rdn_nat blit_def flip: a_def [unfolded Let_def] del: of_nat_unat)
    with b Some show ?thesis by simp
  qed
qed

definition er_ready :: "'h xhci \<Rightarrow> bool" where
  "er_ready x \<longleftrightarrow> xhci_ok x \<and> er_buffer x \<noteq> None"

lemma same_ready: "same x y \<Longrightarrow> er_ready y = er_ready x"
  using same_fields(23) [of x y] by (cases "er_buffer x"; cases "er_buffer y") (auto simp: er_ready_def same_ok)

text \<open>What stays fixed while the driver waits for events.\<close>

definition settled :: "'h xhci \<Rightarrow> 'h xhci \<Rightarrow> bool" where
  "settled x y \<longleftrightarrow> cmd_ring y = cmd_ring x \<and> g_dev_ctx y = g_dev_ctx x \<and> g_dcbaa_phys y = g_dcbaa_phys x \<and>
     g_slot_enabled y = g_slot_enabled x \<and> last_cmd_start y = last_cmd_start x \<and>
     last_cmd_trb_count y = last_cmd_trb_count x \<and> last_cmd_token y = last_cmd_token x \<and>
     cmd_ring_head y = cmd_ring_head x \<and> cmd_ring_cycle y = cmd_ring_cycle x \<and>
     xhci_hw_enable y = xhci_hw_enable x \<and> x_pci y = x_pci x \<and> x_heap y = x_heap x \<and>
     length (x_dma y) = length (x_dma x)"

lemma settled_refl [simp]: "settled x x"
  by (simp add: settled_def)

lemma settled_trans: "settled x y \<Longrightarrow> settled y z \<Longrightarrow> settled x z"
  by (simp add: settled_def)

lemma same_settled: "same x y \<Longrightarrow> settled x y"
  by (simp add: settled_def same_fields)

lemma er_consume_ready:
  assumes "er_ready x"
  obtains y where "er_consume hc x = Some y" "er_ready y" "settled x y"
proof -
  obtain b where b: "er_buffer x = Some b" "er_ok x" using assms by (auto simp: er_ready_def xhci_ok_def)
  obtain y where y: "er_consume hc x = Some y" "same (er_next b x) y" using er_consume_Some [OF b(2,1)] .
  have "er_ready (er_next b x)" using er_next_facts [OF b(2,1)] assms by (simp add: er_ready_def xhci_ok_def)
  moreover have "settled x (er_next b x)" by (simp add: settled_def er_next_def Let_def)
  ultimately show ?thesis
    using that [OF y(1)] same_ready [OF y(2)] settled_trans same_settled [OF y(2)] by blast
qed

lemma er_load_ready:
  assumes "er_ready x"
  obtains "er_load x = Some None" | dw0 dw1 dw2 dw3 where "er_load x = Some (Some (dw0, dw1, dw2, dw3))"
proof -
  obtain b where b: "er_buffer x = Some b" "er_ok x" using assms by (auto simp: er_ready_def xhci_ok_def)
  show ?thesis using er_load_Some [OF b(2,1)] that by (auto simp: Let_def split: if_splits)
qed

lemma copy_ok_settled: "copy_ok data u n x \<Longrightarrow> settled x y \<Longrightarrow> copy_ok data u n y"
  by (simp add: copy_ok_def settled_def)

lemma poll_loop_ok:
  assumes "er_ready x" "copy_ok data u n x"
  shows "\<exists>r u' y. poll_loop hc k data u n dir_in x = Some (r, u', y) \<and> er_ready y \<and> settled x y \<and>
    map_option length u' = map_option length u"
  using assms
proof (induction k arbitrary: x)
  case 0
  then show ?case by simp
next
  case (Suc k)
  from er_load_ready [OF Suc.prems(1)] show ?case
  proof cases
    case 1
    have d: "same x (x_delay hc x)" by (intro same_intros)
    have "er_ready (x_delay hc x)" "copy_ok data u n (x_delay hc x)"
      using same_ready [OF d] Suc.prems copy_ok_settled same_settled [OF d] by blast+
    from Suc.IH [OF this] 1 show ?thesis using settled_trans [OF same_settled [OF d]] by auto
  next
    case (2 dw0 dw1 dw2 dw3)
    obtain u' where "copy_in data u n dir_in dw2 x = Some u'" "map_option length u' = map_option length u"
      using copy_in_ok [OF Suc.prems(2)] by blast
    moreover obtain y where "er_consume hc x = Some y" "er_ready y" "settled x y"
      using er_consume_ready [OF Suc.prems(1)] .
    ultimately show ?thesis using 2 by simp
  qed
qed

lemma complete_command_ready: "er_ready x \<Longrightarrow> er_ready (complete_command dw0 dw1 x)"
  by (auto simp: complete_command_def er_ready_def xhci_ok_def cmd_ok_def er_ok_def ctx_ok_def split: option.splits)

lemma complete_command_settled: "settled x (complete_command dw0 dw1 x)"
  by (auto simp: complete_command_def settled_def split: option.splits)

lemma wait_loop_ok:
  assumes "er_ready x"
  shows "\<exists>r c y. wait_loop hc k x = Some (r, c, y) \<and> er_ready y \<and> settled x y"
  using assms
proof (induction k arbitrary: x)
  case 0
  then show ?case by simp
next
  case (Suc k)
  have d: "same z (x_delay hc z)" for z by (intro same_intros)
  have step: "\<exists>r c y. wait_loop hc k (x_delay hc z) = Some (r, c, y) \<and> er_ready y \<and> settled z y" if "er_ready z" for z
    using Suc.IH [of "x_delay hc z"] same_ready [OF d [of z]] that settled_trans [OF same_settled [OF d [of z]]] by blast
  from er_load_ready [OF Suc.prems] show ?case
  proof cases
    case 1
    with step [OF Suc.prems] show ?thesis by simp
  next
    case (2 dw0 dw1 dw2 dw3)
    obtain z where z: "er_consume hc x = Some z" "er_ready z" "settled x z" using er_consume_ready [OF Suc.prems] .
    obtain w where w: "er_consume hc (complete_command dw0 dw1 x) = Some w" "er_ready w" "settled (complete_command dw0 dw1 x) w"
      using er_consume_ready [OF complete_command_ready [OF Suc.prems]] .
    show ?thesis
    proof (cases "drop_bit 10 dw3 AND 0x3F = 0x21 \<or> drop_bit 10 dw3 AND 0x3F = 0x20")
      case True
      with 2 w settled_trans [OF complete_command_settled w(3)] show ?thesis by (auto simp: Let_def)
    next
      case False
      with 2 z step [OF z(2)] settled_trans [OF z(3)] show ?thesis by (auto simp: Let_def)
    qed
  qed
qed


lemma poll_event_ok:
  assumes "xhci_ok x" "copy_ok data u n x"
  shows "\<exists>r u' y. xhci_poll_event_ring hc ms data u n dir_in x = Some (r, u', y) \<and> xhci_ok y \<and> settled x y \<and>
    map_option length u' = map_option length u"
proof (cases "er_buffer x")
  case None
  with assms show ?thesis by (simp add: xhci_poll_event_ring_def)
next
  case (Some b)
  then have "er_ready x" using assms by (simp add: er_ready_def)
  from poll_loop_ok [OF this assms(2), of hc "nat (ms * 1000 div 10)" dir_in] Some show ?thesis
    by (auto simp: xhci_poll_event_ring_def er_ready_def)
qed

lemma wait_completion_ok:
  assumes "xhci_ok x"
  shows "\<exists>r c y. xhci_wait_for_command_completion hc ms x = Some (r, c, y) \<and> xhci_ok y \<and> settled x y"
proof (cases "er_buffer x")
  case None
  with assms show ?thesis by (simp add: xhci_wait_for_command_completion_def)
next
  case (Some b)
  then have "er_ready x" using assms by (simp add: er_ready_def)
  from wait_loop_ok [OF this, of hc "nat (ms * 1000 div 10)"] Some show ?thesis
    by (auto simp: xhci_wait_for_command_completion_def er_ready_def)
qed

section \<open>Enabling a slot\<close>

lemma slot_attempts_ok:
  "xhci_ok x \<Longrightarrow> \<exists>r y. slot_attempts hc a x = Some (r, y) \<and> xhci_ok y \<and> settled x y \<and> r \<in> {None, Some 0, Some (- 1)}"
proof (induction a arbitrary: x)
  case 0
  then show ?case by simp
next
  case (Suc a)
  obtain r c y where y: "xhci_wait_for_command_completion hc 2000 x = Some (r, c, y)" "xhci_ok y" "settled x y"
    using wait_completion_ok [OF Suc.prems] by blast
  have d: "same y (x_delay hc y)" by (intro same_intros)
  obtain r' z where "slot_attempts hc a (x_delay hc y) = Some (r', z)" "xhci_ok z" "settled (x_delay hc y) z"
      "r' \<in> {None, Some 0, Some (- 1)}"
    using Suc.IH [of "x_delay hc y"] same_ok(4) [OF d] y(2) by blast
  with y settled_trans [OF settled_trans [OF y(3) same_settled [OF d]]] show ?case by auto
qed

definition enable_slot_trb :: trb where
  "enable_slot_trb = \<lparr>trb_a = 0, trb_b = 0, trb_c = 0, trb_d = push_bit 10 XHCI_TRB_TYPE_ENABLE_SLOT_CMD OR 1\<rparr>"

text \<open>What enabling a slot leaves alone.\<close>

definition slot_frame :: "'h xhci \<Rightarrow> 'h xhci \<Rightarrow> bool" where
  "slot_frame x y \<longleftrightarrow> g_dev_ctx y = g_dev_ctx x \<and> g_slot_enabled y = g_slot_enabled x \<and>
     g_dcbaa_phys y = g_dcbaa_phys x \<and> xhci_hw_enable y = xhci_hw_enable x \<and> x_pci y = x_pci x \<and>
     last_cmd_start y = last_cmd_start x \<and> last_cmd_trb_count y = last_cmd_trb_count x \<and>
     length (x_dma y) = length (x_dma x)"

lemma slot_frame_trans: "slot_frame x y \<Longrightarrow> slot_frame y z \<Longrightarrow> slot_frame x z"
  by (simp add: slot_frame_def)

lemma settled_frame: "settled x y \<Longrightarrow> slot_frame x y"
  by (simp add: settled_def slot_frame_def)

lemma same_frame: "same x y \<Longrightarrow> slot_frame x y"
  by (intro settled_frame same_settled)

text \<open>The heap has \<open>k\<close> bytes before the end of the address space.\<close>

definition heap_room :: "nat \<Rightarrow> u32 \<Rightarrow> bool" where
  "heap_room k p \<longleftrightarrow> 0 < unat p \<and> unat p + k < 2 ^ 32"

lemma heap_room_kmalloc:
  assumes "heap_room (unat sz + 15 + k) p"
  shows "fst (kmalloc sz p) \<noteq> 0" "heap_room k (snd (kmalloc sz p))"
proof -
  have r: "unat (round16 sz) \<le> unat sz + 15"
    using unat_round16 [of sz] r16_bounds(2) [of "unat sz"] assms by (simp add: heap_room_def)
  then have "unat (p + round16 sz) = unat p + unat (round16 sz)"
    using assms by (simp add: heap_room_def unat_word_ariths)
  with r show "fst (kmalloc sz p) \<noteq> 0" "heap_room k (snd (kmalloc sz p))"
    using assms by (auto simp: kmalloc_def heap_room_def unat_gt_0)
qed

lemma heap_room_mono: "heap_room k p \<Longrightarrow> j \<le> k \<Longrightarrow> heap_room j p"
  by (simp add: heap_room_def)

lemma init_command_ring_room:
  assumes "heap_room (k + 4111) (x_heap x)"
  shows "heap_room k (x_heap (snd (xhci_init_command_ring x)))"
proof -
  have "heap_room (unat (4096 :: u32) + 15 + k) (x_heap x)" using assms by (simp add: heap_room_def)
  from heap_room_kmalloc(2) [OF this] heap_room_mono [OF assms] show ?thesis
    by (auto simp: xhci_init_command_ring_def split_def Let_def)
qed

lemma init_event_ring_room:
  assumes "heap_room (k + 8222) (x_heap x)"
  shows "heap_room k (x_heap (snd (xhci_init_event_ring x)))"
proof -
  have "heap_room (unat (4096 :: u32) + 15 + (k + 4111)) (x_heap x)" using assms by (simp add: heap_room_def)
  from heap_room_kmalloc(2) [OF this] have b: "heap_room (k + 4111) (snd (kmalloc 4096 (x_heap x)))" .
  then have "heap_room (unat (4096 :: u32) + 15 + k) (snd (kmalloc 4096 (x_heap x)))" by (simp add: heap_room_def)
  from heap_room_kmalloc(2) [OF this] b heap_room_mono [OF assms] show ?thesis
    by (auto simp: xhci_init_event_ring_def split_def Let_def elim: heap_room_mono)
qed

definition ring_kept :: "'h xhci \<Rightarrow> 'h xhci \<Rightarrow> bool" where
  "ring_kept x y \<longleftrightarrow> cmd_ring y = cmd_ring x \<and> cmd_ring_head y = cmd_ring_head x \<and> cmd_ring_cycle y = cmd_ring_cycle x"

lemma settled_ring: "settled x y \<Longrightarrow> ring_kept x y"
  by (simp add: settled_def ring_kept_def)

lemma ring_kept_trans: "ring_kept x y \<Longrightarrow> ring_kept y z \<Longrightarrow> ring_kept x z"
  by (simp add: ring_kept_def)

lemma init_event_ring_frame:
  "slot_frame x (snd (xhci_init_event_ring x))" "ring_kept x (snd (xhci_init_event_ring x))"
  by (auto simp: xhci_init_event_ring_def slot_frame_def ring_kept_def kmalloc_def Let_def)

lemma enable_slot_retry_ok:
  assumes "xhci_ok x"
  shows "\<exists>r y. enable_slot_retry hc x = Some (r, y) \<and> r \<in> {0, -1} \<and> xhci_ok y \<and> settled x y"
proof -
  define x5 where "x5 = x_delay hc (xhci_op_write32 hc 0x1C (hi32 (ucast (cmd_ring_phys x))) (xhci_op_write32 hc 0x18 (lo32 (ucast (cmd_ring_phys x))) x))"
  define x6 where "x6 = xhci_ring_doorbell hc 0 0 (xhci_op_write32 hc 0x18 (fst (xhci_op_read32 hc 0x18 x5) OR 1) (snd (xhci_op_read32 hc 0x18 x5)))"
  have s6: "same x x6" unfolding x6_def x5_def by (intro same_intros)
  obtain r c y where y: "xhci_wait_for_command_completion hc 2000 x6 = Some (r, c, y)" "xhci_ok y" "settled x6 y"
    using wait_completion_ok [of x6] same_ok(4) [OF s6] assms by blast
  have "enable_slot_retry hc x = Some (if r = 0 then 0 else -1, y)"
    unfolding enable_slot_retry_def Let_def x5_def [symmetric] split_def x6_def [symmetric] y(1) by simp
  with y settled_trans [OF same_settled [OF s6]] show ?thesis by simp
qed

lemma run_enable_slot_ok:
  assumes "xhci_ok x"
  shows "\<exists>r y. run_enable_slot hc x = Some (r, y) \<and> r \<in> {0, -1} \<and> xhci_ok y \<and> slot_frame x y \<and> ring_kept x y \<and>
    (\<forall>k. heap_room (k + 8222) (x_heap x) \<longrightarrow> heap_room k (x_heap y))"
proof -
  define x1 where "x1 = snd (xhci_init_event_ring (start_controller hc x))"
  define x2 where "x2 = snd (xhci_program_event_ring hc x1)"
  have s0: "same x (start_controller hc x)" by (intro same_intros)
  have s2: "same x1 x2" unfolding x2_def by (intro same_intros)
  have ok2: "xhci_ok x2" using init_event_ring_ok same_ok(4) s0 s2 assms unfolding x1_def by blast
  have hp2: "heap_room (k + 8222) (x_heap x) \<Longrightarrow> heap_room k (x_heap x2)" for k
    using init_event_ring_room [of k "start_controller hc x"] same_fields(26) [OF s0] same_fields(26) [OF s2] by (simp add: x1_def)
  have f2: "slot_frame x x2" "ring_kept x x2"
    using slot_frame_trans [OF same_frame [OF s0] slot_frame_trans [OF init_event_ring_frame(1) same_frame [OF s2 [unfolded x1_def]]]]
      ring_kept_trans [OF settled_ring [OF same_settled [OF s0]] ring_kept_trans [OF init_event_ring_frame(2) settled_ring [OF same_settled [OF s2 [unfolded x1_def]]]]]
    by auto
  define x3 where "x3 = xhci_ring_doorbell hc 0 0 (x_delay hc (peek hc 0x04 (peek hc 0x1C (peek hc 0x18
    (xhci_op_write64 hc 0x18 (ucast (cmd_ring_phys x2) OR 1) x2)))))"
  have s3: "same x2 x3" unfolding x3_def by (intro same_intros)
  obtain res x4 where x4: "slot_attempts hc 3 x3 = Some (res, x4)" "xhci_ok x4" "settled x3 x4" "res \<in> {None, Some 0, Some (- 1)}"
    using slot_attempts_ok [of x3 hc 3] same_ok(4) [OF s3] ok2 by blast
  obtain r y where y: "enable_slot_retry hc x4 = Some (r, y)" "r \<in> {0, -1}" "xhci_ok y" "settled x4 y"
    using enable_slot_retry_ok [OF x4(2)] by blast
  have "run_enable_slot hc x = (if cmd_ring_phys x2 = 0 then Some (-1, x2)
      else (case res of Some r \<Rightarrow> Some (r, x4) | None \<Rightarrow> Some (r, y)))"
    unfolding run_enable_slot_def Let_def x1_def [symmetric] x2_def [symmetric] x3_def [symmetric] x4(1)
    by (auto simp: y(1) split: option.splits)
  moreover have "slot_frame x x4" "ring_kept x x4"
    using f2 settled_frame settled_ring same_settled [OF s3] x4(3) slot_frame_trans ring_kept_trans by metis+
  moreover from this have "slot_frame x y" "ring_kept x y"
    using settled_frame settled_ring y(4) slot_frame_trans ring_kept_trans by metis+
  moreover have "x_heap x4 = x_heap x2" "x_heap y = x_heap x2"
    using same_fields(26) [OF s3] x4(3) y(4) by (simp_all add: settled_def)
  ultimately show ?thesis using f2 ok2 x4 y hp2 by auto
qed

lemma send_enable_slot_ok:
  assumes "xhci_ok x" "xhci_hw_enable x"
  shows "\<exists>r y. xhci_send_enable_slot hc x = Some (r, y) \<and> r \<in> {0, -1} \<and> xhci_ok y \<and> slot_frame x y \<and>
    (\<forall>k. heap_room (k + 12333) (x_heap x) \<longrightarrow> heap_room k (x_heap y)) \<and>
    (\<forall>rg. cmd_ring x = Some rg \<longrightarrow> cmd_ring y = Some (rg[0 := enable_slot_trb]) \<and>
      cmd_ring_head y = cmd_ring_head x \<and> cmd_ring_cycle y = cmd_ring_cycle x)"
proof -
  obtain r0 x0 where i: "(if cmd_ring x = None then xhci_init_command_ring x else (0, x)) = (r0, x0)" by fastforce
  have x0: "xhci_ok x0" "r0 = 0 \<Longrightarrow> cmd_ring x0 \<noteq> None" "r0 \<in> {0, -1}"
    using i init_command_ring_ok [OF assms(1)] assms(1) by (auto split: if_splits)
  have h0: "heap_room (k + 4111) (x_heap x) \<Longrightarrow> heap_room k (x_heap x0)" for k
    using i init_command_ring_room [of k x] by (auto elim: heap_room_mono split: if_splits)
  have f0: "slot_frame x x0" "cmd_ring x \<noteq> None \<Longrightarrow> x0 = x"
    using i by (auto simp: slot_frame_def xhci_init_command_ring_def kmalloc_def Let_def split: if_splits)
  show ?thesis
  proof (cases "r0 < 0")
    case True
    then have "xhci_send_enable_slot hc x = Some (-1, x0)" "cmd_ring x = None"
      using assms(2) i by (auto simp: xhci_send_enable_slot_def split: if_splits)
    moreover have "heap_room (k + 12333) (x_heap x) \<Longrightarrow> heap_room k (x_heap x0)" for k
      by (rule h0) (erule heap_room_mono, simp)
    ultimately show ?thesis using x0 f0 by simp
  next
    case False
    then have r0: "r0 = 0" using x0(3) by auto
    obtain rg where rg: "cmd_ring x0 = Some rg" "length rg = 256"
      using x0(2) [OF r0] x0(1) by (auto simp: xhci_ok_def cmd_ok_def)
    define x1 where "x1 = x0\<lparr>cmd_ring := Some (rg[0 := enable_slot_trb])\<rparr>"
    have ok1: "xhci_ok x1" using put_trb_ok [OF x0(1), of 0 enable_slot_trb] rg by (auto simp: x1_def)
    have "xhci_send_enable_slot hc x = run_enable_slot hc x1"
      using assms(2) i r0 rg
      by (auto simp: xhci_send_enable_slot_def xhci_build_command_trb_def if_ring_def put_trb_def
          ld8_def x1_def enable_slot_trb_def list_update_overwrite)
    moreover obtain r y where y: "run_enable_slot hc x1 = Some (r, y)" "r \<in> {0, -1}" "xhci_ok y" "slot_frame x1 y" "ring_kept x1 y"
        "\<forall>k. heap_room (k + 8222) (x_heap x1) \<longrightarrow> heap_room k (x_heap y)"
      using run_enable_slot_ok [OF ok1] by blast
    moreover have "heap_room k (x_heap y)" if "heap_room (k + 12333) (x_heap x)" for k
      using y(6) h0 [of "k + 8222"] that by (simp add: x1_def add.assoc)
    ultimately show ?thesis using f0 rg slot_frame_trans [of x x1 y]
      by (auto simp: ring_kept_def x1_def slot_frame_def)
  qed
qed


section \<open>Staging and handing over\<close>

text \<open>The ring slots from \<open>h\<close> on, around the end, take the entries.\<close>

definition stage :: "trb list \<Rightarrow> nat \<Rightarrow> trb list \<Rightarrow> trb list" where
  "stage r h ts = fold (\<lambda>(i, t) r. r[(h + i) mod 256 := t]) (List.enumerate 0 ts) r"

definition transfer_trbs :: "u32 \<Rightarrow> bool \<Rightarrow> u32 \<Rightarrow> int \<Rightarrow> bool \<Rightarrow> trb list" where
  "transfer_trbs setup_phys data data_phys n dir_in =
     [setup_trb setup_phys 8] @ (if data \<and> n > 0 then [data_trb data_phys (word_of_int n) dir_in] else []) @ [status_trb]"

lemma length_stage [simp]: "length (stage r h ts) = length r"
proof -
  have "length (fold (\<lambda>(i, t) r. r[(h + i) mod 256 := t]) ps r) = length r" for ps
    by (induction ps arbitrary: r) auto
  then show ?thesis by (simp add: stage_def)
qed

lemma ring_next_mod: "h < 256 \<Longrightarrow> ring_next (int h) = int ((h + 1) mod 256)"
proof -
  assume "h < 256"
  then show ?thesis
  proof (cases "h = 255")
    case True
    then show ?thesis by (simp add: ring_next_def)
  next
    case False
    with \<open>h < 256\<close> show ?thesis by (simp add: ring_next_def)
  qed
qed

lemma prepare_spec:
  assumes "xhci_ok x" "cmd_ring x = Some r" "h = nat (cmd_ring_head x)"
    and "ts = transfer_trbs setup_phys data data_phys n dir_in"
  shows "xhci_prepare_control_transfer setup_phys data data_phys n dir_in x = Some (int (length ts),
    x\<lparr>cmd_ring := Some (stage r h ts), last_cmd_start := int h, last_cmd_trb_count := int (length ts)\<rparr>)"
proof -
  have h: "h < 256" "cmd_ring_head x = int h" "length r = 256"
    using assms(1-3) by (auto simp: xhci_ok_def cmd_ok_def)
  have n1: "ring_next (int h) = int (Suc h mod 256)" using ring_next_mod [OF h(1)] by simp
  have n2: "ring_next (int (Suc h mod 256)) = int (Suc (Suc h) mod 256)"
    using ring_next_mod [of "Suc h mod 256"] by (simp add: mod_simps)
  have b': "Suc h mod 256 < length r" "Suc (Suc h) mod 256 < length r" "h < length r" using h by simp_all
  have m0: "h mod 256 = h" using h(1) by simp
  show ?thesis
  proof (cases "data \<and> n > 0")
    case True
    then have "ts = [setup_trb setup_phys 8, data_trb data_phys (word_of_int n) dir_in, status_trb]"
      by (simp add: assms(4) transfer_trbs_def)
    with True show ?thesis
      by (simp add: xhci_prepare_control_transfer_def assms(2) Let_def h(2) put_trb_def n1 n2 b' stage_def m0 del: of_nat_mod)
  next
    case False
    then have "ts = [setup_trb setup_phys 8, status_trb]"
      by (simp add: assms(4) transfer_trbs_def)
    with False show ?thesis
      by (auto simp: xhci_prepare_control_transfer_def assms(2) Let_def h(2) put_trb_def n1 n2 b' stage_def m0 simp del: of_nat_mod)
  qed
qed

definition fin_trb :: "u32 \<Rightarrow> u32 \<Rightarrow> trb \<Rightarrow> trb" where
  "fin_trb token c t = t\<lparr>trb_a := token, trb_d := (if c AND 1 \<noteq> 0 then trb_d t OR 1 else trb_d t AND NOT 1)\<rparr>"

lemma fin_trb_idem [simp]: "fin_trb tk c (fin_trb tk c t) = fin_trb tk c t"
  by (simp add: fin_trb_def or.assoc and.assoc)

text \<open>What handing over leaves alone besides the ring, the tokens and the marks.\<close>

definition finish_frame :: "'h xhci \<Rightarrow> 'h xhci \<Rightarrow> bool" where
  "finish_frame x y \<longleftrightarrow> slot_frame x y \<and> cmd_ring_head y = cmd_ring_head x \<and> cmd_ring_cycle y = cmd_ring_cycle x \<and>
     cmd_token_counter y = cmd_token_counter x"

lemma finish_loop:
  assumes "xhci_ok x" "cmd_ring x = Some r" "last_cmd_start x = int h" "h < 256" "k \<le> 256"
  shows "\<exists>y r'. for_loop (\<lambda>i. finish_trb tk (int i)) [0..<k] x = Some y \<and> xhci_ok y \<and> finish_frame x y \<and>
    cmd_ring y = Some r' \<and> (\<forall>j < 256. r' ! j = (if \<exists>i < k. j = (h + i) mod 256 then fin_trb tk (cmd_ring_cycle x) (r ! j) else r ! j))"
  using assms(5)
proof (induction k)
  case 0
  then show ?case using assms(1,2) by (simp add: finish_frame_def slot_frame_def)
next
  case (Suc k)
  then obtain y r' where y: "for_loop (\<lambda>i. finish_trb tk (int i)) [0..<k] x = Some y" "xhci_ok y" "finish_frame x y"
    "cmd_ring y = Some r'" and rr: "\<forall>j < 256. r' ! j = (if \<exists>i < k. j = (h + i) mod 256 then fin_trb tk (cmd_ring_cycle x) (r ! j) else r ! j)"
    by auto
  define d where "d = (h + k) mod 256"
  have d: "d < 256" by (simp add: d_def)
  have l: "length r' = 256" "length (cmd_ring_token y) = 256" "last_cmd_start y = int h" "cmd_ring_cycle y = cmd_ring_cycle x"
    using y(2,3,4) assms(3) by (auto simp: xhci_ok_def cmd_ok_def finish_frame_def slot_frame_def)
  have dst: "(if last_cmd_start y + int k \<ge> 256 then last_cmd_start y + int k - 256 else last_cmd_start y + int k) = int d"
  proof (cases "h + k \<ge> 256")
    case True
    then have "d = h + k - 256" using assms(4) Suc.prems by (simp add: d_def mod_if)
    with True l(3) show ?thesis by simp
  next
    case False
    then show ?thesis using l(3) by (simp add: d_def)
  qed
  define z where "z = xhci_cmd_mark_pending (int d) (y\<lparr>cmd_ring := Some (r'[d := fin_trb tk (cmd_ring_cycle x) (r' ! d)]),
      cmd_ring_token := (cmd_ring_token y)[d := tk]\<rparr>)"
  have s: "finish_trb tk (int k) y = Some z"
    unfolding finish_trb_def Let_def dst z_def using d l y(4)
    by (simp add: fin_trb_def)
  have zok: "xhci_ok z" using y(2) l d
    by (simp add: z_def xhci_cmd_mark_pending_def xhci_ok_def cmd_ok_def er_ok_def ctx_ok_def)
  have zf: "finish_frame x z" using y(3) d
    by (simp add: z_def xhci_cmd_mark_pending_def finish_frame_def slot_frame_def)
  have "for_loop (\<lambda>i. finish_trb tk (int i)) [0..<Suc k] x = Some z" using y(1) s by (simp add: for_loop_append)
  moreover have "cmd_ring z = Some (r'[d := fin_trb tk (cmd_ring_cycle x) (r' ! d)])"
    using d by (simp add: z_def xhci_cmd_mark_pending_def)
  moreover have "\<forall>j < 256. r'[d := fin_trb tk (cmd_ring_cycle x) (r' ! d)] ! j =
      (if \<exists>i < Suc k. j = (h + i) mod 256 then fin_trb tk (cmd_ring_cycle x) (r ! j) else r ! j)"
  proof (intro allI impI)
    fix j :: nat
    assume j: "j < 256"
    show "r'[d := fin_trb tk (cmd_ring_cycle x) (r' ! d)] ! j =
      (if \<exists>i < Suc k. j = (h + i) mod 256 then fin_trb tk (cmd_ring_cycle x) (r ! j) else r ! j)"
    proof (cases "j = d")
      case True
      then have "\<exists>i < Suc k. j = (h + i) mod 256" by (auto simp: d_def)
      with True j rr l(1) show ?thesis by auto
    next
      case False
      then have "(\<exists>i < Suc k. j = (h + i) mod 256) = (\<exists>i < k. j = (h + i) mod 256)"
        by (auto simp: d_def less_Suc_eq)
      with False j rr show ?thesis by simp
    qed
  qed
  ultimately show ?case using zok zf by blast
qed

lemma finish_trbs_ok:
  assumes "xhci_ok x" "cmd_ring x = Some r" "last_cmd_start x = int h" "0 < last_cmd_trb_count x"
  shows "\<exists>y r'. finish_trbs x = Some y \<and> xhci_ok y \<and> slot_frame x y \<and> cmd_ring y = Some r' \<and>
    last_cmd_token y = cmd_token_counter x + 1 \<and>
    (\<forall>j < 256. r' ! j = (if \<exists>i < nat (last_cmd_trb_count x). j = (h + i) mod 256
       then fin_trb (cmd_token_counter x + 1) (cmd_ring_cycle x) (r ! j) else r ! j))"
proof -
  define tk where "tk = cmd_token_counter x + 1"
  define n where "n = last_cmd_trb_count x"
  have n: "0 < n" "n \<le> 3" "h < 256" using assms by (auto simp: n_def xhci_ok_def cmd_ok_def)
  have le: "nat n \<le> 256" using n by simp
  have "xhci_ok (x\<lparr>cmd_token_counter := tk\<rparr>)" using assms(1) by (simp add: xhci_ok_def cmd_ok_def er_ok_def ctx_ok_def)
  from finish_loop [OF this, of r h "nat n" tk] obtain y r' where
    y: "for_loop (\<lambda>i. finish_trb tk (int i)) [0..<nat n] (x\<lparr>cmd_token_counter := tk\<rparr>) = Some y" "xhci_ok y"
      "finish_frame (x\<lparr>cmd_token_counter := tk\<rparr>) y" "cmd_ring y = Some r'"
      "\<forall>j < 256. r' ! j = (if \<exists>i < nat n. j = (h + i) mod 256 then fin_trb tk (cmd_ring_cycle x) (r ! j) else r ! j)"
    using assms(2,3) n(3) le by (auto cong: if_cong)
  define z where "z = (if cmd_ring_head x + n \<ge> 256 then y\<lparr>cmd_ring_head := cmd_ring_head x + n - 256, cmd_ring_cycle := cmd_ring_cycle x XOR 1\<rparr>
      else y\<lparr>cmd_ring_head := cmd_ring_head x + n\<rparr>)\<lparr>last_cmd_token := tk\<rparr>"
  have hd: "cmd_ring_head y = cmd_ring_head x" "cmd_ring_cycle y = cmd_ring_cycle x" using y(3) by (simp_all add: finish_frame_def)
  have "finish_trbs x = Some z"
    using y(1) hd by (simp add: finish_trbs_def Let_def z_def tk_def n_def)
  moreover have "xhci_ok z" using y(2) assms(1) n hd by (auto simp: z_def xhci_ok_def cmd_ok_def er_ok_def ctx_ok_def)
  moreover have "slot_frame x z" using y(3) by (simp add: z_def finish_frame_def slot_frame_def)
  moreover have "cmd_ring z = Some r'" "last_cmd_token z = cmd_token_counter x + 1" using y(4) by (simp_all add: z_def tk_def)
  ultimately show ?thesis using y(5) [unfolded tk_def n_def] by blast
qed


section \<open>Submission\<close>

lemma device_context_facts:
  "fst (xhci_init_device_context x) = (if g_dev_ctx x = None then -1 else 0)"
  "cmd_ok (snd (xhci_init_device_context x)) = cmd_ok x" "er_ok (snd (xhci_init_device_context x)) = er_ok x"
  "ring_kept x (snd (xhci_init_device_context x))" "ctx_ok x \<Longrightarrow> ctx_ok (snd (xhci_init_device_context x))"
  "xhci_hw_enable (snd (xhci_init_device_context x)) = xhci_hw_enable x"
  "last_cmd_start (snd (xhci_init_device_context x)) = last_cmd_start x"
  "last_cmd_trb_count (snd (xhci_init_device_context x)) = last_cmd_trb_count x"
  "x_dma (snd (xhci_init_device_context x)) = x_dma x"
  by (auto simp: xhci_init_device_context_def ep0_alloc_def ep0_rst_alloc_def kmalloc_def Let_def cmd_ok_def er_ok_def
      ctx_ok_def ring_kept_def dev_ctx_fill_def put64_def)

lemma alloc_contexts_facts:
  assumes "xhci_ok x"
  shows "xhci_ok (snd (alloc_contexts x))" "fst (alloc_contexts x) \<in> {0, -1}" "ring_kept x (snd (alloc_contexts x))"
    "fst (alloc_contexts x) = 0 \<Longrightarrow> g_dev_ctx (snd (alloc_contexts x)) = Some (replicate 1024 0)"
    "g_slot_enabled (snd (alloc_contexts x)) = g_slot_enabled x" "xhci_hw_enable (snd (alloc_contexts x)) = xhci_hw_enable x"
    "last_cmd_start (snd (alloc_contexts x)) = last_cmd_start x"
    "last_cmd_trb_count (snd (alloc_contexts x)) = last_cmd_trb_count x" "x_dma (snd (alloc_contexts x)) = x_dma x"
  using assms
  by (cases "g_dcbaa x"; auto simp: alloc_contexts_def kmalloc_def Let_def xhci_ok_def cmd_ok_def er_ok_def ctx_ok_def ring_kept_def
      split: if_splits)+

definition submit_frame :: "'h xhci \<Rightarrow> 'h xhci \<Rightarrow> bool" where
  "submit_frame x y \<longleftrightarrow> xhci_hw_enable y = xhci_hw_enable x \<and> last_cmd_start y = last_cmd_start x \<and>
     last_cmd_trb_count y = last_cmd_trb_count x \<and> length (x_dma y) = length (x_dma x)"

lemma submit_frame_trans: "submit_frame x y \<Longrightarrow> submit_frame y z \<Longrightarrow> submit_frame x z"
  by (simp add: submit_frame_def)

lemma slot_submit_frame: "slot_frame x y \<Longrightarrow> submit_frame x y"
  by (simp add: submit_frame_def slot_frame_def)

lemma try_enable_slot_ok:
  assumes "xhci_ok x" "xhci_hw_enable x"
  shows "\<exists>y. try_enable_slot hc x = Some y \<and> xhci_ok y \<and> submit_frame x y \<and> (g_slot_enabled x \<longrightarrow> y = x) \<and>
    (\<forall>rg. cmd_ring x = Some rg \<longrightarrow> cmd_ring y = Some (if g_slot_enabled x then rg else rg[0 := enable_slot_trb]) \<and>
      cmd_ring_head y = cmd_ring_head x \<and> cmd_ring_cycle y = cmd_ring_cycle x)"
proof (cases "g_slot_enabled x")
  case True
  then show ?thesis using assms by (simp add: try_enable_slot_def submit_frame_def)
next
  case False
  obtain r y where y: "xhci_send_enable_slot hc x = Some (r, y)" "r \<in> {0, -1}" "xhci_ok y" "slot_frame x y"
    and rg: "\<forall>rg. cmd_ring x = Some rg \<longrightarrow> cmd_ring y = Some (rg[0 := enable_slot_trb]) \<and>
      cmd_ring_head y = cmd_ring_head x \<and> cmd_ring_cycle y = cmd_ring_cycle x"
    using send_enable_slot_ok [OF assms, of hc] by blast
  show ?thesis
  proof (cases "r = 0")
    case True
    define z where "z = snd (xhci_init_device_context y)"
    have "try_enable_slot hc x = Some (if g_dev_ctx y = None then z else z\<lparr>g_slot_enabled := True\<rparr>)"
      using False True y(1) by (simp add: try_enable_slot_def split_def z_def device_context_facts(1))
    moreover have "xhci_ok z" "submit_frame y z" "ring_kept y z"
      using y(3) device_context_facts [of y] by (simp_all add: z_def xhci_ok_def submit_frame_def)
    moreover from this have "xhci_ok (z\<lparr>g_slot_enabled := True\<rparr>)" "submit_frame y (z\<lparr>g_slot_enabled := True\<rparr>)"
        "ring_kept y (z\<lparr>g_slot_enabled := True\<rparr>)"
      by (simp_all add: xhci_ok_def cmd_ok_def er_ok_def ctx_ok_def submit_frame_def ring_kept_def)
    ultimately show ?thesis using False rg submit_frame_trans [OF slot_submit_frame [OF y(4)]] by (auto simp: ring_kept_def)
  next
    case neq: False
    then have "try_enable_slot hc x = Some y" using False y(1) by (simp add: try_enable_slot_def)
    with False y(3) rg slot_submit_frame [OF y(4)] show ?thesis by auto
  qed
qed

lemma publish_ok:
  assumes "xhci_ok x" "copy_ok data u n x"
  shows "\<exists>u' y. publish_and_wait hc u data n dir_in x = Some (u', y) \<and> xhci_ok y \<and> settled x y \<and>
    map_option length u' = map_option length u"
proof -
  define c :: u64 where "c = ucast (cmd_ring_phys x) + word_of_int (last_cmd_start x) * 16"
  define x1 where "x1 = peek hc 0x04 (peek hc 0x1C (peek hc 0x18 (xhci_ring_doorbell hc 0 0 (x_delay hc
    (peek hc 0x04 (peek hc 0x1C (peek hc 0x18 (xhci_op_write32 hc 0x1C (hi32 c) (xhci_op_write32 hc 0x18 (lo32 c) x)))))))))"
  have s: "same x x1" unfolding x1_def by (intro same_intros)
  obtain r u' y where y: "xhci_poll_event_ring hc 500 data u n dir_in x1 = Some (r, u', y)" "xhci_ok y" "settled x1 y"
      "map_option length u' = map_option length u"
    using poll_event_ok [of x1 data u n] same_ok(4) [OF s] assms copy_ok_settled [OF assms(2) same_settled [OF s]] by blast
  have "publish_and_wait hc u data n dir_in x = Some (u', y)"
    unfolding publish_and_wait_def Let_def c_def [symmetric] x1_def [symmetric] y(1) by simp
  with y settled_trans [OF same_settled [OF s] y(3)] show ?thesis by blast
qed

text \<open>
  A submission with hardware access never leaves its arrays. When it reports success the staged
  entries have the token for their address, the first slot of the ring holds the Enable Slot
  command if it was sent on the way, and a device context set up earlier is gone.
\<close>

definition submitted :: "'h xhci \<Rightarrow> trb list \<Rightarrow> nat \<Rightarrow> 'h xhci \<Rightarrow> bool" where
  "submitted x r h y \<longleftrightarrow> (\<exists>r'. cmd_ring y = Some r' \<and>
     (\<forall>j < 256. r' ! j = (let t = (if g_slot_enabled x then r else r[0 := enable_slot_trb]) ! j in
        if \<exists>i < nat (last_cmd_trb_count x). j = (h + i) mod 256
        then fin_trb (last_cmd_token y) (cmd_ring_cycle x) t else t))) \<and>
     (g_slot_enabled x \<longrightarrow> g_dev_ctx y = Some (replicate 1024 0))"

lemma submit_ok:
  assumes "xhci_ok x" "xhci_hw_enable x" "copy_ok data u n x"
    and "cmd_ring x = Some r" "last_cmd_start x = int h" "0 < last_cmd_trb_count x"
  shows "\<exists>s u' y. xhci_submit_command_ring hc u data n dir_in x = Some (s, u', y) \<and>
    s = (if fst (alloc_contexts x) = 0 then 0 else -1) \<and> xhci_ok y \<and>
    submit_frame x y \<and> map_option length u' = map_option length u \<and> (s = 0 \<longrightarrow> submitted x r h y)"
proof -
  define x1 where "x1 = snd (alloc_contexts x)"
  note ac = alloc_contexts_facts [OF assms(1), folded x1_def]
  show ?thesis
  proof (cases "fst (alloc_contexts x) = 0")
    case False
    then have "xhci_submit_command_ring hc u data n dir_in x = Some (-1, u, x1)"
      using assms(2) ac(2) by (auto simp: xhci_submit_command_ring_def split_def x1_def)
    with ac False show ?thesis by (simp add: submit_frame_def)
  next
    case True
    obtain x2 where x2: "try_enable_slot hc x1 = Some x2" "xhci_ok x2" "submit_frame x1 x2" "g_slot_enabled x1 \<longrightarrow> x2 = x1"
        "\<forall>rg. cmd_ring x1 = Some rg \<longrightarrow> cmd_ring x2 = Some (if g_slot_enabled x1 then rg else rg[0 := enable_slot_trb]) \<and>
          cmd_ring_head x2 = cmd_ring_head x1 \<and> cmd_ring_cycle x2 = cmd_ring_cycle x1"
      using try_enable_slot_ok [of x1 hc] ac assms(2) by auto
    define x2' where "x2' = xhci_op_write32 hc 0x30 (lo32 (ucast (g_dcbaa_phys x2))) x2"
    define x3 where "x3 = xhci_op_write32 hc 0x34 (hi32 (ucast (g_dcbaa_phys x2'))) x2'"
    have s3: "same x2 x3" unfolding x3_def x2'_def by (intro same_intros)
    note f3 = same_fields [OF s3]
    define r3 where "r3 = (if g_slot_enabled x then r else r[0 := enable_slot_trb])"
    have r3: "cmd_ring x3 = Some r3" "cmd_ring_cycle x3 = cmd_ring_cycle x" "last_cmd_start x3 = int h"
        "last_cmd_trb_count x3 = last_cmd_trb_count x"
      using x2(3,5) ac f3 assms(4,5) by (simp_all add: ring_kept_def r3_def submit_frame_def)
    obtain x4 r4 where x4: "finish_trbs x3 = Some x4" "xhci_ok x4" "slot_frame x3 x4" "cmd_ring x4 = Some r4"
        "last_cmd_token x4 = cmd_token_counter x3 + 1"
        "\<forall>j < 256. r4 ! j = (if \<exists>i < nat (last_cmd_trb_count x3). j = (h + i) mod 256
           then fin_trb (cmd_token_counter x3 + 1) (cmd_ring_cycle x3) (r3 ! j) else r3 ! j)"
      using finish_trbs_ok [of x3 r3 h] same_ok(4) [OF s3] x2(2) r3 assms(6) by auto
    define x5 where "x5 = snd (xhci_init_event_ring (start_controller hc x4))"
    define x6 where "x6 = snd (xhci_program_event_ring hc x5)"
    have s5: "same x4 (start_controller hc x4)" by (intro same_intros)
    have s6: "same x5 x6" unfolding x6_def by (intro same_intros)
    have ok6: "xhci_ok x6" using init_event_ring_ok [of "start_controller hc x4"] same_ok(4) s5 s6 x4(2) unfolding x5_def by blast
    have fr6: "slot_frame x4 x6" "ring_kept x4 x6"
      using slot_frame_trans [OF same_frame [OF s5] slot_frame_trans [OF init_event_ring_frame(1) same_frame [OF s6 [unfolded x5_def]]]]
        ring_kept_trans [OF settled_ring [OF same_settled [OF s5]] ring_kept_trans [OF init_event_ring_frame(2) settled_ring [OF same_settled [OF s6 [unfolded x5_def]]]]]
      by auto
    have tk6: "last_cmd_token x6 = last_cmd_token x4"
      using same_fields(10) [OF s6] same_fields(10) [OF s5] by (auto simp: x5_def xhci_init_event_ring_def kmalloc_def Let_def)
    have sub: "submit_frame x x6"
      using x2(3) slot_submit_frame [OF same_frame [OF s3]] slot_submit_frame [OF x4(3)] slot_submit_frame [OF fr6(1)] ac
      by (simp add: submit_frame_def)
    have sd: "submitted x r h z" if "ring_kept x6 z" "last_cmd_token z = last_cmd_token x6" "g_dev_ctx z = g_dev_ctx x6" for z
    proof -
      have "cmd_ring z = Some r4" using that(1) fr6(2) x4(4) by (simp add: ring_kept_def)
      moreover have "\<forall>j < 256. r4 ! j = (if \<exists>i < nat (last_cmd_trb_count x). j = (h + i) mod 256
          then fin_trb (last_cmd_token z) (cmd_ring_cycle x) (r3 ! j) else r3 ! j)"
        using x4(6) unfolding r3(2,4) that(2) tk6 x4(5) .
      moreover have "g_slot_enabled x \<longrightarrow> g_dev_ctx z = Some (replicate 1024 0)"
        using that(3) fr6(1) x4(3) same_frame [OF s3] x2(4) ac(4,5) True by (auto simp: slot_frame_def)
      ultimately show ?thesis unfolding submitted_def r3_def Let_def by blast
    qed
    have unf: "xhci_submit_command_ring hc u data n dir_in x =
        (if fst (xhci_program_event_ring hc x5) < 0 then Some (0, u, x6)
         else do { (u, y) \<leftarrow> publish_and_wait hc u data n dir_in x6; Some (0, u, y) })"
      using True assms(2,6) r3 x4(1)
      by (simp add: xhci_submit_command_ring_def split_def Let_def x1_def [symmetric] x2(1) x2'_def [symmetric] x3_def [symmetric] x5_def [symmetric] x6_def [symmetric])
    show ?thesis
    proof (cases "fst (xhci_program_event_ring hc x5) < 0")
      case True
      with unf ok6 sub sd [of x6] \<open>fst (alloc_contexts x) = 0\<close> show ?thesis by (simp add: ring_kept_def)
    next
      case False
      have "copy_ok data u n x6" using assms(3) sub by (simp add: copy_ok_def submit_frame_def)
      from publish_ok [OF ok6 this] obtain u' y where y: "publish_and_wait hc u data n dir_in x6 = Some (u', y)" "xhci_ok y"
          "settled x6 y" "map_option length u' = map_option length u" by blast
      have "submitted x r h y" using y(3) by (intro sd settled_ring) (simp_all add: settled_def)
      with y False unf submit_frame_trans [OF sub slot_submit_frame [OF settled_frame [OF y(3)]]] \<open>fst (alloc_contexts x) = 0\<close> show ?thesis by simp
    qed
  qed
qed


section \<open>Control transfers\<close>

lemma alloc_contexts_room:
  assumes "heap_room 8222 (x_heap x)"
  shows "fst (alloc_contexts x) = 0"
proof -
  have a: "fst (kmalloc 4096 (x_heap x)) \<noteq> 0" "heap_room 4111 (snd (kmalloc 4096 (x_heap x)))"
    using heap_room_kmalloc [of 4096 4111 "x_heap x"] assms by simp_all
  have b: "fst (kmalloc 4096 (snd (kmalloc 4096 (x_heap x)))) \<noteq> 0"
    using heap_room_kmalloc [of 4096 0 "snd (kmalloc 4096 (x_heap x))"] a(2) by simp
  show ?thesis using a(1) b by (cases "g_dcbaa x") (auto simp: alloc_contexts_def split_def Let_def)
qed

lemma mark_staged_ok: "xhci_ok x \<Longrightarrow> xhci_ok (mark_staged x)"
proof -
  have "xhci_ok y \<Longrightarrow> xhci_ok (fold (\<lambda>i x. let dst = last_cmd_start x + int i in xhci_cmd_mark_pending (if dst \<ge> 256 then dst - 256 else dst) x) is y)"
    for "is" and y :: "'a xhci"
  proof (induction "is" arbitrary: y)
    case Nil
    then show ?case by simp
  next
    case (Cons i "is")
    have "xhci_ok (xhci_cmd_mark_pending d y)" for d using Cons.prems
      by (auto simp: xhci_cmd_mark_pending_def xhci_ok_def cmd_ok_def er_ok_def ctx_ok_def)
    with Cons.IH show ?case by (simp add: Let_def)
  qed
  then show "xhci_ok x \<Longrightarrow> xhci_ok (mark_staged x)" by (simp add: mark_staged_def)
qed

text \<open>The staging of a transfer, also if the ring is allocated for it.\<close>

lemma prepare_any:
  assumes "xhci_ok x"
  shows "\<exists>k y. xhci_prepare_control_transfer s data d n dir_in x = Some (k, y) \<and> xhci_ok y \<and>
    xhci_hw_enable y = xhci_hw_enable x \<and> g_slot_enabled y = g_slot_enabled x \<and> x_dma y = x_dma x \<and>
    (k < 0 \<and> cmd_ring x = None \<and> x_heap x = 0 \<or>
     (k = last_cmd_trb_count y \<and> 2 \<le> k \<and> (\<exists>r. cmd_ring y = Some r) \<and>
      (\<exists>h. last_cmd_start y = int h \<and> (cmd_ring x = None \<longrightarrow> h = 0) \<and> (cmd_ring x \<noteq> None \<longrightarrow> int h = cmd_ring_head x)) \<and>
      x_heap y = (if cmd_ring x = None then snd (kmalloc 4096 (x_heap x)) else x_heap x)))"
proof -
  have main: "\<exists>k y. xhci_prepare_control_transfer s data d n dir_in z = Some (k, y) \<and> xhci_ok y \<and>
    xhci_hw_enable y = xhci_hw_enable z \<and> g_slot_enabled y = g_slot_enabled z \<and> x_dma y = x_dma z \<and> x_heap y = x_heap z \<and>
     k = last_cmd_trb_count y \<and> 2 \<le> k \<and> (\<exists>r. cmd_ring y = Some r) \<and>
      last_cmd_start y = cmd_ring_head z" if z: "xhci_ok z" "cmd_ring z = Some r" for z r
  proof -
    have "0 \<le> cmd_ring_head z" using z by (simp add: xhci_ok_def cmd_ok_def)
    then show ?thesis
      using prepare_spec [OF z refl refl, of s data d n dir_in] z
      by (auto simp: xhci_ok_def cmd_ok_def er_ok_def ctx_ok_def transfer_trbs_def)
  qed
  show ?thesis
  proof (cases "cmd_ring x")
    case (Some r)
    have "\<exists>h. cmd_ring_head x = int h" using assms by (auto simp: xhci_ok_def cmd_ok_def intro: nonneg_int_cases)
    with main [OF assms Some] Some show ?thesis by fastforce
  next
    case None
    define z where "z = snd (xhci_init_command_ring x)"
    show ?thesis
    proof (cases "x_heap x = 0")
      case True
      then have "xhci_prepare_control_transfer s data d n dir_in x = Some (-1, z)" "xhci_ok z" "xhci_hw_enable z = xhci_hw_enable x"
          "g_slot_enabled z = g_slot_enabled x" "x_dma z = x_dma x"
        using None init_command_ring_ok(1) [OF assms]
        by (auto simp: z_def xhci_prepare_control_transfer_def xhci_init_command_ring_def kmalloc_def Let_def)
      with None True show ?thesis by auto
    next
      case False
      then have z: "xhci_init_command_ring x = (0, z)" "cmd_ring z = Some (replicate 256 zero_trb)" "cmd_ring_head z = 0"
          "xhci_hw_enable z = xhci_hw_enable x" "g_slot_enabled z = g_slot_enabled x" "x_dma z = x_dma x"
          "x_heap z = snd (kmalloc 4096 (x_heap x))"
        using None by (auto simp: z_def xhci_init_command_ring_def kmalloc_def Let_def)
      have "xhci_prepare_control_transfer s data d n dir_in x = xhci_prepare_control_transfer s data d n dir_in z"
        using None z(1,2) by (simp add: xhci_prepare_control_transfer_def)
      moreover have "xhci_ok z" using init_command_ring_ok(1) [OF assms] by (simp add: z_def)
      ultimately show ?thesis using main [of z, OF _ z(2)] None z by auto
    qed
  qed
qed


lemma block_length [simp]: "length (block mem p n) = n"
  by (simp add: block_def)

definition args_ok :: "bytes option \<Rightarrow> int \<Rightarrow> bytes option \<Rightarrow> bool" where
  "args_ok data n resp \<longleftrightarrow> n < 2 ^ 31 \<and> (\<forall>d. data = Some d \<longrightarrow> nat n \<le> length d) \<and> (\<forall>u. resp = Some u \<longrightarrow> nat n \<le> length u)"

lemma transfer_buffer:
  assumes "\<forall>d. data = Some d \<longrightarrow> nat n \<le> length d" "length fr = nat n"
  shows "\<exists>buf. (case data of Some d \<Rightarrow> if n > 0 \<and> \<not> dir_in then do { src \<leftarrow> rdn d n; blit fr 0 src } else Some fr
    | None \<Rightarrow> Some fr) = Some buf \<and> length buf = nat n"
proof (cases data)
  case None
  with assms show ?thesis by simp
next
  case (Some d)
  show ?thesis
  proof (cases "n > 0 \<and> \<not> dir_in")
    case True
    have "nat n \<le> length d" using assms(1) Some by simp
    with True have "rdn d n = Some (take (nat n) d)" by (simp add: rdn_def)
    moreover have "blit fr 0 (take (nat n) d) = Some (take (nat n) d)"
      using assms(2) \<open>nat n \<le> length d\<close> by (simp add: blit_def)
    ultimately show ?thesis using Some True \<open>nat n \<le> length d\<close> by simp
  next
    case False
    with Some assms show ?thesis by auto
  qed
qed

text \<open>Every run of a control transfer: its checks, then a staged transfer, then its submission.\<close>

lemma control_transfer_run:
  assumes "xhci_ok x" "args_ok data n resp"
  shows "\<exists>r u y. xhci_control_transfer hc bm req v i data n dir_in resp x = Some (r, u, y) \<and> r \<in> {0, -1} \<and> xhci_ok y \<and>
    map_option length u = map_option length resp \<and>
    (xhci_hw_enable x \<and> heap_room (nat n + 13000) (x_heap x) \<longrightarrow> r = 0) \<and>
    (xhci_hw_enable x \<and> r = 0 \<longrightarrow> (\<exists>z rg h. submitted z rg h y \<and> length rg = 256 \<and> g_slot_enabled z = g_slot_enabled x \<and>
      last_cmd_start y = int h \<and> last_cmd_trb_count y = last_cmd_trb_count z \<and> 2 \<le> last_cmd_trb_count y \<and>
      (cmd_ring x = None \<longrightarrow> h = 0) \<and> (cmd_ring x \<noteq> None \<longrightarrow> int h = cmd_ring_head x)))"
proof -
  define h1 where "h1 = snd (kmalloc 8 (x_heap x))"
  define x1 where "x1 = x\<lparr>x_heap := h1, x_setup := usb_setup bm req v i (word_of_int n)\<rparr>"
  define p where "p = (if n > 0 then fst (kmalloc (word_of_int n) h1) else 0)"
  define h2 where "h2 = (if n > 0 then snd (kmalloc (word_of_int n) h1) else h1)"
  have nw: "n > 0 \<Longrightarrow> unat (word_of_int n :: u32) = nat n" using assms(2) by (simp add: args_ok_def word_of_int_nat_small)
  have room: "heap_room (nat n + 13000) (x_heap x) \<Longrightarrow> fst (kmalloc 8 (x_heap x)) \<noteq> 0 \<and> (n > 0 \<longrightarrow> p \<noteq> 0) \<and> heap_room 12500 h2"
  proof -
    assume a: "heap_room (nat n + 13000) (x_heap x)"
    then have "heap_room (unat (8 :: u32) + 15 + (nat n + 12900)) (x_heap x)" by (rule heap_room_mono) simp
    then have b: "fst (kmalloc 8 (x_heap x)) \<noteq> 0" "heap_room (nat n + 12900) h1"
      unfolding h1_def by (rule heap_room_kmalloc)+
    show ?thesis
    proof (cases "n > 0")
      case True
      have "heap_room (unat (word_of_int n :: u32) + 15 + 12500) h1" using b(2) by (rule heap_room_mono) (simp add: nw [OF True])
      with heap_room_kmalloc [OF this] b True show ?thesis by (simp add: p_def h2_def)
    next
      case False
      with b show ?thesis by (auto simp: h2_def intro: heap_room_mono)
    qed
  qed
  obtain buf where buf: "(case data of Some d \<Rightarrow> if n > 0 \<and> \<not> dir_in then do { src \<leftarrow> rdn d n; blit (block (x_mem x) p (nat n)) 0 src }
      else Some (block (x_mem x) p (nat n)) | None \<Rightarrow> Some (block (x_mem x) p (nat n))) = Some buf" "length buf = nat n"
    using transfer_buffer [of data n "block (x_mem x) p (nat n)" dir_in] assms(2) by (auto simp: args_ok_def)
  define x2 where "x2 = x1\<lparr>x_heap := h2, x_dma := buf\<rparr>"
  have x2: "xhci_ok x2" "cmd_ring x2 = cmd_ring x" "cmd_ring_head x2 = cmd_ring_head x" "x_heap x2 = h2" "x_dma x2 = buf"
      "xhci_hw_enable x2 = xhci_hw_enable x" "g_slot_enabled x2 = g_slot_enabled x"
    using assms(1) by (simp_all add: x2_def x1_def xhci_ok_def cmd_ok_def er_ok_def ctx_ok_def)
  obtain s where s: "s = fst (kmalloc 8 (x_heap x))" by simp
  have unf: "xhci_control_transfer hc bm req v i data n dir_in resp x =
      (if s = 0 then Some (-1, resp, x\<lparr>x_heap := h1\<rparr>) else if n > 0 \<and> p = 0 then Some (-1, resp, x1\<lparr>x_heap := h2\<rparr>)
       else do { (k, y) \<leftarrow> xhci_prepare_control_transfer s (p \<noteq> 0) p n dir_in x2;
         if k < 0 then Some (-1, resp, y) else xhci_submit_command_ring hc resp (p \<noteq> 0) n dir_in y })"
  proof -
    have k8: "kmalloc 8 (x_heap x) = (s, h1)" by (simp add: s h1_def)
    have kn: "(if n > 0 then kmalloc (word_of_int n) h1 else (0, h1)) = (p, h2)" by (simp add: p_def h2_def)
    have x2': "x1\<lparr>x_heap := h2, x_dma := buf\<rparr> = x2" by (simp add: x2_def)
    have m: "x_heap x1 = h1" "x_mem (x1\<lparr>x_heap := h2\<rparr>) = x_mem x" by (simp_all add: x1_def)
    have u: "x\<lparr>x_heap := h1\<rparr>\<lparr>x_setup := usb_setup bm req v i (word_of_int n)\<rparr> = x1" by (simp add: x1_def)
    have hh: "x_heap (x\<lparr>x_heap := h1\<rparr>) = h1" by simp
    show ?thesis
      unfolding xhci_control_transfer_def k8 Let_def prod.case u m(1) kn m(2) buf(1) bind.simps x2' by (rule refl)
  qed
  show ?thesis
  proof (cases "s = 0 \<or> n > 0 \<and> p = 0")
    case True
    have "xhci_ok (x\<lparr>x_heap := h1\<rparr>)" "xhci_ok (x1\<lparr>x_heap := h2\<rparr>)"
      using assms(1) by (simp_all add: x1_def xhci_ok_def cmd_ok_def er_ok_def ctx_ok_def)
    moreover have "xhci_control_transfer hc bm req v i data n dir_in resp x = Some (-1, resp, if s = 0 then x\<lparr>x_heap := h1\<rparr> else x1\<lparr>x_heap := h2\<rparr>)"
      using unf True by auto
    moreover have "\<not> heap_room (nat n + 13000) (x_heap x)" using True room unfolding s by auto
    ultimately show ?thesis by simp
  next
    case False
    obtain k y where y: "xhci_prepare_control_transfer s (p \<noteq> 0) p n dir_in x2 = Some (k, y)" "xhci_ok y"
        "xhci_hw_enable y = xhci_hw_enable x" "g_slot_enabled y = g_slot_enabled x" "x_dma y = buf"
      and k: "k < 0 \<and> cmd_ring x = None \<and> h2 = 0 \<or>
         (k = last_cmd_trb_count y \<and> 2 \<le> k \<and> (\<exists>r. cmd_ring y = Some r) \<and>
          (\<exists>h. last_cmd_start y = int h \<and> (cmd_ring x = None \<longrightarrow> h = 0) \<and> (cmd_ring x \<noteq> None \<longrightarrow> int h = cmd_ring_head x)) \<and>
          x_heap y = (if cmd_ring x = None then snd (kmalloc 4096 h2) else h2))"
      using prepare_any [OF x2(1), of s "p \<noteq> 0" p n dir_in] unfolding x2(2-7)
      by (elim exE conjE, intro that) assumption+
    show ?thesis
    proof (cases "k < 0")
      case True
      then have "h2 = 0" "xhci_control_transfer hc bm req v i data n dir_in resp x = Some (-1, resp, y)"
        using k unf False y(1) by auto
      with y room show ?thesis by (auto simp: heap_room_def)
    next
      case kpos: False
      then obtain h r where h: "k = last_cmd_trb_count y" "2 \<le> k" "cmd_ring y = Some r" "last_cmd_start y = int h"
          "cmd_ring x = None \<longrightarrow> h = 0" "cmd_ring x \<noteq> None \<longrightarrow> int h = cmd_ring_head x"
          "x_heap y = (if cmd_ring x = None then snd (kmalloc 4096 h2) else h2)"
        using k by auto
      have e: "xhci_control_transfer hc bm req v i data n dir_in resp x = xhci_submit_command_ring hc resp (p \<noteq> 0) n dir_in y"
        using unf False y(1) kpos by auto
      show ?thesis
      proof (cases "xhci_hw_enable x")
        case False
        then show ?thesis using e y mark_staged_ok [OF y(2)] by (simp add: xhci_submit_command_ring_def)
      next
        case True
        have c: "copy_ok (p \<noteq> 0) resp n y" using assms(2) y(5) buf(2) by (simp add: copy_ok_def args_ok_def)
        have hw: "xhci_hw_enable y" and cnt: "0 < last_cmd_trb_count y" using y(3) True h(1,2) by simp_all
        obtain s' u' z where z: "xhci_submit_command_ring hc resp (p \<noteq> 0) n dir_in y = Some (s', u', z)"
            "s' = (if fst (alloc_contexts y) = 0 then 0 else -1)" "xhci_ok z" "submit_frame y z"
            "map_option length u' = map_option length resp" "s' = 0 \<longrightarrow> submitted y r h z"
          using submit_ok [OF y(2) hw c h(3,4) cnt, of hc dir_in] by blast
        have "heap_room 8222 (x_heap y)" if a: "heap_room (nat n + 13000) (x_heap x)"
        proof -
          have h2: "heap_room 12500 h2" using room [OF a] by simp
          then have "heap_room 8222 h2" "heap_room (unat (4096 :: u32) + 15 + 8222) h2" by (auto elim: heap_room_mono)
          moreover from heap_room_kmalloc(2) [OF this(2)] have "heap_room 8222 (snd (kmalloc 4096 h2))" .
          ultimately show ?thesis using h(7) by simp
        qed
        then have r0: "heap_room (nat n + 13000) (x_heap x) \<Longrightarrow> s' = 0" using alloc_contexts_room [of y] z(2) by simp
        have l: "length r = 256" using y(2) h(3) by (simp add: xhci_ok_def cmd_ok_def)
        have f: "last_cmd_start z = int h" "last_cmd_trb_count z = last_cmd_trb_count y" "2 \<le> last_cmd_trb_count z"
          using z(4) h(1,2,4) by (simp_all add: submit_frame_def)
        have sb: "s' = 0 \<longrightarrow> (\<exists>v rg h. submitted v rg h z \<and> length rg = 256 \<and> g_slot_enabled v = g_slot_enabled x \<and>
            last_cmd_start z = int h \<and> last_cmd_trb_count z = last_cmd_trb_count v \<and> 2 \<le> last_cmd_trb_count z \<and>
            (cmd_ring x = None \<longrightarrow> h = 0) \<and> (cmd_ring x \<noteq> None \<longrightarrow> int h = cmd_ring_head x))"
          by (intro impI exI [of _ y] exI [of _ r] exI [of _ h] conjI) (use z(6) l y(4) f h(5,6) in simp_all)
        have "s' \<in> {0, -1}" using z(2) by simp
        then show ?thesis
          unfolding e z(1) using z(3,5) r0 sb
          by (intro exI [of _ s'] exI [of _ u'] exI [of _ z] conjI) simp_all
      qed
    qed
  qed
qed

end
