(* ===== verification/Xhci_Transfers.thy ===== *)
theory Xhci_Transfers
  imports Xhci_Correct
begin

text \<open>
  What \<open>xhci_control_transfer\<close> of \<open>src/usb/xhci.c\<close> does: it never leaves its buffers, it stages the
  setup, data and status entries in the command ring, and it hands them over in the place of their addresses.
\<close>

section \<open>Properties of transfers\<close>

lemma control_transfer_done:
  assumes "xhci_ok x" "args_ok data n resp" "xhci_hw_enable x" "heap_room (nat n + 13000) (x_heap x)"
  obtains u y z rg h where "xhci_control_transfer hc bm req v i data n dir_in resp x = Some (0, u, y)"
    "submitted z rg h y" "length rg = 256" "g_slot_enabled z = g_slot_enabled x" "last_cmd_start y = int h"
    "last_cmd_trb_count y = last_cmd_trb_count z" "2 \<le> last_cmd_trb_count y"
    "cmd_ring x = None \<longrightarrow> h = 0" "cmd_ring x \<noteq> None \<longrightarrow> int h = cmd_ring_head x"
proof -
  obtain r u y where y: "xhci_control_transfer hc bm req v i data n dir_in resp x = Some (r, u, y)"
    and r: "xhci_hw_enable x \<and> heap_room (nat n + 13000) (x_heap x) \<longrightarrow> r = 0"
    and ex: "xhci_hw_enable x \<and> r = 0 \<longrightarrow> (\<exists>z rg h. submitted z rg h y \<and> length rg = 256 \<and> g_slot_enabled z = g_slot_enabled x \<and>
      last_cmd_start y = int h \<and> last_cmd_trb_count y = last_cmd_trb_count z \<and> 2 \<le> last_cmd_trb_count y \<and>
      (cmd_ring x = None \<longrightarrow> h = 0) \<and> (cmd_ring x \<noteq> None \<longrightarrow> int h = cmd_ring_head x))"
    using control_transfer_run [OF assms(1,2), of hc bm req v i dir_in] by (elim exE conjE) (rule that)
  from r assms(3,4) have r0: "r = 0" by simp
  from ex [rule_format, OF conjI [OF assms(3) r0]] obtain z rg h where "submitted z rg h y" "length rg = 256" "g_slot_enabled z = g_slot_enabled x"
      "last_cmd_start y = int h" "last_cmd_trb_count y = last_cmd_trb_count z" "2 \<le> last_cmd_trb_count y"
      "cmd_ring x = None \<longrightarrow> h = 0" "cmd_ring x \<noteq> None \<longrightarrow> int h = cmd_ring_head x"
    by (elim exE conjE) (rule that)
  with y r0 show ?thesis by (intro that [of u y z rg h]) simp_all
qed

text \<open>A controller that does nothing.\<close>

definition hc_idle :: "unit hc" where
  "hc_idle = \<lparr>hc_read = (\<lambda>l h. (0, h)), hc_read8 = (\<lambda>p h. (0, h)), hc_write = (\<lambda>l v h. h), hc_run = (\<lambda>h. ([], [], h))\<rparr>"

definition xhci_demo :: "unit xhci" where
  "xhci_demo = xhci_boot (\<lambda>_. 0) (\<lambda>_. 0) heap_start ()"

lemma xhci_demo_facts:
  "xhci_ok xhci_demo" "xhci_hw_enable xhci_demo" "cmd_ring xhci_demo = None" "\<not> g_slot_enabled xhci_demo"
  "g_dev_ctx xhci_demo = None" "heap_room (nat 18 + 13000) (x_heap xhci_demo)"
  by (simp_all add: xhci_demo_def xhci_boot_ok) (simp_all add: xhci_boot_def heap_room_def heap_start_def)

lemma slot_inj:
  assumes "h < 256" "i < 256" "j < 256"
  shows "(h + i) mod 256 = (h + j) mod (256 :: nat) \<longleftrightarrow> i = j"
proof -
  have m: "(h + k) mod 256 = (if h + k < 256 then h + k else h + k - 256)" if "k < 256" for k
    using assms(1) that by (simp add: mod_if)
  show ?thesis unfolding m [OF assms(2)] m [OF assms(3)] using assms by presburger
qed

lemma stage_nth:
  assumes "length ts \<le> 256" "h < 256" "length r = 256" "i < 256"
  shows "stage r h ts ! ((h + i) mod 256) = (if i < length ts then ts ! i else r ! ((h + i) mod 256))"
  using assms(1)
proof (induction ts rule: rev_induct)
  case Nil
  then show ?case by (simp add: stage_def)
next
  case (snoc t ts)
  have "stage r h (ts @ [t]) = (stage r h ts)[(h + length ts) mod 256 := t]"
    by (simp add: stage_def enumerate_append_eq)
  moreover have e: "(h + i) mod 256 = (h + length ts) mod 256 \<longleftrightarrow> i = length ts"
    using slot_inj [OF assms(2,4), of "length ts"] snoc.prems by simp
  moreover have "(h + i) mod 256 < length (stage r h ts)" using assms(3) by simp
  ultimately have "stage r h (ts @ [t]) ! ((h + i) mod 256) = (if i = length ts then t else stage r h ts ! ((h + i) mod 256))"
    using assms(3) by (cases "i = length ts") simp_all
  with snoc show ?case by (simp add: nth_append)
qed

text \<open>C19: Staging a control transfer writes its setup entry, its data entry if there is data, and its
  status entry into the slots of the command ring from the head on, around the end of the ring,
  and no other slot changes.\<close>

theorem prepare_stages_transfer:
  assumes "xhci_ok x" "cmd_ring x = Some r" "cmd_ring_head x = int h"
    and "ts = transfer_trbs setup_phys data data_phys n dir_in"
  shows "\<exists>y r'. xhci_prepare_control_transfer setup_phys data data_phys n dir_in x = Some (int (length ts), y) \<and>
    cmd_ring y = Some r' \<and> length r' = 256 \<and> last_cmd_start y = int h \<and> last_cmd_trb_count y = int (length ts) \<and>
    map (\<lambda>i. r' ! ((h + i) mod 256)) [0..<256] = ts @ map (\<lambda>i. r ! ((h + i) mod 256)) [length ts..<256]"
proof -
  have h: "h < 256" "length r = 256" using assms(1-3) by (auto simp: xhci_ok_def cmd_ok_def)
  have s: "xhci_prepare_control_transfer setup_phys data data_phys n dir_in x = Some (int (length ts),
    x\<lparr>cmd_ring := Some (stage r h ts), last_cmd_start := int h, last_cmd_trb_count := int (length ts)\<rparr>)"
    using prepare_spec [OF assms(1,2) _ assms(4), of h] assms(3) by simp
  have lt: "length ts \<le> 3" by (simp add: assms(4) transfer_trbs_def)
  have "map (\<lambda>i. stage r h ts ! ((h + i) mod 256)) [0..<256] = ts @ map (\<lambda>i. r ! ((h + i) mod 256)) [length ts..<256]"
    by (rule nth_equalityI) (use lt h in \<open>auto simp: stage_nth nth_append\<close>)
  with s h(2) show ?thesis by simp
qed

lemma prepare_stages_transfer_witness:
  "\<exists>y r'. xhci_prepare_control_transfer 0x2000 True 0x3000 18 True (snd (xhci_init_command_ring xhci_demo)) =
      Some (int (length (transfer_trbs 0x2000 True 0x3000 18 True)), y) \<and>
    cmd_ring y = Some r' \<and> length r' = 256 \<and> last_cmd_start y = int 0 \<and>
    last_cmd_trb_count y = int (length (transfer_trbs 0x2000 True 0x3000 18 True)) \<and>
    map (\<lambda>i. r' ! ((0 + i) mod 256)) [0..<256] = transfer_trbs 0x2000 True 0x3000 18 True @
      map (\<lambda>i. replicate 256 zero_trb ! ((0 + i) mod 256)) [length (transfer_trbs 0x2000 True 0x3000 18 True)..<256]"
proof (rule prepare_stages_transfer [OF _ _ _ refl])
  show "xhci_ok (snd (xhci_init_command_ring xhci_demo))" by (rule init_command_ring_ok(1)) (simp add: xhci_demo_facts)
  show "cmd_ring (snd (xhci_init_command_ring xhci_demo)) = Some (replicate 256 zero_trb)"
    "cmd_ring_head (snd (xhci_init_command_ring xhci_demo)) = int 0"
    by (simp_all add: xhci_init_command_ring_def xhci_demo_def xhci_boot_def kmalloc_def heap_start_def Let_def)
qed

text \<open>C8: A control transfer never accesses anything outside the rings, the pages and the buffers of
  the driver, whatever the controller answers and writes: it returns 0 or -1, keeps the invariant
  of the driver and the length of the buffer of the caller.\<close>

theorem control_transfer_safe:
  assumes "xhci_ok x" "args_ok data n resp"
  shows "\<exists>r u y. xhci_control_transfer hc bm req v i data n dir_in resp x = Some (r, u, y) \<and> r \<in> {0, -1} \<and>
    xhci_ok y \<and> map_option length u = map_option length resp"
  using control_transfer_run [OF assms, of hc bm req v i dir_in] by blast

lemma control_transfer_safe_witness:
  "\<exists>r u y. xhci_control_transfer hc_idle 0x80 6 0x100 0 None 18 True (Some (replicate 18 0)) xhci_demo = Some (r, u, y) \<and>
    r \<in> {0, -1} \<and> xhci_ok y \<and> map_option length u = map_option length (Some (replicate 18 (0 :: u8)))"
  by (rule control_transfer_safe) (simp_all add: xhci_demo_facts args_ok_def)

text \<open>C20: Submission stores the token of the command where the entries have the addresses of the setup
  packet and of the data buffer: no entry handed to the controller points to what it was
  staged for.\<close>

theorem control_transfer_addresses_lost:
  assumes "xhci_ok x" "args_ok data n resp" "xhci_hw_enable x" "heap_room (nat n + 13000) (x_heap x)"
  shows "\<exists>u y ring h. xhci_control_transfer hc bm req v i data n dir_in resp x = Some (0, u, y) \<and>
    cmd_ring y = Some ring \<and> last_cmd_start y = int h \<and> 2 \<le> last_cmd_trb_count y \<and>
    map (\<lambda>k. trb_a (ring ! ((h + k) mod 256))) [0..<nat (last_cmd_trb_count y)] =
      replicate (nat (last_cmd_trb_count y)) (last_cmd_token y)"
proof -
  obtain u y z rg h where y: "xhci_control_transfer hc bm req v i data n dir_in resp x = Some (0, u, y)"
    and z: "submitted z rg h y" "last_cmd_start y = int h" "last_cmd_trb_count y = last_cmd_trb_count z" "2 \<le> last_cmd_trb_count y"
    using control_transfer_done [OF assms, of hc bm req v i dir_in] by metis
  then obtain ring where ring: "cmd_ring y = Some ring" "\<forall>j < 256. (\<exists>i < nat (last_cmd_trb_count z). j = (h + i) mod 256) \<longrightarrow>
      trb_a (ring ! j) = last_cmd_token y"
    by (auto simp: submitted_def Let_def fin_trb_def)
  then have "map (\<lambda>k. trb_a (ring ! ((h + k) mod 256))) [0..<nat (last_cmd_trb_count y)] =
      map (\<lambda>k. last_cmd_token y) [0..<nat (last_cmd_trb_count y)]"
    using z(3) by (intro map_cong refl) (metis atLeastLessThan_iff mod_less_divisor set_upt zero_less_numeral)
  with y ring(1) z(2,4) show ?thesis by (auto simp: map_replicate_const)
qed

lemma control_transfer_addresses_lost_witness:
  "\<exists>u y ring h. xhci_control_transfer hc_idle 0x80 6 0x100 0 None 18 True None xhci_demo = Some (0, u, y) \<and>
    cmd_ring y = Some ring \<and> last_cmd_start y = int h \<and> 2 \<le> last_cmd_trb_count y \<and>
    map (\<lambda>k. trb_a (ring ! ((h + k) mod 256))) [0..<nat (last_cmd_trb_count y)] =
      replicate (nat (last_cmd_trb_count y)) (last_cmd_token y)"
  by (rule control_transfer_addresses_lost) (simp_all only: xhci_demo_facts, simp add: args_ok_def)

text \<open>The Enable Slot command a first submission sends is written to slot 0 of the ring, where
  the transfer was staged: its setup entry is gone, the controller is given the command again.\<close>

theorem first_transfer_setup_lost:
  assumes "xhci_ok x" "args_ok data n resp" "xhci_hw_enable x" "heap_room (nat n + 13000) (x_heap x)"
    and "cmd_ring x = None" "\<not> g_slot_enabled x"
  shows "\<exists>u y ring. xhci_control_transfer hc bm req v i data n dir_in resp x = Some (0, u, y) \<and>
    cmd_ring y = Some ring \<and> last_cmd_start y = 0 \<and> drop_bit 10 (trb_d (ring ! 0)) = XHCI_TRB_TYPE_ENABLE_SLOT_CMD"
proof -
  obtain u y z rg where y: "xhci_control_transfer hc bm req v i data n dir_in resp x = Some (0, u, y)"
    and z: "submitted z rg 0 y" "length rg = 256" "\<not> g_slot_enabled z" "last_cmd_start y = 0"
  proof (rule control_transfer_done [OF assms(1-4), of hc bm req v i dir_in])
    fix u y z rg h
    assume "xhci_control_transfer hc bm req v i data n dir_in resp x = Some (0, u, y)"
      "submitted z rg h y" "length rg = 256" "g_slot_enabled z = g_slot_enabled x" "last_cmd_start y = int h"
      "cmd_ring x = None \<longrightarrow> h = 0"
    with assms(5,6) show thesis by (intro that [of u y z rg]) simp_all
  qed
  then obtain ring where ring: "cmd_ring y = Some ring"
      "ring ! 0 = (if \<exists>i < nat (last_cmd_trb_count z). 0 = i mod 256 then fin_trb (last_cmd_token y) (cmd_ring_cycle z) enable_slot_trb else enable_slot_trb)"
    by (auto simp: submitted_def Let_def cong: if_cong)
  then have "ring ! 0 \<in> {enable_slot_trb, fin_trb (last_cmd_token y) (cmd_ring_cycle z) enable_slot_trb}" by auto
  then have "drop_bit 10 (trb_d (ring ! 0)) = XHCI_TRB_TYPE_ENABLE_SLOT_CMD"
    by (auto simp: enable_slot_trb_def fin_trb_def XHCI_TRB_TYPE_ENABLE_SLOT_CMD_def)
  with y ring z(4) show ?thesis by blast
qed

lemma first_transfer_setup_lost_witness:
  "\<exists>u y ring. xhci_control_transfer hc_idle 0x80 6 0x100 0 None 18 True None xhci_demo = Some (0, u, y) \<and>
    cmd_ring y = Some ring \<and> last_cmd_start y = 0 \<and> drop_bit 10 (trb_d (ring ! 0)) = XHCI_TRB_TYPE_ENABLE_SLOT_CMD"
  by (rule first_transfer_setup_lost) (simp_all only: xhci_demo_facts not_False_eq_True, simp add: args_ok_def)

text \<open>A transfer after the slot is enabled gives the controller a new, empty device context: the
  one that was set up, with the pointer to the ring of endpoint 0, is no longer referenced.\<close>

theorem device_context_lost:
  assumes "xhci_ok x" "args_ok data n resp" "xhci_hw_enable x" "heap_room (nat n + 13000) (x_heap x)"
    and "g_slot_enabled x"
  shows "\<exists>u y. xhci_control_transfer hc bm req v i data n dir_in resp x = Some (0, u, y) \<and>
    g_dev_ctx y = Some (replicate 1024 0)"
proof -
  obtain u y z rg h where "xhci_control_transfer hc bm req v i data n dir_in resp x = Some (0, u, y)"
    "submitted z rg h y" "g_slot_enabled z = g_slot_enabled x"
    using control_transfer_done [OF assms(1-4), of hc bm req v i dir_in] by metis
  with assms(5) show ?thesis by (simp add: submitted_def)
qed

lemma device_context_lost_witness:
  "\<exists>u y. xhci_control_transfer hc_idle 0x80 6 0x100 0 None 18 True None (xhci_demo\<lparr>g_slot_enabled := True\<rparr>) = Some (0, u, y) \<and>
    g_dev_ctx y = Some (replicate 1024 0)"
  by (rule device_context_lost) (use xhci_demo_facts in \<open>simp_all add: args_ok_def xhci_ok_def cmd_ok_def er_ok_def ctx_ok_def\<close>)

lemma enumeration_run:
  assumes "xhci_ok x" "xhci_hw_enable x" "\<not> g_slot_enabled x" "g_dev_ctx x = None"
  shows "\<exists>y. xhci_enumerate_once hc x = Some (-1, y) \<and> xhci_ok y \<and> xhci_hw_enable y \<and> \<not> g_slot_enabled y \<and> g_dev_ctx y = None \<and>
    x_pci y = x_pci x \<and> (\<forall>k. heap_room (k + 12333) (x_heap x) \<longrightarrow> heap_room k (x_heap y))"
proof -
  obtain r y where y: "xhci_send_enable_slot hc x = Some (r, y)" "r \<in> {0, -1}" "xhci_ok y" "slot_frame x y"
      "\<forall>k. heap_room (k + 12333) (x_heap x) \<longrightarrow> heap_room k (x_heap y)"
    using send_enable_slot_ok [OF assms(1,2), of hc] by blast
  then have "g_dev_ctx y = None" "\<not> g_slot_enabled y" "xhci_hw_enable y" "x_pci y = x_pci x"
    using assms by (simp_all add: slot_frame_def)
  with y assms(3) show ?thesis
    by (auto simp: xhci_enumerate_once_def xhci_init_device_context_def)
qed

text \<open>C28: The enumeration at boot always fails, whatever the controller does: it fills in a device
  context before the submission of a first transfer would have allocated one. Nothing changes
  in that respect, so every later attempt fails as well.\<close>

theorem enumeration_always_fails:
  assumes "xhci_ok x" "xhci_hw_enable x" "\<not> g_slot_enabled x" "g_dev_ctx x = None"
  shows "\<exists>y. xhci_enumerate_once hc x = Some (-1, y) \<and> xhci_ok y \<and> xhci_hw_enable y \<and> \<not> g_slot_enabled y \<and> g_dev_ctx y = None"
  using enumeration_run [OF assms, of hc] by blast

lemma enumeration_always_fails_witness:
  "\<exists>y. xhci_enumerate_once hc_idle xhci_demo = Some (-1, y) \<and> xhci_ok y \<and> xhci_hw_enable y \<and> \<not> g_slot_enabled y \<and> g_dev_ctx y = None"
  by (rule enumeration_always_fails) (use xhci_demo_facts in simp_all)

end
