(* ===== verification/Queues.thy ===== *)
theory Queues
  imports Main
begin

text \<open>
  The contract of a bounded queue between a producer and a consumer: what is put in comes out
  once, in order. A ring shared with a device meets it if its operations keep an
  abstraction relation to a list; \<open>Xhci_Events\<close> interprets it on the event ring.
\<close>

datatype 'e queue_op = Post 'e | Take

text \<open>The reference: a list that never has more than \<open>cap\<close> elements.\<close>

fun spec_run :: "'e queue_op list \<Rightarrow> 'e list \<Rightarrow> 'e option list" where
  "spec_run [] q = []"
| "spec_run (Post e # ops) q = spec_run ops (q @ [e])"
| "spec_run (Take # ops) [] = None # spec_run ops []"
| "spec_run (Take # ops) (e # q) = Some e # spec_run ops q"

text \<open>The producer leaves the queue alone when it is full.\<close>

fun within :: "('e \<Rightarrow> bool) \<Rightarrow> nat \<Rightarrow> 'e queue_op list \<Rightarrow> nat \<Rightarrow> bool" where
  "within good cap [] n \<longleftrightarrow> True"
| "within good cap (Post e # ops) n \<longleftrightarrow> good e \<and> n < cap \<and> within good cap ops (Suc n)"
| "within good cap (Take # ops) n \<longleftrightarrow> within good cap ops (n - 1)"

primrec queue_run :: "('e \<Rightarrow> 's \<Rightarrow> 's option) \<Rightarrow> ('s \<Rightarrow> ('e option \<times> 's) option) \<Rightarrow> 'e queue_op list \<Rightarrow> 's \<Rightarrow> 'e option list option" where
  "queue_run post get [] s = Some []"
| "queue_run post get (opn # ops) s =
     (case opn of
        Post e \<Rightarrow> (case post e s of None \<Rightarrow> None | Some s' \<Rightarrow> queue_run post get ops s')
      | Take \<Rightarrow> (case get s of None \<Rightarrow> None | Some (r, s') \<Rightarrow> map_option ((#) r) (queue_run post get ops s')))"

locale bounded_queue =
  fixes post :: "'e \<Rightarrow> 's \<Rightarrow> 's option"
    and get :: "'s \<Rightarrow> ('e option \<times> 's) option"
    and rel :: "'s \<Rightarrow> 'e list \<Rightarrow> bool"
    and good :: "'e \<Rightarrow> bool"
    and cap :: nat
  assumes post_rel: "rel s q \<Longrightarrow> good e \<Longrightarrow> length q < cap \<Longrightarrow> \<exists>s'. post e s = Some s' \<and> rel s' (q @ [e])"
    and get_empty: "rel s [] \<Longrightarrow> \<exists>s'. get s = Some (None, s') \<and> rel s' []"
    and get_head: "rel s (e # q) \<Longrightarrow> \<exists>s'. get s = Some (Some e, s') \<and> rel s' q"
begin

lemma run_refines: "rel s q \<Longrightarrow> within good cap ops (length q) \<Longrightarrow> queue_run post get ops s = Some (spec_run ops q)"
proof (induction ops q arbitrary: s rule: spec_run.induct)
  case (1 q)
  then show ?case by simp
next
  case (2 e ops q)
  then obtain s' where "post e s = Some s'" "rel s' (q @ [e])" using post_rel [OF 2(2), of e] by auto
  with 2 show ?case by simp
next
  case (3 ops)
  then obtain s' where "get s = Some (None, s')" "rel s' []" using get_empty by blast
  with 3 show ?case by simp
next
  case (4 ops e q)
  then obtain s' where "get s = Some (Some e, s')" "rel s' q" using get_head by blast
  with 4 show ?case by simp
qed

end

end
