(* ===== verification/Xhci_Events.thy ===== *)
theory Xhci_Events
  imports Xhci_Transfers Queues
begin

text \<open>
  The event ring of \<open>src/usb/xhci.c\<close> is a queue between controller and driver: the locale
  \<open>bounded_queue\<close> of \<open>Queues\<close>, interpreted on \<open>er_load\<close> and \<open>er_consume\<close>.
\<close>

section \<open>The event ring\<close>

text \<open>
  The controller's side of the ring as the driver assumes it: events go into the slots in turn, with
  the cycle bit of the lap, which flips at the end of the ring. An event is four dwords,
  the last with its type and bit 0 clear.
\<close>

type_synonym event = "u32 \<times> u32 \<times> u32 \<times> u32"

definition good_event :: "event \<Rightarrow> bool" where
  "good_event = (\<lambda>(a, b, c, t). t AND 1 = 0 \<and> t \<noteq> 0)"

definition event_words :: "u32 \<Rightarrow> event \<Rightarrow> u32 list" where
  "event_words cy = (\<lambda>(a, b, c, t). [a, b, c, t OR cy])"

definition er_post :: "event \<Rightarrow> 'h xhci \<times> nat \<times> u32 \<Rightarrow> ('h xhci \<times> nat \<times> u32) option" where
  "er_post e = (\<lambda>(x, i, pc). do {
     buf \<leftarrow> er_buffer x;
     buf \<leftarrow> blit buf (4 * i) (event_words pc e);
     Some (x\<lparr>er_buffer := Some buf\<rparr>, if i = 255 then (0, pc XOR 1) else (i + 1, pc)) })"

text \<open>One turn of the loops of the driver: an event is taken if there is one.\<close>

definition er_take :: "'h hc \<Rightarrow> 'h xhci \<times> nat \<times> u32 \<Rightarrow> (event option \<times> 'h xhci \<times> nat \<times> u32) option" where
  "er_take hc = (\<lambda>(x, p). do {
     ev \<leftarrow> er_load x;
     case ev of
       Some (dw0, dw1, dw2, dw3) \<Rightarrow> do { y \<leftarrow> er_consume hc x; Some (Some (dw0, dw1, dw2, dw3 AND NOT 1), y, p) }
     | None \<Rightarrow> Some (None, x, p) })"

definition ev_slot :: "'a list \<Rightarrow> nat \<Rightarrow> 'a list" where
  "ev_slot buf k = take 4 (drop (4 * k) buf)"

text \<open>Slot and cycle bit of the \<open>k\<close>-th event from the dequeue position on.\<close>

definition ev_pos :: "'h xhci \<Rightarrow> nat \<Rightarrow> nat" where
  "ev_pos x k = (unat (er_dequeue_idx x) + k) mod 256"

definition ev_cyc :: "'h xhci \<Rightarrow> nat \<Rightarrow> u32" where
  "ev_cyc x k = (if unat (er_dequeue_idx x) + k < 256 then er_expected_cycle x else er_expected_cycle x XOR 1)"

definition er_rel :: "'h xhci \<times> nat \<times> u32 \<Rightarrow> event list \<Rightarrow> bool" where
  "er_rel = (\<lambda>(x, i, pc) q. er_ok x \<and> (\<exists>buf. er_buffer x = Some buf \<and> length q \<le> 256 \<and> (\<forall>e \<in> set q. good_event e) \<and>
     i = ev_pos x (length q) \<and> pc = ev_cyc x (length q) \<and>
     (\<forall>k < 256. if k < length q then ev_slot buf (ev_pos x k) = event_words (ev_cyc x k) (q ! k) else ev_slot buf (ev_pos x k) ! 3 = 0)))"

lemma slot_blit:
  assumes "length buf = 1024" "i < 256" "k < 256" "length ws = 4"
  obtains buf' where "blit buf (4 * i) ws = Some buf'" "length buf' = 1024" "ev_slot buf' i = ws" "k \<noteq> i \<Longrightarrow> ev_slot buf' k = ev_slot buf k"
proof -
  let ?b = "take (4 * i) buf @ ws @ drop (4 * i + 4) buf"
  have s: "ev_slot ?b k = ev_slot buf k" if "k \<noteq> i"
  proof (cases "k < i")
    case True
    then show ?thesis using assms by (simp add: ev_slot_def take_drop min_def)
  next
    case False
    then have "4 * k = 4 * i + 4 + 4 * (k - i - 1)" using that by simp
    then obtain d where "4 * k = 4 * i + 4 + d" by blast
    then show ?thesis using assms by (simp add: ev_slot_def drop_drop add.commute)
  qed
  show ?thesis
  proof (rule that [of ?b])
    show "blit buf (4 * i) ws = Some ?b" using assms by (simp add: blit_def)
    show "length ?b = 1024" using assms by simp
    show "ev_slot ?b i = ws" using assms by (simp add: ev_slot_def)
  qed (rule s)
qed

lemma nth_slot: "j < 4 \<Longrightarrow> 4 * k + 4 \<le> length buf \<Longrightarrow> buf ! (k * 4 + j) = ev_slot buf k ! j"
  by (simp add: ev_slot_def mult.commute)

lemma er_ok_cycle: "er_ok x \<Longrightarrow> er_expected_cycle x AND 1 = er_expected_cycle x"
  by (auto simp: er_ok_def)

lemma event_visible:
  assumes "t AND 1 = 0" "t \<noteq> (0 :: u32)" "c \<in> {0, 1}"
  shows "t OR c \<noteq> 0" "(t OR c) AND 1 = c" "(t OR c) AND NOT 1 = t"
proof -
  have b: "bit t n \<Longrightarrow> n \<noteq> 0" for n using assms(1) by (metis and_one_eq bit_0 even_iff_mod_2_eq_zero)
  show "(t OR c) AND 1 = c" using assms(1,3) by (auto simp: bit.conj_disj_distrib2)
  show "(t OR c) AND NOT 1 = t" using assms(3)
    by (intro bit_word_eqI) (auto simp: bit_simps bit_1_iff dest: b)
  then show "t OR c \<noteq> 0" using assms(2) by auto
qed

lemma er_load_slot:
  assumes "er_ok x" "er_buffer x = Some b"
  shows "er_load x = Some (let s = ev_slot b (unat (er_dequeue_idx x)) in
    if s ! 3 \<noteq> 0 \<and> s ! 3 AND 1 = er_expected_cycle x then Some (s ! 0, s ! 1, s ! 2, s ! 3) else None)"
proof -
  have i: "unat (er_dequeue_idx x) < 256" "length b = 1024" using assms by (auto simp: er_ok_def word_less_nat_alt)
  note n = nth_slot [of _ "unat (er_dequeue_idx x)" b]
  show ?thesis
    using er_load_Some [OF assms] n [of 0] n [of 1] n [of 2] n [of 3] i er_ok_cycle [OF assms(1)]
    by (simp add: Let_def)
qed


lemma er_slots:
  assumes "er_ok x"
  shows "unat (er_dequeue_idx x) < 256" "er_buffer x = Some b \<Longrightarrow> length b = 1024" "er_expected_cycle x \<in> {0, 1}"
  using assms by (auto simp: er_ok_def word_less_nat_alt)

lemma wrap_facts:
  assumes "m < (511 :: nat)"
  shows "m mod 256 = 255 \<longleftrightarrow> m = 255" "Suc m mod 256 = (if m = 255 then 0 else m mod 256 + 1)"
    "m \<noteq> 255 \<Longrightarrow> (Suc m < 256) = (m < 256)"
proof -
  have "m mod 256 = (if m < 256 then m else m - 256)" using assms by (simp add: mod_if)
  then show "m mod 256 = 255 \<longleftrightarrow> m = 255" using assms by (simp split: if_splits)
  then show "Suc m mod 256 = (if m = 255 then 0 else m mod 256 + 1)" by (simp add: mod_Suc)
qed arith

lemma er_post_rel:
  assumes "er_rel s q" "good_event e" "length q < 256"
  shows "\<exists>s'. er_post e s = Some s' \<and> er_rel s' (q @ [e])"
proof -
  obtain x i pc where s: "s = (x, i, pc)" by (cases s)
  from assms(1) s obtain buf where ok: "er_ok x" and buf: "er_buffer x = Some buf" and q: "\<forall>e \<in> set q. good_event e"
    and ip: "i = ev_pos x (length q)" "pc = ev_cyc x (length q)"
    and sl: "\<forall>k < 256. if k < length q then ev_slot buf (ev_pos x k) = event_words (ev_cyc x k) (q ! k) else ev_slot buf (ev_pos x k) ! 3 = 0"
    by (auto simp: er_rel_def)
  note d = er_slots [OF ok]
  have i: "i < 256" "length buf = 1024" "length (event_words pc e) = 4"
    using ip d(2) [OF buf] by (auto simp: ev_pos_def event_words_def split: prod.splits)
  obtain buf' where b: "blit buf (4 * i) (event_words pc e) = Some buf'" "length buf' = 1024" "ev_slot buf' i = event_words pc e"
    using slot_blit [OF i(2,1,1,3)] .
  have other: "ev_slot buf' k = ev_slot buf k" if "k < 256" "k \<noteq> i" for k
    using slot_blit [OF i(2,1) that(1) i(3)] b(1) that(2) by (metis option.inject)
  define y where "y = x\<lparr>er_buffer := Some buf'\<rparr>"
  have y: "er_ok y" "ev_pos y = ev_pos x" "ev_cyc y = ev_cyc x" using ok b(2) by (simp_all add: y_def er_ok_def ev_pos_def ev_cyc_def fun_eq_iff)
  have nxt: "(if i = 255 then (0, pc XOR 1) else (i + 1, pc)) = (ev_pos x (length (q @ [e])), ev_cyc x (length (q @ [e])))"
  proof -
    define m where "m = unat (er_dequeue_idx x) + length q"
    have m: "m < 511" using d(1) assms(3) by (simp add: m_def)
    note w = wrap_facts [OF m]
    have ii: "i = m mod 256" "pc = (if m < 256 then er_expected_cycle x else er_expected_cycle x XOR 1)"
      using ip by (simp_all only: m_def ev_pos_def ev_cyc_def)
    have pc': "ev_pos x (length (q @ [e])) = Suc m mod 256"
      "ev_cyc x (length (q @ [e])) = (if Suc m < 256 then er_expected_cycle x else er_expected_cycle x XOR 1)"
      by (simp_all add: ev_pos_def ev_cyc_def m_def)
    show ?thesis
    proof (cases "m = 255")
      case True
      then show ?thesis unfolding ii pc' by simp
    next
      case False
      then show ?thesis unfolding ii pc' using w(1,2) w(3) [OF False] by (simp only: if_False if_not_P Suc_eq_plus1)
    qed
  qed
  have inj: "ev_pos x k = i \<longleftrightarrow> k = length q" if "k < 256" for k
    using slot_inj [OF d(1) that assms(3)] ip(1) by (simp add: ev_pos_def)
  have "\<forall>k < 256. if k < length (q @ [e]) then ev_slot buf' (ev_pos y k) = event_words (ev_cyc y k) ((q @ [e]) ! k) else ev_slot buf' (ev_pos y k) ! 3 = 0"
  proof (intro allI impI)
    fix k :: nat
    assume k: "k < 256"
    have p: "ev_pos x k < 256" by (simp add: ev_pos_def)
    show "if k < length (q @ [e]) then ev_slot buf' (ev_pos y k) = event_words (ev_cyc y k) ((q @ [e]) ! k) else ev_slot buf' (ev_pos y k) ! 3 = 0"
    proof (cases "k = length q")
      case True
      with inj [OF k] b(3) ip(2) y show ?thesis by simp
    next
      case False
      with inj [OF k] other [OF p] have "ev_slot buf' (ev_pos y k) = ev_slot buf (ev_pos x k)" by (simp add: y)
      with sl [rule_format, OF k] False y(3) show ?thesis by (auto simp: nth_append)
    qed
  qed
  then have "er_rel (y, ev_pos x (length (q @ [e])), ev_cyc x (length (q @ [e]))) (q @ [e])"
    unfolding er_rel_def prod.case using y q assms(2,3)
    by (intro conjI exI [of _ buf']) (simp_all add: y_def)
  moreover have "er_post e s = Some (y, ev_pos x (length (q @ [e])), ev_cyc x (length (q @ [e])))"
    using buf b(1) nxt by (simp add: er_post_def s y_def)
  ultimately show ?thesis by blast
qed

lemma er_take_empty:
  assumes "er_rel s []"
  shows "\<exists>s'. er_take hc s = Some (None, s') \<and> er_rel s' []"
proof -
  obtain x i pc where s: "s = (x, i, pc)" by (cases s)
  with assms obtain buf where ok: "er_ok x" and buf: "er_buffer x = Some buf" and z: "ev_slot buf (ev_pos x 0) ! 3 = 0"
    by (auto simp: er_rel_def)
  have "ev_pos x 0 = unat (er_dequeue_idx x)" using er_slots(1) [OF ok] by (simp add: ev_pos_def)
  with z er_load_slot [OF ok buf] have "er_load x = Some None" by (simp add: Let_def)
  with assms show ?thesis by (simp add: er_take_def s)
qed

lemma er_consume_exact:
  assumes "er_ok x" "er_buffer x = Some b"
  obtains y where "er_consume hc x = Some y" "er_buffer y = er_buffer (er_next b x)"
    "er_dequeue_idx y = er_dequeue_idx (er_next b x)" "er_expected_cycle y = er_expected_cycle (er_next b x)"
proof -
  have i: "unat (er_dequeue_idx x) < 256" "length b = 1024" using er_slots [OF assms(1)] assms(2) by auto
  have m: "unat (er_dequeue_idx x * 4) = unat (er_dequeue_idx x) * 4"
    using dequeue_index [of "er_dequeue_idx x" 0] assms(1) by (simp add: er_ok_def)
  have b: "blit b (unat (er_dequeue_idx x * 4)) [0, 0, 0, 0] =
      Some (take (unat (er_dequeue_idx x) * 4) b @ [0, 0, 0, 0] @ drop (unat (er_dequeue_idx x) * 4 + 4) b)"
    using i by (simp add: blit_def m eval_nat_numeral)
  have w: "(256 \<le> er_dequeue_idx x + 1) = (unat (er_dequeue_idx x) = 255)"
    using i(1) by (auto simp: word_le_nat_alt unat_word_ariths)
  show ?thesis
    by (rule that, simp add: er_consume_def assms(2) b Let_def) (simp_all add: w er_next_def Let_def xhci_op_write32_def)
qed

lemma er_take_head:
  assumes "er_rel s (e # q)"
  shows "\<exists>s'. er_take hc s = Some (Some e, s') \<and> er_rel s' q"
proof -
  obtain x i pc where s: "s = (x, i, pc)" by (cases s)
  obtain a b c t where e: "e = (a, b, c, t)" by (cases e)
  from assms s obtain buf where ok: "er_ok x" and buf: "er_buffer x = Some buf" and q: "\<forall>e \<in> set (e # q). good_event e"
    and lq: "length (e # q) \<le> 256" and ip: "i = ev_pos x (Suc (length q))" "pc = ev_cyc x (Suc (length q))"
    and sl: "\<forall>k < 256. if k < length (e # q) then ev_slot buf (ev_pos x k) = event_words (ev_cyc x k) ((e # q) ! k) else ev_slot buf (ev_pos x k) ! 3 = 0"
    by (auto simp: er_rel_def)
  note d = er_slots [OF ok]
  have p0: "ev_pos x 0 = unat (er_dequeue_idx x)" "ev_cyc x 0 = er_expected_cycle x" using d(1) by (simp_all add: ev_pos_def ev_cyc_def)
  have s0: "ev_slot buf (unat (er_dequeue_idx x)) = [a, b, c, t OR er_expected_cycle x]"
    using sl [rule_format, of 0] by (simp add: p0 e event_words_def)
  have t: "t AND 1 = 0" "t \<noteq> 0" using q by (auto simp: e good_event_def)
  have ld: "er_load x = Some (Some (a, b, c, t OR er_expected_cycle x))"
    using er_load_slot [OF ok buf] event_visible [OF t d(3)] by (simp add: s0 Let_def)
  obtain y where y: "er_consume hc x = Some y" "er_buffer y = er_buffer (er_next buf x)"
    "er_dequeue_idx y = er_dequeue_idx (er_next buf x)" "er_expected_cycle y = er_expected_cycle (er_next buf x)"
    using er_consume_exact [OF ok buf] .
  define buf' where "buf' = take (4 * unat (er_dequeue_idx x)) buf @ [0, 0, 0, 0] @ drop (4 * unat (er_dequeue_idx x) + 4) buf"
  have b': "er_buffer y = Some buf'" by (simp add: y(2) er_next_def Let_def buf'_def mult.commute)
  have yok: "er_ok y" using er_next_facts(1) [OF ok buf] y(2-4) by (simp add: er_ok_def)
  have bl: "blit buf (4 * unat (er_dequeue_idx x)) [0, 0, 0, 0] = Some buf'"
    using d(1) d(2) [OF buf] by (simp add: blit_def buf'_def eval_nat_numeral)
  have l4: "length [0, 0, 0, 0 :: u32] = 4" by simp
  have z: "ev_slot buf' (unat (er_dequeue_idx x)) = [0, 0, 0, 0]"
    using slot_blit [OF d(2) [OF buf] d(1) d(1) l4] bl by (metis option.inject)
  have other: "ev_slot buf' k = ev_slot buf k" if "k < 256" "k \<noteq> unat (er_dequeue_idx x)" for k
    using slot_blit [OF d(2) [OF buf] d(1) that(1) l4] bl that(2) by (metis option.inject)
  have dq: "unat (er_dequeue_idx y) = (if unat (er_dequeue_idx x) = 255 then 0 else unat (er_dequeue_idx x) + 1)"
      "er_expected_cycle y = (if unat (er_dequeue_idx x) = 255 then er_expected_cycle x XOR 1 else er_expected_cycle x)"
    using y(3,4) d(1) by (auto simp: er_next_def Let_def unat_word_ariths)
  have py: "ev_pos y k = ev_pos x (Suc k)" for k
    using d(1) by (auto simp: ev_pos_def dq mod_Suc_eq)
  have cy: "ev_cyc y k = ev_cyc x (Suc k)" if "k < 256" for k
    using d(1) that by (auto simp: ev_cyc_def dq)
  have "\<forall>k < 256. if k < length q then ev_slot buf' (ev_pos y k) = event_words (ev_cyc y k) (q ! k) else ev_slot buf' (ev_pos y k) ! 3 = 0"
  proof (intro allI impI)
    fix k :: nat
    assume k: "k < 256"
    show "if k < length q then ev_slot buf' (ev_pos y k) = event_words (ev_cyc y k) (q ! k) else ev_slot buf' (ev_pos y k) ! 3 = 0"
    proof (cases "k = 255")
      case True
      then have "ev_pos y k = unat (er_dequeue_idx x)" using d(1) unfolding py by (simp add: ev_pos_def)
      with z True lq show ?thesis by simp
    next
      case False
      then have k': "Suc k < 256" using k by simp
      have "ev_pos x (Suc k) \<noteq> unat (er_dequeue_idx x)"
        using slot_inj [OF d(1) k', of 0] d(1) by (simp add: ev_pos_def)
      then have "ev_slot buf' (ev_pos y k) = ev_slot buf (ev_pos x (Suc k))" using other [of "ev_pos x (Suc k)"] by (simp add: py) (simp add: ev_pos_def)
      with sl [rule_format, OF k'] cy [OF k] show ?thesis by simp
    qed
  qed
  moreover have "i = ev_pos y (length q)" "pc = ev_cyc y (length q)" using ip py cy lq by simp_all
  ultimately have "er_rel (y, i, pc) q" using yok b' q lq by (auto simp: er_rel_def)
  moreover have "er_take hc s = Some (Some e, y, i, pc)"
    using ld y(1) event_visible(3) [OF t d(3)] by (simp add: er_take_def s e)
  ultimately show ?thesis by blast
qed

interpretation evq: bounded_queue er_post "er_take hc" er_rel good_event 256
  for hc :: "'h hc"
  by unfold_locales (use er_post_rel er_take_empty er_take_head in blast)+

lemma fresh_event_ring:
  assumes "er_ok x" "er_buffer x = Some (replicate 1024 0)"
  shows "er_rel (x, unat (er_dequeue_idx x), er_expected_cycle x) []"
proof -
  have "ev_slot (replicate 1024 (0 :: u32)) (ev_pos x k) ! 3 = 0" for k
  proof -
    have "ev_pos x k < 256" by (simp add: ev_pos_def)
    then show ?thesis by (simp add: ev_slot_def)
  qed
  with assms er_slots(1) [OF assms(1)] show ?thesis by (simp add: er_rel_def ev_pos_def ev_cyc_def)
qed

text \<open>C4: The event ring is a queue of 256 events: however the controller's posts and the driver's
  looks at the ring are interleaved, for any number of laps, each event is taken exactly once, in
  order, and an empty ring shows no event.\<close>

theorem event_ring_is_queue:
  assumes "er_ok x" "er_buffer x = Some (replicate 1024 0)" "within good_event 256 ops 0"
  shows "queue_run er_post (er_take hc) ops (x, unat (er_dequeue_idx x), er_expected_cycle x) = Some (spec_run ops [])"
  by (rule evq.run_refines [OF fresh_event_ring [OF assms(1,2)]]) (simp add: assms(3))

lemma event_ring_is_queue_witness:
  "queue_run er_post (er_take hc_idle)
      [Take, Post (0x1000, 0, push_bit 24 1, 0x8400), Post (0x2000, 0, 0, 0x8000), Take, Take, Take]
      (xhci_demo\<lparr>er_buffer := Some (replicate 1024 0)\<rparr>, unat (er_dequeue_idx (xhci_demo\<lparr>er_buffer := Some (replicate 1024 0)\<rparr>)),
       er_expected_cycle (xhci_demo\<lparr>er_buffer := Some (replicate 1024 0)\<rparr>)) =
    Some (spec_run [Take, Post (0x1000, 0, push_bit 24 1, 0x8400), Post (0x2000, 0, 0, 0x8000), Take, Take, Take] [])"
proof (rule event_ring_is_queue)
  show "er_ok (xhci_demo\<lparr>er_buffer := Some (replicate 1024 0)\<rparr>)"
    using xhci_demo_facts(1) by (simp add: xhci_ok_def er_ok_def)
qed (simp_all add: good_event_def)

end
