(* ===== verification/Xhci_Probe.thy ===== *)
theory Xhci_Probe
  imports Xhci_Transfers
begin

text \<open>
  The scan of a configuration descriptor, the probe of the PCI buses and the registers of
  \<open>src/usb/xhci.c\<close>, for a controller that keeps in a register what is written to it.
\<close>

section \<open>Configuration descriptors\<close>

definition desc_ok :: "bytes \<Rightarrow> bool" where
  "desc_ok d \<longleftrightarrow> 2 \<le> length d \<and> length d < 256 \<and> d ! 0 = word_of_nat (length d) \<and> (d ! 1 = 4 \<longrightarrow> 9 \<le> length d)"

definition net_desc :: "bytes \<Rightarrow> bool" where
  "net_desc d \<longleftrightarrow> d ! 1 = 4 \<and> net_class (d ! 5)"

lemma config_scan_end: "length full < off + 2 \<Longrightarrow> config_scan full off f = Some f"
  by (subst config_scan.simps) simp

lemma config_scan_step:
  assumes "desc_ok d"
  shows "config_scan (p @ d @ r) (length p) f = config_scan (p @ d @ r) (length p + length d) (f \<or> net_desc d)"
proof -
  have d: "2 \<le> length d" "d ! 0 = word_of_nat (length d)" "unat (d ! 0) = length d" "d ! 1 = 4 \<Longrightarrow> 9 \<le> length d"
    using assms by (simp_all add: desc_ok_def unat_of_nat)
  have n: "ld8 (p @ d @ r) (length p + j) = Some (d ! j)" if "j < length d" for j
    using that by (simp add: ld8_def nth_append)
  have g: "\<not> d ! 0 < 2" using d(1,3) by (simp add: word_less_nat_alt)
  have b9: "d ! 1 = 4 \<Longrightarrow> 9 \<le> d ! 0" using d(3,4) by (simp add: word_le_nat_alt)
  have e: "(if length p + length d \<ge> length (p @ d @ r) then Some x else config_scan (p @ d @ r) (length p + length d) x) =
      config_scan (p @ d @ r) (length p + length d) x" for x
    by (simp add: config_scan_end)
  have fnd: "(if d ! 1 = 4 \<and> 9 \<le> d ! 0 then do {
       if_class \<leftarrow> ld8 (p @ d @ r) (length p + 5);
       if_sub \<leftarrow> ld8 (p @ d @ r) (length p + 6);
       if_proto \<leftarrow> ld8 (p @ d @ r) (length p + 7);
       Some (f \<or> net_class if_class) } else Some f) = Some (f \<or> net_desc d)"
  proof (cases "d ! 1 = 4")
    case True
    then show ?thesis using d(4) b9 n [of 5] n [of 6] n [of 7] by (simp add: net_desc_def)
  next
    case False
    then show ?thesis by (simp add: net_desc_def)
  qed
  have "d \<noteq> []" using d(1) by auto
  then have l0: "ld8 (p @ d @ r) (length p) = Some (d ! 0)" using n [of 0] by simp
  have l1: "ld8 (p @ d @ r) (length p + 1) = Some (d ! 1)" by (rule n) (use d(1) in simp)
  show ?thesis
    by (subst config_scan.simps)
      (simp only: l0 l1 bind.simps g if_False fnd d(3) e, use d(1) in simp)
qed

lemma config_scan_all:
  "\<forall>d \<in> set ds. desc_ok d \<Longrightarrow>
    config_scan (p @ concat ds @ r) (length p) f = config_scan (p @ concat ds @ r) (length p + length (concat ds)) (f \<or> (\<exists>d \<in> set ds. net_desc d))"
proof (induction ds arbitrary: p f)
  case Nil
  then show ?case by simp
next
  case (Cons d ds)
  have "config_scan (p @ concat (d # ds) @ r) (length p) f = config_scan ((p @ d) @ concat ds @ r) (length (p @ d)) (f \<or> net_desc d)"
    using config_scan_step [of d p "concat ds @ r" f] Cons.prems by simp
  also have "\<dots> = config_scan ((p @ d) @ concat ds @ r) (length (p @ d) + length (concat ds)) ((f \<or> net_desc d) \<or> (\<exists>d \<in> set ds. net_desc d))"
    using Cons.prems by (intro Cons.IH) simp
  finally show ?case by (simp add: add.assoc disj_assoc)
qed

text \<open>C29: The walk over a well-formed configuration descriptor ends and finds a network-capable
  interface if and only if one of its interface descriptors has a class that may be one.\<close>

theorem config_scan_finds_network:
  assumes "\<forall>d \<in> set ds. desc_ok d"
  shows "config_scan (concat ds) 0 False = Some (\<exists>d \<in> set ds. net_desc d)"
  using config_scan_all [OF assms, of "[]" "[]" False] by (simp add: config_scan_end)

lemma config_scan_finds_network_witness:
  "config_scan (concat [[9, 2, 23, 0, 1, 1, 0, 0x80, 50], [9, 4, 0, 0, 1, 0x02, 2, 1, 0], [5, 0x24, 0, 0x10, 1]]) 0 False =
    Some (\<exists>d \<in> set [[9, 2, 23, 0, 1, 1, 0, 0x80, 50], [9, 4, 0, 0, 1, 0x02, 2, 1, 0], [5, 0x24, 0, 0x10, 1]]. net_desc d)"
  by (rule config_scan_finds_network) (simp add: desc_ok_def)

lemma config_scan_cut:
  assumes "\<forall>d \<in> set ds. desc_ok d" "9 \<le> b"
  shows "config_scan (concat ds @ [b, 4]) 0 False = None"
proof -
  have "\<not> b < 2" using assms(2) by (simp add: word_le_nat_alt word_less_nat_alt)
  then have "config_scan (concat ds @ [b, 4]) (length (concat ds)) f = None" for f
    using assms(2) by (subst config_scan.simps) (simp add: ld8_def nth_append)
  with config_scan_all [OF assms(1), of "[]" "[b, 4]" False] show ?thesis by simp
qed

section \<open>Probing\<close>

lemma probe_never:
  assumes "\<forall>bus slot func. \<not> xhci_match (x_pci x) bus slot func"
  shows "xhci_probe hc x = None"
proof -
  have "scan_funcs (xhci_match (x_pci x)) (x_pci x) bus slot fs = None" for bus slot fs
    using scan_funcs_Some assms by (metis option.exhaust)
  then have "\<forall>b. \<not> bus_hit (xhci_match (x_pci x)) (x_pci x) b"
    by (simp add: bus_hit_def scan_slots_None)
  from scan_buses_never [OF this] show ?thesis by (simp add: xhci_probe_def)
qed

text \<open>Without a serial bus controller of the USB subclass on any bus the probe, the first thing
  the kernel does, never returns: its counter of the buses has 8 bits and wraps around.\<close>

theorem xhci_probe_never_returns:
  assumes "\<forall>bus slot func. \<not> xhci_match (x_pci x) bus slot func"
  shows "xhci_probe hc x = None"
  by (rule probe_never [OF assms])

lemma xhci_probe_never_returns_witness: "xhci_probe hc_idle xhci_demo = None"
  by (rule xhci_probe_never_returns)
    (simp add: xhci_match_def pci_config_read8_def pci_config_read32_def xhci_demo_def xhci_boot_def Let_def)

section \<open>A controller that keeps its registers\<close>

text \<open>Registers hold what is written to them; stores into memory and their times are arbitrary.\<close>

definition hc_regs :: "(nat \<Rightarrow> (nat \<times> u32) list \<times> (nat \<times> u8) list) \<Rightarrow> ((loc \<Rightarrow> u32) \<times> nat) hc" where
  "hc_regs dma = \<lparr>hc_read = (\<lambda>l h. (fst h l, h)), hc_read8 = (\<lambda>p h. (ucast (fst h (Mem p)), h)),
     hc_write = (\<lambda>l v h. ((fst h)(l := v), snd h)), hc_run = (\<lambda>h. (fst (dma (snd h)), snd (dma (snd h)), (fst h, Suc (snd h))))\<rparr>"

lemma regs_simps:
  "fst (x_hw (xhci_op_write32 (hc_regs dma) off v x)) = (fst (x_hw x))(op_loc off x := v)"
  "fst (x_hw (peek (hc_regs dma) off x)) = fst (x_hw x)"
  "fst (x_hw (x_delay (hc_regs dma) x)) = fst (x_hw x)"
  by (simp_all add: xhci_op_write32_def peek_def xhci_op_read32_def x_delay_def hc_regs_def Let_def)

lemma same_loc: "same x y \<Longrightarrow> op_loc off y = op_loc off x" "same x y \<Longrightarrow> erdp_low y = erdp_low x" "same x y \<Longrightarrow> erdp y = erdp x"
  by (auto simp: same_def op_loc_def erdp_low_def erdp_def)

lemma ucast_add_16: "(ucast (b + c :: u32) :: u16) = ucast b + ucast c"
  by transfer (subst (2) take_bit_add [symmetric], simp add: take_bit_add)

lemma op_loc_apart: "op_loc 0x30 x \<noteq> op_loc 0x34 x" "op_loc 0x30 x \<noteq> op_loc 0x38 x" "op_loc 0x30 x \<noteq> op_loc 0x3C x"
proof -
  have "(ucast (b + 0x30) :: u16) = ucast b + 0x30" "(ucast (b + 0x34) :: u16) = ucast b + 0x34"
    "(ucast (b + 0x38) :: u16) = ucast b + 0x38" "(ucast (b + 0x3C) :: u16) = ucast b + 0x3C" for b :: u32
    by (simp_all add: ucast_add_16)
  then show "op_loc 0x30 x \<noteq> op_loc 0x34 x" "op_loc 0x30 x \<noteq> op_loc 0x38 x" "op_loc 0x30 x \<noteq> op_loc 0x3C x"
    by (simp_all add: op_loc_def)
qed


lemma probe_regs:
  fixes dma :: "nat \<Rightarrow> (nat \<times> u32) list \<times> (nat \<times> u8) list"
  assumes "off \<in> {0x30, 0x38}"
  shows "fst (x_hw (probe_erdp (hc_regs dma) off x)) (op_loc 0x30 x) =
    (if off = 0x30 then erdp_low x else fst (x_hw x) (op_loc 0x30 x))"
proof -
  define hc where "hc = hc_regs dma"
  define x1 where "x1 = xhci_op_write32 hc off (lo32 (erdp x) AND NOT 1) x"
  define x2 where "x2 = x_delay hc (xhci_op_write32 hc (off + 4) (hi32 (erdp x1)) x1)"
  define x3 where "x3 = peek hc (off + 4) (peek hc off x2)"
  have s: "same x x1" "same x x2" "same x x3" unfolding x3_def x2_def x1_def by (intro same_intros)+
  have e: "probe_erdp hc off x = peek hc (off + 4) (peek hc off (x_delay hc (xhci_op_write32 hc off (erdp_low x3) x3)))"
    unfolding probe_erdp_def Let_def x1_def [symmetric] x2_def [symmetric] x3_def [symmetric] by (rule refl)
  note r = regs_simps [where dma = dma, folded hc_def]
  have "op_loc (off + 4) x1 = op_loc (off + 4) x" by (rule same_loc(1) [OF s(1)])
  then have h3: "fst (x_hw x3) = (fst (x_hw x))(op_loc off x := lo32 (erdp x) AND NOT 1, op_loc (off + 4) x := hi32 (erdp x1))"
    by (simp add: x3_def x2_def r) (simp add: x1_def r)
  have "fst (x_hw (probe_erdp hc off x)) = (fst (x_hw x3))(op_loc off x := erdp_low x)"
    by (simp add: e r same_loc(1) [OF s(3)] same_loc(2) [OF s(3)])
  then show ?thesis
    using assms op_loc_apart [of x] unfolding hc_def [symmetric] h3 by (elim insertE emptyE) simp_all
qed

text \<open>Programming the event ring overwrites the register at 0x30, which by the driver's own
  comment holds the pointer to the context array and which the submission has just written: with
  registers that keep their values it ends up with the dequeue pointer of the event ring.\<close>

theorem event_ring_overwrites_dcbaap:
  assumes "er_buffer x \<noteq> None" "erst x \<noteq> None"
  shows "fst (x_hw (snd (xhci_program_event_ring (hc_regs dma) x))) (op_loc 0x30 x) = erdp_low x"
proof -
  define hc where "hc = hc_regs dma"
  define x1 where "x1 = er_sweep hc sweep_bases (fold (\<lambda>k. peek hc (4 * word_of_nat k)) [0..<256] x)"
  define x2 where "x2 = probe_erdp hc 0x30 x1"
  have "same x (fold (\<lambda>k. peek hc (4 * word_of_nat k)) [0..<256] x)"
    by (rule same_fold) (intro same_peek' same_refl | assumption)+
  then have s: "same x x1" "same x x2" unfolding x2_def x1_def by (intro same_probe same_sweep; assumption)+
  have "snd (xhci_program_event_ring hc x) = probe_erdp hc 0x38 x2"
    using assms by (auto simp: xhci_program_event_ring_def x1_def x2_def Let_def)
  moreover have "fst (x_hw (probe_erdp hc 0x38 x2)) (op_loc 0x30 x) = fst (x_hw x2) (op_loc 0x30 x)"
    using probe_regs [where off = "0x38" and dma = dma and x = x2] same_loc(1) [OF s(2)] by (simp add: hc_def)
  moreover have "fst (x_hw x2) (op_loc 0x30 x) = erdp_low x"
    using probe_regs [where off = "0x30" and dma = dma and x = x1] same_loc [OF s(1)] by (simp add: hc_def x2_def)
  ultimately show ?thesis by (simp add: hc_def)
qed

definition xhci_regs_demo :: "((loc \<Rightarrow> u32) \<times> nat) xhci" where
  "xhci_regs_demo = snd (xhci_init_event_ring (xhci_boot (\<lambda>_. 0) (\<lambda>_. 0) heap_start (\<lambda>_. 0, 0)))"

lemma event_ring_overwrites_dcbaap_witness:
  "fst (x_hw (snd (xhci_program_event_ring (hc_regs (\<lambda>_. ([], []))) xhci_regs_demo))) (op_loc 0x30 xhci_regs_demo) = erdp_low xhci_regs_demo"
  by (rule event_ring_overwrites_dcbaap)
    (simp_all add: xhci_regs_demo_def xhci_init_event_ring_def xhci_boot_def kmalloc_def heap_start_def round16_def Let_def)

end
