(* ===== verification/Xhci_Silent.thy ===== *)
theory Xhci_Silent
  imports Xhci_Events Xhci_Probe
begin

text \<open>
  The driver of \<open>src/usb/xhci.c\<close> with a controller that never stores an event: every wait runs out,
  and enumeration fails.
\<close>

section \<open>A controller that never answers\<close>

text \<open>It stores nothing in the event ring, whatever its registers read and whatever it does to buffers.\<close>

definition silent :: "'h hc \<Rightarrow> bool" where
  "silent hc \<longleftrightarrow> (\<forall>h. fst (hc_run hc h) = [])"

definition blank_ring :: "'h xhci \<Rightarrow> bool" where
  "blank_ring x \<longleftrightarrow> (case er_buffer x of None \<Rightarrow> True | Some b \<Rightarrow> b = replicate 1024 0)"

named_theorems still \<open>what leaves the contents of the event ring alone\<close>

lemma still_write [still]: "er_buffer (xhci_op_write32 hc off v x) = er_buffer x"
  by (simp add: xhci_op_write32_def)

lemma still_read [still]: "er_buffer (snd (xhci_op_read32 hc off x)) = er_buffer x"
  by (simp add: xhci_op_read32_def Let_def split_def)

lemma still_peek [still]: "er_buffer (peek hc off x) = er_buffer x"
  by (simp add: peek_def still)

lemma still_delay [still]: "silent hc \<Longrightarrow> er_buffer (x_delay hc x) = er_buffer x"
  by (cases "er_buffer x") (simp_all add: x_delay_def silent_def dma_stores_def Let_def split_def)

lemma still_write64 [still]: "er_buffer (xhci_op_write64 hc off v x) = er_buffer x"
  by (simp add: xhci_op_write64_def still)

lemma still_bell [still]: "er_buffer (xhci_ring_doorbell hc i v x) = er_buffer x"
  by (simp add: xhci_ring_doorbell_def still)

lemma still_start [still]: "er_buffer (start_controller hc x) = er_buffer x"
  by (simp add: start_controller_def split_def Let_def still)

lemma still_try [still]: "silent hc \<Longrightarrow> er_buffer (snd (try_base hc B x)) = er_buffer x"
  by (simp add: try_base_def split_def Let_def still)

lemma still_enable [still]: "silent hc \<Longrightarrow> er_buffer (enable_base hc B x) = er_buffer x"
  by (simp add: enable_base_def Let_def still)

lemma still_fallback [still]: "silent hc \<Longrightarrow> er_buffer (fallback_base hc x) = er_buffer x"
  by (simp add: fallback_base_def Let_def still)

lemma still_probe [still]: "silent hc \<Longrightarrow> er_buffer (probe_erdp hc off x) = er_buffer x"
  by (simp add: probe_erdp_def Let_def still)

lemma still_sweep [still]: "silent hc \<Longrightarrow> er_buffer (er_sweep hc Bs x) = er_buffer x"
  by (induction Bs arbitrary: x) (simp_all add: split_def Let_def still)

lemma still_fold: "(\<And>i x. er_buffer (f i x) = er_buffer x) \<Longrightarrow> er_buffer (fold f is x) = er_buffer x"
  by (induction "is" arbitrary: x) simp_all

lemma still_program [still]: "silent hc \<Longrightarrow> er_buffer (snd (xhci_program_event_ring hc x)) = er_buffer x"
  by (simp add: xhci_program_event_ring_def Let_def still still_fold)

lemma blank_init [still]: "blank_ring x \<Longrightarrow> blank_ring (snd (xhci_init_event_ring x))"
  by (auto simp: xhci_init_event_ring_def blank_ring_def kmalloc_def Let_def)

lemma blank_load:
  assumes "er_ok x" "er_buffer x \<noteq> None" "blank_ring x"
  shows "er_load x = Some None"
proof -
  obtain b where b: "er_buffer x = Some b" "b = replicate 1024 0" using assms(2,3) by (auto simp: blank_ring_def)
  with er_load_Some [OF assms(1) b(1)] er_slots(1) [OF assms(1)] show ?thesis by (simp add: Let_def)
qed

lemma blank_cong: "er_buffer y = er_buffer x \<Longrightarrow> blank_ring y = blank_ring x"
  by (simp add: blank_ring_def)

lemma silent_poll_loop:
  assumes "silent hc" "er_ok x" "er_buffer x \<noteq> None" "blank_ring x"
  shows "\<exists>y. poll_loop hc k data u n dir_in x = Some (-1, u, y)"
  using assms(2-)
proof (induction k arbitrary: x)
  case 0
  then show ?case by simp
next
  case (Suc k)
  have d: "same x (x_delay hc x)" by (intro same_intros)
  have "er_buffer (x_delay hc x) = er_buffer x" using assms(1) by (rule still)
  with Suc same_ok(2) [OF d] blank_load [OF Suc.prems] show ?case by (auto simp: blank_ring_def)
qed

lemma silent_wait_loop:
  assumes "silent hc" "er_ok x" "er_buffer x \<noteq> None" "blank_ring x"
  shows "\<exists>y. wait_loop hc k x = Some (-1, None, y) \<and> same x y \<and> er_buffer y = er_buffer x"
  using assms(2-)
proof (induction k arbitrary: x)
  case 0
  then show ?case by (simp add: same_refl)
next
  case (Suc k)
  have d: "same x (x_delay hc x)" by (intro same_intros)
  have e: "er_buffer (x_delay hc x) = er_buffer x" using assms(1) by (rule still)
  then obtain y where "wait_loop hc k (x_delay hc x) = Some (-1, None, y)" "same (x_delay hc x) y" "er_buffer y = er_buffer (x_delay hc x)"
    using Suc.IH [of "x_delay hc x"] Suc.prems same_ok(2) [OF d] by (auto simp: blank_ring_def)
  with e same_trans [OF d] blank_load [OF Suc.prems] show ?case by auto
qed

lemma silent_wait:
  assumes "silent hc" "er_ok x" "blank_ring x"
  shows "\<exists>y. xhci_wait_for_command_completion hc ms x = Some (-1, None, y) \<and> same x y \<and> er_buffer y = er_buffer x"
  using assms silent_wait_loop [OF assms(1,2)] by (auto simp: xhci_wait_for_command_completion_def same_refl)

lemma silent_attempts:
  assumes "silent hc"
  shows "er_ok x \<Longrightarrow> blank_ring x \<Longrightarrow> \<exists>y. slot_attempts hc a x = Some (None, y) \<and> same x y \<and> er_buffer y = er_buffer x"
proof (induction a arbitrary: x)
  case 0
  then show ?case by (simp add: same_refl)
next
  case (Suc a)
  obtain y where y: "xhci_wait_for_command_completion hc 2000 x = Some (-1, None, y)" "same x y" "er_buffer y = er_buffer x"
    using silent_wait [OF assms Suc.prems] by blast
  have d: "same x (x_delay hc y)" using y(2) by (intro same_intros)
  have e: "er_buffer (x_delay hc y) = er_buffer x" using still_delay [OF assms, of y] y(3) by simp
  obtain z where "slot_attempts hc a (x_delay hc y) = Some (None, z)" "same (x_delay hc y) z" "er_buffer z = er_buffer (x_delay hc y)"
    using Suc.IH [of "x_delay hc y"] same_ok(2) [OF d] blank_cong [OF e] Suc.prems by auto
  with y e same_trans [OF d] show ?case by auto
qed


lemma silent_run_enable:
  assumes "silent hc" "xhci_ok x" "blank_ring x"
  shows "\<exists>y. run_enable_slot hc x = Some (-1, y) \<and> blank_ring y"
proof -
  define x1 where "x1 = snd (xhci_init_event_ring (start_controller hc x))"
  define x2 where "x2 = snd (xhci_program_event_ring hc x1)"
  have s0: "same x (start_controller hc x)" by (intro same_intros)
  have s2: "same x1 x2" unfolding x2_def by (intro same_intros)
  have ok2: "xhci_ok x2" using init_event_ring_ok same_ok(4) s0 s2 assms(2) unfolding x1_def by blast
  have b2: "blank_ring x2" unfolding x2_def blank_cong [OF still_program [OF assms(1)]] x1_def
    by (rule blank_init) (use assms(3) blank_cong [OF still_start] in blast)
  define x3 where "x3 = xhci_ring_doorbell hc 0 0 (x_delay hc (peek hc 0x04 (peek hc 0x1C (peek hc 0x18
    (xhci_op_write64 hc 0x18 (ucast (cmd_ring_phys x2) OR 1) x2)))))"
  have s3: "same x2 x3" unfolding x3_def by (intro same_intros)
  have b3: "er_buffer x3 = er_buffer x2" unfolding x3_def using assms(1) by (simp add: still)
  obtain x4 where x4: "slot_attempts hc 3 x3 = Some (None, x4)" "same x3 x4" "er_buffer x4 = er_buffer x3"
    using silent_attempts [OF assms(1), of x3 3] same_ok(4) [OF s3] ok2 b2 blank_cong [OF b3] by (auto simp: xhci_ok_def)
  define x5 where "x5 = x_delay hc (xhci_op_write32 hc 0x1C (hi32 (ucast (cmd_ring_phys x4))) (xhci_op_write32 hc 0x18 (lo32 (ucast (cmd_ring_phys x4))) x4))"
  define x6 where "x6 = xhci_ring_doorbell hc 0 0 (xhci_op_write32 hc 0x18 (fst (xhci_op_read32 hc 0x18 x5) OR 1) (snd (xhci_op_read32 hc 0x18 x5)))"
  have s6: "same x4 x6" unfolding x6_def x5_def by (intro same_intros)
  have b6: "er_buffer x6 = er_buffer x4" unfolding x6_def x5_def using assms(1) by (simp add: still)
  have s26: "same x2 x6" by (rule same_trans [OF same_trans [OF s3 x4(2)] s6])
  have b26: "blank_ring x6" using b2 b3 x4(3) b6 by (simp add: blank_ring_def)
  obtain y where y: "xhci_wait_for_command_completion hc 2000 x6 = Some (-1, None, y)" "er_buffer y = er_buffer x6"
    using silent_wait [OF assms(1) _ b26] same_ok(4) [OF s26] ok2 by (auto simp: xhci_ok_def)
  have "enable_slot_retry hc x4 = Some (-1, y)"
    unfolding enable_slot_retry_def Let_def x5_def [symmetric] split_def x6_def [symmetric] y(1) by simp
  then have "run_enable_slot hc x = (if cmd_ring_phys x2 = 0 then Some (-1, x2) else Some (-1, y))"
    unfolding run_enable_slot_def Let_def x1_def [symmetric] x2_def [symmetric] x3_def [symmetric] x4(1) by simp
  with b2 b26 y(2) show ?thesis by (simp add: blank_ring_def)
qed

lemma silent_try_enable:
  assumes "silent hc" "xhci_ok x" "blank_ring x" "cmd_ring x \<noteq> None" "xhci_hw_enable x"
  shows "\<exists>y. try_enable_slot hc x = Some y \<and> blank_ring y"
proof (cases "g_slot_enabled x")
  case True
  with assms show ?thesis by (simp add: try_enable_slot_def)
next
  case False
  obtain rg where rg: "cmd_ring x = Some rg" "length rg = 256" using assms(2,4) by (auto simp: xhci_ok_def cmd_ok_def)
  define x1 where "x1 = x\<lparr>cmd_ring := Some (rg[0 := enable_slot_trb])\<rparr>"
  have ok1: "xhci_ok x1" using put_trb_ok [OF assms(2), of 0 enable_slot_trb] rg by (auto simp: x1_def)
  have "rg \<noteq> []" using rg(2) by auto
  then have "xhci_send_enable_slot hc x = run_enable_slot hc x1"
    using assms(5) rg
    by (simp add: xhci_send_enable_slot_def xhci_build_command_trb_def if_ring_def put_trb_def ld8_def x1_def enable_slot_trb_def)
  moreover obtain y where "run_enable_slot hc x1 = Some (-1, y)" "blank_ring y"
    using silent_run_enable [OF assms(1) ok1] assms(3) by (auto simp: x1_def blank_ring_def)
  ultimately show ?thesis using False by (simp add: try_enable_slot_def)
qed

lemma finish_trbs_still:
  assumes "finish_trbs x = Some y"
  shows "er_buffer y = er_buffer x"
proof -
  have step: "er_buffer v = er_buffer u" if "finish_trb tk i u = Some v" for tk i and u v :: "'a xhci"
    using that by (auto simp: finish_trb_def xhci_cmd_mark_pending_def Let_def split: option.splits if_splits)
  obtain z where z: "for_loop (\<lambda>i. finish_trb (cmd_token_counter x + 1) (int i)) [0..<nat (last_cmd_trb_count x)]
      (x\<lparr>cmd_token_counter := cmd_token_counter x + 1\<rparr>) = Some z" "er_buffer y = er_buffer z"
    using assms by (auto simp: finish_trbs_def Let_def bind_Some_iff split: if_splits)
  have "er_buffer z = er_buffer x"
    by (rule for_loop_invariant [OF z(1), where I = "\<lambda>w. er_buffer w = er_buffer x"]) (use step in auto)
  with z(2) show ?thesis by simp
qed

text \<open>When the controller never posts an event the submission waits for a bounded time and then
  reports success: the caller's buffer is unchanged, and nothing tells it from one that was read.\<close>

theorem silent_controller_succeeds:
  assumes "silent hc" "xhci_ok x" "xhci_hw_enable x" "blank_ring x" "heap_room 8222 (x_heap x)"
    and "cmd_ring x = Some r" "last_cmd_start x = int h" "0 < last_cmd_trb_count x"
  shows "\<exists>y. xhci_submit_command_ring hc u data n dir_in x = Some (0, u, y)"
proof -
  define x1 where "x1 = snd (alloc_contexts x)"
  note ac = alloc_contexts_facts [OF assms(2), folded x1_def]
  have a0: "fst (alloc_contexts x) = 0" by (rule alloc_contexts_room [OF assms(5)])
  have b1: "blank_ring x1" using assms(4)
    by (cases "g_dcbaa x") (auto simp: x1_def alloc_contexts_def blank_ring_def kmalloc_def Let_def)
  have r1: "cmd_ring x1 = Some r" using ac(3) assms(6) by (simp add: ring_kept_def)
  obtain x2 where x2: "try_enable_slot hc x1 = Some x2" "blank_ring x2"
    using silent_try_enable [OF assms(1) ac(1) b1] r1 ac(6) assms(3) by auto
  have x2': "xhci_ok x2" "submit_frame x1 x2" "cmd_ring x2 \<noteq> None"
    using try_enable_slot_ok [OF ac(1), of hc] ac(6) assms(3) x2(1) r1 by (auto split: if_splits)
  define x2a where "x2a = xhci_op_write32 hc 0x30 (lo32 (ucast (g_dcbaa_phys x2))) x2"
  define x3 where "x3 = xhci_op_write32 hc 0x34 (hi32 (ucast (g_dcbaa_phys x2a))) x2a"
  have s3: "same x2 x3" unfolding x3_def x2a_def by (intro same_intros)
  have b3: "blank_ring x3" using x2(2) by (simp add: x3_def x2a_def blank_ring_def still)
  obtain r3 where r3: "cmd_ring x3 = Some r3" "last_cmd_start x3 = int h" "0 < last_cmd_trb_count x3"
    using same_fields [OF s3] x2'(2,3) ac(7,8) assms(7,8) by (auto simp: submit_frame_def)
  obtain x4 r4 where x4: "finish_trbs x3 = Some x4" "xhci_ok x4" "cmd_ring x4 = Some r4"
    using finish_trbs_ok [of x3 r3 h] same_ok(4) [OF s3] x2'(1) r3 by auto
  have b4: "blank_ring x4" using b3 blank_cong [OF finish_trbs_still [OF x4(1)]] by simp
  define x5 where "x5 = snd (xhci_init_event_ring (start_controller hc x4))"
  define x6 where "x6 = snd (xhci_program_event_ring hc x5)"
  have s5: "same x4 (start_controller hc x4)" by (intro same_intros)
  have s6: "same x5 x6" unfolding x6_def by (intro same_intros)
  have ok6: "xhci_ok x6" using init_event_ring_ok [of "start_controller hc x4"] same_ok(4) s5 s6 x4(2) unfolding x5_def by blast
  have b6: "blank_ring x6" unfolding x6_def blank_cong [OF still_program [OF assms(1)]] x5_def
    by (rule blank_init) (use b4 blank_cong [OF still_start] in blast)
  have unf: "xhci_submit_command_ring hc u data n dir_in x =
        (if fst (xhci_program_event_ring hc x5) < 0 then Some (0, u, x6)
         else do { (u, y) \<leftarrow> publish_and_wait hc u data n dir_in x6; Some (0, u, y) })"
    using a0 assms(3) r3 x4(1)
    by (simp add: xhci_submit_command_ring_def split_def Let_def x1_def [symmetric] x2(1) x2a_def [symmetric] x3_def [symmetric] x5_def [symmetric] x6_def [symmetric])
  define c :: u64 where "c = ucast (cmd_ring_phys x6) + word_of_int (last_cmd_start x6) * 16"
  define x7 where "x7 = peek hc 0x04 (peek hc 0x1C (peek hc 0x18 (xhci_ring_doorbell hc 0 0 (x_delay hc
    (peek hc 0x04 (peek hc 0x1C (peek hc 0x18 (xhci_op_write32 hc 0x1C (hi32 c) (xhci_op_write32 hc 0x18 (lo32 c) x6)))))))))"
  have s7: "same x6 x7" unfolding x7_def by (intro same_intros)
  have b7: "blank_ring x7" using b6 assms(1) by (simp add: x7_def blank_ring_def still)
  have "\<exists>y. xhci_poll_event_ring hc 500 data u n dir_in x7 = Some (-1, u, y)"
    using silent_poll_loop [OF assms(1) _ _ b7] same_ok(4) [OF s7] ok6 by (auto simp: xhci_poll_event_ring_def xhci_ok_def)
  then obtain y where y: "xhci_poll_event_ring hc 500 data u n dir_in x7 = Some (-1, u, y)" by blast
  have "publish_and_wait hc u data n dir_in x6 = Some (u, y)"
    unfolding publish_and_wait_def Let_def c_def [symmetric] x7_def [symmetric] y by simp
  with unf show ?thesis by simp
qed


definition xhci_staged :: "unit xhci" where
  "xhci_staged = xhci_demo\<lparr>cmd_ring := Some (replicate 256 zero_trb), last_cmd_start := 0, last_cmd_trb_count := 2\<rparr>"

lemma silent_controller_succeeds_witness:
  "\<exists>y. xhci_submit_command_ring hc_idle (Some [1, 2, 3]) False 3 True xhci_staged = Some (0, Some [1, 2, 3], y)"
proof (rule silent_controller_succeeds)
  show "silent hc_idle" by (simp add: silent_def hc_idle_def)
  show "xhci_ok xhci_staged" using xhci_demo_facts(1) by (simp add: xhci_staged_def xhci_ok_def cmd_ok_def er_ok_def ctx_ok_def)
  show "xhci_hw_enable xhci_staged" using xhci_demo_facts(2) by (simp add: xhci_staged_def)
  show "blank_ring xhci_staged" by (simp add: xhci_staged_def xhci_demo_def xhci_boot_def blank_ring_def)
  show "heap_room 8222 (x_heap xhci_staged)" using heap_room_mono [OF xhci_demo_facts(6)] by (simp add: xhci_staged_def)
  show "cmd_ring xhci_staged = Some (replicate 256 zero_trb)" "last_cmd_start xhci_staged = int 0" "0 < last_cmd_trb_count xhci_staged"
    by (simp_all add: xhci_staged_def)
qed

end
