(* ===== verification/Usb.thy ===== *)
theory Usb
  imports Xhci_Silent Netrx
begin

text \<open>
  The USB layer above the host controller: \<open>src/usb/usb_host.c\<close>, \<open>src/usb/usb_core.c\<close>,
  \<open>src/usb/usb_rndis.c\<close> and the network backend \<open>src/usb/nic_stub.c\<close>. Bulk transfers and
  sending through a USB network card are stubs in the source: they fail or only print.
\<close>

section \<open>State\<close>

record usb_device =
  ud_bus :: u8
  ud_addr :: u8
  ud_speed :: u8

text \<open>The callback for received frames is \<open>NULL\<close> or the hook of the network backend.\<close>

record 'h usb =
  usb_xhci :: "'h xhci"
  nic_rx_hooked :: bool
  use_usb_nic :: bool
  rndis_attached :: bool

definition usb_boot :: "'h xhci \<Rightarrow> 'h usb" where
  "usb_boot x = \<lparr>usb_xhci = x, nic_rx_hooked = False, use_usb_nic = False, rndis_attached = False\<rparr>"

definition no_device :: usb_device where
  "no_device = \<lparr>ud_bus = 0, ud_addr = 0, ud_speed = 0\<rparr>"

section \<open>Enumeration\<close>

text \<open>The first port whose status is not zero gives the device address 1.\<close>

fun probe_ports :: "'h hc \<Rightarrow> int list \<Rightarrow> 'h xhci \<Rightarrow> bool \<times> 'h xhci" where
  "probe_ports hc [] x = (False, x)"
| "probe_ports hc (i # is) x = (let (p, x) = xhci_read_portsc hc i x in if p \<noteq> 0 then (True, x) else probe_ports hc is x)"

definition usb_enumerate_device :: "'h hc \<Rightarrow> usb_device \<Rightarrow> 'h usb \<Rightarrow> int \<times> usb_device \<times> 'h usb" where
  "usb_enumerate_device hc dev u =
     (let (hit, x) = probe_ports hc [1..xhci_num_ports (usb_xhci u)] (usb_xhci u); u = u\<lparr>usb_xhci := x\<rparr> in
      if hit then (0, dev\<lparr>ud_addr := 1\<rparr>, u) else (-1, dev, u))"

definition usb_init :: "'h hc \<Rightarrow> 'h usb \<Rightarrow> (int \<times> 'h usb) option" where
  "usb_init hc u = do { (r, x) \<leftarrow> xhci_probe hc (usb_xhci u); Some (0, u\<lparr>usb_xhci := x\<rparr>) }"

definition usb_probe_controllers :: "'h hc \<Rightarrow> 'h usb \<Rightarrow> (int \<times> 'h usb) option" where
  "usb_probe_controllers hc u = do {
     (r, x) \<leftarrow> xhci_probe hc (usb_xhci u);
     let u = u\<lparr>usb_xhci := x\<rparr>;
     if r = 0 then
       let u = u\<lparr>usb_xhci := xhci_dump_ports hc (usb_xhci u)\<rparr>; (e, d, u) = usb_enumerate_device hc no_device u
       in Some (r, u)
     else Some (r, u)
   }"

section \<open>Control transfers\<close>

text \<open>The setup packet is filled in byte by byte.\<close>

definition setup_packet :: "u8 \<Rightarrow> u8 \<Rightarrow> u16 \<Rightarrow> u16 \<Rightarrow> u16 \<Rightarrow> bytes" where
  "setup_packet bmRequestType bRequest wValue wIndex wLength =
     [bmRequestType, bRequest,
      ucast (wValue AND 0xff), ucast (drop_bit 8 wValue AND 0xff),
      ucast (wIndex AND 0xff), ucast (drop_bit 8 wIndex AND 0xff),
      ucast (wLength AND 0xff), ucast (drop_bit 8 wLength AND 0xff)]"

text \<open>The result: the length or -1, and the buffer of the caller.\<close>

definition usb_control_transfer ::
    "'h hc \<Rightarrow> u8 \<Rightarrow> u8 \<Rightarrow> u16 \<Rightarrow> u16 \<Rightarrow> bytes option \<Rightarrow> u16 \<Rightarrow> 'h xhci \<Rightarrow> (int \<times> bytes option \<times> 'h xhci) option" where
  "usb_control_transfer hc bm req wValue wIndex data wLength x =
     (let n = int (unat wLength); dir_in = (bm AND 0x80 = 0x80);
          (s, h) = kmalloc 8 (x_heap x); x = x\<lparr>x_heap := h\<rparr> in
      if s = 0 then Some (-1, data, x)
      else let x = x\<lparr>x_setup := setup_packet bm req wValue wIndex wLength\<rparr>;
               alloc = (0 < n \<and> data \<noteq> None);
               (v, h) = (if alloc then kmalloc (ucast wLength) (x_heap x) else (0, x_heap x));
               x = x\<lparr>x_heap := h\<rparr> in
        if alloc \<and> v = 0 then Some (-1, data, x)
        else do {
          let fresh = block (x_mem x) v (if alloc then nat n else 0);
          buf \<leftarrow> (case data of
             Some d \<Rightarrow> if alloc \<and> \<not> dir_in then do { src \<leftarrow> rdn d n; blit fresh 0 src } else Some fresh
           | None \<Rightarrow> Some fresh);
          (trbs, x) \<leftarrow> xhci_prepare_control_transfer s (v \<noteq> 0) v n dir_in (x\<lparr>x_dma := buf\<rparr>);
          if trbs < 0 then Some (-1, data, x)
          else do {
            (r, data, x) \<leftarrow> xhci_submit_command_ring hc data (v \<noteq> 0) n dir_in x;
            Some (if r < 0 then -1 else n, data, x)
          }
        })"

definition usb_bulk_transfer_in :: "bytes \<Rightarrow> int \<times> bytes" where
  "usb_bulk_transfer_in buf = (-1, buf)"

definition usb_bulk_transfer_out :: "bytes \<Rightarrow> int" where
  "usb_bulk_transfer_out buf = -1"

section \<open>Network devices\<close>

definition usb_is_rndis_or_ecm :: "usb_device \<Rightarrow> int" where
  "usb_is_rndis_or_ecm dev = 0"

definition usb_rndis_try_attach :: "usb_device \<Rightarrow> 'h usb \<Rightarrow> int \<times> 'h usb" where
  "usb_rndis_try_attach dev u =
     (if usb_is_rndis_or_ecm dev \<noteq> 0 then (0, u\<lparr>rndis_attached := True\<rparr>) else (-1, u))"

text \<open>\<open>tx\<close> is the \<open>nic_tx\<close> of the driver that is linked.\<close>

definition usb_rndis_send_frame :: "(bytes \<Rightarrow> 'd \<Rightarrow> 'd option) \<Rightarrow> bytes \<Rightarrow> 'h usb \<Rightarrow> 'd \<Rightarrow> 'd option" where
  "usb_rndis_send_frame tx data u d = (if \<not> rndis_attached u then Some d else tx data d)"

definition usb_core_enumerate_and_attach_network :: "'h hc \<Rightarrow> 'h usb \<Rightarrow> (int \<times> 'h usb) option" where
  "usb_core_enumerate_and_attach_network hc u = do {
     (r, u) \<leftarrow> usb_probe_controllers hc u;
     if r \<noteq> 0 then Some (-1, u)
     else let (e, d, u) = usb_enumerate_device hc no_device u in
       if e \<noteq> 0 then Some (-1, u)
       else let (a, u) = usb_rndis_try_attach d u in Some (if a = 0 then 0 else -1, u)
   }"

section \<open>The network backend\<close>

definition usb_nic_enable :: "'h usb \<Rightarrow> 'h usb" where
  "usb_nic_enable u = u\<lparr>use_usb_nic := True\<rparr>"

definition usb_nic_disable :: "'h usb \<Rightarrow> 'h usb" where
  "usb_nic_disable u = u\<lparr>use_usb_nic := False\<rparr>"

text \<open>Registering a callback; the only one is the hook, \<open>False\<close> is \<open>NULL\<close>.\<close>

definition usb_nic_register :: "bool \<Rightarrow> 'h usb \<Rightarrow> 'h usb" where
  "usb_nic_register rx_fn u = u\<lparr>nic_rx_hooked := rx_fn\<rparr>"

definition usb_nic_init :: "'h usb \<Rightarrow> int \<times> 'h usb" where
  "usb_nic_init u = (0, usb_nic_register True u)"

text \<open>The hook hands the frame to the stack.\<close>

definition usb_nic_inject_test_frame :: "bytes \<Rightarrow> int \<Rightarrow> 'h usb \<Rightarrow> stack \<Rightarrow> stack option" where
  "usb_nic_inject_test_frame frame len u s = (if nic_rx_hooked u then net_rx frame len s else Some s)"

section \<open>Properties\<close>

text \<open>The setup packet filled in byte by byte is the packed structure the host controller driver
  uses: both have the fields of the standard in little-endian order.\<close>

theorem setup_packet_is_usb_setup: "setup_packet bm req v i n = usb_setup bm req v i n"
proof -
  have "ucast (w AND 0xff) = (ucast w :: u8)" "ucast (drop_bit 8 w AND 0xff) = (ucast (drop_bit 8 w) :: u8)" for w :: u16
  proof -
    have m: "(0xff :: u16) = mask 8" by (simp add: mask_eq_exp_minus_1)
    show "ucast (w AND 0xff) = (ucast w :: u8)" "ucast (drop_bit 8 w AND 0xff) = (ucast (drop_bit 8 w) :: u8)"
      unfolding m by (rule bit_word_eqI, auto simp: bit_simps)+
  qed
  then show ?thesis by (simp add: setup_packet_def usb_setup_def st16_def)
qed

text \<open>No device is ever attached as a network card: the check for one always says no, so the
  frames handed to the USB network card are dropped.\<close>

theorem no_usb_network:
  assumes "usb_core_enumerate_and_attach_network hc u = Some (r, v)" "\<not> rndis_attached u"
  shows "r = -1 \<and> usb_rndis_send_frame tx data v d = Some d"
proof -
  have e: "rndis_attached (snd (snd (usb_enumerate_device hc dv w))) = rndis_attached w" for dv w
    by (simp add: usb_enumerate_device_def split_def Let_def)
  have p: "usb_probe_controllers hc u = Some (k, w) \<Longrightarrow> rndis_attached w = rndis_attached u" for k w
    by (auto simp: usb_probe_controllers_def bind_Some_iff split_def Let_def e split: if_splits)
  from assms p show ?thesis
    by (auto simp: usb_core_enumerate_and_attach_network_def usb_rndis_try_attach_def usb_is_rndis_or_ecm_def
        usb_rndis_send_frame_def bind_Some_iff split_def Let_def e split: if_splits)
qed

end
