(* ===== verification/Ports.thy ===== *)
theory Ports
  imports Decimal
begin

text \<open>
  Port input and output: the serial port COM1 as \<open>src/usb/xhci.c\<close>, \<open>src/usb/usb_host.c\<close> and
  \<open>src/kernel.c\<close> drive it, and the initialisation of the mouse in \<open>src/mouse.c\<close>. What the
  devices answer is unknown: \<open>p_in port k\<close> is what the \<open>k\<close>-th input instruction reads from its port,
  for any function \<open>p_in\<close>. The outputs are collected in order.
\<close>

record pio =
  p_in :: "u16 \<Rightarrow> nat \<Rightarrow> u8"
  p_time :: nat
  p_out :: "(u16 \<times> u8) list"
  uart_inited :: bool

definition inb :: "u16 \<Rightarrow> pio \<Rightarrow> u8 \<times> pio" where
  "inb addr s = (p_in s addr (p_time s), s\<lparr>p_time := Suc (p_time s)\<rparr>)"

definition outb :: "u16 \<Rightarrow> u8 \<Rightarrow> pio \<Rightarrow> pio" where
  "outb addr v s = s\<lparr>p_out := p_out s @ [(addr, v)]\<rparr>"

section \<open>COM1\<close>

text \<open>The seven writes that set up the port are the same in all three files.\<close>

definition uart_config :: "(u16 \<times> u8) list" where
  "uart_config = [(0x3f8 + 1, 0x00), (0x3f8 + 3, 0x80), (0x3f8 + 0, 0x01), (0x3f8 + 1, 0x00),
     (0x3f8 + 3, 0x03), (0x3f8 + 2, 0xC7), (0x3f8 + 4, 0x0B)]"

definition uart_init_once :: "pio \<Rightarrow> pio" where
  "uart_init_once s =
     (if uart_inited s then s else (fold (\<lambda>(addr, v). outb addr v) uart_config s)\<lparr>uart_inited := True\<rparr>)"

text \<open>Waiting for an empty transmit register gives up after \<open>n\<close> reads.\<close>

primrec lsr_wait :: "nat \<Rightarrow> pio \<Rightarrow> pio" where
  "lsr_wait 0 s = s"
| "lsr_wait (Suc n) s = (let (lsr, s) = inb (0x3f8 + 5) s in if lsr AND 0x20 \<noteq> 0 then s else lsr_wait n s)"

definition serial_putc :: "u8 \<Rightarrow> pio \<Rightarrow> pio" where
  "serial_putc c s = outb (0x3f8 + 0) c (lsr_wait 10000 (uart_init_once s))"

text \<open>The text is what stands before its zero byte.\<close>

definition serial_puts :: "cstr \<Rightarrow> pio \<Rightarrow> pio" where
  "serial_puts = fold serial_putc"

definition hexdigit :: "u32 \<Rightarrow> u8" where
  "hexdigit v = lit ''0123456789ABCDEF'' ! unat (v AND 0xF)"

definition serial_puthex8 :: "u8 \<Rightarrow> pio \<Rightarrow> pio" where
  "serial_puthex8 v = serial_puts [hexdigit (drop_bit 4 (ucast v)), hexdigit (ucast v)]"

definition hex32_loop :: "u32 \<Rightarrow> cstr" where
  "hex32_loop v = fold (\<lambda>i b. b[7 - i := hexdigit (drop_bit (i * 4) v)]) [0..<8] (replicate 8 0)"

definition serial_puthex32 :: "u32 \<Rightarrow> pio \<Rightarrow> pio" where
  "serial_puthex32 v = serial_puts (hex32_loop v)"

text \<open>The digits from the last on, at most \<open>n\<close> of them.\<close>

fun putdec_loop :: "nat \<Rightarrow> u32 \<Rightarrow> cstr" where
  "putdec_loop 0 v = []"
| "putdec_loop (Suc n) v = (if v > 0 then (48 + ucast (v mod 10)) # putdec_loop n (v div 10) else [])"

definition serial_putdec :: "u32 \<Rightarrow> pio \<Rightarrow> pio" where
  "serial_putdec v s =
     (if v = 0 then serial_putc 48 s else fold serial_putc (rev (putdec_loop (12 - 1) v)) s)"

text \<open>The copies of \<open>src/kernel.c\<close> for the start of the boot.\<close>

definition uart_init_early :: "pio \<Rightarrow> pio" where
  "uart_init_early s = snd (inb 0x3F8 (fold (\<lambda>(addr, v). outb addr v) uart_config s))"

definition serial_early_puts :: "cstr \<Rightarrow> pio \<Rightarrow> pio" where
  "serial_early_puts = fold (\<lambda>c s. outb (0x3F8 + 0) c (lsr_wait 100000 s))"

section \<open>Mouse\<close>

text \<open>The waits have no bound: \<open>None\<close> if the controller never gets ready.\<close>

partial_function (option) mouse_wait_read :: "pio \<Rightarrow> pio option" where
  "mouse_wait_read s = (let (v, s) = inb 0x64 s in if v AND 1 \<noteq> 0 then Some s else mouse_wait_read s)"

partial_function (option) mouse_wait_write :: "pio \<Rightarrow> pio option" where
  "mouse_wait_write s = (let (v, s) = inb 0x64 s in if v AND 2 \<noteq> 0 then mouse_wait_write s else Some s)"

definition mouse_out :: "u16 \<Rightarrow> u8 \<Rightarrow> pio \<Rightarrow> pio option" where
  "mouse_out addr v s = do { s \<leftarrow> mouse_wait_write s; Some (outb addr v s) }"

definition mouse_write :: "u8 \<Rightarrow> pio \<Rightarrow> pio option" where
  "mouse_write val s = do { s \<leftarrow> mouse_out 0x64 0xD4 s; mouse_out 0x60 val s }"

definition mouse_read :: "pio \<Rightarrow> (u8 \<times> pio) option" where
  "mouse_read s = do { s \<leftarrow> mouse_wait_read s; Some (inb 0x60 s) }"

text \<open>The result has the position of the cursor, the centre of the screen.\<close>

definition init_mouse :: "u32 \<Rightarrow> u32 \<Rightarrow> pio \<Rightarrow> (int \<times> int \<times> pio) option" where
  "init_mouse framebuffer_width framebuffer_height s = do {
     s \<leftarrow> mouse_out 0x64 0xA8 s;
     s \<leftarrow> mouse_out 0x64 0x20 s;
     (status, s) \<leftarrow> mouse_read s;
     let status = status OR 2;
     s \<leftarrow> mouse_out 0x64 0x60 s;
     s \<leftarrow> mouse_out 0x60 status s;
     s \<leftarrow> mouse_write 0xF6 s;
     (ack, s) \<leftarrow> mouse_read s;
     s \<leftarrow> mouse_write 0xF4 s;
     (ack, s) \<leftarrow> mouse_read s;
     Some (sint (framebuffer_width div 2), sint (framebuffer_height div 2), s)
   }"

section \<open>What is sent\<close>

text \<open>\<open>sent s t\<close> lists what a run from \<open>s\<close> to \<open>t\<close> wrote; only the clock moves besides.\<close>

definition sent :: "(u16 \<times> u8) list \<Rightarrow> pio \<Rightarrow> pio \<Rightarrow> bool" where
  "sent ws s t \<longleftrightarrow> p_out t = p_out s @ ws \<and> p_in t = p_in s \<and> p_time s \<le> p_time t"

lemma sent_refl [simp]: "sent [] s s"
  by (simp add: sent_def)

lemma sent_trans: "sent as s t \<Longrightarrow> sent bs t u \<Longrightarrow> sent (as @ bs) s u"
  by (simp add: sent_def)

lemma sent_outb [simp]: "sent [(addr, v)] s (outb addr v s)"
  by (simp add: sent_def outb_def)

lemma inb_facts [simp]:
  "snd (inb addr s) = s\<lparr>p_time := Suc (p_time s)\<rparr>" "fst (inb addr s) = p_in s addr (p_time s)"
  by (simp_all add: inb_def)

lemma lsr_wait_sent: "sent [] s (lsr_wait n s) \<and> uart_inited (lsr_wait n s) = uart_inited s"
proof (induction n arbitrary: s)
  case 0
  then show ?case by simp
next
  case (Suc n)
  have "sent [] s (s\<lparr>p_time := Suc (p_time s)\<rparr>)" by (simp add: sent_def)
  with Suc [of "s\<lparr>p_time := Suc (p_time s)\<rparr>"] show ?case
    by (auto simp: inb_def Let_def dest: sent_trans)
qed

lemma fold_outb_sent: "sent ws s (fold (\<lambda>(addr, v). outb addr v) ws s) \<and>
    uart_inited (fold (\<lambda>(addr, v). outb addr v) ws s) = uart_inited s"
proof (induction ws arbitrary: s)
  case Nil
  then show ?case by simp
next
  case (Cons w ws)
  obtain a v where w: "w = (a, v)" by (cases w)
  have i: "uart_inited (outb a v s) = uart_inited s" by (simp add: outb_def)
  from sent_trans [OF sent_outb [of a v s]] Cons [of "outb a v s"] show ?case by (simp add: w i)
qed

definition uart_setup :: "pio \<Rightarrow> (u16 \<times> u8) list" where
  "uart_setup s = (if uart_inited s then [] else uart_config)"

lemma sent_update [simp]: "sent ws s (t\<lparr>uart_inited := b\<rparr>) = sent ws s t"
  by (simp add: sent_def)

lemma uart_init_once_sent: "sent (uart_setup s) s (uart_init_once s) \<and> uart_inited (uart_init_once s)"
  using fold_outb_sent [of uart_config s] by (simp add: uart_setup_def uart_init_once_def)

lemma serial_putc_sent: "sent (uart_setup s @ [(0x3f8, c)]) s (serial_putc c s) \<and> uart_inited (serial_putc c s)"
proof -
  let ?t = "lsr_wait 10000 (uart_init_once s)"
  have "sent (uart_setup s @ []) s ?t"
    using sent_trans uart_init_once_sent lsr_wait_sent by blast
  then have "sent (uart_setup s @ [(0x3f8 + 0, c)]) s (outb (0x3f8 + 0) c ?t)"
    using sent_trans [OF _ sent_outb] by (metis append.right_neutral)
  moreover have "uart_inited ?t" using uart_init_once_sent lsr_wait_sent by blast
  ultimately show ?thesis by (simp add: serial_putc_def) (simp add: outb_def)
qed

lemma serial_puts_sent:
  "uart_inited s \<Longrightarrow> sent (map (\<lambda>c. (0x3f8, c)) cs) s (serial_puts cs s) \<and> uart_inited (serial_puts cs s)"
proof (induction cs arbitrary: s)
  case Nil
  then show ?case by (simp add: serial_puts_def)
next
  case (Cons c cs)
  have c: "sent [(0x3f8, c)] s (serial_putc c s)" "uart_inited (serial_putc c s)"
    using serial_putc_sent [of s c] Cons.prems by (simp_all add: uart_setup_def)
  with Cons.IH [OF c(2)] sent_trans [OF c(1)] show ?case by (simp add: serial_puts_def)
qed

section \<open>Text on the serial line\<close>

lemma putdec_loop_dec:
  "unat v < 10 ^ n \<Longrightarrow> 0 < v \<Longrightarrow> rev (putdec_loop n v) = dec (unat v)"
proof (induction n v rule: putdec_loop.induct)
  case (1 v)
  then show ?case by (simp add: word_less_nat_alt)
next
  case (2 n v)
  have d: "unat (v div 10) = unat v div 10" by (simp add: unat_div_distrib)
  have "(ucast (v mod 10) :: u8) = word_of_nat (unat (v mod 10))" by simp
  then have m: "(ucast (v mod 10) :: u8) = word_of_nat (unat v mod 10)" by (simp add: unat_mod_distrib)
  have "unat v div 10 < 10 ^ n" using 2(2) by (simp add: less_mult_imp_div_less mult.commute)
  show ?case
  proof (cases "unat v < 10")
    case True
    then have "v div 10 = 0" using d by (simp add: unat_eq_zero)
    moreover have "putdec_loop n 0 = []" by (cases n) simp_all
    ultimately show ?thesis using 2(3) True by (subst dec.simps) (simp add: m)
  next
    case False
    then have "0 < v div 10" using d by (simp add: word_less_nat_alt)
    then have "rev (putdec_loop n (v div 10)) = dec (unat v div 10)"
      using 2(1) 2(3) \<open>unat v div 10 < 10 ^ n\<close> d by simp
    then show ?thesis using False 2(3) by (subst dec.simps) (simp add: m)
  qed
qed

text \<open>A number is printed on the serial line as its decimal digits, whatever the line status
  reads: the wait for the transmitter is bounded, and no digit is lost or repeated.\<close>

theorem serial_putdec_digits:
  assumes "uart_inited s"
  shows "sent (map (\<lambda>c. (0x3f8, c)) (dec (unat v))) s (serial_putdec v s)"
proof (cases "v = 0")
  case True
  then show ?thesis using serial_puts_sent [OF assms, of "[48]"]
    by (simp add: serial_putdec_def serial_puts_def dec.simps)
next
  case False
  then have v: "0 < v" by (simp add: word_gt_0)
  have "unat v < 10 ^ 11" using unsigned_less [of v, where 'a = nat] by simp
  from putdec_loop_dec [OF this v] serial_puts_sent [OF assms, of "dec (unat v)"] False
  show ?thesis by (simp add: serial_putdec_def serial_puts_def)
qed

definition pio_demo :: pio where
  "pio_demo = \<lparr>p_in = (\<lambda>_ _. 1), p_time = 0, p_out = [], uart_inited = True\<rparr>"

lemma serial_putdec_digits_witness:
  "sent (map (\<lambda>c. (0x3f8, c)) (dec (unat (65536 :: u32)))) pio_demo (serial_putdec 65536 pio_demo)"
  by (rule serial_putdec_digits) (simp add: pio_demo_def)

section \<open>Waiting for the mouse\<close>

lemma wait_read_returns:
  assumes "p_time s \<le> j" "p_in s 0x64 j AND 1 \<noteq> 0"
  shows "\<exists>t. mouse_wait_read s = Some t \<and> sent [] s t"
  using assms
proof (induction "j - p_time s" arbitrary: s)
  case 0
  then show ?case by (subst mouse_wait_read.simps) (simp add: inb_def sent_def)
next
  case (Suc n)
  let ?s = "s\<lparr>p_time := Suc (p_time s)\<rparr>"
  show ?case
  proof (cases "p_in s 0x64 (p_time s) AND 1 \<noteq> 0")
    case True
    then show ?thesis by (subst mouse_wait_read.simps) (simp add: inb_def sent_def)
  next
    case False
    obtain t where "mouse_wait_read ?s = Some t" "sent [] ?s t"
      using Suc.hyps(1) [of ?s] Suc.hyps(2) Suc.prems by fastforce
    with False show ?thesis by (subst mouse_wait_read.simps) (simp add: inb_def sent_def)
  qed
qed

lemma wait_write_returns:
  assumes "p_time s \<le> j" "p_in s 0x64 j AND 2 = 0"
  shows "\<exists>t. mouse_wait_write s = Some t \<and> sent [] s t"
  using assms
proof (induction "j - p_time s" arbitrary: s)
  case 0
  then show ?case by (subst mouse_wait_write.simps) (simp add: inb_def sent_def)
next
  case (Suc n)
  let ?s = "s\<lparr>p_time := Suc (p_time s)\<rparr>"
  show ?case
  proof (cases "p_in s 0x64 (p_time s) AND 2 = 0")
    case True
    then show ?thesis by (subst mouse_wait_write.simps) (simp add: inb_def sent_def)
  next
    case False
    obtain t where "mouse_wait_write ?s = Some t" "sent [] ?s t"
      using Suc.hyps(1) [of ?s] Suc.hyps(2) Suc.prems by fastforce
    with False show ?thesis by (subst mouse_wait_write.simps) (simp add: inb_def sent_def)
  qed
qed

text \<open>The controller takes what it is sent and answers again and again.\<close>

definition mouse_alive :: "(u16 \<Rightarrow> nat \<Rightarrow> u8) \<Rightarrow> bool" where
  "mouse_alive f \<longleftrightarrow> (\<forall>k. \<exists>j \<ge> k. f 0x64 j AND 1 \<noteq> 0) \<and> (\<forall>k. \<exists>j \<ge> k. f 0x64 j AND 2 = 0)"

lemma sent_alive: "sent ws s t \<Longrightarrow> mouse_alive (p_in s) \<Longrightarrow> mouse_alive (p_in t)"
  by (simp add: sent_def)

lemma mouse_out_returns:
  assumes "mouse_alive (p_in s)"
  obtains t where "mouse_out addr v s = Some t" "sent [(addr, v)] s t" "mouse_alive (p_in t)"
proof -
  obtain j where "p_time s \<le> j" "p_in s 0x64 j AND 2 = 0" using assms unfolding mouse_alive_def by blast
  from wait_write_returns [OF this] obtain u where u: "mouse_wait_write s = Some u" "sent [] s u" by blast
  have "sent [(addr, v)] s (outb addr v u)" using sent_trans [OF u(2) sent_outb] by simp
  with u(1) that [of "outb addr v u"] sent_alive [OF _ assms] show ?thesis by (simp add: mouse_out_def)
qed

lemma mouse_read_returns:
  assumes "mouse_alive (p_in s)"
  obtains r t where "mouse_read s = Some (r, t)" "sent [] s t" "mouse_alive (p_in t)"
proof -
  obtain j where "p_time s \<le> j" "p_in s 0x64 j AND 1 \<noteq> 0" using assms unfolding mouse_alive_def by blast
  from wait_read_returns [OF this] obtain u where u: "mouse_wait_read s = Some u" "sent [] s u" by blast
  let ?t = "u\<lparr>p_time := Suc (p_time u)\<rparr>"
  have t: "sent [] s ?t" using u(2) by (simp add: sent_def)
  have "mouse_read s = Some (p_in u 0x60 (p_time u), ?t)" by (simp add: mouse_read_def u(1) inb_def)
  from this t sent_alive [OF t assms] show ?thesis by (rule that)
qed

lemma init_mouse_run:
  assumes "mouse_alive (p_in s)"
  shows "\<exists>status t. init_mouse w h s = Some (sint (w div 2), sint (h div 2), t) \<and>
    sent [(0x64, 0xA8), (0x64, 0x20), (0x64, 0x60), (0x60, status OR 2),
      (0x64, 0xD4), (0x60, 0xF6), (0x64, 0xD4), (0x60, 0xF4)] s t"
proof -
  from mouse_out_returns [OF assms] obtain s1 where 1: "mouse_out 0x64 0xA8 s = Some s1" "sent [(0x64, 0xA8)] s s1" "mouse_alive (p_in s1)" .
  from mouse_out_returns [OF 1(3)] obtain s2 where 2: "mouse_out 0x64 0x20 s1 = Some s2" "sent [(0x64, 0x20)] s1 s2" "mouse_alive (p_in s2)" .
  from mouse_read_returns [OF 2(3)] obtain r s3 where 3: "mouse_read s2 = Some (r, s3)" "sent [] s2 s3" "mouse_alive (p_in s3)" .
  from mouse_out_returns [OF 3(3)] obtain s4 where 4: "mouse_out 0x64 0x60 s3 = Some s4" "sent [(0x64, 0x60)] s3 s4" "mouse_alive (p_in s4)" .
  from mouse_out_returns [OF 4(3)] obtain s5 where 5: "mouse_out 0x60 (r OR 2) s4 = Some s5" "sent [(0x60, r OR 2)] s4 s5" "mouse_alive (p_in s5)" .
  from mouse_out_returns [OF 5(3)] obtain s6 where 6: "mouse_out 0x64 0xD4 s5 = Some s6" "sent [(0x64, 0xD4)] s5 s6" "mouse_alive (p_in s6)" .
  from mouse_out_returns [OF 6(3)] obtain s7 where 7: "mouse_out 0x60 0xF6 s6 = Some s7" "sent [(0x60, 0xF6)] s6 s7" "mouse_alive (p_in s7)" .
  from mouse_read_returns [OF 7(3)] obtain a s8 where 8: "mouse_read s7 = Some (a, s8)" "sent [] s7 s8" "mouse_alive (p_in s8)" .
  from mouse_out_returns [OF 8(3)] obtain s9 where 9: "mouse_out 0x64 0xD4 s8 = Some s9" "sent [(0x64, 0xD4)] s8 s9" "mouse_alive (p_in s9)" .
  from mouse_out_returns [OF 9(3)] obtain s10 where 10: "mouse_out 0x60 0xF4 s9 = Some s10" "sent [(0x60, 0xF4)] s9 s10" "mouse_alive (p_in s10)" .
  from mouse_read_returns [OF 10(3)] obtain b s11 where 11: "mouse_read s10 = Some (b, s11)" "sent [] s10 s11" .
  have "init_mouse w h s = Some (sint (w div 2), sint (h div 2), s11)"
    by (simp add: init_mouse_def mouse_write_def 1 2 3 4 5 6 7 8 9 10 11)
  moreover have "sent [(0x64, 0xA8), (0x64, 0x20), (0x64, 0x60), (0x60, r OR 2),
      (0x64, 0xD4), (0x60, 0xF6), (0x64, 0xD4), (0x60, 0xF4)] s s11"
    using 1(2) 2(2) 3(2) 4(2) 5(2) 6(2) 7(2) 8(2) 9(2) 10(2) 11(2) by (simp add: sent_def)
  ultimately show ?thesis by blast
qed

text \<open>C30: With a controller that keeps taking commands and answering, the initialisation of the mouse
  ends. It sends exactly the commands that enable the auxiliary device, rewrite the status byte
  with interrupt 12 enabled, and set defaults and reporting; the cursor starts in the centre.\<close>

theorem init_mouse_completes:
  assumes "mouse_alive (p_in s)"
  shows "\<exists>status t. init_mouse w h s = Some (sint (w div 2), sint (h div 2), t) \<and>
    sent [(0x64, 0xA8), (0x64, 0x20), (0x64, 0x60), (0x60, status OR 2),
      (0x64, 0xD4), (0x60, 0xF6), (0x64, 0xD4), (0x60, 0xF4)] s t"
  by (rule init_mouse_run [OF assms])

lemma init_mouse_completes_witness:
  "\<exists>status t. init_mouse 640 480 pio_demo = Some (sint ((640 :: u32) div 2), sint ((480 :: u32) div 2), t) \<and>
    sent [(0x64, 0xA8), (0x64, 0x20), (0x64, 0x60), (0x60, status OR 2),
      (0x64, 0xD4), (0x60, 0xF6), (0x64, 0xD4), (0x60, 0xF4)] pio_demo t"
  by (rule init_mouse_completes) (auto simp: pio_demo_def mouse_alive_def)

end
