(* ===== verification/Boot.thy ===== *)
theory Boot
  imports Windows Usb Ports
begin

text \<open>
  The start of the kernel, \<open>kmain\<close> in \<open>src/kernel.c\<close>: serial port, USB probe and enumeration,
  framebuffer, mouse, network card or the USB test frame, and the first window. All parts
  share one heap and one PCI bus. The loop that follows is \<open>kernel_step\<close> of \<open>Windows\<close>.
\<close>

record 'h machine =
  m_io :: pio
  m_usb :: "'h usb"
  m_world :: world

abbreviation m_xhci :: "'h machine \<Rightarrow> 'h xhci" where "m_xhci k \<equiv> usb_xhci (m_usb k)"

definition set_xhci :: "'h xhci \<Rightarrow> 'h machine \<Rightarrow> 'h machine" where
  "set_xhci x k = k\<lparr>m_usb := (m_usb k)\<lparr>usb_xhci := x\<rparr>\<rparr>"

section \<open>Steps\<close>

text \<open>\<open>xhci_probe(); xhci_dump_ports(); xhci_enumerate_once();\<close>\<close>

definition kmain_usb :: "'h hc \<Rightarrow> 'h machine \<Rightarrow> 'h machine option" where
  "kmain_usb hc k = do {
     (r, x) \<leftarrow> xhci_probe hc (m_xhci k);
     (r, x) \<leftarrow> xhci_enumerate_once hc (xhci_dump_ports hc x);
     Some (set_xhci x k)
   }"

definition kmain_graphics :: "bytes \<Rightarrow> 'h machine \<Rightarrow> 'h machine option" where
  "kmain_graphics mbi k = do {
     w \<leftarrow> draw (init_graphics mbi) (m_world k);
     (mx, my, io) \<leftarrow> init_mouse (scr_w w) (scr_h w) (m_io k);
     Some (k\<lparr>m_world := w, m_io := io\<rparr>)
   }"

text \<open>The driver takes its memory from the heap the USB code has used.\<close>

definition kmain_card :: "'h machine \<Rightarrow> (int \<times> 'h machine) option" where
  "kmain_card k = (let w = m_world k; x = m_xhci k in do {
     (r, pci, heap, d, n) \<leftarrow> e1000_init (x_mem x) (x_pci x) (x_heap x) (w_nic w) (st_net (w_stack w));
     Some (r, (set_xhci (x\<lparr>x_pci := pci, x_heap := heap\<rparr>) k)
       \<lparr>m_world := w\<lparr>w_nic := d, w_stack := (w_stack w)\<lparr>st_net := n\<rparr>\<rparr>\<rparr>)
   })"

definition guest_ip :: u32 where "guest_ip = push_bit 24 10 OR push_bit 16 0 OR push_bit 8 2 OR 15"
definition guest_netmask :: u32 where "guest_netmask = push_bit 24 255 OR push_bit 16 255 OR push_bit 8 255 OR 0"
definition guest_gw :: u32 where "guest_gw = push_bit 24 10 OR push_bit 16 0 OR push_bit 8 2 OR 2"

definition kmain_nic :: "'h machine \<Rightarrow> 'h machine option" where
  "kmain_nic k = (let w = m_world k;
       w = w\<lparr>w_stack := (w_stack w)\<lparr>st_net := net_set_ipv4 guest_ip guest_netmask guest_gw (st_net (w_stack w))\<rparr>\<rparr> in do {
     w \<leftarrow> draw (draw_string 20 20 (lit ''NIC init OK, IP=10.0.2.15'') 0x00AA00) w;
     Some (k\<lparr>m_world := w\<rparr>)
   })"

text \<open>The frame on the stack: 64 bytes, of which 54 are handed in.\<close>

definition test_frame :: bytes where
  "test_frame =
     [0x02, 0, 0, 0, 0, 0x01] @ [0x02, 0, 0, 0, 0, 0x02] @ [0x08, 0x00] @
     [0x45, 0] @ st16 (htons (20 + 8 + 12)) @ [0, 0] @ [0, 0] @ [64, 17] @ [0, 0] @
     [192, 168, 31, 235] @ [10, 0, 2, 15] @
     st16 (htons 6000) @ st16 (htons 6001) @ st16 (htons (8 + 12)) @ [0, 0] @
     take 12 ([123, 34] @ lit ''title'' @ [34, 58, 34] @ lit ''USB'' @ [34, 125]) @ replicate 10 0"

definition kmain_usb_nic :: "'h hc \<Rightarrow> 'h machine \<Rightarrow> 'h machine option" where
  "kmain_usb_nic hc k = do {
     let k = k\<lparr>m_usb := usb_nic_enable (snd (usb_nic_init (m_usb k)))\<rparr>;
     k \<leftarrow> kmain_usb hc k;
     let w = m_world k;
     s \<leftarrow> usb_nic_inject_test_frame test_frame (42 + 12) (m_usb k) ((w_stack w)\<lparr>st_udp := []\<rparr>);
     (d, s) \<leftarrow> transmit_log e1000_nic_tx (w_nic w, s);
     w \<leftarrow> draw (for_loop (\<lambda>(ip, p, buf). draw_datagram buf) (st_udp s)) (w\<lparr>w_nic := d, w_stack := s\<rparr>);
     w \<leftarrow> draw (draw_string 20 20 (lit ''NIC: usb_stub enabled (test frame injected)'') 0xFFD700) w;
     Some (k\<lparr>m_world := w\<rparr>)
   }"

text \<open>The whole start, up to the loop of the welcome screen.\<close>

definition kmain :: "'h hc \<Rightarrow> bytes \<Rightarrow> 'h machine \<Rightarrow> (screen_state \<times> 'h machine) option" where
  "kmain hc mbi k = do {
     let k = k\<lparr>m_io := serial_early_puts (lit ''serial: kernel start'' @ [10]) (uart_init_early (m_io k))\<rparr>;
     k \<leftarrow> kmain_usb hc k;
     k \<leftarrow> kmain_graphics mbi k;
     (r, k) \<leftarrow> kmain_card k;
     k \<leftarrow> (if r = 0 then kmain_nic k else kmain_usb_nic hc k);
     let w = (m_world k)\<lparr>w_heap := x_heap (m_xhci k)\<rparr>;
     w \<leftarrow> on_ui (cursor_move_to (sint (scr_w w) sdiv 2) (sint (scr_h w) sdiv 2)) w;
     w \<leftarrow> welcome_setup w;
     Some (Welcome, k\<lparr>m_world := w\<rparr>)
   }"


section \<open>From power-on to the welcome screen\<close>

lemma same_dump: "same x (xhci_dump_ports hc x)"
  unfolding xhci_dump_ports_def
  by (rule same_fold [OF _ same_refl]) (auto simp: xhci_read_portsc_def intro: same_intros)

text \<open>What a probe that finds a controller leaves.\<close>

definition fresh_driver :: "'h xhci \<Rightarrow> bool" where
  "fresh_driver x \<longleftrightarrow> xhci_ok x \<and> xhci_hw_enable x \<and> \<not> g_slot_enabled x \<and> g_dev_ctx x = None"

definition bus_master :: "pci_hw \<Rightarrow> u8 \<times> u8 \<times> u8 \<Rightarrow> pci_hw" where
  "bus_master hw = (\<lambda>(bus, slot, func). pci_config_write32 bus slot func 0x04 (pci_config_read32 hw bus slot func 0x04 OR 0x0006) hw)"

lemma probe_found:
  assumes "scan_buses (xhci_match (x_pci x)) (x_pci x) 0 = Some loc" "fresh_driver x"
  shows "\<exists>y. xhci_probe hc x = Some (0, y) \<and> fresh_driver y \<and> x_pci y = bus_master (x_pci x) loc \<and> x_heap y = x_heap x"
proof -
  obtain bus slot func where l: "loc = (bus, slot, func)" by (cases loc)
  show ?thesis using assms
    by (auto simp: xhci_probe_def l Let_def split_def bus_master_def peek_def xhci_op_read32_def xhci_cap_read32_def
        fresh_driver_def xhci_ok_def cmd_ok_def er_ok_def ctx_ok_def)
qed

lemma kmain_usb_found:
  assumes "scan_buses (xhci_match (x_pci (m_xhci k))) (x_pci (m_xhci k)) 0 = Some loc" "fresh_driver (m_xhci k)"
  shows "\<exists>y. kmain_usb hc k = Some (set_xhci y k) \<and> fresh_driver y \<and> x_pci y = bus_master (x_pci (m_xhci k)) loc \<and>
    (\<forall>n. heap_room (n + 12333) (x_heap (m_xhci k)) \<longrightarrow> heap_room n (x_heap y))"
proof -
  obtain x1 where x1: "xhci_probe hc (m_xhci k) = Some (0, x1)" "fresh_driver x1" "x_pci x1 = bus_master (x_pci (m_xhci k)) loc"
      "x_heap x1 = x_heap (m_xhci k)"
    using probe_found [OF assms, of hc] by blast
  define x2 where "x2 = xhci_dump_ports hc x1"
  have s: "same x1 x2" unfolding x2_def by (rule same_dump)
  have "fresh_driver x2" "x_pci x2 = x_pci x1" "x_heap x2 = x_heap x1"
    using x1(2) same_fields [OF s] same_ok(4) [OF s] by (simp_all add: fresh_driver_def)
  with enumeration_run [of x2 hc] x1 show ?thesis
    by (auto simp: kmain_usb_def x2_def fresh_driver_def)
qed

lemma alloc_bufs_room: "heap_room (n * 2063 + k) p \<Longrightarrow> heap_room k (snd (alloc_bufs n p))"
proof (induction n arbitrary: p)
  case 0
  then show ?case by simp
next
  case (Suc n)
  have "heap_room (unat (2048 :: u32) + 15 + (n * 2063 + k)) p" using Suc.prems by (simp add: heap_room_def)
  from Suc.IH [OF heap_room_kmalloc(2) [OF this]] show ?case by (simp add: split_def Let_def)
qed

lemma length_e1000_mac: "length (e1000_mac d) = 6"
  by (simp add: e1000_mac_def Let_def)

text \<open>With a card, a base address and memory the driver comes up and sets the address of the interface.\<close>

lemma e1000_init_comes_up:
  assumes "pci_find_intel_net hw = Some (bus, slot, func)"
    and "pci_config_read32 (bus_master hw (bus, slot, func)) bus slot func 0x10 AND NOT 0xF \<noteq> 0"
    and "heap_room 120000 heap"
  shows "\<exists>hw' heap' d' mac. e1000_init mem hw heap d n = Some (0, hw', heap', d', net_init mac n) \<and>
    driver_ready d' \<and> e1000_ok d' \<and> (\<forall>i < 32. rd_status (rx_ring d' ! i) = 0) \<and> length mac = 6"
proof -
  have "heap_room (unat (512 :: u32) + 15 + 110000) heap" using assms(3) by (simp add: heap_room_def)
  note r = heap_room_kmalloc [OF this]
  have "heap_room (32 * 2063 + 40000) (snd (kmalloc 512 heap))" using r(2) by (rule heap_room_mono) simp
  from alloc_bufs_room [OF this] have a: "heap_room 40000 (snd (alloc_bufs 32 (snd (kmalloc 512 heap))))" .
  then have "heap_room (unat (256 :: u32) + 15 + 1000) (snd (alloc_bufs 32 (snd (kmalloc 512 heap))))" by (rule heap_room_mono) simp
  note t = heap_room_kmalloc(1) [OF this]
  have h2: "snd (e1000_init_rx mem heap d1) = snd (alloc_bufs 32 (snd (kmalloc 512 heap)))" for d1
    by (simp add: e1000_init_rx_def split_def Let_def)
  have "\<exists>hw' heap' d' mac. e1000_init mem hw heap d n = Some (0, hw', heap', d', net_init mac n) \<and> length mac = 6"
    using assms(1,2) r(1) t length_e1000_mac
    by (simp add: e1000_init_def bus_master_def Let_def split_def h2) blast
  then show ?thesis using e1000_init_ok by blast
qed

text \<open>C31: Without a USB controller the kernel never gets to its screen, whatever else is there.\<close>

theorem kmain_needs_usb_controller:
  assumes "\<forall>bus slot func. \<not> xhci_match (x_pci (m_xhci k)) bus slot func"
  shows "kmain hc mbi k = None"
  using probe_never [of "m_xhci k" hc] assms by (simp add: kmain_def kmain_usb_def)


lemma early_keeps_inputs: "p_in (serial_early_puts cs (uart_init_early s)) = p_in s"
proof -
  have "p_in (fold (\<lambda>c s. outb (0x3F8 + 0) c (lsr_wait 100000 s)) cs t) = p_in t" for t
  proof (induction cs arbitrary: t)
    case Nil
    then show ?case by simp
  next
    case (Cons c cs)
    have "p_in (lsr_wait 100000 t) = p_in t" using lsr_wait_sent [of t 100000] by (simp add: sent_def)
    with Cons show ?case by (simp add: outb_def del: lsr_wait.simps)
  qed
  moreover have "p_in (uart_init_early s) = p_in s"
    using fold_outb_sent [of uart_config s] by (simp add: uart_init_early_def sent_def)
  ultimately show ?thesis by (simp add: serial_early_puts_def)
qed

lemma kmain_front:
  assumes "scan_buses (xhci_match (x_pci (m_xhci k))) (x_pci (m_xhci k)) 0 = Some loc" "fresh_driver (m_xhci k)"
    and "heap_room 132333 (x_heap (m_xhci k))"
    and "init_graphics mbi (ui_fb (w_ui (m_world k))) = Some fb" "mouse_alive (p_in (m_io k))"
  shows "\<exists>k'. (kmain_usb hc (k\<lparr>m_io := serial_early_puts cs (uart_init_early (m_io k))\<rparr>) \<bind> kmain_graphics mbi) = Some k' \<and>
    x_pci (m_xhci k') = bus_master (x_pci (m_xhci k)) loc \<and> heap_room 120000 (x_heap (m_xhci k')) \<and>
    m_world k' = (m_world k)\<lparr>w_sys := (w_sys (m_world k))\<lparr>sys_ui := (w_ui (m_world k))\<lparr>ui_fb := fb\<rparr>\<rparr>\<rparr>"
proof -
  define k1 where "k1 = k\<lparr>m_io := serial_early_puts cs (uart_init_early (m_io k))\<rparr>"
  have k1: "m_xhci k1 = m_xhci k" "m_world k1 = m_world k" "mouse_alive (p_in (m_io k1))"
    using assms(5) by (simp_all add: k1_def early_keeps_inputs)
  obtain y where y: "kmain_usb hc k1 = Some (set_xhci y k1)" "x_pci y = bus_master (x_pci (m_xhci k)) loc" "heap_room 120000 (x_heap y)"
    using kmain_usb_found [of k1 loc hc] assms(1-3) k1(1) by auto
  define k2 where "k2 = set_xhci y k1"
  define w1 where "w1 = (m_world k)\<lparr>w_sys := (w_sys (m_world k))\<lparr>sys_ui := (w_ui (m_world k))\<lparr>ui_fb := fb\<rparr>\<rparr>\<rparr>"
  have k2: "m_xhci k2 = y" "m_world k2 = m_world k" "m_io k2 = m_io k1" by (simp_all add: k2_def set_xhci_def k1)
  have dr: "draw (init_graphics mbi) (m_world k2) = Some w1" using assms(4) by (simp add: draw_def on_ui_def on_fb_def k2 w1_def)
  obtain status io where io: "init_mouse (scr_w w1) (scr_h w1) (m_io k2) = Some (sint (scr_w w1 div 2), sint (scr_h w1 div 2), io)"
    using init_mouse_run [of "m_io k2"] k1(3) k2(3) by metis
  have "kmain_graphics mbi k2 = Some (k2\<lparr>m_world := w1, m_io := io\<rparr>)" by (simp add: kmain_graphics_def dr io)
  with y k2 show ?thesis by (simp add: k1_def [symmetric] k2_def [symmetric] w1_def)
qed

text \<open>What the world keeps while the kernel draws.\<close>

abbreviation draws_only :: "world \<Rightarrow> world \<Rightarrow> bool" where
  "draws_only st st' \<equiv> w_nic st' = w_nic st \<and> w_card st' = w_card st \<and> w_stack st' = w_stack st \<and> w_expr st' = w_expr st"

lemma draws_only_ui: "on_ui f st = Some st' \<Longrightarrow> draws_only st st'"
  by (auto simp: on_ui_def)

lemma draw_only:
  assumes "draws w h f" "world_ok w h st"
  shows "\<exists>st'. draw f st = Some st' \<and> world_ok w h st' \<and> draws_only st st'"
  using draw_total [OF assms] draws_only_ui by (auto simp: draw_def)

lemma cursor_only:
  assumes "world_ok w h st"
  shows "\<exists>st'. on_ui (cursor_move_to x y) st = Some st' \<and> world_ok w h st' \<and> draws_only st st'"
  using cursor_to_total [OF assms, of "\<lambda>_. x" "\<lambda>_. y"] draws_only_ui by auto

lemma welcome_setup_total:
  assumes "world_ok w h st"
  shows "\<exists>st'. welcome_setup st = Some st' \<and> world_ok w h st' \<and> draws_only st st'"
proof -
  obtain nx ny where n: "welcome_next st = (nx, ny)" by fastforce
  define f where "f = draw_all
          [draw_rect 0 0 (sint (scr_w st)) (sint (scr_h st)) 0xFFFFFF,
           draw_rounded (centred (scr_w st) 400) (centred (scr_h st) 200) 400 200 20 0xCCCCCC,
           draw_string (centred (scr_w st) 400 + 80) (centred (scr_h st) 200 + 90) (lit ''Welcome To MyOS!'') 0xFF0000,
           draw_rounded nx ny 100 50 15 0x8888FF,
           draw_string (nx + 25) (ny + 15) (lit ''Next'') 0xFFFFFF]"
  have "draws w h f" unfolding f_def by (intro drawing) simp_all
  from draw_only [OF this assms] obtain st1 where 1: "draw f st = Some st1" "world_ok w h st1" "draws_only st st1" by blast
  have "welcome_setup st = on_ui (cursor_move_to (sint (scr_w st1 div 2)) (sint (scr_h st1 div 2))) st1"
    unfolding welcome_setup_def n Let_def prod.case f_def [symmetric] 1(1) bind.simps by (rule refl)
  with cursor_only [OF 1(2)] 1(3) show ?thesis by metis
qed

lemma kmain_card_up:
  assumes "pci_find_intel_net (x_pci (m_xhci k)) = Some (bus, slot, func)"
    and "pci_config_read32 (bus_master (x_pci (m_xhci k)) (bus, slot, func)) bus slot func 0x10 AND NOT 0xF \<noteq> 0"
    and "heap_room 120000 (x_heap (m_xhci k))"
  shows "\<exists>k' d mac. kmain_card k = Some (0, k') \<and> driver_ready d \<and> e1000_ok d \<and> (\<forall>i < 32. rd_status (rx_ring d ! i) = 0) \<and>
    length mac = 6 \<and> m_world k' = (m_world k)\<lparr>w_nic := d,
      w_stack := (w_stack (m_world k))\<lparr>st_net := net_init mac (st_net (w_stack (m_world k)))\<rparr>\<rparr>"
proof -
  obtain hw heap d mac where e: "e1000_init (x_mem (m_xhci k)) (x_pci (m_xhci k)) (x_heap (m_xhci k)) (w_nic (m_world k)) (st_net (w_stack (m_world k))) =
      Some (0, hw, heap, d, net_init mac (st_net (w_stack (m_world k))))"
    "driver_ready d" "e1000_ok d" "\<forall>i < 32. rd_status (rx_ring d ! i) = 0" "length mac = 6"
    using e1000_init_comes_up [OF assms] by blast
  then show ?thesis by (simp add: kmain_card_def Let_def) blast
qed

lemma kmain_nic_up:
  assumes "world_ok w h (m_world k)"
  shows "\<exists>st. kmain_nic k = Some (k\<lparr>m_world := st\<rparr>) \<and> world_ok w h st \<and> draws_only ((m_world k)\<lparr>w_stack :=
    (w_stack (m_world k))\<lparr>st_net := net_set_ipv4 guest_ip guest_netmask guest_gw (st_net (w_stack (m_world k)))\<rparr>\<rparr>) st"
proof -
  let ?w = "(m_world k)\<lparr>w_stack :=
    (w_stack (m_world k))\<lparr>st_net := net_set_ipv4 guest_ip guest_netmask guest_gw (st_net (w_stack (m_world k)))\<rparr>\<rparr>"
  have "draws w h (draw_string 20 20 (lit ''NIC init OK, IP=10.0.2.15'') 0x00AA00)" by (intro drawing) simp
  from draw_only [OF this, of ?w] assms show ?thesis by (auto simp: kmain_nic_def Let_def)
qed

text \<open>The world the loop over the windows starts in.\<close>

lemma kmain_run:
  assumes usb: "scan_buses (xhci_match (x_pci (m_xhci k))) (x_pci (m_xhci k)) 0 = Some loc" "fresh_driver (m_xhci k)"
    and card: "pci_find_intel_net (bus_master (x_pci (m_xhci k)) loc) = Some (bus, slot, func)"
      "pci_config_read32 (bus_master (bus_master (x_pci (m_xhci k)) loc) (bus, slot, func)) bus slot func 0x10 AND NOT 0xF \<noteq> 0"
    and heap: "heap_room 132333 (x_heap (m_xhci k))"
    and screen: "init_graphics mbi (ui_fb (w_ui (m_world k))) = Some fb" "fb_ok w h fb"
    and mouse: "mouse_alive (p_in (m_io k))"
  shows "\<exists>k' d mac. kmain hc mbi k = Some (Welcome, k') \<and> world_ok w h (m_world k') \<and>
    driver_ready d \<and> e1000_ok d \<and> (\<forall>i < 32. rd_status (rx_ring d ! i) = 0) \<and> length mac = 6 \<and>
    draws_only ((m_world k)\<lparr>w_nic := d, w_stack := (w_stack (m_world k))\<lparr>st_net :=
      net_set_ipv4 guest_ip guest_netmask guest_gw (net_init mac (st_net (w_stack (m_world k))))\<rparr>\<rparr>) (m_world k')"
proof -
  obtain k1 where 1: "(kmain_usb hc (k\<lparr>m_io := serial_early_puts (lit ''serial: kernel start'' @ [10]) (uart_init_early (m_io k))\<rparr>) \<bind> kmain_graphics mbi) = Some k1"
    "x_pci (m_xhci k1) = bus_master (x_pci (m_xhci k)) loc" "heap_room 120000 (x_heap (m_xhci k1))"
    "m_world k1 = (m_world k)\<lparr>w_sys := (w_sys (m_world k))\<lparr>sys_ui := (w_ui (m_world k))\<lparr>ui_fb := fb\<rparr>\<rparr>\<rparr>"
    using kmain_front [OF usb heap screen(1) mouse] by blast
  from kmain_card_up [of k1, unfolded 1(2), OF card 1(3)] obtain k2 d mac where
    2: "kmain_card k1 = Some (0, k2)" "driver_ready d" "e1000_ok d" "\<forall>i < 32. rd_status (rx_ring d ! i) = 0" "length mac = 6"
    "m_world k2 = (m_world k1)\<lparr>w_nic := d, w_stack := (w_stack (m_world k1))\<lparr>st_net := net_init mac (st_net (w_stack (m_world k1)))\<rparr>\<rparr>" by blast
  have "world_ok w h (m_world k2)" using screen(2) by (simp add: 2(6) 1(4) ui_ok_def)
  from kmain_nic_up [OF this] obtain st where
    3: "kmain_nic k2 = Some (k2\<lparr>m_world := st\<rparr>)" "world_ok w h st" "draws_only ((m_world k2)\<lparr>w_stack :=
      (w_stack (m_world k2))\<lparr>st_net := net_set_ipv4 guest_ip guest_netmask guest_gw (st_net (w_stack (m_world k2)))\<rparr>\<rparr>) st" by blast
  define st0 where "st0 = st\<lparr>w_heap := x_heap (m_xhci k2)\<rparr>"
  have "world_ok w h st0" using 3(2) by (simp add: st0_def)
  from cursor_only [OF this] obtain st1 where
    4: "on_ui (cursor_move_to (sint (scr_w st) sdiv 2) (sint (scr_h st) sdiv 2)) st0 = Some st1" "world_ok w h st1" "draws_only st0 st1" by blast
  from welcome_setup_total [OF 4(2)] obtain st2 where 5: "welcome_setup st1 = Some st2" "world_ok w h st2" "draws_only st1 st2" by blast
  have "kmain hc mbi k = Some (Welcome, k2\<lparr>m_world := st2\<rparr>)"
    using 1(1) 4(1) by (auto simp: kmain_def Let_def bind_Some_iff 2(1) 3(1) 5(1) st0_def)
  moreover have "draws_only ((m_world k)\<lparr>w_nic := d, w_stack := (w_stack (m_world k))\<lparr>st_net :=
      net_set_ipv4 guest_ip guest_netmask guest_gw (net_init mac (st_net (w_stack (m_world k))))\<rparr>\<rparr>) st2"
    using 5(3) 4(3) 3(3) by (simp add: st0_def 2(6) 1(4))
  ultimately show ?thesis using 2(2-5) 5(2) by (intro exI [of _ "k2\<lparr>m_world := st2\<rparr>"] exI [of _ d] exI [of _ mac]) simp
qed

text \<open>C9: With a USB controller, a network card with a base address, memory behind the heap, a mouse
  that answers and a sound framebuffer the start ends at the welcome screen: the enumeration of
  USB has failed, the card is ready, the interface has its address, and the screen is sound.\<close>

theorem kmain_reaches_welcome:
  assumes usb: "scan_buses (xhci_match (x_pci (m_xhci k))) (x_pci (m_xhci k)) 0 = Some loc" "fresh_driver (m_xhci k)"
    and card: "pci_find_intel_net (bus_master (x_pci (m_xhci k)) loc) = Some (bus, slot, func)"
      "pci_config_read32 (bus_master (bus_master (x_pci (m_xhci k)) loc) (bus, slot, func)) bus slot func 0x10 AND NOT 0xF \<noteq> 0"
    and heap: "heap_room 132333 (x_heap (m_xhci k))"
    and screen: "init_graphics mbi (ui_fb (w_ui (m_world k))) = Some fb" "fb_ok w h fb"
    and mouse: "mouse_alive (p_in (m_io k))"
  shows "\<exists>k'. kmain hc mbi k = Some (Welcome, k') \<and> world_ok w h (m_world k') \<and> driver_ready (w_nic (m_world k')) \<and>
    net_get_ip (st_net (w_stack (m_world k'))) = guest_ip"
  using kmain_run [OF usb card heap screen mouse, of hc] by (auto simp: net_get_ip_def net_set_ipv4_def)


text \<open>A machine with a USB controller in slot 0 and an Intel network card in slot 1 of bus 0.\<close>

definition pci_demo :: pci_hw where
  "pci_demo addr =
     (if addr = 0x80000000 then 0x12348086 else if addr = 0x80000008 then 0x0C033000
      else if addr = 0x80000010 then 0xE0000000
      else if addr = 0x80000800 then 0x100E8086 else if addr = 0x80000808 then 0x02000000
      else if addr = 0x80000810 then 0xF0000000 else 0xFFFFFFFF)"

definition mbi_demo :: bytes where
  "mbi_demo = replicate 8 0 @ st32 1 @ st32 12 @ [120, 0, 0, 0, 0, 0, 0, 0] @
     st32 8 @ st32 32 @ st32 0xFD000000 @ st32 0 @ st32 20 @ st32 4 @ st32 3 @ [32, 1, 0, 0]"

definition machine_demo :: "unit machine" where
  "machine_demo = \<lparr>m_io = pio_demo, m_usb = usb_boot (xhci_boot pci_demo (\<lambda>_. 0) heap_start ()), m_world = world_demo\<rparr>"

lemma pci_demo_usb: "scan_slots (xhci_match pci_demo) pci_demo 0 (map word_of_nat [0..<32]) = Some (0, 0)"
  by code_simp

lemma pci_demo_card: "pci_find_intel_net (bus_master pci_demo (0, 0, 0)) = Some (0, 1, 0)"
proof -
  have "scan_slots (\<lambda>bus slot func. pci_config_read16 (bus_master pci_demo (0, 0, 0)) bus slot func 0 = 0x8086 \<and>
       pci_config_read8 (bus_master pci_demo (0, 0, 0)) bus slot func 0x0B = 0x02) (bus_master pci_demo (0, 0, 0)) 0 (map word_of_nat [0..<32]) = Some (1, 0)"
    by code_simp
  then show ?thesis unfolding pci_find_intel_net_def by (subst scan_buses.simps) simp
qed

lemma mbi_demo_loads:
  "ld32 mbi_demo 8 = Some 1" "ld32 mbi_demo 12 = Some 12" "ld32 mbi_demo 24 = Some 8" "ld32 mbi_demo 32 = Some 0xFD000000"
  "ld32 mbi_demo 40 = Some 20" "ld32 mbi_demo 44 = Some 4" "ld32 mbi_demo 48 = Some 3" "ld8 mbi_demo 52 = Some 32"
  by code_simp+

lemma mbi_demo_graphics:
  "init_graphics mbi_demo s = Some (s\<lparr>fb_addr := 0xFD000000, fb_width := 4, fb_height := 3, fb_bpp := 32, fb_pitch := 20\<rparr>)"
proof -
  have "find_fb_tag mbi_demo 24 = Some (Some 24)" by (subst find_fb_tag.simps) (simp add: mbi_demo_loads)
  then have "find_fb_tag mbi_demo 8 = Some (Some 24)" by (subst find_fb_tag.simps) (simp add: mbi_demo_loads)
  then show ?thesis by (simp add: init_graphics_def mbi_demo_loads)
qed

lemma kmain_needs_usb_controller_witness:
  "kmain hc_idle mbi_demo (set_xhci (xhci_boot (\<lambda>_. 0) (\<lambda>_. 0) heap_start ()) machine_demo) = None"
  by (rule kmain_needs_usb_controller)
    (simp add: xhci_match_def pci_config_read8_def pci_config_read32_def set_xhci_def xhci_boot_def Let_def)

definition tall_memory :: "world \<Rightarrow> world" where
  "tall_memory w = w\<lparr>w_sys := (w_sys w)\<lparr>sys_ui := (w_ui w)\<lparr>ui_fb := (ui_fb (w_ui w))\<lparr>fb_mem := replicate 20 7\<rparr>\<rparr>\<rparr>\<rparr>"

definition machine_tall :: "unit machine" where
  "machine_tall = machine_demo\<lparr>m_world := tall_memory world_demo\<rparr>"

lemma machine_tall_usb:
  "scan_buses (xhci_match (x_pci (m_xhci machine_tall))) (x_pci (m_xhci machine_tall)) 0 = Some (0, 0, 0)"
  "fresh_driver (m_xhci machine_tall)"
proof -
  have p: "x_pci (m_xhci machine_tall) = pci_demo" by (simp add: machine_tall_def machine_demo_def usb_boot_def xhci_boot_def)
  show "scan_buses (xhci_match (x_pci (m_xhci machine_tall))) (x_pci (m_xhci machine_tall)) 0 = Some (0, 0, 0)"
    unfolding p by (subst scan_buses.simps) (simp add: pci_demo_usb)
  show "fresh_driver (m_xhci machine_tall)"
    by (simp add: fresh_driver_def machine_tall_def machine_demo_def usb_boot_def xhci_boot_ok) (simp add: xhci_boot_def)
qed

lemma machine_tall_card:
  "pci_find_intel_net (bus_master (x_pci (m_xhci machine_tall)) (0, 0, 0)) = Some (0, 1, 0)"
  "pci_config_read32 (bus_master (bus_master (x_pci (m_xhci machine_tall)) (0, 0, 0)) (0, 1, 0)) 0 1 0 0x10 AND NOT 0xF \<noteq> 0"
proof -
  have p: "x_pci (m_xhci machine_tall) = pci_demo" by (simp add: machine_tall_def machine_demo_def usb_boot_def xhci_boot_def)
  show "pci_find_intel_net (bus_master (x_pci (m_xhci machine_tall)) (0, 0, 0)) = Some (0, 1, 0)"
    unfolding p by (rule pci_demo_card)
  have "pci_config_read32 (bus_master (bus_master pci_demo (0, 0, 0)) (0, 1, 0)) 0 1 0 0x10 AND NOT 0xF \<noteq> 0" by code_simp
  then show "pci_config_read32 (bus_master (bus_master (x_pci (m_xhci machine_tall)) (0, 0, 0)) (0, 1, 0)) 0 1 0 0x10 AND NOT 0xF \<noteq> 0"
    unfolding p .
qed

lemma machine_tall_rest:
  "heap_room 132333 (x_heap (m_xhci machine_tall))"
  "fb_ok 4 3 (ui_fb (w_ui (m_world machine_tall))\<lparr>fb_addr := 0xFD000000, fb_width := 4, fb_height := 3, fb_bpp := 32, fb_pitch := 20\<rparr>)"
  "mouse_alive (p_in (m_io machine_tall))"
proof -
  show "heap_room 132333 (x_heap (m_xhci machine_tall))"
    by (simp add: machine_tall_def machine_demo_def usb_boot_def xhci_boot_def heap_room_def heap_start_def)
  show "fb_ok 4 3 (ui_fb (w_ui (m_world machine_tall))\<lparr>fb_addr := 0xFD000000, fb_width := 4, fb_height := 3, fb_bpp := 32, fb_pitch := 20\<rparr>)"
    by (simp add: fb_ok_def stride_def tall_memory_def machine_tall_def)
  show "mouse_alive (p_in (m_io machine_tall))" by (auto simp: machine_tall_def machine_demo_def pio_demo_def mouse_alive_def)
qed

lemma kmain_reaches_welcome_witness:
  "\<exists>k'. kmain hc_idle mbi_demo machine_tall = Some (Welcome, k') \<and> world_ok 4 3 (m_world k') \<and>
    driver_ready (w_nic (m_world k')) \<and> net_get_ip (st_net (w_stack (m_world k'))) = guest_ip"
  by (rule kmain_reaches_welcome [OF machine_tall_usb machine_tall_card machine_tall_rest(1) mbi_demo_graphics machine_tall_rest(2,3)])

end
