(* ===== verification/Kernel.thy ===== *)
theory Kernel
  imports Boot
begin

text \<open>
  The kernel as a whole: the loop over the windows after the start. The locale \<open>window_loop\<close> is the
  contract between the windows and the machine under them, proved once for every window and
  interpreted twice: on a machine whose card delivers good frames (\<open>kernel_ok\<close>) and on one whose
  cable is unplugged (\<open>unplugged\<close>). The locale \<open>idle_poll\<close> of the HTTPS client is interpreted on the
  poll of the running machine. \<open>kernel_runs\<close> are the states the loop reaches.
\<close>

section \<open>Steps of the loop\<close>

text \<open>The windows only change what is on the screen, the mouse and the expression.\<close>

definition same_machine :: "world \<Rightarrow> world \<Rightarrow> bool" where
  "same_machine st st' \<longleftrightarrow> w_nic st' = w_nic st \<and> w_card st' = w_card st \<and> w_stack st' = w_stack st"

lemma on_ui_same: "on_ui f st = Some st' \<Longrightarrow> same_machine st st' \<and> w_mouse st' = w_mouse st \<and> w_expr st' = w_expr st"
  by (auto simp: on_ui_def same_machine_def)

lemma rdigits_ascii: "ascii (rdigits n)"
proof (cases "n = 0")
  case False
  then have "set (rdigits n) = set (dec n)" using rev_rdigits [of n] by (metis neq0_conv set_rev)
  then show ?thesis using dec_digits [of n] digit_sint by (auto simp: ascii_def)
qed (simp add: rdigits.simps ascii_def)

lemma calc_add_ascii: "0 \<le> sint c \<Longrightarrow> ascii e \<Longrightarrow> ascii (calc_add c e)"
  by (auto simp: ascii_def calc_add_def)

lemma fold_calc_add_ascii: "ascii cs \<Longrightarrow> ascii e \<Longrightarrow> ascii (foldl (\<lambda>e c. calc_add c e) e cs)"
proof (induction cs arbitrary: e)
  case (Cons c cs)
  have "0 \<le> sint c" "ascii cs" using Cons.prems(1) by (simp_all add: ascii_def)
  with Cons calc_add_ascii [of c e] show ?case by simp
qed simp

lemma ascii_append [simp]: "ascii (s @ t) \<longleftrightarrow> ascii s \<and> ascii t"
  by (auto simp: ascii_def)

lemma calc_eval_ascii:
  assumes "calc_eval e = Some e'"
  shows "ascii e'"
proof -
  obtain res where e: "e' = foldl (\<lambda>e c. calc_add c e) (calc_clear e)
      (rev ((if res = 0 then [48] else []) @ rdigits (nat (if res < 0 then - res else res)) @ (if res < 0 then [45] else [])))"
    using assms unfolding calc_eval_def bind_Some_iff Let_def by blast
  have "ascii ((if res = 0 then [48] else []) @ rdigits n @ (if res < 0 then [45] else []))" for n
    using rdigits_ascii [of n] by (auto simp: ascii_def)
  then have "ascii (rev ((if res = 0 then [48] else []) @ rdigits n @ (if res < 0 then [45] else [])))" for n
    unfolding ascii_def set_rev .
  from fold_calc_add_ascii [OF this, of "[]"] show ?thesis unfolding e calc_clear_def by (simp add: ascii_def)
qed

lemma press_key_ascii:
  assumes "press_key k e = Some e'" "ascii e" "0 \<le> sint k"
  shows "ascii e'"
  using assms calc_eval_ascii [of e e'] calc_add_ascii [of k e] by (auto simp: press_key_def calc_clear_def ascii_def split: if_splits)

lemma calc_keys_ascii: "i < 17 \<Longrightarrow> 0 \<le> sint (calc_keys ! i)"
proof -
  have "\<forall>i < 17. 0 \<le> sint (calc_keys ! i)" by code_simp
  then show "i < 17 \<Longrightarrow> 0 \<le> sint (calc_keys ! i)" by blast
qed

text \<open>A click presses one key or none.\<close>

lemma click_keys_cases:
  "click_keys st = Some st \<or> (\<exists>k. 0 \<le> sint k \<and> click_keys st = map_option (\<lambda>e. st\<lparr>w_expr := e\<rparr>) (press_key k (w_expr st)))"
proof (cases "\<exists>(r, c) \<in> set calc_cells. hit (fst (key_place st r c)) (snd (key_place st r c)) BW BH st")
  case True
  then obtain r c where rc: "r < 4" "c < 4" "hit (fst (key_place st r c)) (snd (key_place st r c)) BW BH st"
    by (auto simp: calc_cells_mem)
  have "0 \<le> sint (calc_keys ! (4 * r + c))" using rc by (intro calc_keys_ascii) simp
  with click_keys_one [OF rc] show ?thesis by blast
next
  case False
  then have "\<forall>(r, c) \<in> set calc_cells. 4 * r + c < 17 \<and> \<not> hit (fst (key_place st r c)) (snd (key_place st r c)) BW BH st"
    by (auto simp: calc_cells_mem)
  then show ?thesis unfolding click_keys_def by (blast dest: no_key_hit)
qed

text \<open>The contract between the windows and the machine under them: an invariant that polling keeps
  and that does not depend on the screen.\<close>

locale window_loop =
  fixes inv :: "world \<Rightarrow> bool" and w h :: u32
  assumes sound: "inv st \<Longrightarrow> world_ok w h st \<and> ascii (w_expr st)"
    and poll: "inv st \<Longrightarrow> \<exists>st'. poll_nic st = Some st' \<and> inv st' \<and> w_expr st' = w_expr st"
    and frame: "inv st \<Longrightarrow> same_machine st st' \<Longrightarrow> world_ok w h st' \<Longrightarrow> ascii (w_expr st') \<Longrightarrow> inv st'"
begin

lemma ui_inv:
  assumes "inv st" "on_ui f st = Some st'" "world_ok w h st'"
  shows "inv st' \<and> w_expr st' = w_expr st"
  using frame [OF assms(1) _ assms(3)] on_ui_same [OF assms(2)] sound [OF assms(1)] by simp

lemma draw_inv: "draws w h f \<Longrightarrow> inv st \<Longrightarrow> \<exists>st'. draw f st = Some st' \<and> inv st' \<and> w_expr st' = w_expr st"
  using draw_total [of w h f st] sound [of st] ui_inv by (metis draw_def)

lemma cursor_inv: "inv st \<Longrightarrow> \<exists>st'. on_ui (\<lambda>u. cursor_move_to (f u) (g u) u) st = Some st' \<and> inv st' \<and> w_expr st' = w_expr st"
  using cursor_to_total [of w h st f g] sound [of st] ui_inv by metis

lemma away_inv: "inv st \<Longrightarrow> \<exists>st'. on_ui cursor_restore_under st = Some st' \<and> inv st'"
  using cursor_away_total [of w h st] sound [of st] ui_inv by metis

lemma mouse_inv:
  assumes "inv st"
  shows "\<exists>click st'. mouse_input status d st = Some (click, st') \<and> inv st' \<and> w_expr st' = w_expr st"
proof -
  from mouse_input_total [of w h st status d] sound [OF assms] obtain click st' where
    m: "mouse_input status d st = Some (click, st')" "world_ok w h st'" "w_expr st' = w_expr st" by blast
  then have "same_machine st st'"
    by (auto simp: mouse_input_def bind_Some_iff same_machine_def Let_def split: prod.splits option.splits dest!: on_ui_same)
  with m frame [OF assms] sound [OF assms] show ?thesis by auto
qed

lemma welcome_step_inv:
  assumes "inv st"
  shows "\<exists>fin st'. welcome_step status d st = Some (fin, st') \<and> inv st'"
proof -
  obtain st1 where 1: "poll_nic st = Some st1" "inv st1" using poll [OF assms] by blast
  obtain click st2 where 2: "mouse_input status d st1 = Some (click, st2)" "inv st2" using mouse_inv [OF 1(2)] by blast
  obtain st3 where 3: "on_ui cursor_restore_under st2 = Some st3" "inv st3" using away_inv [OF 2(2)] by blast
  show ?thesis by (auto simp: welcome_step_def 1(1) 2 3 split_def Let_def)
qed

lemma desktop_setup_inv:
  assumes "inv st"
  shows "\<exists>st'. desktop_setup st = Some st' \<and> inv st'"
proof -
  obtain a where a: "draw (draw_rect 0 0 (sint (scr_w st)) (sint (scr_h st)) 0x87CEEB) st = Some a" "inv a"
    using draw_inv [OF draws_rect assms] by blast
  have "draws w h (if b then draw_string 20 20 (lit ''NIC: 10.0.2.15 OK'') 0x00AA00 else draw_string 20 20 (lit ''NIC: NOT READY'') 0xFF0000)" for b
    by (cases b; simp; rule drawing; rule drawing; simp)
  from draw_inv [OF this a(2)] obtain b where
    b: "draw (if driver_ready (w_nic a) then draw_string 20 20 (lit ''NIC: 10.0.2.15 OK'') 0x00AA00 else draw_string 20 20 (lit ''NIC: NOT READY'') 0xFF0000) a = Some b"
      "inv b" by blast
  have "draws w h (draw_all [draw_rect 0 (sint (scr_h b - 40)) (sint (scr_w b)) 40 0x333333, draw_rect 8 (sb_top b) 28 28 0x8888FF,
      draw_string (8 + 6) (sb_top b + 8) (lit ''S'') 0xFFFFFF])" by (intro drawing) simp
  from draw_inv [OF this b(2)] obtain c where
    c: "draw (draw_all [draw_rect 0 (sint (scr_h b - 40)) (sint (scr_w b)) 40 0x333333, draw_rect 8 (sb_top b) 28 28 0x8888FF,
      draw_string (8 + 6) (sb_top b + 8) (lit ''S'') 0xFFFFFF]) b = Some c" "inv c" by blast
  show ?thesis using cursor_inv [OF c(2), of cur_x cur_y] unfolding desktop_setup_def a(1) bind.bind_lunit b(1) c(1) by blast
qed

lemma enter_desktop_inv: "inv st \<Longrightarrow> \<exists>st'. enter_desktop st = Some (Desk False, st') \<and> inv st'"
  using poll [of st] desktop_setup_inv by (fastforce simp: enter_desktop_def)

lemma window_step_inv:
  assumes "inv st"
  shows "\<exists>fin st'. window_step status d st = Some (fin, st') \<and> inv st'"
proof -
  obtain st1 where 1: "poll_nic st = Some st1" "inv st1" using poll [OF assms] by blast
  obtain click st2 where 2: "mouse_input status d st1 = Some (click, st2)" "inv st2" using mouse_inv [OF 1(2)] by blast
  obtain st3 where 3: "on_ui cursor_restore_under st2 = Some st3" "inv st3" using away_inv [OF 2(2)] by blast
  show ?thesis by (auto simp: window_step_def 1(1) 2 3)
qed

lemma menu_inv: "inv st \<Longrightarrow> \<exists>st'. open_menu st = Some st' \<and> inv st'" "inv st \<Longrightarrow> \<exists>st'. close_menu st = Some st' \<and> inv st'"
  unfolding open_menu_def close_menu_def using draw_inv [OF draws_menu] draw_inv [OF draws_clear_menu] by blast+

lemma no_program_inv:
  assumes "inv st" "em_bytes em = []"
  shows "\<exists>st'. run_embedded em st = Some st' \<and> inv st'"
proof -
  have "ascii (lit ''No embedded program present. Run make userprog and embed-userprog first.'' @ [10])"
    by (simp add: ascii_def lit_def)
  from console_total [of w h st, OF _ this] sound [OF assms(1)] obtain st' where
    "on_ui (console_puts (lit ''No embedded program present. Run make userprog and embed-userprog first.'' @ [10])) st = Some st'" "world_ok w h st'"
    by blast
  with ui_inv [OF assms(1)] assms(2) show ?thesis by (simp add: run_embedded_def)
qed

lemma desktop_step_inv:
  assumes "inv st" "em_bytes em = []"
  shows "\<exists>r st'. desktop_step em status d opened st = Some (r, st') \<and> inv st'"
proof -
  obtain st1 where 1: "poll_nic st = Some st1" "inv st1" using poll [OF assms(1)] by blast
  obtain click st2 where 2: "mouse_input status d st1 = Some (click, st2)" "inv st2" using mouse_inv [OF 1(2)] by blast
  obtain so where so: "open_menu st2 = Some so" "inv so" using menu_inv(1) [OF 2(2)] by blast
  obtain sc where sc: "close_menu st2 = Some sc" "inv sc" using menu_inv(2) [OF 2(2)] by blast
  obtain sp where sp: "run_embedded em sc = Some sp" "inv sp" using no_program_inv [OF sc(2) assms(2)] by blast
  obtain sq where sq: "close_menu sp = Some sq" "inv sq" using menu_inv(2) [OF sp(2)] by blast
  show ?thesis
    unfolding desktop_step_def 1(1) bind.bind_lunit 2(1) prod.case Let_def so(1) sc(1) sp(1)
    using 2(2) so(2) sc sp(2) sq by (auto simp: sq(1) split: if_splits)
qed

lemma calculator_setup_inv:
  assumes "inv st"
  shows "\<exists>st'. calculator_setup st = Some st' \<and> inv st'"
proof -
  obtain wx wy where win: "calc_window st = (wx, wy)" by fastforce
  have "draws w h (draw_all
       [draw_rect 0 0 (sint (scr_w st)) (sint (scr_h st)) 0x87CEEB, draw_rounded wx wy 300 350 15 0xBBBBBB,
        draw_rect (wx + 10) (wy + 10) (300 - 20) 60 0xFFFFFF, draw_rect (wx + 300 - 30) (wy + 10) 20 20 0xFF0000,
        draw_string (wx + 300 - 30 + 5) (wy + 10 + 2) (lit ''X'') 0xFFFFFF])" by (intro drawing) simp
  from draw_inv [OF this assms] obtain a where a: "draw (draw_all
       [draw_rect 0 0 (sint (scr_w st)) (sint (scr_h st)) 0x87CEEB, draw_rounded wx wy 300 350 15 0xBBBBBB,
        draw_rect (wx + 10) (wy + 10) (300 - 20) 60 0xFFFFFF, draw_rect (wx + 300 - 30) (wy + 10) 20 20 0xFF0000,
        draw_string (wx + 300 - 30 + 5) (wy + 10 + 2) (lit ''X'') 0xFFFFFF]) st = Some a" "inv a" by blast
  let ?f = "\<lambda>(r, c) w. do { k \<leftarrow> ld8 calc_keys (4 * r + c); let (bx, by) = key_place w r c; draw (draw_key bx by k) w }"
  have "\<exists>st'. for_loop ?f cs st = Some st' \<and> inv st'" if "set cs \<subseteq> set calc_cells" "inv st" for cs st
    using that
  proof (induction cs arbitrary: st)
    case (Cons q cs)
    obtain r c where q: "q = (r, c)" by (cases q)
    have i: "4 * r + c < 17" using Cons.prems(1) by (auto simp: q calc_cells_mem)
    obtain x y where xy: "key_place st r c = (x, y)" by fastforce
    have "draws w h (draw_key x y (calc_keys ! (4 * r + c)))" unfolding draw_key_def
      by (intro drawing) (use calc_keys_ascii [OF i] in \<open>simp add: ascii_def\<close>)
    from draw_inv [OF this Cons.prems(2)] obtain s1 where "draw (draw_key x y (calc_keys ! (4 * r + c))) st = Some s1" "inv s1" by blast
    with Cons i show ?case by (simp add: q xy ld8_def length_calc_keys)
  qed simp
  from this [OF order_refl a(2)] obtain b where b: "for_loop ?f calc_cells a = Some b" "inv b" by blast
  show ?thesis using cursor_inv [OF b(2), of cur_x cur_y]
    unfolding calculator_setup_def win prod.case Let_def a(1) bind.bind_lunit b(1) [unfolded Let_def] by blast
qed

lemma calculator_step_inv:
  assumes "inv st"
  shows "(\<exists>fin st'. calculator_step status d st = Some (fin, st') \<and> inv st') \<or>
    calculator_step status d st = None \<and> calc_eval (w_expr st) = None"
proof -
  obtain st1 where 1: "poll_nic st = Some st1" "inv st1" "w_expr st1 = w_expr st" using poll [OF assms] by blast
  obtain wx wy where win: "calc_window st1 = (wx, wy)" by fastforce
  have "draws w h (draw_all [draw_rect (wx + 12) (wy + 12) (300 - 24) 56 0xFFFFFF, draw_string (wx + 20) (wy + 32) (w_expr st1) 0])"
    using sound [OF 1(2)] by (intro drawing) simp
  from draw_inv [OF this 1(2)] obtain sd where
    sd: "draw (draw_all [draw_rect (wx + 12) (wy + 12) (300 - 24) 56 0xFFFFFF, draw_string (wx + 20) (wy + 32) (w_expr st1) 0]) st1 = Some sd"
      "inv sd" "w_expr sd = w_expr st1" by blast
  obtain click st2 where 2: "mouse_input status d sd = Some (click, st2)" "inv st2" "w_expr st2 = w_expr st"
    using mouse_inv [OF sd(2)] sd(3) 1(3) by metis
  obtain st3 where 3: "on_ui cursor_restore_under st2 = Some st3" "inv st3" using away_inv [OF 2(2)] by blast
  have step: "calculator_step status d st =
     (if \<not> click then Some (False, st2)
      else if hit (wx + 300 - 30) (wy + 10) 20 20 st2 then Some (True, st3)
      else map_option (Pair False) (click_keys st2))"
    unfolding calculator_step_def 1(1) bind.bind_lunit win prod.case Let_def sd(1) 2(1) 3(1)
    by (simp add: map_conv_bind_option comp_def)
  have key: "inv (st2\<lparr>w_expr := e\<rparr>)" if "0 \<le> sint k" "press_key k (w_expr st2) = Some e" for k e
    by (rule frame [OF 2(2)]) (use sound [OF 2(2)] press_key_ascii [OF that(2) _ that(1)] in \<open>auto simp: same_machine_def\<close>)
  from click_keys_cases [of st2] show ?thesis
  proof
    assume "click_keys st2 = Some st2"
    then show ?thesis using 2(2) 3(2) by (auto simp: step)
  next
    assume "\<exists>k. 0 \<le> sint k \<and> click_keys st2 = map_option (\<lambda>e. st2\<lparr>w_expr := e\<rparr>) (press_key k (w_expr st2))"
    then obtain k where k: "0 \<le> sint k" "click_keys st2 = map_option (\<lambda>e. st2\<lparr>w_expr := e\<rparr>) (press_key k (w_expr st2))" by blast
    show ?thesis
    proof (cases "press_key k (w_expr st2)")
      case None
      then have "calc_eval (w_expr st) = None" using 2(3) by (simp add: press_key_def split: if_splits)
      then show ?thesis using None 2(2) 3(2) by (auto simp: step k(2))
    next
      case (Some e)
      then show ?thesis using 2(2) 3(2) key [OF k(1) Some] by (auto simp: step k(2))
    qed
  qed
qed

text \<open>The whole loop: only the calculator and the two network windows can get stuck.\<close>

lemma leave_inv:
  assumes "r = Some (fin, st1)" "inv st1"
  shows "\<exists>sc' st'. do { (fin, w) \<leftarrow> r; if fin then enter_desktop w else Some (sc, w) } = Some (sc', st') \<and> (sc \<noteq> Viewing \<longrightarrow> sc' \<noteq> Viewing) \<and> inv st'"
  using enter_desktop_inv [OF assms(2)] assms by (cases fin) auto

lemma kernel_step_inv:
  assumes "inv st" "em_bytes em = []"
  shows "(\<exists>sc' st'. kernel_step lib m t port_s em status d (sc, st) = Some (sc', st') \<and> (sc \<noteq> Viewing \<longrightarrow> sc' \<noteq> Viewing) \<and> inv st') \<or>
    sc = Calc \<and> kernel_step lib m t port_s em status d (sc, st) = None \<and> calc_eval (w_expr st) = None \<or>
    (\<exists>opened k st1. sc = Desk opened \<and> desktop_step em status d opened st = Some (App k, st1) \<and> k \<in> {2, 3} \<and> inv st1 \<and>
      kernel_step lib m t port_s em status d (sc, st) = enter_app lib m t port_s k st1)"
proof (cases sc)
  case Welcome
  from welcome_step_inv [OF assms(1), of status d] show ?thesis
    unfolding Welcome kernel_step_def fst_conv snd_conv screen_state.case by (blast dest: leave_inv)
next
  case (Desk opened)
  from desktop_step_inv [OF assms, of status d opened] obtain r st1 where
    r: "desktop_step em status d opened st = Some (r, st1)" "inv st1" by blast
  show ?thesis
  proof (cases r)
    case (App k)
    obtain st2 where 2: "calculator_setup st1 = Some st2" "inv st2" using calculator_setup_inv [OF r(2)] by blast
    obtain st3 where 3: "enter_desktop st1 = Some (Desk False, st3)" "inv st3" using enter_desktop_inv [OF r(2)] by blast
    have s: "kernel_step lib m t port_s em status d (sc, st) = enter_app lib m t port_s k st1"
      using Desk r(1) App by (simp add: kernel_step_def)
    show ?thesis
    proof (cases "k = 2 \<or> k = 3")
      case True
      with s Desk r App show ?thesis by auto
    next
      case False
      with 2 3 s show ?thesis by (cases "k = 1") (auto simp: enter_app_def)
    qed
  next
    case (Loop b)
    with Desk r show ?thesis by (simp add: kernel_step_def)
  qed
next
  case Calc
  from calculator_step_inv [OF assms(1), of status d] show ?thesis
    unfolding Calc kernel_step_def fst_conv snd_conv screen_state.case by (auto dest: leave_inv)
next
  case Viewing
  from window_step_inv [OF assms(1), of status d] show ?thesis
    unfolding Viewing kernel_step_def fst_conv snd_conv screen_state.case by (blast dest: leave_inv)
qed

end

section \<open>Polling while the card works\<close>

text \<open>The datagram a frame carries, cut as \<open>udp_on_datagram\<close> cuts it; frames that are not UDP over IPv4 have none.\<close>

definition frame_datagram :: "bytes \<Rightarrow> bytes option" where
  "frame_datagram f = do {
     type \<leftarrow> ld16 f 12;
     v \<leftarrow> ld8 f 14;
     tot \<leftarrow> ld16 f 16;
     proto \<leftarrow> ld8 f 23;
     if type = htons ETH_TYPE_IP \<and> proto = IP_PROTO_UDP then
       let ihl = 4 * unat (v AND 0xF) in Some (take (min 1000 (unat (ntohs tot) - ihl - 8)) (drop (22 + ihl) f))
     else None }"

text \<open>A received frame adds at most one datagram, the one it carries.\<close>

definition one_more :: "bytes option \<Rightarrow> stack \<Rightarrow> stack \<Rightarrow> bool" where
  "one_more part s s' \<longleftrightarrow> st_udp s' = st_udp s \<or>
     (\<exists>src sp buf. part = Some buf \<and> st_udp s' = st_udp s @ [(src, sp, buf)])"

lemma ld_drop: "ld8 (drop k f) i = ld8 f (k + i)" "ld16 (drop k f) i = ld16 f (k + i)"
proof -
  have "i < length f - k \<longleftrightarrow> k + i < length f" "i + 2 \<le> length f - k \<longleftrightarrow> k + i + 2 \<le> length f" by linarith+
  then show "ld8 (drop k f) i = ld8 f (k + i)" "ld16 (drop k f) i = ld16 f (k + i)"
    by (simp_all add: ld8_def ld16_def)
qed

lemma udp_on_datagram_more:
  assumes "udp_on_datagram a b dt l z = Some y"
  shows "one_more (Some (take (nat (min 1000 l)) dt)) z y"
proof -
  let ?l = "if l > 1000 then 1000 else l"
  obtain buf where b: "rdn dt ?l = Some buf" "y = z\<lparr>st_udp := st_udp z @ [(a, b, buf)]\<rparr>"
    using assms unfolding udp_on_datagram_def Let_def bind_Some_iff by blast
  have "?l = min 1000 l" by simp
  with b(1) have "buf = take (nat (min 1000 l)) dt" by (auto simp: rdn_Some_iff simp del: min_def)
  with b(2) show ?thesis by (simp add: one_more_def)
qed

lemma net_rx_udp_more:
  assumes "net_rx_udp src pl n x = Some y"
  shows "one_more (Some (take (nat (min 1000 (n - 8))) (drop 8 pl))) x y"
proof (cases "n < 8")
  case True
  with assms show ?thesis by (simp add: net_rx_udp_def one_more_def)
next
  case False
  then obtain sp z where z: "(if ntohs sp = 53 then do {
                 d \<leftarrow> dns_on_response (ntohl src) (drop 8 pl) (n - 8) (st_dns x); Some (x\<lparr>st_dns := d\<rparr>) } else Some x) = Some z"
      "udp_on_datagram (ntohl src) (ntohs sp) (drop 8 pl) (n - 8) z = Some y"
    using assms by (simp add: net_rx_udp_def bind_Some_iff) blast
  from z(1) have "st_udp z = st_udp x" by (auto simp: bind_Some_iff split: if_splits)
  with udp_on_datagram_more [OF z(2)] show ?thesis by (simp add: one_more_def)
qed

lemma net_rx_tcp_more: "net_rx_tcp src dst pl n x = Some y \<Longrightarrow> st_udp y = st_udp x"
  by (auto simp: net_rx_tcp_def bind_Some_iff split: if_splits)

lemma net_rx_ip_more:
  assumes "net_rx_ip f len x = Some y" "ld16 f 12 = Some (htons ETH_TYPE_IP)"
  shows "one_more (frame_datagram f) x y"
proof (cases "st_udp y = st_udp x")
  case True
  then show ?thesis by (simp add: one_more_def)
next
  case False
  from assms(1) have long: "\<not> len < 14 + 20" using False by (auto simp: net_rx_ip_def)
  then obtain v where v: "ld8 f 14 = Some v" using assms(1) by (auto simp: net_rx_ip_def bind_Some_iff Let_def ld_drop)
  define ihl where "ihl = unat (v AND 0xF) * 4"
  have v4: "drop_bit 4 v = 4" "\<not> len < 14 + int ihl"
    using assms(1) False long v by (auto simp: net_rx_ip_def Let_def ihl_def ld_drop split: if_splits)
  obtain tot where tot: "ld16 f 16 = Some tot"
    using assms(1) long v v4 by (auto simp: net_rx_ip_def Let_def ihl_def bind_Some_iff ld_drop)
  define n where "n = int (unat (ntohs tot)) - int ihl"
  let ?pl = "drop ihl (drop 14 f)"
  have n: "(if n < 0 then Some x
      else do {
        proto \<leftarrow> ld8 (drop 14 f) 9;
        src \<leftarrow> ld32 (drop 14 f) 12;
        dst \<leftarrow> ld32 (drop 14 f) 16;
        if proto = IP_PROTO_UDP then net_rx_udp src ?pl n x
        else if proto = IP_PROTO_TCP then net_rx_tcp src dst ?pl n x
        else Some x }) = Some y"
    using assms(1) long v v4 tot unfolding net_rx_ip_def Let_def n_def ihl_def by (simp add: ld_drop del: drop_drop)
  have n0: "\<not> n < 0" using n False by (cases "n < 0") auto
  then obtain proto src dst where p: "ld8 f 23 = Some proto" "(if proto = IP_PROTO_UDP then net_rx_udp src ?pl n x
      else if proto = IP_PROTO_TCP then net_rx_tcp src dst ?pl n x else Some x) = Some y"
    using n by (simp only: if_False bind_Some_iff ld_drop) auto
  have udp: "proto = IP_PROTO_UDP" using p(2) False net_rx_tcp_more [of src dst ?pl n x y] by (auto split: if_splits)
  then have m: "one_more (Some (take (nat (min 1000 (n - 8))) (drop 8 ?pl))) x y"
    using p(2) net_rx_udp_more [of src ?pl n x y] by (simp del: drop_drop)
  have k: "nat (min 1000 (n - 8)) = min 1000 (unat (ntohs tot) - ihl - 8)" using n0 unfolding n_def by linarith
  have d: "drop 8 ?pl = drop (22 + ihl) f" by (simp add: add.commute add.left_commute)
  have "frame_datagram f = Some (take (nat (min 1000 (n - 8))) (drop 8 ?pl))"
    unfolding k d by (simp add: frame_datagram_def assms(2) v tot p(1) udp ihl_def Let_def mult.commute)
  with m show ?thesis by simp
qed

lemma net_rx_more: "net_rx f len s = Some s' \<Longrightarrow> one_more (frame_datagram f) s s'"
  using net_rx_ip_more [of f len s s'] ntohs_eq_iff
  by (auto simp: net_rx_def bind_Some_iff one_more_def split: if_splits)

text \<open>Frames the screen can show: the titles in the datagram they carry, if they carry one, are ASCII.\<close>

definition shows_ascii :: "bytes \<Rightarrow> bool" where
  "shows_ascii buf \<longleftrightarrow> (\<forall>(y, t) \<in> set (udp_titles buf). ascii t)"

definition rx_good :: "e1000 \<Rightarrow> bool" where
  "rx_good d \<longleftrightarrow> rx_fits d \<and> (\<forall>i < 32. rd_status (rx_ring d ! i) AND 1 \<noteq> 0 \<longrightarrow>
     pred_option shows_ascii (frame_datagram (rx_bufs d ! i)))"

definition udp_good :: "stack \<Rightarrow> bool" where
  "udp_good s \<longleftrightarrow> (\<forall>(ip, p, buf) \<in> set (st_udp s). shows_ascii buf)"

lemma one_more_good:
  "one_more part s s' \<Longrightarrow> pred_option shows_ascii part \<Longrightarrow> udp_good s \<Longrightarrow> udp_good s'"
  by (auto simp: one_more_def udp_good_def)

lemma poll_slot_good:
  assumes "e1000_poll_slot i (d, s) = Some (d', s')" "i < 32" "rx_good d" "udp_good s"
  shows "rx_bufs d' = rx_bufs d \<and> udp_good s'"
proof (cases "rd_status (rx_ring d ! i) AND 1 = 0 \<or> unat (rd_length (rx_ring d ! i)) = 0")
  case True
  with assms show ?thesis by (auto simp: e1000_poll_slot_def bind_Some_iff Let_def split: if_splits)
next
  case False
  then have "0 < int (unat (rd_length (rx_ring d ! i)))" by linarith
  then obtain d1 s1 where r: "nic_receive e1000_nic_tx (rx_bufs d ! i) (int (unat (rd_length (rx_ring d ! i)))) (d, s) = Some (d1, s1)"
      "rx_bufs d' = rx_bufs d1" "s' = s1"
    using assms(1) False by (auto simp: e1000_poll_slot_def bind_Some_iff Let_def split: if_splits)
  then obtain s2 where s2: "net_rx (rx_bufs d ! i) (int (unat (rd_length (rx_ring d ! i)))) s = Some s2"
      "tx_all e1000_nic_tx (nic_log (st_net s2)) d = Some d1" "st_udp s1 = st_udp s2"
    by (auto simp: nic_receive_def transmit_log_def bind_Some_iff)
  have "udp_good s2" using one_more_good [OF net_rx_more [OF s2(1)]] assms(2-4) False by (auto simp: rx_good_def)
  with s2(3) r tx_all_rx [OF s2(2)] show ?thesis by (simp add: udp_good_def)
qed

lemma poll_loop_good:
  assumes "e1000_ok d" "stack_ok s" "rx_good d" "udp_good s" "nic_log (st_net s) = []" "n \<le> 32"
  shows "\<exists>d' s'. for_loop e1000_poll_slot [0..<n] (d, s) = Some (d', s') \<and> e1000_ok d' \<and> stack_ok s' \<and>
    rx_good d' \<and> udp_good s' \<and> nic_log (st_net s') = [] \<and> driver_ready d' = driver_ready d"
  using assms(6)
proof (induction n)
  case 0
  with assms show ?case by simp
next
  case (Suc n)
  then obtain d1 s1 where 1: "for_loop e1000_poll_slot [0..<n] (d, s) = Some (d1, s1)" "e1000_ok d1" "stack_ok s1"
    "rx_good d1" "udp_good s1" "nic_log (st_net s1) = []" "driver_ready d1 = driver_ready d" by auto
  have n: "n < 32" "rx_fits d1" using Suc.prems 1(4) by (simp_all add: rx_good_def)
  from e1000_poll_slot_ok [OF 1(2,3) n(2,1) 1(6)] obtain d2 s2 where
    2: "e1000_poll_slot n (d1, s1) = Some (d2, s2)" "e1000_ok d2" "stack_ok s2" "rx_fits d2" "nic_log (st_net s2) = []"
      "rd_status (rx_ring d2 ! n) AND 1 = 0" "\<forall>j. j \<noteq> n \<longrightarrow> rx_ring d2 ! j = rx_ring d1 ! j" "driver_ready d2 = driver_ready d1" by blast
  from poll_slot_good [OF 2(1) n(1) 1(4,5)] have "rx_bufs d2 = rx_bufs d1" "udp_good s2" by simp_all
  moreover from this have "rx_good d2" using 1(4) 2(4,6,7) unfolding rx_good_def by metis
  ultimately show ?case using 1(1,7) 2 by (simp add: for_loop_append)
qed

lemma draws_loop_set: "(\<And>i. i \<in> set is \<Longrightarrow> draws w h (f i)) \<Longrightarrow> draws w h (for_loop f is)"
proof (induction "is")
  case (Cons i "is")
  have "draws w h (\<lambda>s. f i s \<bind> for_loop f is)" by (rule draws_bind) (use Cons in auto)
  then show ?case by (simp add: draws_def)
qed (simp add: draws_def)

lemma draws_datagrams: "udp_good s \<Longrightarrow> draws w h (for_loop (\<lambda>(ip, p, buf). draw_datagram buf) (st_udp s))"
  by (rule draws_loop_set) (auto simp: udp_good_def shows_ascii_def draw_datagram_def intro!: draws_loop_set draws_string)

text \<open>A card that keeps to its rings and buffers and delivers good frames; the code checks neither.\<close>

definition card_ok :: "(nat \<Rightarrow> e1000 \<Rightarrow> e1000) \<Rightarrow> bool" where
  "card_ok c \<longleftrightarrow> (\<forall>k d. e1000_ok d \<and> rx_good d \<longrightarrow> e1000_ok (card_writes (c k) d) \<and> rx_good (card_writes (c k) d))"

definition kernel_ok :: "u32 \<Rightarrow> u32 \<Rightarrow> world \<Rightarrow> bool" where
  "kernel_ok w h st \<longleftrightarrow> world_ok w h st \<and> ascii (w_expr st) \<and> e1000_ok (w_nic st) \<and> rx_good (w_nic st) \<and>
     stack_ok (w_stack st) \<and> card_ok (w_card st)"

lemma card_runs_ok:
  assumes "kernel_ok w h st"
  shows "\<exists>st'. card_runs st = Some st' \<and> kernel_ok w h st' \<and> w_expr st' = w_expr st \<and> nic_log (st_net (w_stack st')) = [] \<and>
    driver_ready (w_nic st') = driver_ready (w_nic st) \<and> w_sys st' = w_sys st \<and>
    w_stack st' = (w_stack st)\<lparr>st_net := (st_net (w_stack st))\<lparr>nic_log := []\<rparr>\<rparr>"
proof -
  have "\<forall>f \<in> set (nic_log (st_net (w_stack st))). 0 \<le> length f \<and> length f \<le> 2048"
    using assms by (auto simp: kernel_ok_def stack_ok_def net_ok_def frame_ok_def)
  from e1k.tx_all_ok [OF _ this] assms obtain d where
    d: "tx_all e1000_nic_tx (nic_log (st_net (w_stack st))) (w_nic st) = Some d" "e1000_ok d"
    by (auto simp: kernel_ok_def)
  from tx_all_rx [OF d(1)] assms have "rx_good d" by (simp add: rx_good_def rx_fits_def kernel_ok_def)
  moreover have "stack_ok ((w_stack st)\<lparr>st_net := (st_net (w_stack st))\<lparr>nic_log := []\<rparr>\<rparr>)"
    using assms by (simp add: kernel_ok_def stack_ok_def net_ok_def)
  ultimately show ?thesis using assms d tx_all_rx [OF d(1)]
    by (simp add: card_runs_def transmit_log_def kernel_ok_def card_ok_def) (simp add: card_writes_def)
qed

lemma poll_nic_ok:
  assumes "kernel_ok w h st"
  shows "\<exists>st'. poll_nic st = Some st' \<and> kernel_ok w h st' \<and> w_expr st' = w_expr st"
proof -
  from card_runs_ok [OF assms] obtain st1 where
    1: "card_runs st = Some st1" "kernel_ok w h st1" "w_expr st1 = w_expr st" "nic_log (st_net (w_stack st1)) = []" by blast
  show ?thesis
  proof (cases "driver_ready (w_nic st1)")
    case False
    with 1 show ?thesis by (simp add: poll_nic_def)
  next
    case True
    have "\<exists>d s. for_loop e1000_poll_slot [0..<32] (w_nic st1, (w_stack st1)\<lparr>st_udp := []\<rparr>) = Some (d, s) \<and> e1000_ok d \<and> stack_ok s \<and>
        rx_good d \<and> udp_good s \<and> nic_log (st_net s) = [] \<and> driver_ready d = driver_ready (w_nic st1)"
      by (rule poll_loop_good) (use 1 in \<open>simp_all add: kernel_ok_def stack_ok_def udp_good_def\<close>)
    then obtain d s where p: "e1000_poll (w_nic st1, (w_stack st1)\<lparr>st_udp := []\<rparr>) = Some (d, s)" "e1000_ok d" "stack_ok s"
        "rx_good d" "udp_good s" using True by (auto simp: e1000_poll_def)
    have "world_ok w h (st1\<lparr>w_nic := d, w_stack := s\<rparr>)" using 1(2) by (simp add: kernel_ok_def)
    from draw_ok [OF draws_datagrams [OF p(5)] this] p 1 True show ?thesis
      by (auto simp: poll_nic_def kernel_ok_def ui_ok_def)
  qed
qed

interpretation live: window_loop "kernel_ok w h" w h for w h
proof
  show "kernel_ok w h st \<Longrightarrow> world_ok w h st \<and> ascii (w_expr st)" for st by (simp add: kernel_ok_def)
  show "kernel_ok w h st \<Longrightarrow> \<exists>st'. poll_nic st = Some st' \<and> kernel_ok w h st' \<and> w_expr st' = w_expr st" for st
    by (rule poll_nic_ok)
  show "kernel_ok w h st \<Longrightarrow> same_machine st st' \<Longrightarrow> world_ok w h st' \<Longrightarrow> ascii (w_expr st') \<Longrightarrow> kernel_ok w h st'" for st st'
    by (simp add: kernel_ok_def same_machine_def)
qed

section \<open>An HTTPS request while the card works\<close>

text \<open>Whatever the card delivers changes no socket but \<open>g_sock\<close>.\<close>

lemma net_rx_ip_socks:
  assumes "net_rx_ip f len s = Some s'" "r \<noteq> G_SOCK"
  shows "socks (st_tcp s') r = socks (st_tcp s) r"
proof -
  have udp: "st_tcp y = st_tcp x" if "net_rx_udp src pl n x = Some y" for src pl n x y
    using that by (auto simp: net_rx_udp_def udp_on_datagram_def bind_Some_iff Let_def split: if_splits)
  have tcp: "socks (st_tcp y) r = socks (st_tcp x) r" if "net_rx_tcp src dst pl n x = Some y" for src dst pl n x y
    using that assms(2) by (auto simp: net_rx_tcp_def bind_Some_iff dest!: tcp_on_rx_fsm(2) split: if_splits)
  show ?thesis using assms(1)
    by (auto simp: net_rx_ip_def bind_Some_iff Let_def dest: udp tcp simp del: drop_drop split: if_splits)
qed

lemma net_rx_socks: "net_rx f len s = Some s' \<Longrightarrow> r \<noteq> G_SOCK \<Longrightarrow> socks (st_tcp s') r = socks (st_tcp s) r"
  using net_rx_ip_socks [of f len s s' r] by (auto simp: net_rx_def bind_Some_iff split: if_splits)

lemma poll_slots_socks:
  "for_loop e1000_poll_slot is (d, s) = Some (d', s') \<Longrightarrow> r \<noteq> G_SOCK \<Longrightarrow> socks (st_tcp s') r = socks (st_tcp s) r"
proof (induction "is" arbitrary: d s)
  case (Cons i "is")
  then obtain d1 s1 where 1: "e1000_poll_slot i (d, s) = Some (d1, s1)" "for_loop e1000_poll_slot is (d1, s1) = Some (d', s')"
    by (auto simp: bind_Some_iff)
  have "served d i s = Some s1" using e1000_poll_slot_serves [OF 1(1)] by simp
  then have "socks (st_tcp s1) r = socks (st_tcp s) r"
    using net_rx_socks [OF _ Cons.prems(2)] by (auto simp: served_def bind_Some_iff Let_def split: if_splits)
  with Cons.IH [OF 1(2) Cons.prems(2)] show ?case by simp
qed simp

lemma poll_nic_idle:
  assumes "poll_nic st = Some st'" "heap_socks_idle (st_tcp (w_stack st))"
  shows "heap_socks_idle (st_tcp (w_stack st'))"
proof -
  obtain st1 where 1: "card_runs st = Some st1" "st_tcp (w_stack st1) = st_tcp (w_stack st)"
    using assms(1) by (auto simp: poll_nic_def card_runs_def transmit_log_def bind_Some_iff)
  show ?thesis
  proof (cases "driver_ready (w_nic st1)")
    case False
    with assms 1 show ?thesis by (simp add: poll_nic_def)
  next
    case True
    then obtain d s where p: "e1000_poll (w_nic st1, (w_stack st1)\<lparr>st_udp := []\<rparr>) = Some (d, s)"
        "draw (for_loop (\<lambda>(ip, port, buf). draw_datagram buf) (st_udp s)) (st1\<lparr>w_nic := d, w_stack := s\<rparr>) = Some st'"
      using assms(1) 1(1) by (auto simp: poll_nic_def bind_Some_iff)
    have "w_stack st' = s" using on_ui_same [of _ "st1\<lparr>w_nic := d, w_stack := s\<rparr>" st'] p(2) by (simp add: draw_def same_machine_def)
    moreover have "for_loop e1000_poll_slot [0..<32] (w_nic st1, (w_stack st1)\<lparr>st_udp := []\<rparr>) = Some (d, s)"
      using p(1) True by (simp add: e1000_poll_def)
    from poll_slots_socks [OF this] have "\<forall>k. socks (st_tcp s) (HEAP_SOCK k) = socks (st_tcp (w_stack st)) (HEAP_SOCK k)"
      by (simp add: 1(2))
    ultimately show ?thesis using assms(2) by (simp add: heap_socks_idle_def)
  qed
qed

text \<open>What the machine keeps between two polls of a client.\<close>

definition client_ok :: "u32 \<Rightarrow> u32 \<Rightarrow> tcp \<times> net \<times> world \<Rightarrow> bool" where
  "client_ok w h = (\<lambda>(t, n, st). kernel_ok w h (put_net (st_dns (w_stack st), t, n) st) \<and> heap_socks_idle t)"

lemma put_net_same: "put_net (st_dns (w_stack st), st_tcp (w_stack st), st_net (w_stack st)) st = st"
  by (simp add: put_net_def)

interpretation https: idle_poll client_poll "client_ok w h" for w h
proof
  fix x :: "tcp \<times> net \<times> world"
  obtain t n st where x: "x = (t, n, st)" by (cases x)
  assume "client_ok w h x"
  then have ok: "kernel_ok w h (put_net (st_dns (w_stack st), t, n) st)" "heap_socks_idle t" by (simp_all add: client_ok_def x)
  from poll_nic_ok [OF ok(1)] obtain st' where st': "poll_nic (put_net (st_dns (w_stack st), t, n) st) = Some st'" "kernel_ok w h st'" by blast
  with poll_nic_idle [OF st'(1)] ok(2) show "\<exists>x'. client_poll x = Some x' \<and> client_ok w h x'"
    by (auto simp: x client_poll_def client_ok_def put_net_same) (simp add: put_net_def)
qed (simp add: client_ok_def)

section \<open>Runs of the loop\<close>

text \<open>
  All states the loop reaches from \<open>s\<close> with windows \<open>shown\<close> allows, for any bytes from the mouse;
  the context of mbedTLS and what the stack of the kernel holds may be different each time.
\<close>

inductive kernel_runs :: "'m mbedtls \<Rightarrow> embedded \<Rightarrow> (screen_state \<Rightarrow> bool) \<Rightarrow> screen_state \<times> world \<Rightarrow> screen_state \<times> world \<Rightarrow> bool"
  for lib em shown s where
  start: "kernel_runs lib em shown s s"
| turn: "kernel_runs lib em shown s s' \<Longrightarrow> kernel_step lib m t port_s em status d s' = Some s'' \<Longrightarrow> shown (fst s'') \<Longrightarrow>
    kernel_runs lib em shown s s''"

lemma enter_viewing: "enter_app lib m t port_s k st = Some (sc, st') \<Longrightarrow> k \<in> {2, 3} \<Longrightarrow> sc = Viewing"
  by (auto simp: enter_app_def bind_Some_iff)

lemma local_runs_ok:
  assumes "kernel_runs lib em (\<lambda>sc. sc \<noteq> Viewing) (Welcome, st) s" "kernel_ok w h st" "em_bytes em = []"
  shows "kernel_ok w h (snd s) \<and> fst s \<noteq> Viewing"
  using assms(1)
proof (induction rule: kernel_runs.induct)
  case start
  with assms show ?case by simp
next
  case (turn s' m t port_s status d s'')
  obtain sc st' where s': "s' = (sc, st')" by (cases s')
  obtain sc2 st2 where s2: "s'' = (sc2, st2)" by (cases s'')
  have ok: "kernel_ok w h st'" "sc \<noteq> Viewing" using turn.IH by (simp_all add: s')
  from live.kernel_step_inv [OF ok(1) assms(3), of lib m t port_s status d sc] turn.hyps(2,3) ok(2)
  show ?case by (auto simp: s' s2 dest: enter_viewing enter_viewing [OF sym])
qed

section \<open>Without a network\<close>

text \<open>No descriptor is filled, and the card fills none.\<close>

definition no_frames :: "e1000 \<Rightarrow> bool" where
  "no_frames d \<longleftrightarrow> (\<forall>i < 32. rd_status (rx_ring d ! i) AND 1 = 0)"

definition net_host :: cstr where "net_host = lit ''jsonplaceholder.typicode.com''"

definition unplugged :: "u32 \<Rightarrow> u32 \<Rightarrow> world \<Rightarrow> bool" where
  "unplugged w h st \<longleftrightarrow> kernel_ok w h st \<and> no_frames (w_nic st) \<and>
     (\<forall>k d. no_frames d \<longrightarrow> no_frames (card_writes (w_card st k) d)) \<and>
     dns_get_cached (dns_cache (st_dns (w_stack st))) net_host = None"

lemma no_frames_poll:
  assumes "no_frames d" "e1000_ok d" "n \<le> 32"
  shows "for_loop e1000_poll_slot [0..<n] (d, s) = Some (d, s)"
  using assms(3)
proof (induction n)
  case (Suc n)
  then have "e1000_poll_slot n (d, s) = Some (d, s)"
    using assms by (simp add: e1000_poll_slot_def no_frames_def e1000_ok_def)
  with Suc show ?case by (simp add: for_loop_append)
qed simp

lemma card_runs_frames:
  assumes "card_runs st = Some st'" "no_frames (w_nic st)" "\<forall>k d. no_frames d \<longrightarrow> no_frames (card_writes (w_card st k) d)"
  shows "no_frames (w_nic st') \<and> w_card st' = w_card st \<and> st_dns (w_stack st') = st_dns (w_stack st)"
proof -
  obtain d where d: "tx_all e1000_nic_tx (nic_log (st_net (w_stack st))) (w_nic st) = Some d"
      "st' = st\<lparr>w_nic := card_writes (w_card st (w_polls st)) d,
        w_stack := (w_stack st)\<lparr>st_net := (st_net (w_stack st))\<lparr>nic_log := []\<rparr>\<rparr>, w_polls := Suc (w_polls st)\<rparr>"
    using assms(1) by (auto simp: card_runs_def transmit_log_def bind_Some_iff)
  from tx_all_rx [OF d(1)] assms(2) have "no_frames d" by (simp add: no_frames_def)
  with assms(3) d(2) show ?thesis by simp
qed

lemma unplugged_poll:
  assumes "unplugged w h st"
  shows "\<exists>st'. poll_nic st = Some st' \<and> unplugged w h st' \<and> w_expr st' = w_expr st"
proof -
  have u: "kernel_ok w h st" "no_frames (w_nic st)" "\<forall>k d. no_frames d \<longrightarrow> no_frames (card_writes (w_card st k) d)"
      "dns_get_cached (dns_cache (st_dns (w_stack st))) net_host = None"
    using assms by (simp_all add: unplugged_def)
  from card_runs_ok [OF u(1)] obtain st1 where 1: "card_runs st = Some st1" "kernel_ok w h st1" "w_expr st1 = w_expr st" by blast
  note f = card_runs_frames [OF 1(1) u(2,3)]
  have p: "e1000_poll (w_nic st1, s) = Some (w_nic st1, s)" for s
    using no_frames_poll [of "w_nic st1" 32 s] f 1(2) by (simp add: e1000_poll_def kernel_ok_def)
  have "poll_nic st = Some (if driver_ready (w_nic st1) then st1\<lparr>w_stack := (w_stack st1)\<lparr>st_udp := []\<rparr>\<rparr> else st1)"
    using 1(1) by (simp add: poll_nic_def p draw_def on_ui_def on_fb_def)
  then show ?thesis using 1(2,3) f u by (auto simp: unplugged_def kernel_ok_def stack_ok_def)
qed

interpretation unp: window_loop "unplugged w h" w h for w h
proof
  show "unplugged w h st \<Longrightarrow> world_ok w h st \<and> ascii (w_expr st)" for st by (simp add: unplugged_def kernel_ok_def)
  show "unplugged w h st \<Longrightarrow> \<exists>st'. poll_nic st = Some st' \<and> unplugged w h st' \<and> w_expr st' = w_expr st" for st
    by (rule unplugged_poll)
  show "unplugged w h st \<Longrightarrow> same_machine st st' \<Longrightarrow> world_ok w h st' \<Longrightarrow> ascii (w_expr st') \<Longrightarrow> unplugged w h st'" for st st'
    by (simp add: unplugged_def kernel_ok_def same_machine_def)
qed

text \<open>The name never resolves.\<close>

lemma unplugged_resolve_loop:
  "unplugged w h (put_net (s, st_tcp (w_stack st), n) st) \<Longrightarrow>
   \<exists>s' n' st'. resolve_loop dns_poll net_host k (s, n, st) = Some (None, s', n', st') \<and>
     unplugged w h (put_net (s', st_tcp (w_stack st'), n') st')"
proof (induction k arbitrary: s n st)
  case 0
  then show ?case by simp
next
  case (Suc k)
  from unplugged_poll [OF Suc.prems] obtain st1 where
    1: "poll_nic (put_net (s, st_tcp (w_stack st), n) st) = Some st1" "unplugged w h st1" by blast
  have "dns_poll (s, n, st) = Some (st_dns (w_stack st1), st_net (w_stack st1), st1)" by (simp add: dns_poll_def 1(1))
  moreover have "dns_get_cached (dns_cache (st_dns (w_stack st1))) net_host = None" using 1(2) by (simp add: unplugged_def)
  moreover from Suc.IH [of "st_dns (w_stack st1)" st1 "st_net (w_stack st1)"] 1(2)
  have "\<exists>s' n' st'. resolve_loop dns_poll net_host k (st_dns (w_stack st1), st_net (w_stack st1), st1) = Some (None, s', n', st') \<and>
     unplugged w h (put_net (s', st_tcp (w_stack st'), n') st')" by (simp add: put_net_same)
  ultimately show ?case by simp
qed

lemma net_host_packs: "\<exists>p. pack_name net_host 500 = Some p \<and> length p \<le> 496" "0 \<notin> set net_host"
proof -
  have "(case pack_name net_host 500 of None \<Rightarrow> False | Some p \<Rightarrow> length p \<le> 496)" by code_simp
  then show "\<exists>p. pack_name net_host 500 = Some p \<and> length p \<le> 496" by (auto split: option.splits)
  show "0 \<notin> set net_host" by code_simp
qed

lemma unplugged_resolve:
  assumes "unplugged w h st"
  shows "\<exists>st'. resolve net_host st = Some (None, st') \<and> unplugged w h st'"
proof -
  let ?s = "st_dns (w_stack st)" and ?n = "st_net (w_stack st)"
  have u: "net_ok ?n" "dns_ok ?s" "dns_get_cached (dns_cache ?s) net_host = None"
    using assms by (simp_all add: unplugged_def kernel_ok_def stack_ok_def)
  obtain p where p: "pack_name net_host 500 = Some p" "length p \<le> 496" using net_host_packs(1) by blast
  define s1 where "s1 = ?s\<lparr>qid_counter := qid_counter ?s + 1, qtracks := qtrack_add (qid_counter ?s + 1) net_host (qtracks ?s)\<rparr>"
  from dns_query_async_spec [OF u(1,3) p] obtain n1 where q: "dns_query_async net_host ?s ?n = Some (1, s1, n1)" "net_ok n1"
    unfolding s1_def by blast
  have "dns_ok s1" using dns_query_async_dns_ok [OF q(1) u(2) net_host_packs(2)] .
  then have "unplugged w h (put_net (s1, st_tcp (w_stack st), n1) st)"
    using assms q(2) by (simp add: unplugged_def kernel_ok_def stack_ok_def put_net_def s1_def)
  from unplugged_resolve_loop [OF this, of 20000] obtain s2 n2 st2 where
    "resolve_loop dns_poll net_host 20000 (s1, n1, st) = Some (None, s2, n2, st2)"
    "unplugged w h (put_net (s2, st_tcp (w_stack st2), n2) st2)" by blast
  then show ?thesis by (simp add: resolve_def dns_resolve_def u(3) q(1) del: resolve_loop.simps)
qed

section \<open>The network windows without a network\<close>

lemma urls_parse: "\<exists>path p. parse_url browser_url 128 = Some (net_host, path, p)" "\<exists>path p. parse_url viewer_url 128 = Some (net_host, path, p)"
proof -
  have "(case parse_url browser_url 128 of None \<Rightarrow> False | Some (host, path, p) \<Rightarrow> host = net_host)"
    "(case parse_url viewer_url 128 of None \<Rightarrow> False | Some (host, path, p) \<Rightarrow> host = net_host)" by code_simp+
  then show "\<exists>path p. parse_url browser_url 128 = Some (net_host, path, p)" "\<exists>path p. parse_url viewer_url 128 = Some (net_host, path, p)"
    by (auto split: option.splits)
qed

lemma unplugged_fetch:
  assumes "resolve net_host st = Some (None, st')" "url \<in> {browser_url, viewer_url}"
  shows "\<exists>host path. fetch_http port_s url st = Some (0, host, path, 0, [], st')"
  using urls_parse assms by (auto simp: fetch_http_def)

text \<open>
  What the browser (2) and the viewer (3) owe the user then: after the front is drawn the resolver
  gives up, and the message, in which the formatter leaves \<open>%d\<close> and \<open>%u\<close> as they are, is the last
  thing drawn: in red, over the blank content area, under the cursor.
\<close>

definition content_area :: "nat \<Rightarrow> world \<Rightarrow> int \<times> int \<times> int \<times> int" where
  "content_area k st = (if k = 2 then (win_x st + 10, 70 + win_y st, 580, 318) else (win_x st + 10, 38 + win_y st, 580, 350))"

definition failure_text :: cstr where
  "failure_text = lit ''Fetch failed! dns_ok=%d, resolved_ip=%u, got=%d''"

definition reports_failure :: "nat \<Rightarrow> world \<Rightarrow> world \<Rightarrow> bool" where
  "reports_failure k st st' \<longleftrightarrow> (\<exists>front blank shown. same_machine st front \<and> resolve net_host front = Some (None, blank) \<and>
     (case content_area k st of (x, y, wd, ht) \<Rightarrow>
        draw (draw_all [draw_rect x y wd ht 0xFFFFFF, draw_string (x + 6) (y + 8) failure_text 0xFF0000]) blank = Some shown) \<and>
     cursor_here shown = Some st')"

lemma fetch_failed_text: "fetch_failed = Some failure_text" "ascii failure_text"
proof -
  show "fetch_failed = Some failure_text" by code_simp
  show "ascii failure_text" unfolding failure_text_def by (rule ascii_lit) simp
qed

lemma show_failed:
  "browser_show x y n 0 [] = draw_string (x + 6) (y + 8) failure_text 0xFF0000"
  "viewer_show x y n t 0 [] = draw_string (x + 6) (y + 8) failure_text 0xFF0000"
  by (auto simp: browser_show_def viewer_show_def fetch_failed_text(1))

lemma unp_draw: "draws w h f \<Longrightarrow> unplugged w h st \<Longrightarrow> \<exists>st'. draw f st = Some st' \<and> unplugged w h st' \<and> same_machine st st'"
  using unp.draw_inv [of w h f st] on_ui_same by (metis draw_def)

lemma unp_cursor: "unplugged w h st \<Longrightarrow> \<exists>st'. cursor_here st = Some st' \<and> unplugged w h st' \<and> same_machine st st'"
  unfolding cursor_here_def using unp.cursor_inv [of w h st cur_x cur_y] on_ui_same by metis

lemma unp_window: "ascii title \<Longrightarrow> unplugged w h st \<Longrightarrow> \<exists>st'. draw_window title st = Some st' \<and> unplugged w h st' \<and> same_machine st st'"
  unfolding draw_window_def Let_def by (rule unp_draw) (intro drawing, simp_all)

lemma browser_url_ascii: "ascii browser_url"
  unfolding browser_url_def by (rule ascii_lit) simp

text \<open>The front of a window, the resolver, the message and the cursor.\<close>

lemma unplugged_front:
  assumes "unplugged w h st" "ascii title" "draws w h f"
  shows "\<exists>a b c. draw_window title st = Some a \<and> draw f a = Some b \<and> cursor_here b = Some c \<and> unplugged w h c \<and> same_machine st c"
proof -
  from unp_window [OF assms(2,1)] obtain a where a: "draw_window title st = Some a" "unplugged w h a" "same_machine st a" by blast
  from unp_draw [OF assms(3) a(2)] obtain b where b: "draw f a = Some b" "unplugged w h b" "same_machine a b" by blast
  from unp_cursor [OF b(2)] obtain c where c: "cursor_here b = Some c" "unplugged w h c" "same_machine b c" by blast
  show ?thesis using a b c by (auto simp: same_machine_def)
qed

lemma unplugged_message:
  assumes "unplugged w h a"
  shows "\<exists>b c. draw (draw_all [draw_rect x y wd ht 0xFFFFFF, draw_string (x + 6) (y + 8) failure_text 0xFF0000]) a = Some b \<and>
    cursor_here b = Some c \<and> unplugged w h c"
proof -
  have "draws w h (draw_all [draw_rect x y wd ht 0xFFFFFF, draw_string (x + 6) (y + 8) failure_text 0xFF0000])"
    by (intro drawing) (simp add: fetch_failed_text(2))
  from unp_draw [OF this assms] obtain b where
    b: "draw (draw_all [draw_rect x y wd ht 0xFFFFFF, draw_string (x + 6) (y + 8) failure_text 0xFF0000]) a = Some b" "unplugged w h b" by blast
  from unp_cursor [OF b(2)] b(1) show ?thesis by blast
qed

lemma unplugged_browser:
  assumes "unplugged w h st"
  shows "\<exists>st'. browser_ui lib m port_s st = Some st' \<and> unplugged w h st' \<and> reports_failure 2 st st'"
proof -
  let ?x = "win_x st + 10" and ?y = "win_y st + 30 + 8 + 24 + 8" and ?h = "400 - (30 + 8 + 24 + 8 + 12) :: int"
  let ?f = "draw_all [draw_rect ?x (win_y st + 30 + 8) (600 - 20) 24 0xDDDDDD,
      draw_string (?x + 6) (win_y st + 30 + 8 + 5) browser_url 0,
      draw_rect ?x ?y (600 - 20) ?h 0xFFFFFF, draw_string (?x + 6) (?y + 8) (lit ''Fetching...'') 0]"
  have "draws w h ?f" by (intro drawing browser_url_ascii) simp_all
  moreover have "ascii (lit ''TBHCR Browser'')" by (rule ascii_lit) simp
  ultimately obtain a b c where
    c: "draw_window (lit ''TBHCR Browser'') st = Some a" "draw ?f a = Some b" "cursor_here b = Some c" "unplugged w h c" "same_machine st c"
    using unplugged_front [OF assms] by blast
  from unplugged_resolve [OF c(4)] obtain r where r: "resolve net_host c = Some (None, r)" "unplugged w h r" by blast
  from unplugged_message [OF r(2), of ?x ?y "600 - 20" ?h] obtain e e' where
    e: "draw (draw_all [draw_rect ?x ?y (600 - 20) ?h 0xFFFFFF, draw_string (?x + 6) (?y + 8) failure_text 0xFF0000]) r = Some e"
      "cursor_here e = Some e'" "unplugged w h e'" by blast
  have f: "fetch_page lib m port_s browser_url c = Some (0, [], r)"
    using unplugged_fetch [OF r(1), of browser_url port_s] by (auto simp: fetch_page_def)
  have "browser_ui lib m port_s st = Some e'"
    unfolding browser_ui_def Let_def c(1) bind.bind_lunit c(2,3) f prod.case show_failed e(1,2) ..
  moreover have "reports_failure 2 st e'" unfolding reports_failure_def
    by (rule exI [of _ c], rule exI [of _ r], rule exI [of _ e]) (use c(5) r(1) e(1,2) in \<open>simp add: content_area_def\<close>)
  ultimately show ?thesis using e(3) by blast
qed

lemma unplugged_viewer:
  assumes "unplugged w h st"
  shows "\<exists>st'. json_viewer_ui t port_s st = Some st' \<and> unplugged w h st' \<and> reports_failure 3 st st'"
proof -
  let ?x = "win_x st + 10" and ?y = "win_y st + 30 + 8" and ?h = "400 - (30 + 8 + 12) :: int"
  let ?f = "draw_all [draw_rect ?x ?y (600 - 20) ?h 0xFFFFFF, draw_string (?x + 6) (?y + 8) (lit ''Fetching...'') 0]"
  have "draws w h ?f" by (intro drawing) simp_all
  moreover have "ascii (lit ''JSON Viewer'')" by (rule ascii_lit) simp
  ultimately obtain a b c where
    c: "draw_window (lit ''JSON Viewer'') st = Some a" "draw ?f a = Some b" "cursor_here b = Some c" "unplugged w h c" "same_machine st c"
    using unplugged_front [OF assms] by blast
  from unplugged_resolve [OF c(4)] obtain r where r: "resolve net_host c = Some (None, r)" "unplugged w h r" by blast
  from unplugged_message [OF r(2), of ?x ?y "600 - 20" ?h] obtain e e' where
    e: "draw (draw_all [draw_rect ?x ?y (600 - 20) ?h 0xFFFFFF, draw_string (?x + 6) (?y + 8) failure_text 0xFF0000]) r = Some e"
      "cursor_here e = Some e'" "unplugged w h e'" by blast
  obtain host path where f: "fetch_http port_s viewer_url c = Some (0, host, path, 0, [], r)"
    using unplugged_fetch [OF r(1), of viewer_url port_s] by auto
  have "json_viewer_ui t port_s st = Some e'"
    unfolding json_viewer_ui_def Let_def c(1) bind.bind_lunit c(2,3) f prod.case show_failed e(1,2) ..
  moreover have "reports_failure 3 st e'" unfolding reports_failure_def
    by (rule exI [of _ c], rule exI [of _ r], rule exI [of _ e]) (use c(5) r(1) e(1,2) in \<open>simp add: content_area_def\<close>)
  ultimately show ?thesis using e(3) by blast
qed

lemma unplugged_enter:
  assumes "unplugged w h st" "k \<in> {2, 3}"
  shows "\<exists>st'. enter_app lib m t port_s k st = Some (Viewing, st') \<and> unplugged w h st' \<and> reports_failure k st st'"
  using assms(2) unplugged_browser [OF assms(1), of lib m port_s] unplugged_viewer [OF assms(1), of t port_s]
  by (auto simp: enter_app_def)

lemma unplugged_runs:
  assumes "kernel_runs lib em (\<lambda>sc. True) (sc0, st) s" "unplugged w h st" "em_bytes em = []"
  shows "unplugged w h (snd s)"
  using assms(1)
proof (induction rule: kernel_runs.induct)
  case start
  with assms show ?case by simp
next
  case (turn s' m t port_s status d s'')
  obtain sc st' where s': "s' = (sc, st')" by (cases s')
  obtain sc2 st2 where s2: "s'' = (sc2, st2)" by (cases s'')
  have ok: "unplugged w h st'" using turn.IH by (simp add: s')
  have app: "unplugged w h st3" if "enter_app lib m t port_s k st1 = Some (sc3, st3)" "unplugged w h st1" "k \<in> {2, 3}" for k st1 sc3 st3
    using unplugged_enter [OF that(2,3), of lib m t port_s] that(1) by auto
  from unp.kernel_step_inv [OF ok assms(3), of lib m t port_s status d sc] turn.hyps(2)
  show ?case by (auto simp: s' s2 dest: app app [OF sym])
qed

text \<open>C11: The kernel keeps running in its own windows with any bytes from the mouse and a card that delivers
  any frames at any time, ARP, TCP, DNS or others, provided that the card keeps to its rings and
  buffers, that no IPv4 frame claims to be longer than its buffer (the code does not check it) and that the
  titles in UDP datagrams are ASCII (the font has 128 glyphs): the welcome screen, the desktop, the start
  menu and the calculator never access anything out of bounds and keep screen, driver and stack
  sound. Only a calculation that overflows or the opening of a network window can end that.\<close>

theorem kernel_keeps_running:
  assumes "kernel_ok w h st" "em_bytes em = []" "kernel_runs lib em (\<lambda>sc. sc \<noteq> Viewing) (Welcome, st) (sc, st')"
  shows "kernel_ok w h st' \<and> (kernel_step lib m t port_s em status d (sc, st') = None \<longrightarrow>
    sc = Calc \<and> calc_eval (w_expr st') = None \<or>
    (\<exists>opened k st1. sc = Desk opened \<and> desktop_step em status d opened st' = Some (App k, st1) \<and> k \<in> {2, 3}))"
proof -
  from local_runs_ok [OF assms(3,1,2)] have ok: "kernel_ok w h st'" by simp
  from live.kernel_step_inv [OF ok assms(2), of lib m t port_s status d sc] ok show ?thesis by auto
qed

text \<open>C10: Without a network (the card, up or not, never fills a descriptor, and the name is not cached) no window ever
  hangs, for any bytes from the mouse: the loop over the windows goes on, and when the browser or the viewer is opened the resolver
  gives up after its 20000 polls and the window comes up with the failure message in its content
  area. Only a calculation that overflows has no next state.\<close>

theorem unplugged_kernel_runs:
  assumes "unplugged w h st" "em_bytes em = []" "kernel_runs lib em (\<lambda>sc. True) (Welcome, st) (sc, st')"
  shows "unplugged w h st' \<and>
    (kernel_step lib m t port_s em status d (sc, st') = None \<longrightarrow> sc = Calc \<and> calc_eval (w_expr st') = None) \<and>
    (\<forall>opened k st1. sc = Desk opened \<and> desktop_step em status d opened st' = Some (App k, st1) \<and> k \<in> {2, 3} \<longrightarrow>
      (\<exists>st2. kernel_step lib m t port_s em status d (sc, st') = Some (Viewing, st2) \<and> reports_failure k st1 st2))"
proof -
  from unplugged_runs [OF assms(3,1,2)] have ok: "unplugged w h st'" by simp
  note enter = unplugged_enter [of w h _ _ lib m t port_s]
  have "\<exists>sc2 st2. enter_app lib m t port_s k st1 = Some (sc2, st2)" if "unplugged w h st1" "k \<in> {2, 3}" for k st1
    using enter [OF that] by blast
  with unp.kernel_step_inv [OF ok assms(2), of lib m t port_s status d sc]
  have 1: "kernel_step lib m t port_s em status d (sc, st') = None \<longrightarrow> sc = Calc \<and> calc_eval (w_expr st') = None" by fastforce
  have 2: "\<exists>st2. kernel_step lib m t port_s em status d (sc, st') = Some (Viewing, st2) \<and> reports_failure k st1 st2"
    if w: "sc = Desk opened" "desktop_step em status d opened st' = Some (App k, st1)" "k \<in> {2, 3}" for opened k st1
  proof -
    obtain r st3 where "desktop_step em status d opened st' = Some (r, st3)" "unplugged w h st3"
      using unp.desktop_step_inv [OF ok assms(2)] by blast
    with w(2) have "unplugged w h st1" by simp
    from enter [OF this w(3)] w(1,2) show ?thesis by (auto simp: kernel_step_def)
  qed
  show ?thesis using ok 1 2 by blast
qed

lemma rx_buffers_shown: "frame_datagram rx_arp = None" "pred_option shows_ascii (frame_datagram rx_udp)"
proof -
  have "ld16 rx_arp 12 = Some (htons ETH_TYPE_ARP)"
    by (simp add: rx_arp_def arp_frame_def eth_hdr_def bcast_def wire_simps)
  then show "frame_datagram rx_arp = None"
    by (simp add: frame_datagram_def ETH_TYPE_ARP_def ETH_TYPE_IP_def htons_def split: Option.bind_splits)
  have "frame_datagram rx_udp = Some [104, 105]" by code_simp
  moreover have "strstr [104, 105] (34 # lit ''title'' @ [34]) = None" by code_simp
  then have "shows_ascii [104, 105]" by (simp add: shows_ascii_def udp_titles_def titles_loop.simps)
  ultimately show "pred_option shows_ascii (frame_datagram rx_udp)" by simp
qed

lemma demo_rx_good: "rx_good e1000_demo"
  unfolding rx_good_def
proof (intro conjI allI impI)
  show "rx_fits e1000_demo" by (rule e1000_demo_fits)
  fix i :: nat assume "i < 32"
  then have "rx_bufs e1000_demo ! i \<in> set (rx_bufs e1000_demo)" by (intro nth_mem) (simp add: e1000_demo_def)
  then consider "rx_bufs e1000_demo ! i = rx_arp" | "rx_bufs e1000_demo ! i = rx_udp" | "rx_bufs e1000_demo ! i = replicate 2048 0"
    by (auto simp: e1000_demo_def)
  then show "pred_option shows_ascii (frame_datagram (rx_bufs e1000_demo ! i))"
  proof cases
    case 3
    have "frame_datagram (replicate 2048 0) = None"
      by (simp add: frame_datagram_def ld16_def ld8_def mk16_def htons_def ETH_TYPE_IP_def)
    with 3 show ?thesis by simp
  qed (simp_all add: rx_buffers_shown)
qed

text \<open>A machine whose card has filled all its descriptors, and one whose card is silent.\<close>

definition world_live :: world where
  "world_live = world_demo\<lparr>w_nic := e1000_demo\<rparr>"

definition world_silent :: world where
  "world_silent = world_demo\<lparr>w_nic := e1000_demo\<lparr>rx_ring := replicate 32 \<lparr>rd_addr = 0, rd_length = 0, rd_status = 0\<rparr>\<rparr>\<rparr>"

lemma world_live_ok: "kernel_ok 4 3 world_live"
  using demo_rx_good world_demo_facts(2)
  by (simp add: kernel_ok_def world_live_def world_demo_def ascii_def stack_ok_boot card_ok_def card_writes_def)

lemma no_frames_good: "no_frames d \<Longrightarrow> rx_good d"
  by (simp add: no_frames_def rx_good_def rx_fits_def)

lemma world_silent_ok: "unplugged 4 3 world_silent"
proof -
  have "no_frames (w_nic world_silent)" by (simp add: no_frames_def world_silent_def)
  moreover have "e1000_ok (w_nic world_silent)" by (simp add: world_silent_def e1000_ok_def e1000_demo_def rx_buffers)
  moreover have "dns_get_cached (dns_cache dns_boot) net_host = None" by code_simp
  ultimately show ?thesis using no_frames_good world_demo_facts(2)
    by (simp add: unplugged_def kernel_ok_def world_silent_def world_demo_def ascii_def stack_ok_boot card_ok_def card_writes_def)
      (simp add: stack_boot_def)
qed



lemma kernel_keeps_running_witness:
  "\<exists>sc st'. kernel_step lib_demo () [] [] em_demo 0 0 (Welcome, world_live) = Some (sc, st') \<and> kernel_ok 4 3 st'"
proof -
  from kernel_keeps_running [OF world_live_ok world_demo_facts(4) kernel_runs.start, of lib_demo "()" "[]" "[]" 0 0]
  obtain sc st' where s: "kernel_step lib_demo () [] [] em_demo 0 0 (Welcome, world_live) = Some (sc, st')"
    by (cases "kernel_step lib_demo () [] [] em_demo 0 0 (Welcome, world_live)") auto
  have "sc \<noteq> Viewing" using live.kernel_step_inv [OF world_live_ok world_demo_facts(4), of lib_demo "()" "[]" "[]" 0 0 Welcome] s by auto
  then have "kernel_runs lib_demo em_demo (\<lambda>sc. sc \<noteq> Viewing) (Welcome, world_live) (sc, st')"
    using kernel_runs.turn [OF kernel_runs.start s, of "\<lambda>sc. sc \<noteq> Viewing"] by simp
  from kernel_keeps_running [OF world_live_ok world_demo_facts(4) this] s show ?thesis by blast
qed

lemma unplugged_kernel_runs_witness:
  "\<exists>sc st'. kernel_step lib_demo () [] [] em_demo 0 0 (Welcome, world_silent) = Some (sc, st') \<and> unplugged 4 3 st'"
proof -
  from unplugged_kernel_runs [OF world_silent_ok world_demo_facts(4) kernel_runs.start, of lib_demo "()" "[]" "[]" 0 0]
  obtain sc st' where s: "kernel_step lib_demo () [] [] em_demo 0 0 (Welcome, world_silent) = Some (sc, st')"
    by (cases "kernel_step lib_demo () [] [] em_demo 0 0 (Welcome, world_silent)") auto
  have "kernel_runs lib_demo em_demo (\<lambda>sc. True) (Welcome, world_silent) (sc, st')"
    using kernel_runs.turn [OF kernel_runs.start s, of "\<lambda>sc. True"] by simp
  from unplugged_kernel_runs [OF world_silent_ok world_demo_facts(4) this] s show ?thesis by blast
qed

text \<open>C5: From power-on: with a USB controller, an Intel network card, a mouse that answers, a linear
  framebuffer and room on the heap the kernel comes up at the welcome screen, and every state its own windows
  reach is sound and has a next one, unless a calculation overflows or a network window is
  opened. The card may deliver any frames at any time as long as it keeps to its rings and buffers,
  no IPv4 frame claims to be longer than its buffer and the titles in UDP datagrams are ASCII.\<close>

theorem kernel_from_power_on:
  assumes usb: "scan_buses (xhci_match (x_pci (m_xhci k))) (x_pci (m_xhci k)) 0 = Some loc" "fresh_driver (m_xhci k)"
    and card: "pci_find_intel_net (bus_master (x_pci (m_xhci k)) loc) = Some (bus, slot, func)"
      "pci_config_read32 (bus_master (bus_master (x_pci (m_xhci k)) loc) (bus, slot, func)) bus slot func 0x10 AND NOT 0xF \<noteq> 0"
    and heap: "heap_room 132333 (x_heap (m_xhci k))"
    and screen: "init_graphics mbi (ui_fb (w_ui (m_world k))) = Some fb" "fb_ok w h fb"
    and mouse: "mouse_alive (p_in (m_io k))"
    and start: "stack_ok (w_stack (m_world k))" "w_expr (m_world k) = []" "card_ok (w_card (m_world k))" "em_bytes em = []"
  shows "\<exists>k'. kmain hc mbi k = Some (Welcome, k') \<and>
    (\<forall>sc st. kernel_runs lib em (\<lambda>sc. sc \<noteq> Viewing) (Welcome, m_world k') (sc, st) \<longrightarrow> kernel_ok w h st \<and>
      (kernel_step lib m t port_s em status d (sc, st) = None \<longrightarrow> sc = Calc \<and> calc_eval (w_expr st) = None \<or>
        (\<exists>opened k st1. sc = Desk opened \<and> desktop_step em status d opened st = Some (App k, st1) \<and> k \<in> {2, 3})))"
proof -
  obtain k' dn mac where k: "kmain hc mbi k = Some (Welcome, k')" "world_ok w h (m_world k')" "e1000_ok dn"
    "\<forall>i < 32. rd_status (rx_ring dn ! i) = 0" "length mac = 6"
    "draws_only ((m_world k)\<lparr>w_nic := dn, w_stack := (w_stack (m_world k))\<lparr>st_net :=
      net_set_ipv4 guest_ip guest_netmask guest_gw (net_init mac (st_net (w_stack (m_world k))))\<rparr>\<rparr>) (m_world k')"
    using kmain_run [OF usb card heap screen mouse, of hc] by blast
  have "rx_good dn" using k(4) by (intro no_frames_good) (simp add: no_frames_def)
  then have ok: "kernel_ok w h (m_world k')"
    using k(2,3,5,6) start net_init_ok [of "st_net (w_stack (m_world k))" mac] by (simp add: kernel_ok_def stack_ok_def ascii_def)
  show ?thesis
  proof (intro exI conjI, rule k(1), intro allI impI)
    fix sc st
    assume r: "kernel_runs lib em (\<lambda>sc. sc \<noteq> Viewing) (Welcome, m_world k') (sc, st)"
    from local_runs_ok [OF r ok start(4)] have o: "kernel_ok w h st" by simp
    from live.kernel_step_inv [OF o start(4), of lib m t port_s status d sc] o
    show "kernel_ok w h st \<and>
      (kernel_step lib m t port_s em status d (sc, st) = None \<longrightarrow> sc = Calc \<and> calc_eval (w_expr st) = None \<or>
        (\<exists>opened k st1. sc = Desk opened \<and> desktop_step em status d opened st = Some (App k, st1) \<and> k \<in> {2, 3}))"
      by auto
  qed
qed

lemma kernel_from_power_on_witness:
  "\<exists>k'. kmain hc_idle mbi_demo machine_tall = Some (Welcome, k') \<and>
    (\<forall>sc st. kernel_runs lib_demo em_demo (\<lambda>sc. sc \<noteq> Viewing) (Welcome, m_world k') (sc, st) \<longrightarrow> kernel_ok 4 3 st \<and>
      (kernel_step lib_demo () [] [] em_demo 0 0 (sc, st) = None \<longrightarrow> sc = Calc \<and> calc_eval (w_expr st) = None \<or>
        (\<exists>opened k st1. sc = Desk opened \<and> desktop_step em_demo 0 0 opened st = Some (App k, st1) \<and> k \<in> {2, 3})))"
proof (rule kernel_from_power_on [OF machine_tall_usb machine_tall_card machine_tall_rest(1) mbi_demo_graphics machine_tall_rest(2,3) _ _ _ world_demo_facts(4)])
  show "stack_ok (w_stack (m_world machine_tall))" "w_expr (m_world machine_tall) = []" "card_ok (w_card (m_world machine_tall))"
    by (simp_all add: machine_tall_def tall_memory_def world_demo_def stack_ok_boot card_ok_def card_writes_def)
qed

end
