(* ===== verification/Rtl8139.thy ===== *)
theory Rtl8139
  imports Nic
begin

text \<open>
  The Realtek driver \<open>src/rtl8139.c\<close>: set-up, \<open>nic_tx\<close> with four transmit buffers, and
  the poll that walks the receive ring. Port writes are logged with their width; what
  the ports return is a parameter. \<open>nic_tx\<close> gets the readable bytes and the length,
  because it enlarges the length of a short frame.
\<close>

section \<open>State\<close>

datatype port_write = OUTB u16 u8 | OUTW u16 u16 | OUTL u16 u32

record rtl =
  rl_ready :: bool
  rl_io_base :: u16
  rl_rx_buf :: bytes
  rl_rx_off :: nat
  rl_rx_addr :: u32
  rl_tx_bufs :: "bytes list"
  rl_tx_addrs :: "u32 list"
  rl_tx_idx :: nat
  rl_log :: "port_write list"

definition rl_outb :: "u16 \<Rightarrow> u8 \<Rightarrow> rtl \<Rightarrow> rtl" where
  "rl_outb r v d = d\<lparr>rl_log := rl_log d @ [OUTB (rl_io_base d + r) v]\<rparr>"

definition rl_outw :: "u16 \<Rightarrow> u16 \<Rightarrow> rtl \<Rightarrow> rtl" where
  "rl_outw r v d = d\<lparr>rl_log := rl_log d @ [OUTW (rl_io_base d + r) v]\<rparr>"

definition rl_outl :: "u16 \<Rightarrow> u32 \<Rightarrow> rtl \<Rightarrow> rtl" where
  "rl_outl r v d = d\<lparr>rl_log := rl_log d @ [OUTL (rl_io_base d + r) v]\<rparr>"

section \<open>Set-up\<close>

definition read_mac :: "(u16 \<Rightarrow> u8) \<Rightarrow> u16 \<Rightarrow> bytes" where
  "read_mac inb base = map (\<lambda>i. inb (base + word_of_nat i)) [0..<6]"

text \<open>\<open>while (rl_inb(RL_CMD) & 0x10)\<close>: \<open>cmd k\<close> is what the \<open>k\<close>th read returns.\<close>

partial_function (option) wait_reset :: "(nat \<Rightarrow> u8) \<Rightarrow> nat \<Rightarrow> nat option" where
  "wait_reset cmd k = (if cmd k AND 0x10 \<noteq> 0 then wait_reset cmd (k + 1) else Some k)"

definition mem_block :: "(u32 \<Rightarrow> u8) \<Rightarrow> u32 \<Rightarrow> nat \<Rightarrow> bytes" where
  "mem_block mem p n = map (\<lambda>i. mem (p + word_of_nat i)) [0..<n]"

primrec alloc_tx :: "nat \<Rightarrow> u32 \<Rightarrow> u32 list \<times> u32" where
  "alloc_tx 0 heap = ([], heap)"
| "alloc_tx (Suc n) heap =
     (let (p, h1) = kmalloc 1792 heap; (ps, h2) = alloc_tx n h1 in (p # ps, h2))"

definition rtl8139_init ::
    "(u16 \<Rightarrow> u8) \<Rightarrow> (nat \<Rightarrow> u8) \<Rightarrow> (u32 \<Rightarrow> u8) \<Rightarrow> pci_hw \<Rightarrow> u32 \<Rightarrow> rtl \<Rightarrow> net \<Rightarrow>
     (int \<times> pci_hw \<times> u32 \<times> rtl \<times> net) option" where
  "rtl8139_init inb cmd mem hw heap d n = do {
     (bus, slot, func) \<leftarrow> pci_find_device hw 0x10EC 0x8139;
     let cmdsts = pci_config_read32 hw bus slot func 0x04 OR 0x0005;
     let hw1 = pci_config_write32 bus slot func 0x04 cmdsts hw;
     let bar0 = pci_config_read32 hw1 bus slot func 0x10;
     let d1 = rl_outb 0x37 0x10 (rl_outb 0x52 0 (d\<lparr>rl_io_base := ucast (bar0 AND NOT 3)\<rparr>));
     k \<leftarrow> wait_reset cmd 0;
     let (rx, h1) = kmalloc (8192 + 16 + 1500) heap;
     if rx = 0 then Some (-1, hw1, h1, d1\<lparr>rl_rx_buf := [], rl_rx_addr := 0\<rparr>, n) else do {
     let d2 = rl_outl 0x30 rx (d1\<lparr>rl_rx_buf := mem_block mem rx (8192 + 16 + 1500), rl_rx_addr := rx, rl_rx_off := 0\<rparr>);
     let d3 = rl_outl 0x40 0 (rl_outl 0x44 (0x0005 OR push_bit 7 1 OR push_bit 4 1) d2);
     let (ps, h2) = alloc_tx 4 h1;
     if 0 \<in> set ps then Some (-1, hw1, h1 + 1792 * (1 + word_of_nat (length (takeWhile (\<lambda>p. p \<noteq> 0) ps))),
       d3\<lparr>rl_tx_addrs := takeWhile (\<lambda>p. p \<noteq> 0) ps @ [0]\<rparr>, n) else do {
     let d4 = d3\<lparr>rl_tx_bufs := map (\<lambda>p. mem_block mem p 1792) ps, rl_tx_addrs := ps, rl_tx_idx := 0\<rparr>;
     let d5 = rl_outb 0x37 (push_bit 3 1 OR push_bit 2 1) (rl_outw 0x3C 0x0005 d4);
     Some (0, hw1, h2, d5\<lparr>rl_ready := True\<rparr>, net_init (read_mac inb (rl_io_base d5)) n)
     } }
   }"

section \<open>Sending\<close>

definition rtl_nic_tx :: "bytes \<Rightarrow> int \<Rightarrow> rtl \<Rightarrow> rtl option" where
  "rtl_nic_tx data len d =
     (if \<not> rl_ready d then Some d
      else do {
        let len1 = (if len < 60 then 60 else len);
        let len2 = (if len1 > 1792 then 1792 else len1);
        let i = rl_tx_idx d;
        assert_that (i < length (rl_tx_bufs d) \<and> i < length (rl_tx_addrs d));
        src \<leftarrow> rdn data len2;
        buf \<leftarrow> blit (rl_tx_bufs d ! i) 0 src;
        let d1 = rl_outl (0x20 + word_of_nat i * 4) (rl_tx_addrs d ! i) (d\<lparr>rl_tx_bufs := (rl_tx_bufs d)[i := buf]\<rparr>);
        let d2 = rl_outl (0x10 + word_of_nat i * 4) (word_of_int len2 AND 0x1FFF) d1;
        Some (d2\<lparr>rl_tx_idx := (i + 1) mod 4\<rparr>)
      })"

section \<open>Receiving\<close>

text \<open>
  \<open>for (;;)\<close> over the frames in the ring: the offset grows with every frame and is never
  brought back to the start of the buffer.
\<close>

definition next_off :: "nat \<Rightarrow> u16 \<Rightarrow> nat" where
  "next_off off plen = (off + 4 + unat plen + 3) div 4 * 4"

lemma next_off_greater: "off < next_off off plen"
  by (simp add: next_off_def)

function rtl_rx_loop ::
    "nat \<Rightarrow> bytes \<Rightarrow> rtl \<times> stack \<Rightarrow> (rtl \<times> stack) option" where
  "rtl_rx_loop off buf w =
     (case ld16 buf off of
        None \<Rightarrow> None
      | Some status \<Rightarrow>
         (case ld16 buf (off + 2) of
            None \<Rightarrow> None
          | Some plen \<Rightarrow>
              if status AND 0x01 = 0 then Some ((fst w)\<lparr>rl_rx_off := off\<rparr>, snd w)
              else
                let flen = int (unat plen) - 4;
                    flen1 = (if flen < 0 then 0 else flen);
                    off' = next_off off plen
                in case nic_receive (\<lambda>f. rtl_nic_tx f (int (length f))) (drop (off + 4) buf) flen1 w of
                     None \<Rightarrow> None
                   | Some w' \<Rightarrow>
                       rtl_rx_loop off' buf (rl_outw 0x38 (word_of_int (int off' - 16)) (fst w'), snd w')))"
  by pat_completeness auto
termination
  by (relation "measure (\<lambda>(off, buf, w). length buf - off)")
     (auto simp: ld16_def next_off_greater intro!: diff_less_mono2 split: if_splits)

declare rtl_rx_loop.simps [simp del]

definition rtl_poll :: "u16 \<Rightarrow> rtl \<times> stack \<Rightarrow> (rtl \<times> stack) option" where
  "rtl_poll isr w =
     (if \<not> rl_ready (fst w) then Some w
      else if rl_rx_addr (fst w) = 0 then Some w
      else if isr = 0 then Some w
      else
        let d1 = rl_outw 0x3E isr (fst w)
        in if isr AND 0x01 \<noteq> 0 then rtl_rx_loop (rl_rx_off d1) (rl_rx_buf d1) (d1, snd w)
           else Some (d1, snd w))"

section \<open>Invariant\<close>

definition rtl_ok :: "rtl \<Rightarrow> bool" where
  "rtl_ok d \<longleftrightarrow> length (rl_tx_bufs d) = 4 \<and> length (rl_tx_addrs d) = 4 \<and> rl_tx_idx d < 4 \<and>
     (\<forall>b \<in> set (rl_tx_bufs d). length b = 1792)"

lemma rl_out_simps [simp]:
  "rtl_ok (rl_outb r b d) = rtl_ok d" "rtl_ok (rl_outw r w d) = rtl_ok d" "rtl_ok (rl_outl r l d) = rtl_ok d"
  "rl_ready (rl_outb r b d) = rl_ready d" "rl_ready (rl_outw r w d) = rl_ready d" "rl_ready (rl_outl r l d) = rl_ready d"
  "rl_rx_buf (rl_outb r b d) = rl_rx_buf d" "rl_rx_buf (rl_outw r w d) = rl_rx_buf d" "rl_rx_buf (rl_outl r l d) = rl_rx_buf d"
  "rl_rx_off (rl_outb r b d) = rl_rx_off d" "rl_rx_off (rl_outw r w d) = rl_rx_off d" "rl_rx_off (rl_outl r l d) = rl_rx_off d"
  "rl_tx_bufs (rl_outb r b d) = rl_tx_bufs d" "rl_tx_bufs (rl_outw r w d) = rl_tx_bufs d" "rl_tx_bufs (rl_outl r l d) = rl_tx_bufs d"
  "rl_tx_addrs (rl_outb r b d) = rl_tx_addrs d" "rl_tx_addrs (rl_outw r w d) = rl_tx_addrs d" "rl_tx_addrs (rl_outl r l d) = rl_tx_addrs d"
  by (simp_all add: rl_outb_def rl_outw_def rl_outl_def rtl_ok_def)

lemma rtl_nic_tx_ok:
  assumes "rtl_ok d" "60 \<le> length f" "length f \<le> 1792"
  shows "\<exists>d'. rtl_nic_tx f (int (length f)) d = Some d' \<and> rtl_ok d' \<and>
    (rl_ready d \<longrightarrow> take (length f) (rl_tx_bufs d' ! rl_tx_idx d) = f)"
proof (cases "rl_ready d")
  case False
  with assms show ?thesis by (simp add: rtl_nic_tx_def)
next
  case True
  let ?i = "rl_tx_idx d"
  have i: "?i < 4" "length (rl_tx_bufs d ! ?i) = 1792" "length (rl_tx_bufs d) = 4" "length (rl_tx_addrs d) = 4"
    using assms(1) by (auto simp: rtl_ok_def)
  then show ?thesis
    using assms True unfolding rtl_nic_tx_def
    by (auto simp: rdn_def blit_def Let_def rtl_ok_def rl_outl_def dest!: set_update_subset_insert [THEN subsetD])
qed

interpretation rtln: nic "\<lambda>f. rtl_nic_tx f (int (length f))" rtl_ok 60 1792
  by unfold_locales (use rtl_nic_tx_ok in blast)

section \<open>Properties\<close>

lemma rtl_rx_loop_off:
  "rtl_rx_loop off buf w = Some w' \<Longrightarrow> off \<le> rl_rx_off (fst w') \<and> rl_rx_off (fst w') + 4 \<le> length buf \<and>
    (\<forall>status. ld16 buf off = Some status \<longrightarrow> status AND 1 \<noteq> 0 \<longrightarrow> off < rl_rx_off (fst w'))"
proof (induction off buf w rule: rtl_rx_loop.induct)
  case (1 off buf w)
  from 1(2) obtain status plen where
    s: "ld16 buf off = Some status" "ld16 buf (off + 2) = Some plen"
    unfolding rtl_rx_loop.simps [of off buf w]
    by (cases "ld16 buf off"; cases "ld16 buf (off + 2)") auto
  then have len: "off + 4 \<le> length buf" by (auto simp: ld16_def split: if_splits)
  show ?case
  proof (cases "status AND 1 = 0")
    case True
    with s len 1(2) show ?thesis unfolding rtl_rx_loop.simps [of off buf w] by auto
  next
    case False
    let ?fl = "if int (unat plen) - 4 < 0 then 0 else int (unat plen) - 4"
    have "(case nic_receive (\<lambda>f. rtl_nic_tx f (int (length f))) (drop (off + 4) buf) ?fl w of None \<Rightarrow> None
        | Some w1 \<Rightarrow> rtl_rx_loop (next_off off plen) buf
          (rl_outw 0x38 (word_of_int (int (next_off off plen) - 16)) (fst w1), snd w1)) = Some w'"
      using 1(2) False unfolding rtl_rx_loop.simps [of off buf w] s Let_def by simp
    then obtain w1 where
      w1: "nic_receive (\<lambda>f. rtl_nic_tx f (int (length f))) (drop (off + 4) buf) ?fl w = Some w1"
        "rtl_rx_loop (next_off off plen) buf
          (rl_outw 0x38 (word_of_int (int (next_off off plen) - 16)) (fst w1), snd w1) = Some w'"
      by (cases "nic_receive (\<lambda>f. rtl_nic_tx f (int (length f))) (drop (off + 4) buf) ?fl w") simp_all
    have "next_off off plen \<le> rl_rx_off (fst w') \<and> rl_rx_off (fst w') + 4 \<le> length buf"
      using 1(1) [OF s False refl refl refl w1(1) w1(2)] by blast
    with next_off_greater [of off plen] show ?thesis by linarith
  qed
qed

text \<open>The read offset of the receive ring only grows: a poll that finds a frame moves it
  forward, never back to the start, and once fewer than four bytes of the buffer are left behind
  it every further poll reads outside the buffer.\<close>
lemma rtl_rx_offset_never_wraps:
  assumes "rl_ready (fst w)" "rl_rx_addr (fst w) \<noteq> 0" "isr AND 1 \<noteq> 0"
  shows "(length (rl_rx_buf (fst w)) < rl_rx_off (fst w) + 4 \<longrightarrow> rtl_poll isr w = None) \<and>
    (\<forall>w'. rtl_poll isr w = Some w' \<longrightarrow> rl_rx_off (fst w) \<le> rl_rx_off (fst w') \<and>
       (\<forall>status. ld16 (rl_rx_buf (fst w)) (rl_rx_off (fst w)) = Some status \<longrightarrow> status AND 1 \<noteq> 0 \<longrightarrow>
          rl_rx_off (fst w) < rl_rx_off (fst w')))"
proof -
  have "isr \<noteq> 0" using assms(3) by auto
  then have p: "rtl_poll isr w = rtl_rx_loop (rl_rx_off (fst w)) (rl_rx_buf (fst w)) (rl_outw 0x3E isr (fst w), snd w)"
    using assms by (simp add: rtl_poll_def Let_def)
  have "rtl_poll isr w = None" if "length (rl_rx_buf (fst w)) < rl_rx_off (fst w) + 4"
  proof (rule ccontr)
    assume "rtl_poll isr w \<noteq> None"
    then show False using rtl_rx_loop_off that unfolding p by fastforce
  qed
  with rtl_rx_loop_off [of "rl_rx_off (fst w)" "rl_rx_buf (fst w)"] show ?thesis unfolding p by blast
qed

definition rtl_demo :: rtl where
  "rtl_demo = \<lparr>rl_ready = True, rl_io_base = 0xC000, rl_rx_buf = replicate 9708 0, rl_rx_off = 9706,
     rl_rx_addr = 0x01000000, rl_tx_bufs = replicate 4 (replicate 1792 0), rl_tx_addrs = replicate 4 0x01003000,
     rl_tx_idx = 0, rl_log = []\<rparr>"

lemma rtl_rx_offset_never_wraps_witness: "rtl_poll 1 (rtl_demo, stack_boot) = None"
  using rtl_rx_offset_never_wraps [of "(rtl_demo, stack_boot)" 1] by (simp add: rtl_demo_def)

text \<open>Transmission copies at least 60 bytes whatever the caller owns: for an ARP request, a
  frame of 42 bytes, it reads 18 bytes behind the caller's buffer; frames of 60 to 1792 bytes
  are copied exactly and the four buffers are used in turn.\<close>
lemma rtl_tx_short_frame_overread:
  assumes "rtl_ok d" "rl_ready d"
  shows "(length f < 60 \<longrightarrow> rtl_nic_tx f (int (length f)) d = None) \<and>
    (60 \<le> length f \<and> length f \<le> 1792 \<longrightarrow> (\<exists>d'. rtl_nic_tx f (int (length f)) d = Some d' \<and> rtl_ok d' \<and>
       take (length f) (rl_tx_bufs d' ! rl_tx_idx d) = f \<and> rl_tx_idx d' = (rl_tx_idx d + 1) mod 4))"
proof -
  have short: "rtl_nic_tx f (int (length f)) d = None" if "length f < 60"
    using assms that by (simp add: rtl_nic_tx_def rdn_def rtl_ok_def)
  have idx: "rl_tx_idx d' = (rl_tx_idx d + 1) mod 4" if "rtl_nic_tx f (int (length f)) d = Some d'" for d'
    using that assms(2) by (auto simp: rtl_nic_tx_def bind_Some_iff Let_def)
  show ?thesis
  proof (intro conjI impI, erule short)
    assume "60 \<le> length f \<and> length f \<le> 1792"
    then obtain d' where "rtl_nic_tx f (int (length f)) d = Some d'" "rtl_ok d'"
      "take (length f) (rl_tx_bufs d' ! rl_tx_idx d) = f"
      using rtl_nic_tx_ok [OF assms(1), of f] assms(2) by auto
    then show "\<exists>d'. rtl_nic_tx f (int (length f)) d = Some d' \<and> rtl_ok d' \<and>
       take (length f) (rl_tx_bufs d' ! rl_tx_idx d) = f \<and> rl_tx_idx d' = (rl_tx_idx d + 1) mod 4"
      using idx by (intro exI [of _ d'] conjI) simp_all
  qed
qed

lemma rtl_demo_ok: "rtl_ok rtl_demo" "rl_ready rtl_demo"
  by (simp_all add: rtl_ok_def rtl_demo_def)

lemma rtl_tx_short_frame_overread_witness:
  "rtl_nic_tx (replicate 42 0) (int (length (replicate 42 (0 :: u8)))) rtl_demo = None"
proof -
  have "length (replicate 42 (0 :: u8)) < 60" by simp
  then show ?thesis using rtl_tx_short_frame_overread [OF rtl_demo_ok, of "replicate 42 0"] by blast
qed

end
